(* ===== verification/Prelude.thy ===== *)
theory Prelude
  imports Main "HOL-Library.Word" "HOL-Library.Char_ord"
begin

text \<open>
  Shared vocabulary of the development: the machine types of the C++ sources, the
  characters the front end looks at, the decimal printer behind \<open>std::to_string\<close> and
  \<open>operator<<\<close>, the digit readers behind \<open>std::stoull\<close> and \<open>std::stoi\<close>, and the
  list and word lemmas several components use.
\<close>

unbundle bit_operations_syntax

subsection \<open>Machine types\<close>

type_synonym u8 = "8 word"
type_synonym u16 = "16 word"
type_synonym u32 = "32 word"
type_synonym u64 = "64 word"
type_synonym u128 = "128 word"

text \<open>
  \<open>static_cast<int>\<close> of a 64-bit unsigned value: the low 32 bits read as two's complement.
  A C++ \<open>int\<close> is an HOL \<open>int\<close>; only this cast can bring in a value that wrapped.
\<close>

definition int_of_u64 :: "u64 \<Rightarrow> int" where
  "int_of_u64 v = signed_take_bit 31 (uint v)"

subsection \<open>Lemma collections\<close>

text \<open>
  \<open>byte_simps\<close>: evaluation of byte-level definitions; \<open>mono_intros\<close>: facts of the form
  "this step only moves forward", used for termination and progress arguments;
  \<open>inv_intros\<close>: facts of the form "this step keeps the component's invariant".
\<close>

named_theorems byte_simps
named_theorems mono_intros
named_theorems inv_intros

subsection \<open>Characters\<close>

abbreviation chr_nul :: char where "chr_nul \<equiv> CHR 0x00"
abbreviation chr_tab :: char where "chr_tab \<equiv> CHR 0x09"
abbreviation chr_nl :: char where "chr_nl \<equiv> CHR 0x0A"
abbreviation chr_cr :: char where "chr_cr \<equiv> CHR 0x0D"
abbreviation chr_dq :: char where "chr_dq \<equiv> CHR 0x22"
abbreviation chr_sq :: char where "chr_sq \<equiv> CHR 0x27"
abbreviation chr_bslash :: char where "chr_bslash \<equiv> CHR 0x5C"

definition char_code :: "char \<Rightarrow> nat" where
  "char_code c = of_char c"

text \<open>The classification functions of \<open><cctype>\<close> in the C locale.\<close>

definition c_isdigit :: "char \<Rightarrow> bool" where
  "c_isdigit c \<longleftrightarrow> 48 \<le> char_code c \<and> char_code c \<le> 57"

definition c_isoctal :: "char \<Rightarrow> bool" where
  "c_isoctal c \<longleftrightarrow> 48 \<le> char_code c \<and> char_code c \<le> 55"

definition c_isupper :: "char \<Rightarrow> bool" where
  "c_isupper c \<longleftrightarrow> 65 \<le> char_code c \<and> char_code c \<le> 90"

definition c_islower :: "char \<Rightarrow> bool" where
  "c_islower c \<longleftrightarrow> 97 \<le> char_code c \<and> char_code c \<le> 122"

definition c_isalpha :: "char \<Rightarrow> bool" where
  "c_isalpha c \<longleftrightarrow> c_isupper c \<or> c_islower c"

definition c_isalnum :: "char \<Rightarrow> bool" where
  "c_isalnum c \<longleftrightarrow> c_isalpha c \<or> c_isdigit c"

definition c_isxdigit :: "char \<Rightarrow> bool" where
  "c_isxdigit c \<longleftrightarrow> c_isdigit c \<or> (97 \<le> char_code c \<and> char_code c \<le> 102)
     \<or> (65 \<le> char_code c \<and> char_code c \<le> 70)"

definition c_isspace :: "char \<Rightarrow> bool" where
  "c_isspace c \<longleftrightarrow> char_code c = 32 \<or> (9 \<le> char_code c \<and> char_code c \<le> 13)"

lemmas cctype_defs =
  c_isdigit_def c_isoctal_def c_isupper_def c_islower_def c_isalpha_def c_isalnum_def
  c_isxdigit_def c_isspace_def char_code_def

subsection \<open>Decimal printing and digit reading\<close>

definition digit_char :: "nat \<Rightarrow> char" where
  "digit_char d = (char_of (48 + d mod 10) :: char)"

fun nat_str :: "nat \<Rightarrow> string" where
  "nat_str n = (if n < 10 then [digit_char n] else nat_str (n div 10) @ [digit_char (n mod 10)])"

declare nat_str.simps [simp del]

definition int_str :: "int \<Rightarrow> string" where
  "int_str i = (if i < 0 then CHR ''-'' # nat_str (nat (- i)) else nat_str (nat i))"

text \<open>The value of one digit character in any base up to 16.\<close>

definition digit_val :: "char \<Rightarrow> nat" where
  "digit_val c =
     (if c_isdigit c then char_code c - 48
      else if c_islower c then char_code c - 87
      else char_code c - 55)"

fun digits_val :: "nat \<Rightarrow> nat \<Rightarrow> string \<Rightarrow> nat" where
  "digits_val base acc [] = acc"
| "digits_val base acc (c # cs) = digits_val base (acc * base + digit_val c) cs"

text \<open>
  \<open>std::stoull(s, nullptr, base)\<close> on a string that holds digits of the base only (what the
  lexer hands it): \<open>None\<close> for the exceptions \<open>invalid_argument\<close> (no digit) and
  \<open>out_of_range\<close> (more than 64 bits).
\<close>

definition stoull :: "nat \<Rightarrow> string \<Rightarrow> u64 option" where
  "stoull base s =
     (if s = [] then None
      else let v = digits_val base 0 s in if int v < 2 ^ 64 then Some (of_nat v) else None)"

text \<open>
  \<open>std::stoi(s)\<close> on a string of hexadecimal digits (the text of an integer token): it reads
  the longest decimal prefix.
\<close>

definition stoi :: "string \<Rightarrow> int option" where
  "stoi s =
     (let p = takeWhile c_isdigit s
      in if p = [] then None
         else let v = int (digits_val 10 0 p) in if v < 2 ^ 31 then Some v else None)"

lemma digit_char_code [simp]: "d < 10 \<Longrightarrow> char_code (digit_char d) = 48 + d"
  by (simp add: char_code_def digit_char_def)

lemma digit_char_isdigit [simp]: "d < 10 \<Longrightarrow> c_isdigit (digit_char d)"
  by (simp add: c_isdigit_def)

lemma digit_val_digit_char [simp]: "d < 10 \<Longrightarrow> digit_val (digit_char d) = d"
  by (simp add: digit_val_def)

lemma digits_val_append: "digits_val b acc (xs @ ys) = digits_val b (digits_val b acc xs) ys"
  by (induction xs arbitrary: acc) auto

lemma nat_str_nonempty [simp]: "nat_str n \<noteq> []"
  by (subst nat_str.simps) simp

lemma nat_str_digits: "c \<in> set (nat_str n) \<Longrightarrow> c_isdigit c"
proof (induction n rule: nat_str.induct)
  case (1 n)
  then show ?case
    by (cases "n < 10") (auto simp: nat_str.simps [of n])
qed

lemma digits_val_nat_str: "digits_val 10 0 (nat_str n) = n"
proof (induction n rule: nat_str.induct)
  case (1 n)
  show ?case
  proof (cases "n < 10")
    case True
    then show ?thesis by (simp add: nat_str.simps [of n])
  next
    case False
    with "1.IH" show ?thesis
      by (simp add: nat_str.simps [of n] digits_val_append)
  qed
qed

lemma stoull_nat_str: "n < 2 ^ 64 \<Longrightarrow> stoull 10 (nat_str n) = Some (of_nat n)"
  by (simp add: stoull_def digits_val_nat_str)

lemma stoi_nat_str: "n < 2 ^ 31 \<Longrightarrow> stoi (nat_str n) = Some (int n)"
proof -
  assume n: "n < 2 ^ 31"
  have "takeWhile c_isdigit (nat_str n) = nat_str n"
    using nat_str_digits by (simp only: takeWhile_eq_all_conv) blast
  with n show ?thesis
    unfolding stoi_def Let_def by (simp del: takeWhile_eq_all_conv add: digits_val_nat_str)
qed

lemma nat_str_inject: "nat_str m = nat_str n \<Longrightarrow> m = n"
  by (metis digits_val_nat_str)

text \<open>The first digit is \<open>0\<close> for zero only, so a printed number never reads as octal.\<close>

lemma nat_str_hd: "0 < n \<Longrightarrow> hd (nat_str n) \<noteq> CHR ''0''"
proof (induction n rule: nat_str.induct)
  case (1 n)
  show ?case
  proof (cases "n < 10")
    case True
    have "digit_char n \<noteq> CHR ''0''"
    proof
      assume "digit_char n = CHR ''0''"
      then have "char_code (digit_char n) = 48" by (simp add: char_code_def)
      with True "1.prems" show False by simp
    qed
    with True show ?thesis by (simp add: nat_str.simps [of n])
  next
    case False
    with "1.IH" have "hd (nat_str (n div 10)) \<noteq> CHR ''0''" by simp
    with False show ?thesis by (simp add: nat_str.simps [of n] hd_append)
  qed
qed

subsection \<open>Lists\<close>

lemma nth_drop_Cons: "i < length xs \<Longrightarrow> drop i xs = xs ! i # drop (Suc i) xs"
  by (rule Cons_nth_drop_Suc [symmetric])

lemma take_Suc_snoc: "i < length xs \<Longrightarrow> take (Suc i) xs = take i xs @ [xs ! i]"
  by (rule take_Suc_conv_app_nth)

text \<open>Numbering from a start.\<close>

lemma numbering_Suc: "map (\<lambda>i. (a::int) + int i) [0..<Suc n] = a # map (\<lambda>i. a + 1 + int i) [0..<n]"
  by (simp add: upt_conv_Cons map_Suc_upt [symmetric] del: upt_Suc)

text \<open>The substring \<open>s.substr(b, e - b)\<close>.\<close>

definition substr :: "nat \<Rightarrow> nat \<Rightarrow> 'a list \<Rightarrow> 'a list" where
  "substr b e s = take (e - b) (drop b s)"

lemma substr_self [simp]: "substr b b s = []"
  by (simp add: substr_def)

lemma length_substr [simp]: "e \<le> length s \<Longrightarrow> length (substr b e s) = e - b"
  by (simp add: substr_def)

lemma substr_append_mid: "length p = b \<Longrightarrow> substr b (b + length m) (p @ m @ t) = m"
  by (simp add: substr_def)

subsection \<open>Folds with a result\<close>

text \<open>A loop over a list whose body may not return.\<close>

primrec fold_opt :: "('a \<Rightarrow> 's \<Rightarrow> 's option) \<Rightarrow> 'a list \<Rightarrow> 's \<Rightarrow> 's option" where
  "fold_opt f [] s = Some s"
| "fold_opt f (x # xs) s = (case f x s of None \<Rightarrow> None | Some s' \<Rightarrow> fold_opt f xs s')"

lemma fold_opt_append:
  "fold_opt f (xs @ ys) s = (case fold_opt f xs s of None \<Rightarrow> None | Some s' \<Rightarrow> fold_opt f ys s')"
  by (induction xs arbitrary: s) (auto split: option.splits)

lemma fold_opt_invariant:
  assumes "\<And>x s s'. x \<in> set xs \<Longrightarrow> P s \<Longrightarrow> f x s = Some s' \<Longrightarrow> P s'"
  shows "P s \<Longrightarrow> fold_opt f xs s = Some s' \<Longrightarrow> P s'"
  using assms
proof (induction xs arbitrary: s)
  case Nil
  then show ?case by simp
next
  case (Cons x xs)
  then obtain s1 where s1: "f x s = Some s1" "fold_opt f xs s1 = Some s'"
    by (auto split: option.splits)
  have "P s1" by (rule Cons.prems(3) [OF _ Cons.prems(1) s1(1)]) simp
  from this s1(2) show ?case by (rule Cons.IH) (rule Cons.prems(3), simp_all)
qed

lemma fold_opt_total:
  "(\<And>x s. x \<in> set xs \<Longrightarrow> \<exists>s'. f x s = Some s') \<Longrightarrow> \<exists>s'. fold_opt f xs s = Some s'"
proof (induction xs arbitrary: s)
  case Nil
  then show ?case by simp
next
  case (Cons x xs)
  obtain s1 where "f x s = Some s1" using Cons.prems [of x s] by auto
  with Cons.IH [of s1] Cons.prems show ?case by simp
qed

text \<open>What each step of a fold only extends, the fold extends.\<close>

lemma fold_opt_rel:
  assumes "\<And>x s s'. x \<in> set xs \<Longrightarrow> f x s = Some s' \<Longrightarrow> R s s'"
    and "\<And>s. R s s" and "\<And>a b c. R a b \<Longrightarrow> R b c \<Longrightarrow> R a c"
  shows "fold_opt f xs s = Some s' \<Longrightarrow> R s s'"
  using assms(1)
proof (induction xs arbitrary: s)
  case Nil
  then show ?case using assms(2) by simp
next
  case (Cons x xs)
  then obtain s1 where s1: "f x s = Some s1" "fold_opt f xs s1 = Some s'"
    by (auto split: option.splits)
  have "R s s1" by (rule Cons.prems(2) [OF _ s1(1)]) simp
  moreover have "R s1 s'" by (rule Cons.IH [OF s1(2)]) (rule Cons.prems(2), simp_all)
  ultimately show ?case by (rule assms(3))
qed

lemma fold_rel:
  assumes "\<And>x s. x \<in> set xs \<Longrightarrow> R s (f x s)"
    and "\<And>s. R s s" and "\<And>a b c. R a b \<Longrightarrow> R b c \<Longrightarrow> R a c"
  shows "R s (fold f xs s)"
  using assms(1)
proof (induction xs arbitrary: s)
  case Nil
  then show ?case using assms(2) by simp
next
  case (Cons x xs)
  have "R s (f x s)" by (rule Cons.prems) simp
  moreover have "R (f x s) (fold f xs (f x s))" by (rule Cons.IH) (rule Cons.prems, simp)
  ultimately show ?case using assms(3) by simp
qed

lemma fold_invariant':
  "(\<And>x s. x \<in> set xs \<Longrightarrow> P s \<Longrightarrow> P (f x s)) \<Longrightarrow> P s \<Longrightarrow> P (fold f xs s)"
  by (induction xs arbitrary: s) auto

end
