(* ===== verification/SourceText.thy ===== *)
theory SourceText
  imports Prelude
begin

text \<open>
  Source buffers and locations (\<open>compiler/include/openclicknp/source.hpp\<close>,
  \<open>compiler/src/source.cpp\<close>): the table of line starts, the text of a line, the binary search
  from a byte offset to a line and column, the buffer list of the source manager and the search
  for an imported file. The main result is that the binary search computes the line and column
  that counting newlines gives (\<open>lineColOf_spec\<close>).
\<close>

subsection \<open>Locations\<close>

record source_loc =
  loc_file :: u32
  loc_line :: u32
  loc_column :: u32
  loc_offset :: u32

record source_range =
  rng_begin :: source_loc
  rng_end :: source_loc

definition loc_default :: source_loc where
  "loc_default = \<lparr>loc_file = 0, loc_line = 0, loc_column = 0, loc_offset = 0\<rparr>"

definition range_default :: source_range where
  "range_default = \<lparr>rng_begin = loc_default, rng_end = loc_default\<rparr>"

abbreviation mk_range :: "source_loc \<Rightarrow> source_loc \<Rightarrow> source_range" where
  "mk_range a b \<equiv> \<lparr>rng_begin = a, rng_end = b\<rparr>"

subsection \<open>Source buffers\<close>

record source_buffer =
  sb_path :: string
  sb_contents :: string
  sb_line_starts :: "u32 list"

text \<open>The loop of the constructor: one entry after every newline.\<close>

fun line_starts_from :: "nat \<Rightarrow> string \<Rightarrow> u32 list" where
  "line_starts_from i [] = []"
| "line_starts_from i (c # cs) =
     (if c = chr_nl then of_nat (i + 1) # line_starts_from (Suc i) cs
      else line_starts_from (Suc i) cs)"

definition SourceBuffer :: "string \<Rightarrow> string \<Rightarrow> source_buffer" where
  "SourceBuffer path contents =
     \<lparr>sb_path = path, sb_contents = contents, sb_line_starts = 0 # line_starts_from 0 contents\<rparr>"

text \<open>The loop of \<open>lineText\<close> that drops carriage returns before the end of the line.\<close>

fun trim_cr :: "string \<Rightarrow> nat \<Rightarrow> nat \<Rightarrow> nat" where
  "trim_cr s b 0 = 0"
| "trim_cr s b (Suc e) = (if b < Suc e \<and> s ! e = chr_cr then trim_cr s b e else Suc e)"

definition lineText :: "source_buffer \<Rightarrow> u32 \<Rightarrow> string" where
  "lineText buf line =
     (let ls = sb_line_starts buf; n = unat line in
      if line = 0 \<or> length ls < n then []
      else
        let b = unat (ls ! (n - 1));
            e = (if n < length ls then unat (ls ! n - 1)
                 else unat (of_nat (length (sb_contents buf)) :: u32))
        in substr b (trim_cr (sb_contents buf) b e) (sb_contents buf))"

function line_search :: "u32 list \<Rightarrow> u32 \<Rightarrow> nat \<Rightarrow> nat \<Rightarrow> nat" where
  "line_search ls off lo hi =
     (if lo + 1 < hi then
        (let mid = (lo + hi) div 2
         in if ls ! mid \<le> off then line_search ls off mid hi else line_search ls off lo mid)
      else lo)"
  by pat_completeness auto
termination
  by (relation "measure (\<lambda>(ls, off, lo, hi). hi - lo)") auto

declare line_search.simps [simp del]

definition lineColOf :: "source_buffer \<Rightarrow> u32 \<Rightarrow> u32 \<times> u32" where
  "lineColOf buf off =
     (let ls = sb_line_starts buf; lo = line_search ls off 0 (length ls)
      in (of_nat (lo + 1), off - ls ! lo + 1))"

subsection \<open>What a line and a column are\<close>

text \<open>
  The reference definition: the line of an offset is one more than the newlines before it, the
  column one more than the characters since the last of them.
\<close>

definition line_at :: "string \<Rightarrow> nat \<Rightarrow> nat" where
  "line_at s off = 1 + count_list (take off s) chr_nl"

definition col_at :: "string \<Rightarrow> nat \<Rightarrow> nat" where
  "col_at s off = 1 + length (takeWhile (\<lambda>c. c \<noteq> chr_nl) (rev (take off s)))"

text \<open>The line starts as natural numbers, before the cast to 32 bits.\<close>

fun nl_starts :: "nat \<Rightarrow> string \<Rightarrow> nat list" where
  "nl_starts i [] = []"
| "nl_starts i (c # cs) = (if c = chr_nl then Suc i # nl_starts (Suc i) cs else nl_starts (Suc i) cs)"

lemma line_starts_from_eq: "line_starts_from i s = map of_nat (nl_starts i s)"
  by (induction s arbitrary: i) auto

lemma nl_starts_bounds: "x \<in> set (nl_starts i s) \<Longrightarrow> i < x \<and> x \<le> i + length s"
  by (induction s arbitrary: i) (fastforce split: if_splits)+

lemma sorted_nl_starts: "sorted (nl_starts i s)"
  by (induction s arbitrary: i) (auto dest: nl_starts_bounds)

lemma length_nl_starts: "length (nl_starts i s) = count_list s chr_nl"
  by (induction s arbitrary: i) auto

lemma nl_starts_append: "nl_starts i (xs @ ys) = nl_starts i xs @ nl_starts (i + length xs) ys"
  by (induction xs arbitrary: i) auto

text \<open>The entries at or before an offset are those of the text before it.\<close>

lemma nl_starts_filter: "filter (\<lambda>x. x \<le> i + off) (nl_starts i s) = nl_starts i (take off s)"
proof -
  have 1: "filter (\<lambda>x. x \<le> j) (nl_starts k t) = []" if "j \<le> k" for j k t
    using that by (induction t arbitrary: k) auto
  have 2: "filter (\<lambda>x. x \<le> j) (nl_starts k t) = nl_starts k t" if "k + length t \<le> j" for j k t
    using that by (induction t arbitrary: k) auto
  show ?thesis
  proof (cases "off \<le> length s")
    case True
    have "nl_starts i s = nl_starts i (take off s) @ nl_starts (i + off) (drop off s)"
      using nl_starts_append [of i "take off s" "drop off s"] True by simp
    with True show ?thesis by (simp add: 1 2)
  next
    case False
    then show ?thesis by (simp add: 2)
  qed
qed

text \<open>The entry just before an offset is the offset less the characters since the last newline.\<close>

lemma nl_starts_last:
  "last (i # nl_starts i t) = i + length t - length (takeWhile (\<lambda>c. c \<noteq> chr_nl) (rev t))"
proof (induction t rule: rev_induct)
  case Nil
  then show ?case by simp
next
  case (snoc c t)
  have "length (takeWhile (\<lambda>c. c \<noteq> chr_nl) (rev t)) \<le> length t"
    by (rule order.trans [OF length_takeWhile_le]) simp
  with snoc show ?case by (auto simp: nl_starts_append split: if_splits)
qed

subsection \<open>The binary search\<close>

text \<open>
  On a sorted table whose first entry is at or before the offset, the search stops at the last
  index whose entry is at or before the offset.
\<close>

lemma line_search_spec:
  assumes "sorted ls" and "lo < hi" and "hi \<le> length ls" and "ls ! lo \<le> off"
    and "\<forall>j. hi \<le> j \<and> j < length ls \<longrightarrow> off < ls ! j"
  shows "line_search ls off lo hi < length ls \<and> ls ! line_search ls off lo hi \<le> off
    \<and> (\<forall>j. line_search ls off lo hi < j \<and> j < length ls \<longrightarrow> off < ls ! j)"
  using assms
proof (induction ls off lo hi rule: line_search.induct)
  case (1 ls off lo hi)
  show ?case
  proof (cases "lo + 1 < hi")
    case True
    define mid where "mid = (lo + hi) div 2"
    have mid: "lo < mid" "mid < hi" using True by (auto simp: mid_def)
    show ?thesis
    proof (cases "ls ! mid \<le> off")
      case le: True
      have "line_search ls off lo hi = line_search ls off mid hi"
        using True le by (simp add: line_search.simps [of ls off lo] mid_def Let_def)
      with "1.IH"(1) [OF True mid_def le] "1.prems" mid le show ?thesis by simp
    next
      case gt: False
      have up: "\<forall>j. mid \<le> j \<and> j < length ls \<longrightarrow> off < ls ! j"
      proof (intro allI impI)
        fix j
        assume j: "mid \<le> j \<and> j < length ls"
        then have "ls ! mid \<le> ls ! j" using "1.prems"(1) by (simp add: sorted_nth_mono)
        with gt show "off < ls ! j" by simp
      qed
      have "line_search ls off lo hi = line_search ls off lo mid"
        using True gt by (simp add: line_search.simps [of ls off lo] mid_def Let_def)
      with "1.IH"(2) [OF True mid_def gt] "1.prems" mid up show ?thesis by simp
    qed
  next
    case False
    then have "hi = Suc lo" using "1.prems" by simp
    with False "1.prems" show ?thesis by (auto simp: line_search.simps [of ls off lo])
  qed
qed

text \<open>The last index at or before the offset is the number of later entries at or before it.\<close>

lemma last_le_index:
  assumes "sorted (x # xs)" and "k < length (x # xs)" and "(x # xs) ! k \<le> (off::nat)"
    and "\<forall>j. k < j \<and> j < length (x # xs) \<longrightarrow> off < (x # xs) ! j"
  shows "k = length (filter (\<lambda>y. y \<le> off) xs)
    \<and> (x # xs) ! k = last (x # filter (\<lambda>y. y \<le> off) xs)"
  using assms
proof (induction xs arbitrary: x k)
  case Nil
  then show ?case by simp
next
  case (Cons y ys)
  show ?case
  proof (cases k)
    case 0
    then have "off < y" using Cons.prems(4) by auto
    moreover from this have "filter (\<lambda>z. z \<le> off) ys = []"
      using Cons.prems(1) by (auto simp: filter_empty_conv)
    ultimately show ?thesis using 0 by simp
  next
    case (Suc m)
    have le: "y \<le> off"
    proof -
      have "y \<le> (y # ys) ! m"
        using Cons.prems(1,2) Suc by (cases m) auto
      with Cons.prems(3) Suc show ?thesis by simp
    qed
    have up: "\<forall>j. m < j \<and> j < length (y # ys) \<longrightarrow> off < (y # ys) ! j"
    proof (intro allI impI)
      fix j assume "m < j \<and> j < length (y # ys)"
      then show "off < (y # ys) ! j"
        using Cons.prems(4) Suc by (metis Suc_less_eq length_Cons nth_Cons_Suc)
    qed
    have "m = length (filter (\<lambda>z. z \<le> off) ys) \<and> (y # ys) ! m = last (y # filter (\<lambda>z. z \<le> off) ys)"
      using Cons.prems Suc up by (intro Cons.IH) auto
    moreover have "last (x # filter (\<lambda>z. z \<le> off) (y # ys)) = last (y # filter (\<lambda>z. z \<le> off) ys)"
      using le by simp
    ultimately show ?thesis using Suc le by (elim conjE) (simp del: last.simps)
  qed
qed

lemma of_nat_le_u32: "a < 2 ^ 32 \<Longrightarrow> b < 2 ^ 32 \<Longrightarrow> (of_nat a :: u32) \<le> of_nat b \<longleftrightarrow> a \<le> b"
  by (simp add: word_le_nat_alt unat_of_nat take_bit_nat_eq_self)

lemma of_nat_less_u32: "a < 2 ^ 32 \<Longrightarrow> b < 2 ^ 32 \<Longrightarrow> (of_nat a :: u32) < of_nat b \<longleftrightarrow> a < b"
  by (simp add: word_less_nat_alt unat_of_nat take_bit_nat_eq_self)

text \<open>The table of a buffer below 4 GiB is sorted as 32-bit words, and each entry keeps its value.\<close>

lemma line_starts_from_bound:
  "length s < 2 ^ 32 \<Longrightarrow> x \<in> set (nl_starts 0 s) \<Longrightarrow> x < 2 ^ 32"
  using nl_starts_bounds [of x 0 s] by linarith

text \<open>On a buffer below 4 GiB the search may as well run on the natural numbers.\<close>

definition loc_spec :: "string \<Rightarrow> nat \<Rightarrow> u32 \<times> u32" where
  "loc_spec s off = (of_nat (line_at s off), of_nat (col_at s off))"

lemma lineColOf_eq_loc_spec:
  assumes len: "length s < 2 ^ 32" and off: "off \<le> length s"
  shows "lineColOf (SourceBuffer p s) (of_nat off) = loc_spec s off"
proof -
  define ns where "ns = 0 # nl_starts 0 s"
  define ls :: "u32 list" where "ls = map of_nat ns"
  define k where "k = line_search ls (of_nat off) 0 (length ls)"
  have small: "\<forall>x\<in>set ns. x < 2 ^ 32"
    using line_starts_from_bound [OF len] by (auto simp: ns_def)
  have o32: "off < 2 ^ 32" using len off by simp
  have ns0: "ns ! 0 = 0" "ns \<noteq> []" by (simp_all add: ns_def)
  have srt: "sorted ns" by (auto simp: ns_def sorted_nl_starts)
  have nth_ls: "ls ! j = of_nat (ns ! j)" if "j < length ns" for j
    using that by (simp add: ls_def)
  have len_ls: "length ls = length ns" by (simp add: ls_def)
  have srt32: "sorted ls"
  proof (rule sorted_iff_nth_mono [THEN iffD2], intro allI impI)
    fix i j assume ij: "i \<le> j" "j < length ls"
    then have "ns ! i \<le> ns ! j" using srt by (simp add: sorted_nth_mono len_ls)
    then show "ls ! i \<le> ls ! j"
      using ij small by (simp add: nth_ls len_ls of_nat_le_u32)
  qed
  have spec: "k < length ls \<and> ls ! k \<le> of_nat off \<and> (\<forall>j. k < j \<and> j < length ls \<longrightarrow> of_nat off < ls ! j)"
    unfolding k_def
    by (rule line_search_spec [OF srt32]) (use ns0 in \<open>auto simp: nth_ls len_ls\<close>)
  have kn: "k < length ns" "ns ! k \<le> off" using spec small o32 by (auto simp: nth_ls len_ls of_nat_le_u32)
  have up: "\<forall>j. k < j \<and> j < length ns \<longrightarrow> off < ns ! j"
    using spec small o32 by (auto simp: nth_ls len_ls of_nat_less_u32)
  have f: "filter (\<lambda>y. y \<le> off) (nl_starts 0 s) = nl_starts 0 (take off s)"
    using nl_starts_filter [of 0 off s] by simp
  have k_eq: "k = length (nl_starts 0 (take off s))"
    and nk: "ns ! k = last (0 # nl_starts 0 (take off s))"
    using last_le_index [of 0 "nl_starts 0 s" k off] srt kn up f unfolding ns_def by auto
  have tw: "length (takeWhile (\<lambda>c. c \<noteq> chr_nl) (rev (take off s))) \<le> off"
    using length_takeWhile_le [of "\<lambda>c. c \<noteq> chr_nl" "rev (take off s)"] by simp
  have "ns ! k = off - length (takeWhile (\<lambda>c. c \<noteq> chr_nl) (rev (take off s)))"
    using nk nl_starts_last [of 0 "take off s"] off by simp
  then have col: "of_nat off - of_nat (ns ! k) + 1 = (of_nat (col_at s off) :: u32)"
    using tw by (simp add: col_at_def of_nat_diff)
  have "lineColOf (SourceBuffer p s) (of_nat off) = (of_nat (k + 1), of_nat off - ls ! k + 1)"
    by (simp add: lineColOf_def SourceBuffer_def line_starts_from_eq k_def ls_def ns_def Let_def)
  also have "\<dots> = loc_spec s off"
    using col kn k_eq by (simp add: loc_spec_def line_at_def length_nl_starts nth_ls)
  finally show ?thesis .
qed

subsection \<open>The source manager\<close>

record source_manager =
  sm_buffers :: "source_buffer list"
  sm_import_dirs :: "string list"

definition sm_empty :: source_manager where
  "sm_empty = \<lparr>sm_buffers = [], sm_import_dirs = []\<rparr>"

definition addBuffer :: "string \<Rightarrow> string \<Rightarrow> source_manager \<Rightarrow> u32 \<times> source_manager" where
  "addBuffer path contents sm =
     (let bs = sm_buffers sm @ [SourceBuffer path contents]
      in (of_nat (length bs - 1), sm\<lparr>sm_buffers := bs\<rparr>))"

text \<open>\<open>None\<close> is the \<open>std::out_of_range\<close> that \<open>SourceManager::buffer\<close> throws.\<close>

definition sm_buffer :: "source_manager \<Rightarrow> u32 \<Rightarrow> source_buffer option" where
  "sm_buffer sm fid =
     (if length (sm_buffers sm) \<le> unat fid then None else Some (sm_buffers sm ! unat fid))"

definition addImportDir :: "string \<Rightarrow> source_manager \<Rightarrow> source_manager" where
  "addImportDir d sm = sm\<lparr>sm_import_dirs := sm_import_dirs sm @ [d]\<rparr>"

text \<open>
  What the sources use of \<open>std::filesystem\<close>. The lexical operations are those of POSIX paths;
  what is on the disk is a parameter of the model: which paths exist, what reading one gives
  (\<open>None\<close> when it cannot be opened), and the canonical form of a path (\<open>None\<close> for an exception).
\<close>

record file_system =
  fs_exists :: "string \<Rightarrow> bool"
  fs_read :: "string \<Rightarrow> string option"
  fs_weakly_canonical :: "string \<Rightarrow> string option"

definition path_is_absolute :: "string \<Rightarrow> bool" where
  "path_is_absolute p = (case p of [] \<Rightarrow> False | c # _ \<Rightarrow> c = CHR ''/'')"

definition path_append :: "string \<Rightarrow> string \<Rightarrow> string" where
  "path_append a b =
     (if path_is_absolute b then b
      else if a = [] \<or> last a = CHR ''/'' then a @ b
      else a @ ''/'' @ b)"

definition path_parent :: "string \<Rightarrow> string" where
  "path_parent p =
     (let dir = rev (dropWhile (\<lambda>c. c \<noteq> CHR ''/'') (rev p));
          d = rev (dropWhile (\<lambda>c. c = CHR ''/'') (rev dir))
      in if d = [] \<and> path_is_absolute p then ''/'' else d)"

text \<open>The search of \<open>resolveImport\<close> through the import directories.\<close>

fun search_dirs :: "file_system \<Rightarrow> string \<Rightarrow> string list \<Rightarrow> string option" where
  "search_dirs fs target [] = None"
| "search_dirs fs target (d # ds) =
     (if fs_exists fs (path_append d target) then Some (path_append d target)
      else search_dirs fs target ds)"

definition resolveImport ::
  "file_system \<Rightarrow> source_manager \<Rightarrow> string \<Rightarrow> string \<Rightarrow> string" where
  "resolveImport fs sm referer target =
     (let rel = path_append (path_parent referer) target in
      if target = [] then target
      else if path_is_absolute target \<and> fs_exists fs target then target
      else if referer \<noteq> [] \<and> fs_exists fs rel then rel
      else case search_dirs fs target (sm_import_dirs sm) of
             Some p \<Rightarrow> p
           | None \<Rightarrow> target)"

lemma search_dirs_Some:
  "search_dirs fs t ds = Some p \<Longrightarrow> fs_exists fs p \<and> (\<exists>d\<in>set ds. p = path_append d t)"
  by (induction ds) (auto split: if_splits)

lemma search_dirs_None:
  "search_dirs fs t ds = None \<longleftrightarrow> (\<forall>d\<in>set ds. \<not> fs_exists fs (path_append d t))"
  by (induction ds) auto

lemma sm_buffer_addBuffer:
  assumes "addBuffer p c sm = (fid, sm')" and "length (sm_buffers sm) < 2 ^ 32"
  shows "sm_buffer sm' fid = Some (SourceBuffer p c)"
  using assms by (auto simp: addBuffer_def sm_buffer_def Let_def unat_of_nat take_bit_nat_eq_self)

end
