(* ===== verification/Diagnostics.thy ===== *)
theory Diagnostics
  imports SourceText
begin

text \<open>
  The diagnostic engine (\<open>compiler/include/openclicknp/diagnostic.hpp\<close>,
  \<open>compiler/src/diagnostic.cpp\<close>): the list of diagnostics in the order they were emitted, the two
  32-bit counters, and the text that \<open>render\<close> writes. The invariant \<open>de_ok\<close> ties the counters
  to the list.
\<close>

datatype severity = Sev_Note | Sev_Warning | Sev_Error

datatype diagnostic =
  Diagnostic (d_severity: severity) (d_message: string) (d_range: source_range)
    (d_notes: "diagnostic list")

record diag_engine =
  de_diags :: "diagnostic list"
  de_error_count :: u32
  de_warning_count :: u32

definition diag_empty :: diag_engine where
  "diag_empty = \<lparr>de_diags = [], de_error_count = 0, de_warning_count = 0\<rparr>"

definition diag_emit :: "diagnostic \<Rightarrow> diag_engine \<Rightarrow> diag_engine" where
  "diag_emit d e =
     e\<lparr>de_error_count := (if d_severity d = Sev_Error then de_error_count e + 1 else de_error_count e),
       de_warning_count :=
         (if d_severity d = Sev_Warning then de_warning_count e + 1 else de_warning_count e),
       de_diags := de_diags e @ [d]\<rparr>"

definition diag_warn :: "source_range \<Rightarrow> string \<Rightarrow> diag_engine \<Rightarrow> diag_engine" where
  "diag_warn r msg = diag_emit (Diagnostic Sev_Warning msg r [])"

definition diag_error :: "source_range \<Rightarrow> string \<Rightarrow> diag_engine \<Rightarrow> diag_engine" where
  "diag_error r msg = diag_emit (Diagnostic Sev_Error msg r [])"

definition diag_note :: "source_range \<Rightarrow> string \<Rightarrow> diag_engine \<Rightarrow> diag_engine" where
  "diag_note r msg = diag_emit (Diagnostic Sev_Note msg r [])"

definition hasError :: "diag_engine \<Rightarrow> bool" where
  "hasError e \<longleftrightarrow> 0 < de_error_count e"

subsection \<open>Rendering\<close>

fun sevName :: "severity \<Rightarrow> string" where
  "sevName Sev_Note = ''note''"
| "sevName Sev_Warning = ''warning''"
| "sevName Sev_Error = ''error''"

fun sevColor :: "severity \<Rightarrow> string" where
  "sevColor Sev_Note = CHR 0x1B # ''[1;36m''"
| "sevColor Sev_Warning = CHR 0x1B # ''[1;33m''"
| "sevColor Sev_Error = CHR 0x1B # ''[1;31m''"

definition kReset :: string where "kReset = CHR 0x1B # ''[0m''"
definition kBold :: string where "kBold = CHR 0x1B # ''[1m''"

text \<open>The width of the underline: the range when it stays on one line, one column otherwise.\<close>

definition caret_span :: "source_range \<Rightarrow> u32" where
  "caret_span r =
     (if loc_line (rng_end r) = loc_line (rng_begin r)
         \<and> loc_column (rng_begin r) < loc_column (rng_end r)
      then loc_column (rng_end r) - loc_column (rng_begin r) else 1)"

definition render_caret :: "source_buffer \<Rightarrow> severity \<Rightarrow> source_range \<Rightarrow> string" where
  "render_caret buf sev r =
     (let line = lineText buf (loc_line (rng_begin r)) in
      if line = [] then []
      else ''  '' @ line @ [chr_nl] @ ''  ''
        @ replicate (unat (loc_column (rng_begin r)) - 1) (CHR '' '')
        @ sevColor sev @ ''^'' @ replicate (unat (caret_span r) - 1) (CHR ''~'')
        @ kReset @ [chr_nl])"

text \<open>\<open>None\<close> is the exception of \<open>SourceManager::buffer\<close> on an unknown file id.\<close>

fun renderOne :: "source_manager \<Rightarrow> diagnostic \<Rightarrow> string option"
  and renderNotes :: "source_manager \<Rightarrow> diagnostic list \<Rightarrow> string option" where
  "renderOne sm (Diagnostic sev msg r notes) =
     (case sm_buffer sm (loc_file (rng_begin r)) of
        None \<Rightarrow> None
      | Some buf \<Rightarrow>
          (case renderNotes sm notes of
             None \<Rightarrow> None
           | Some ns \<Rightarrow>
               Some (kBold @ sb_path buf @ '':'' @ nat_str (unat (loc_line (rng_begin r))) @ '':''
                 @ nat_str (unat (loc_column (rng_begin r))) @ '': '' @ sevColor sev @ sevName sev
                 @ '':'' @ kReset @ '' '' @ msg @ [chr_nl] @ render_caret buf sev r @ ns)))"
| "renderNotes sm [] = Some []"
| "renderNotes sm (d # ds) =
     (case renderOne sm d of
        None \<Rightarrow> None
      | Some s \<Rightarrow> (case renderNotes sm ds of None \<Rightarrow> None | Some t \<Rightarrow> Some (s @ t)))"

definition render :: "source_manager \<Rightarrow> diag_engine \<Rightarrow> string option" where
  "render sm e =
     (case renderNotes sm (de_diags e) of
        None \<Rightarrow> None
      | Some s \<Rightarrow>
          Some (s @ (if 0 < de_error_count e \<or> 0 < de_warning_count e
                     then nat_str (unat (de_error_count e)) @ '' error(s), ''
                       @ nat_str (unat (de_warning_count e)) @ '' warning(s)'' @ [chr_nl]
                     else [])))"

subsection \<open>The counters\<close>

definition errors_of :: "diagnostic list \<Rightarrow> diagnostic list" where
  "errors_of ds = filter (\<lambda>d. d_severity d = Sev_Error) ds"

definition warnings_of :: "diagnostic list \<Rightarrow> diagnostic list" where
  "warnings_of ds = filter (\<lambda>d. d_severity d = Sev_Warning) ds"

definition de_ok :: "diag_engine \<Rightarrow> bool" where
  "de_ok e \<longleftrightarrow> de_error_count e = of_nat (length (errors_of (de_diags e)))
     \<and> de_warning_count e = of_nat (length (warnings_of (de_diags e)))"

lemma de_ok_empty [simp, inv_intros]: "de_ok diag_empty"
  by (simp add: de_ok_def diag_empty_def errors_of_def warnings_of_def)

lemma de_diags_empty [simp]: "de_diags diag_empty = []"
  by (simp add: diag_empty_def)

lemma de_ok_emit [inv_intros]: "de_ok e \<Longrightarrow> de_ok (diag_emit d e)"
  by (auto simp: de_ok_def diag_emit_def errors_of_def warnings_of_def)

lemma de_ok_error [inv_intros]: "de_ok e \<Longrightarrow> de_ok (diag_error r m e)"
  and de_ok_warn [inv_intros]: "de_ok e \<Longrightarrow> de_ok (diag_warn r m e)"
  and de_ok_note [inv_intros]: "de_ok e \<Longrightarrow> de_ok (diag_note r m e)"
  by (simp_all add: diag_error_def diag_warn_def diag_note_def de_ok_emit)

lemma diags_diag_error [simp]:
  "de_diags (diag_error r m e) = de_diags e @ [Diagnostic Sev_Error m r []]"
  and diags_diag_warn [simp]:
  "de_diags (diag_warn r m e) = de_diags e @ [Diagnostic Sev_Warning m r []]"
  and diags_diag_note [simp]:
  "de_diags (diag_note r m e) = de_diags e @ [Diagnostic Sev_Note m r []]"
  by (simp_all add: diag_error_def diag_warn_def diag_note_def diag_emit_def)

lemma errors_of_append [simp]: "errors_of (xs @ ys) = errors_of xs @ errors_of ys"
  by (simp add: errors_of_def)

lemma errors_of_single [simp]:
  "errors_of [Diagnostic sev m r ns] = (if sev = Sev_Error then [Diagnostic sev m r ns] else [])"
  by (simp add: errors_of_def)

lemma errors_of_Nil [simp]: "errors_of [] = []"
  by (simp add: errors_of_def)

text \<open>
  With fewer than \<open>2\<^sup>3\<^sup>2\<close> diagnostics the 32-bit counter cannot have wrapped, so
  \<open>hasError\<close> is exactly "some diagnostic is an error".
\<close>

lemma hasError_iff:
  assumes "de_ok e" and "length (de_diags e) < 2 ^ 32"
  shows "hasError e \<longleftrightarrow> errors_of (de_diags e) \<noteq> []"
proof -
  have "length (errors_of (de_diags e)) < 2 ^ 32"
    using assms(2) unfolding errors_of_def by (rule le_less_trans [OF length_filter_le])
  then have "unat (de_error_count e) = length (errors_of (de_diags e))"
    using assms(1) by (simp add: de_ok_def unat_of_nat take_bit_nat_eq_self)
  then show ?thesis
    by (auto simp: hasError_def word_less_nat_alt)
qed

text \<open>Every step of the compiler only appends diagnostics.\<close>

definition diag_extends :: "diag_engine \<Rightarrow> diag_engine \<Rightarrow> bool" where
  "diag_extends e e' \<longleftrightarrow> (\<exists>ds. de_diags e' = de_diags e @ ds)"

lemma diag_extends_refl [simp, mono_intros]: "diag_extends e e"
  by (simp add: diag_extends_def)

lemma diag_extends_trans [trans]: "diag_extends a b \<Longrightarrow> diag_extends b c \<Longrightarrow> diag_extends a c"
  by (auto simp: diag_extends_def)

lemma diag_extends_emit [simp, mono_intros]: "diag_extends e (diag_emit d e)"
  by (simp add: diag_extends_def diag_emit_def)

lemma diag_extends_error [simp, mono_intros]: "diag_extends e (diag_error r m e)"
  and diag_extends_warn [simp, mono_intros]: "diag_extends e (diag_warn r m e)"
  and diag_extends_note [simp, mono_intros]: "diag_extends e (diag_note r m e)"
  by (simp_all add: diag_error_def diag_warn_def diag_note_def)

lemma diag_extends_errors:
  "diag_extends e e' \<Longrightarrow> errors_of (de_diags e) \<noteq> [] \<Longrightarrow> errors_of (de_diags e') \<noteq> []"
  by (auto simp: diag_extends_def)

text \<open>The two facts every pass keeps, as one relation between engines.\<close>

definition de_step :: "diag_engine \<Rightarrow> diag_engine \<Rightarrow> bool" where
  "de_step e e' \<longleftrightarrow> diag_extends e e' \<and> (de_ok e \<longrightarrow> de_ok e')"

lemma de_step_refl [simp]: "de_step e e"
  by (simp add: de_step_def)

lemma de_step_trans [trans]: "de_step a b \<Longrightarrow> de_step b c \<Longrightarrow> de_step a c"
  unfolding de_step_def using diag_extends_trans by blast

lemma de_step_emit:
  shows de_step_error: "de_step e (diag_error r m e)"
    and de_step_warn: "de_step e (diag_warn r m e)"
    and de_step_note: "de_step e (diag_note r m e)"
  by (simp_all add: de_step_def de_ok_error de_ok_warn de_ok_note)

lemma de_step_error_after: "de_step a b \<Longrightarrow> de_step a (diag_error r m b)"
  by (erule de_step_trans) (rule de_step_error)

lemma de_step_clean:
  "de_step a b \<Longrightarrow> errors_of (de_diags b) = [] \<Longrightarrow> errors_of (de_diags a) = []"
  using diag_extends_errors unfolding de_step_def by blast

lemma de_step_fold: "(\<And>x e. x \<in> set xs \<Longrightarrow> de_step e (f x e)) \<Longrightarrow> de_step e (fold f xs e)"
  by (rule fold_rel) (auto intro: de_step_trans)

end
