(* ===== verification/Lexer.thy ===== *)
theory Lexer
  imports Diagnostics
begin

text \<open>
  The lexer (\<open>compiler/include/openclicknp/lexer.hpp\<close>, \<open>compiler/src/lex/lexer.cpp\<close>): the token
  kinds, the state (position, line, column over an immutable buffer) and one definition per member
  function. A member function that reports errors takes and returns the diagnostic engine. All
  movement goes through \<open>advance\<close> except \<open>seekTo\<close>, which is why the facts about \<open>moves\<close> below
  carry over to every scanning routine.
\<close>

subsection \<open>Tokens\<close>

datatype tok =
    Tok_Eof | Tok_Error
  | Tok_LBrace | Tok_RBrace | Tok_LParen | Tok_RParen | Tok_LBracket | Tok_RBracket
  | Tok_LAngle | Tok_RAngle | Tok_Comma | Tok_Semicolon | Tok_Colon | Tok_DoubleColon
  | Tok_Star | Tok_Dash | Tok_Equals | Tok_Dollar | Tok_At | Tok_Amp | Tok_Arrow | Tok_FatArrow
  | Tok_KwImport | Tok_KwElement | Tok_KwElementGroup | Tok_KwState | Tok_KwInit | Tok_KwHandler
  | Tok_KwSignal | Tok_KwTiming | Tok_KwHlsPragma | Tok_KwRepeat | Tok_KwBreak | Tok_KwConstexpr
  | Tok_KwHost | Tok_KwVerilog | Tok_KwPortAny
  | Tok_Ident | Tok_Integer | Tok_StringLit | Tok_OpaqueCpp

fun tokName :: "tok \<Rightarrow> string" where
  "tokName Tok_Eof = ''<eof>''"
| "tokName Tok_Error = ''<error>''"
| "tokName Tok_LBrace = ''{''"
| "tokName Tok_RBrace = ''}''"
| "tokName Tok_LParen = ''(''"
| "tokName Tok_RParen = '')''"
| "tokName Tok_LBracket = ''[''"
| "tokName Tok_RBracket = '']''"
| "tokName Tok_LAngle = ''<''"
| "tokName Tok_RAngle = ''>''"
| "tokName Tok_Comma = '',''"
| "tokName Tok_Semicolon = '';''"
| "tokName Tok_Colon = '':''"
| "tokName Tok_DoubleColon = ''::''"
| "tokName Tok_Star = ''*''"
| "tokName Tok_Dash = ''-''"
| "tokName Tok_Equals = ''=''"
| "tokName Tok_Dollar = ''$''"
| "tokName Tok_At = [CHR 0x40]"
| "tokName Tok_Amp = ''&''"
| "tokName Tok_Arrow = ''->''"
| "tokName Tok_FatArrow = ''=>''"
| "tokName Tok_KwImport = ''import''"
| "tokName Tok_KwElement = ''.element''"
| "tokName Tok_KwElementGroup = ''.element_group''"
| "tokName Tok_KwState = ''.state''"
| "tokName Tok_KwInit = ''.init''"
| "tokName Tok_KwHandler = ''.handler''"
| "tokName Tok_KwSignal = ''.signal''"
| "tokName Tok_KwTiming = ''.timing''"
| "tokName Tok_KwHlsPragma = ''.hls_pragma''"
| "tokName Tok_KwRepeat = ''.repeat''"
| "tokName Tok_KwBreak = ''BREAK''"
| "tokName Tok_KwConstexpr = ''constexpr''"
| "tokName Tok_KwHost = ''host''"
| "tokName Tok_KwVerilog = ''verilog''"
| "tokName Tok_KwPortAny = ''PORT_ANY''"
| "tokName Tok_Ident = ''identifier''"
| "tokName Tok_Integer = ''integer''"
| "tokName Tok_StringLit = ''string''"
| "tokName Tok_OpaqueCpp = ''<opaque-cpp-block>''"

record token =
  t_kind :: tok
  t_text :: string
  t_range :: source_range
  t_int :: u64

definition token_default :: token where
  "token_default = \<lparr>t_kind = Tok_Eof, t_text = [], t_range = range_default, t_int = 0\<rparr>"

definition mk_token :: "tok \<Rightarrow> string \<Rightarrow> source_loc \<Rightarrow> source_loc \<Rightarrow> token" where
  "mk_token k txt b e = \<lparr>t_kind = k, t_text = txt, t_range = mk_range b e, t_int = 0\<rparr>"

subsection \<open>State and movement\<close>

record lexer =
  lx_buf :: source_buffer
  lx_file :: u32
  lx_pos :: nat
  lx_line :: u32
  lx_col :: u32

definition Lexer :: "source_buffer \<Rightarrow> u32 \<Rightarrow> lexer" where
  "Lexer buf fid = \<lparr>lx_buf = buf, lx_file = fid, lx_pos = 0, lx_line = 1, lx_col = 1\<rparr>"

abbreviation lx_src :: "lexer \<Rightarrow> string" where
  "lx_src lx \<equiv> sb_contents (lx_buf lx)"

definition at_end :: "lexer \<Rightarrow> bool" where
  "at_end lx \<longleftrightarrow> length (lx_src lx) \<le> lx_pos lx"

definition peek_at :: "lexer \<Rightarrow> nat \<Rightarrow> char" where
  "peek_at lx k =
     (if lx_pos lx + k < length (lx_src lx) then lx_src lx ! (lx_pos lx + k) else chr_nul)"

abbreviation peek :: "lexer \<Rightarrow> char" where
  "peek lx \<equiv> peek_at lx 0"

definition here :: "lexer \<Rightarrow> source_loc" where
  "here lx = \<lparr>loc_file = lx_file lx, loc_line = lx_line lx, loc_column = lx_col lx,
              loc_offset = of_nat (lx_pos lx)\<rparr>"

definition advance :: "lexer \<Rightarrow> lexer" where
  "advance lx =
     (if at_end lx then lx
      else if lx_src lx ! lx_pos lx = chr_nl
           then lx\<lparr>lx_pos := lx_pos lx + 1, lx_line := lx_line lx + 1, lx_col := 1\<rparr>
           else lx\<lparr>lx_pos := lx_pos lx + 1, lx_col := lx_col lx + 1\<rparr>)"

definition seekTo :: "u32 \<Rightarrow> lexer \<Rightarrow> lexer" where
  "seekTo off lx =
     (let off' = (if length (lx_src lx) < unat off then of_nat (length (lx_src lx)) else off);
          (ln, cl) = lineColOf (lx_buf lx) off'
      in lx\<lparr>lx_pos := unat off', lx_line := ln, lx_col := cl\<rparr>)"

text \<open>Characters left to read: the measure of every loop.\<close>

definition lx_left :: "lexer \<Rightarrow> nat" where
  "lx_left lx = length (lx_src lx) - lx_pos lx"

lemma advance_buf [simp]: "lx_buf (advance lx) = lx_buf lx"
  and advance_file [simp]: "lx_file (advance lx) = lx_file lx"
  by (simp_all add: advance_def)

lemma advance_pos: "lx_pos (advance lx) = (if at_end lx then lx_pos lx else Suc (lx_pos lx))"
  by (simp add: advance_def)

lemma lx_left_advance [simp]: "\<not> at_end lx \<Longrightarrow> lx_left (advance lx) < lx_left lx"
  by (simp add: lx_left_def at_end_def advance_pos)

lemma lx_left_advance_le [mono_intros]: "lx_left (advance lx) \<le> lx_left lx"
  by (auto simp: lx_left_def at_end_def advance_pos)

lemma lx_left_advance2 [simp]: "\<not> at_end lx \<Longrightarrow> lx_left (advance (advance lx)) < lx_left lx"
  using lx_left_advance_le [of "advance lx"] lx_left_advance [of lx] by linarith

text \<open>The loop \<open>while (!atEnd() && p()) advance();\<close> that the scanning routines share.\<close>

function adv_while :: "(lexer \<Rightarrow> bool) \<Rightarrow> lexer \<Rightarrow> lexer" where
  "adv_while p lx = (if \<not> at_end lx \<and> p lx then adv_while p (advance lx) else lx)"
  by pat_completeness auto
termination
  by (relation "measure (\<lambda>(p, lx). lx_left lx)") auto

declare adv_while.simps [simp del]

lemma adv_while_left_le [mono_intros]: "lx_left (adv_while p lx) \<le> lx_left lx"
proof (induction p lx rule: adv_while.induct)
  case (1 p lx)
  then show ?case
    by (cases "\<not> at_end lx \<and> p lx")
      (auto simp: adv_while.simps [of p lx] intro: order.trans [OF _ lx_left_advance_le])
qed

subsection \<open>Trivia\<close>

definition not_nl :: "lexer \<Rightarrow> bool" where
  "not_nl lx \<longleftrightarrow> peek lx \<noteq> chr_nl"

definition not_comment_end :: "lexer \<Rightarrow> bool" where
  "not_comment_end lx \<longleftrightarrow> \<not> (peek lx = CHR ''*'' \<and> peek_at lx 1 = CHR ''/'')"

text \<open>A block comment: the opening two characters, the body, the closing two if present.\<close>

definition skip_block_comment :: "lexer \<Rightarrow> lexer" where
  "skip_block_comment lx =
     (let lx1 = adv_while not_comment_end (advance (advance lx))
      in if at_end lx1 then lx1 else advance (advance lx1))"

definition is_line_comment :: "lexer \<Rightarrow> bool" where
  "is_line_comment lx \<longleftrightarrow> peek lx = CHR ''/'' \<and> peek_at lx 1 = CHR ''/''"

definition is_block_comment :: "lexer \<Rightarrow> bool" where
  "is_block_comment lx \<longleftrightarrow> peek lx = CHR ''/'' \<and> peek_at lx 1 = CHR ''*''"

lemma skip_block_comment_left [mono_intros]: "lx_left (skip_block_comment lx) \<le> lx_left (advance lx)"
proof -
  have "lx_left (adv_while not_comment_end (advance (advance lx))) \<le> lx_left (advance lx)"
    by (rule order.trans [OF adv_while_left_le lx_left_advance_le])
  then show ?thesis
    by (auto simp: skip_block_comment_def Let_def
        intro: order.trans [OF lx_left_advance_le] order.trans [OF order.trans [OF lx_left_advance_le lx_left_advance_le]])
qed

lemma adv_while_left_less:
  "\<not> at_end lx \<Longrightarrow> p lx \<Longrightarrow> lx_left (adv_while p lx) < lx_left lx"
  using adv_while_left_le [of p "advance lx"] lx_left_advance [of lx]
  by (simp add: adv_while.simps [of p lx] del: lx_left_advance)

function skipWhitespaceAndComments :: "lexer \<Rightarrow> lexer" where
  "skipWhitespaceAndComments lx =
     (if at_end lx then lx
      else
        let c = peek lx in
        if c = CHR '' '' \<or> c = chr_tab \<or> c = chr_cr \<or> c = chr_nl then
          skipWhitespaceAndComments (advance lx)
        else if is_line_comment lx then skipWhitespaceAndComments (adv_while not_nl lx)
        else if is_block_comment lx then skipWhitespaceAndComments (skip_block_comment lx)
        else if c = CHR ''#'' then skipWhitespaceAndComments (adv_while not_nl lx)
        else lx)"
  by pat_completeness auto
termination
proof (relation "measure lx_left", goal_cases)
  case (4 lx c)
  then show ?case
    using skip_block_comment_left [of lx] lx_left_advance [of lx] by (simp del: lx_left_advance)
qed (auto simp: not_nl_def is_line_comment_def intro!: adv_while_left_less)

declare skipWhitespaceAndComments.simps [simp del]

subsection \<open>Tokens of fixed shape, identifiers, directives, numbers, strings\<close>

definition tokOne :: "tok \<Rightarrow> source_loc \<Rightarrow> lexer \<Rightarrow> token \<times> lexer" where
  "tokOne k start lx = (let lx' = advance lx in (mk_token k [] start (here lx'), lx'))"

definition tokTwo :: "tok \<Rightarrow> source_loc \<Rightarrow> lexer \<Rightarrow> token \<times> lexer" where
  "tokTwo k start lx = (let lx' = advance (advance lx) in (mk_token k [] start (here lx'), lx'))"

definition is_word_char :: "lexer \<Rightarrow> bool" where
  "is_word_char lx \<longleftrightarrow> c_isalnum (peek lx) \<or> peek lx = CHR ''_''"

text \<open>\<open>src_.substr(b, pos_ - b)\<close> after a scan from position \<open>b\<close>.\<close>

definition scanned :: "nat \<Rightarrow> lexer \<Rightarrow> string" where
  "scanned b lx = substr b (lx_pos lx) (lx_src lx)"

definition keyword_kind :: "string \<Rightarrow> tok" where
  "keyword_kind s =
     (if s = ''import'' then Tok_KwImport
      else if s = ''BREAK'' then Tok_KwBreak
      else if s = ''constexpr'' then Tok_KwConstexpr
      else if s = ''host'' then Tok_KwHost
      else if s = ''verilog'' then Tok_KwVerilog
      else if s = ''PORT_ANY'' then Tok_KwPortAny
      else Tok_Ident)"

definition lexIdentOrKeyword :: "source_loc \<Rightarrow> lexer \<Rightarrow> token \<times> lexer" where
  "lexIdentOrKeyword start lx =
     (let lx' = adv_while is_word_char lx; txt = scanned (lx_pos lx) lx'
      in (mk_token (keyword_kind txt) txt start (here lx'), lx'))"

definition directive_kind :: "string \<Rightarrow> tok option" where
  "directive_kind s =
     (if s = ''element'' then Some Tok_KwElement
      else if s = ''element_group'' then Some Tok_KwElementGroup
      else if s = ''state'' then Some Tok_KwState
      else if s = ''init'' then Some Tok_KwInit
      else if s = ''handler'' then Some Tok_KwHandler
      else if s = ''signal'' then Some Tok_KwSignal
      else if s = ''timing'' then Some Tok_KwTiming
      else if s = ''hls_pragma'' then Some Tok_KwHlsPragma
      else if s = ''repeat'' then Some Tok_KwRepeat
      else None)"

definition lexDirectiveKeyword ::
  "source_loc \<Rightarrow> lexer \<Rightarrow> diag_engine \<Rightarrow> token \<times> lexer \<times> diag_engine" where
  "lexDirectiveKeyword start lx de =
     (let lx0 = advance lx;
          lx' = adv_while is_word_char lx0;
          name = scanned (lx_pos lx0) lx'
      in case directive_kind name of
           None \<Rightarrow>
             (mk_token Tok_Error (''.'' @ name) start (here lx'), lx',
              diag_error (mk_range start (here lx')) (''unknown directive `.'' @ name @ ''`'') de)
         | Some k \<Rightarrow> (mk_token k (''.'' @ name) start (here lx'), lx', de))"

definition lexNumber :: "source_loc \<Rightarrow> lexer \<Rightarrow> token \<times> lexer" where
  "lexNumber start lx =
     (let hex = (peek lx = CHR ''0'' \<and> (peek_at lx 1 = CHR ''x'' \<or> peek_at lx 1 = CHR ''X''));
          oct = (peek lx = CHR ''0'' \<and> c_isoctal (peek_at lx 1));
          base = (if hex then 16 else if oct then 8 else 10);
          lx0 = (if hex then advance (advance lx) else if oct then advance lx else lx);
          lx' = (if hex then adv_while (\<lambda>l. c_isxdigit (peek l)) lx0
                 else if oct then adv_while (\<lambda>l. c_isoctal (peek l)) lx0
                 else adv_while (\<lambda>l. c_isdigit (peek l)) lx0);
          txt = scanned (lx_pos lx0) lx';
          v = (case stoull base txt of Some v \<Rightarrow> v | None \<Rightarrow> 0)
      in ((mk_token Tok_Integer txt start (here lx'))\<lparr>t_int := v\<rparr>, lx'))"

definition escape_char :: "char \<Rightarrow> char" where
  "escape_char c =
     (if c = CHR ''n'' then chr_nl else if c = CHR ''t'' then chr_tab
      else if c = CHR ''r'' then chr_cr else if c = chr_bslash then chr_bslash
      else if c = chr_dq then chr_dq else if c = CHR ''0'' then chr_nul else c)"

function lex_string_loop :: "string \<Rightarrow> lexer \<Rightarrow> string \<times> lexer" where
  "lex_string_loop out lx =
     (if at_end lx \<or> peek lx = chr_dq then (out, lx)
      else if peek lx = chr_bslash then
        (let lx1 = advance lx in lex_string_loop (out @ [escape_char (peek lx1)]) (advance lx1))
      else lex_string_loop (out @ [peek lx]) (advance lx))"
  by pat_completeness auto
termination
  by (relation "measure (\<lambda>(out, lx). lx_left lx)") auto

declare lex_string_loop.simps [simp del]

definition lexString ::
  "source_loc \<Rightarrow> lexer \<Rightarrow> diag_engine \<Rightarrow> token \<times> lexer \<times> diag_engine" where
  "lexString start lx de =
     (let (out, lx1) = lex_string_loop [] (advance lx)
      in if at_end lx1
         then (mk_token Tok_Error out start (here lx1), lx1,
               diag_error (mk_range start (here lx1)) ''unterminated string literal'' de)
         else let lx' = advance lx1
              in (mk_token Tok_StringLit out start (here lx'), lx', de))"

text \<open>The switch of \<open>next\<close> over single-character punctuation.\<close>

definition punct_kind :: "char \<Rightarrow> tok option" where
  "punct_kind c =
     (if c = CHR ''{'' then Some Tok_LBrace
      else if c = CHR ''}'' then Some Tok_RBrace
      else if c = CHR ''('' then Some Tok_LParen
      else if c = CHR '')'' then Some Tok_RParen
      else if c = CHR ''['' then Some Tok_LBracket
      else if c = CHR '']'' then Some Tok_RBracket
      else if c = CHR ''<'' then Some Tok_LAngle
      else if c = CHR ''>'' then Some Tok_RAngle
      else if c = CHR '','' then Some Tok_Comma
      else if c = CHR '';'' then Some Tok_Semicolon
      else if c = CHR '':'' then Some Tok_Colon
      else if c = CHR ''*'' then Some Tok_Star
      else if c = CHR ''-'' then Some Tok_Dash
      else if c = CHR ''='' then Some Tok_Equals
      else if c = CHR ''$'' then Some Tok_Dollar
      else if c = CHR 0x40 then Some Tok_At
      else if c = CHR ''&'' then Some Tok_Amp
      else None)"

text \<open>The dispatch of \<open>next\<close> on a first character that is not trivia.\<close>

definition lex_at :: "lexer \<Rightarrow> diag_engine \<Rightarrow> token \<times> lexer \<times> diag_engine" where
  "lex_at lx de =
     (let c = peek lx; c1 = peek_at lx 1; start = here lx; pure = (\<lambda>(t, l). (t, l, de)) in
      if c = CHR ''-'' \<and> c1 = CHR ''>'' then pure (tokTwo Tok_Arrow start lx)
      else if c = CHR ''='' \<and> c1 = CHR ''>'' then pure (tokTwo Tok_FatArrow start lx)
      else if c = CHR '':'' \<and> c1 = CHR '':'' then pure (tokTwo Tok_DoubleColon start lx)
      else
        (case punct_kind c of
           Some k \<Rightarrow> pure (tokOne k start lx)
         | None \<Rightarrow>
             if c = chr_dq then lexString start lx de
             else if c = CHR ''.'' then lexDirectiveKeyword start lx de
             else if c_isdigit c then pure (lexNumber start lx)
             else if c_isalpha c \<or> c = CHR ''_'' then pure (lexIdentOrKeyword start lx)
             else
               let lx' = advance lx in
               (mk_token Tok_Error [c] start (here lx'), lx',
                diag_error (mk_range start (here lx'))
                  (''unexpected character `'' @ [c] @ ''`'') de)))"

definition next_token :: "lexer \<Rightarrow> diag_engine \<Rightarrow> token \<times> lexer \<times> diag_engine" where
  "next_token lx0 de =
     (let lx = skipWhitespaceAndComments lx0 in
      if at_end lx then (mk_token Tok_Eof [] (here lx) (here lx), lx, de)
      else lex_at lx de)"

subsection \<open>Opaque C++ blocks\<close>

text \<open>The lambda \<open>skipString\<close>: the loop over the characters of a literal, then the literal.\<close>

function skip_string_loop :: "char \<Rightarrow> lexer \<Rightarrow> lexer" where
  "skip_string_loop q lx =
     (if at_end lx \<or> peek lx = q then lx
      else if peek lx = chr_bslash \<and> lx_pos lx + 1 < length (lx_src lx)
           then skip_string_loop q (advance (advance lx))
           else skip_string_loop q (advance lx))"
  by pat_completeness auto
termination
  by (relation "measure (\<lambda>(q, lx). lx_left lx)") auto

declare skip_string_loop.simps [simp del]

lemma skip_string_loop_left [mono_intros]: "lx_left (skip_string_loop q lx) \<le> lx_left lx"
proof (induction q lx rule: skip_string_loop.induct)
  case (1 q lx)
  then show ?case
    by (subst skip_string_loop.simps)
      (auto intro: order.trans [OF _ lx_left_advance_le]
        order.trans [OF _ order.trans [OF lx_left_advance_le lx_left_advance_le]])
qed

definition skipString :: "char \<Rightarrow> lexer \<Rightarrow> lexer" where
  "skipString q lx =
     (let lx1 = skip_string_loop q (advance lx) in if at_end lx1 then lx1 else advance lx1)"

lemma skipString_left [mono_intros]: "lx_left (skipString q lx) \<le> lx_left (advance lx)"
  using skip_string_loop_left [of q "advance lx"]
    lx_left_advance_le [of "skip_string_loop q (advance lx)"]
  by (simp add: skipString_def Let_def)

text \<open>
  The main loop. The depth counts the braces that are open; it starts at one and the loop leaves
  with depth zero in front of the matching brace, or with a positive depth at the end of the file.
\<close>

function opaque_loop :: "nat \<Rightarrow> lexer \<Rightarrow> nat \<times> lexer" where
  "opaque_loop depth lx =
     (if at_end lx \<or> depth = 0 then (depth, lx)
      else
        let c = peek lx in
        if is_line_comment lx then opaque_loop depth (adv_while not_nl lx)
        else if is_block_comment lx then opaque_loop depth (skip_block_comment lx)
        else if c = chr_dq \<or> c = chr_sq then opaque_loop depth (skipString c lx)
        else if c = CHR ''{'' then opaque_loop (depth + 1) (advance lx)
        else if c = CHR ''}'' then
          (if depth - 1 = 0 then (0, lx) else opaque_loop (depth - 1) (advance lx))
        else opaque_loop depth (advance lx))"
  by pat_completeness auto
termination
proof (relation "measure (\<lambda>(d, lx). lx_left lx)", goal_cases)
  case (3 d lx c)
  then show ?case
    using skip_block_comment_left [of lx] lx_left_advance [of lx] by (simp del: lx_left_advance)
next
  case (4 d lx c)
  then show ?case
    using skipString_left [of c lx] lx_left_advance [of lx] by (simp del: lx_left_advance)
qed (auto simp: not_nl_def is_line_comment_def intro!: adv_while_left_less)

declare opaque_loop.simps [simp del]

definition lexOpaqueBlock :: "lexer \<Rightarrow> diag_engine \<Rightarrow> token \<times> lexer \<times> diag_engine" where
  "lexOpaqueBlock lx de =
     (let start = here lx;
          (depth, lx1) = opaque_loop 1 lx;
          kind = (if depth \<noteq> 0 then Tok_Error else Tok_OpaqueCpp);
          de' = (if depth \<noteq> 0
                 then diag_error (mk_range start (here lx1)) ''unterminated `{` block'' de else de);
          t = mk_token kind (scanned (lx_pos lx) lx1) start (here lx1)
      in (t, (if peek lx1 = CHR ''}'' then advance lx1 else lx1), de'))"

end
