(* ===== verification/LexerFacts.thy ===== *)
theory LexerFacts
  imports Lexer
begin

text \<open>
  What the parser may rely on: every lexer operation only moves forward over an unchanged buffer,
  the line and column it tracks are the ones the binary search of \<open>SourceBuffer\<close> gives for its
  position, every call of \<open>next\<close> either makes progress or is at the end, and the literals and
  opaque blocks come back as they were written.
\<close>

subsection \<open>Forward movement\<close>

definition moves :: "lexer \<Rightarrow> lexer \<Rightarrow> bool" where
  "moves lx lx' \<longleftrightarrow> (\<exists>n. lx' = (advance ^^ n) lx)"

lemma moves_refl [simp, mono_intros]: "moves lx lx"
  unfolding moves_def by (rule exI [of _ 0]) simp

lemma moves_trans [trans]: "moves a b \<Longrightarrow> moves b c \<Longrightarrow> moves a c"
  unfolding moves_def by (metis comp_apply funpow_add)

lemma moves_advance [simp, mono_intros]: "moves lx (advance lx)"
  unfolding moves_def by (rule exI [of _ 1]) simp

lemma moves_advance_after [mono_intros]: "moves a b \<Longrightarrow> moves a (advance b)"
  by (rule moves_trans [OF _ moves_advance])

text \<open>Whatever \<open>advance\<close> keeps, every movement keeps.\<close>

lemma moves_induct:
  assumes "moves lx lx'" and "P lx" and "\<And>l. P l \<Longrightarrow> P (advance l)"
  shows "P lx'"
proof -
  obtain n where n: "lx' = (advance ^^ n) lx" using assms(1) by (auto simp: moves_def)
  have "P ((advance ^^ n) lx)" by (induction n) (simp_all add: assms(2,3))
  with n show ?thesis by simp
qed

lemma moves_buf: "moves lx lx' \<Longrightarrow> lx_buf lx' = lx_buf lx"
  by (erule moves_induct) simp_all

lemma moves_file: "moves lx lx' \<Longrightarrow> lx_file lx' = lx_file lx"
  by (erule moves_induct) simp_all

lemma moves_pos: "moves lx lx' \<Longrightarrow> lx_pos lx \<le> lx_pos lx'"
  by (erule moves_induct [where P = "\<lambda>l. lx_pos lx \<le> lx_pos l"]) (simp_all add: advance_pos)

lemma moves_left: "moves lx lx' \<Longrightarrow> lx_left lx' \<le> lx_left lx"
  using moves_buf moves_pos by (fastforce simp: lx_left_def)

lemma moves_bound:
  "moves lx lx' \<Longrightarrow> lx_pos lx \<le> length (lx_src lx) \<Longrightarrow> lx_pos lx' \<le> length (lx_src lx')"
  by (erule moves_induct) (auto simp: advance_pos at_end_def)

text \<open>
  The contract the scanning routines share. Its consequences are proved once, for any routine
  that meets it.
\<close>

locale scan_op =
  fixes op :: "lexer \<Rightarrow> lexer"
  assumes op_moves: "moves lx (op lx)"
begin

lemma op_buf: "lx_buf (op lx) = lx_buf lx"
  by (rule moves_buf [OF op_moves])

lemma op_file: "lx_file (op lx) = lx_file lx"
  by (rule moves_file [OF op_moves])

lemma op_pos: "lx_pos lx \<le> lx_pos (op lx)"
  by (rule moves_pos [OF op_moves])

lemma op_after: "moves l lx \<Longrightarrow> moves l (op lx)"
  by (rule moves_trans [OF _ op_moves])

end

lemma moves_adv_while: "moves lx (adv_while p lx)"
proof (induction p lx rule: adv_while.induct)
  case (1 p lx)
  then show ?case
    by (cases "\<not> at_end lx \<and> p lx")
      (auto simp: adv_while.simps [of p lx] intro: moves_trans [OF moves_advance])
qed

interpretation sc_advance: scan_op advance
  by unfold_locales simp

interpretation sc_while: scan_op "adv_while p" for p
  by unfold_locales (rule moves_adv_while)

interpretation sc_block: scan_op skip_block_comment
  by unfold_locales (simp add: skip_block_comment_def Let_def sc_while.op_after sc_advance.op_after)

lemma moves_if: "(b \<Longrightarrow> moves l x) \<Longrightarrow> (\<not> b \<Longrightarrow> moves l y) \<Longrightarrow> moves l (if b then x else y)"
  by simp

lemma moves_skip_trivia: "moves lx (skipWhitespaceAndComments lx)"
proof (induction lx rule: skipWhitespaceAndComments.induct)
  case (1 lx)
  show ?case
    unfolding skipWhitespaceAndComments.simps [of lx] Let_def
    apply (intro moves_if moves_refl)
       apply (rule moves_trans [OF moves_advance 1(1) [OF _ refl]]; assumption)
      apply (rule moves_trans [OF moves_adv_while 1(2) [OF _ refl]]; assumption)
     apply (rule moves_trans [OF sc_block.op_moves 1(3) [OF _ refl]]; assumption)
    apply (rule moves_trans [OF moves_adv_while 1(4) [OF _ refl]]; assumption)
    done
qed

lemma moves_skip_string_loop: "moves lx (skip_string_loop q lx)"
proof (induction q lx rule: skip_string_loop.induct)
  case (1 q lx)
  show ?case
    by (subst skip_string_loop.simps)
      (use 1 in \<open>auto intro: moves_trans [OF moves_advance]
         moves_trans [OF moves_trans [OF moves_advance moves_advance]]\<close>)
qed

interpretation sc_trivia: scan_op skipWhitespaceAndComments
  by unfold_locales (rule moves_skip_trivia)

interpretation sc_string: scan_op "skipString q" for q
  by unfold_locales
    (auto simp: skipString_def Let_def intro!: moves_advance_after moves_trans [OF moves_advance moves_skip_string_loop])

lemma moves_lex_string_loop: "moves lx (snd (lex_string_loop out lx))"
proof (induction out lx rule: lex_string_loop.induct)
  case (1 out lx)
  show ?case
    by (subst lex_string_loop.simps)
      (use 1 in \<open>auto simp: Let_def intro: moves_trans [OF moves_advance]
         moves_trans [OF moves_trans [OF moves_advance moves_advance]]\<close>)
qed

lemma moves_opaque_loop: "moves lx (snd (opaque_loop d lx))"
proof (induction d lx rule: opaque_loop.induct)
  case (1 d lx)
  show ?case
    by (subst opaque_loop.simps)
      (use 1 in \<open>auto simp: Let_def intro: moves_trans [OF moves_advance]
         moves_trans [OF moves_adv_while] moves_trans [OF sc_block.op_moves]
         moves_trans [OF sc_string.op_moves]\<close>)
qed

subsection \<open>Position tracking\<close>

text \<open>
  The state invariant: the buffer was built by the constructor and is below 4 GiB, the position is
  inside it, and line and column are those of the position.
\<close>

definition lx_ok :: "lexer \<Rightarrow> bool" where
  "lx_ok lx \<longleftrightarrow>
     lx_buf lx = SourceBuffer (sb_path (lx_buf lx)) (lx_src lx)
     \<and> length (lx_src lx) < 2 ^ 32
     \<and> lx_pos lx \<le> length (lx_src lx)
     \<and> (lx_line lx, lx_col lx) = loc_spec (lx_src lx) (lx_pos lx)"

lemma sb_contents_SourceBuffer [simp]: "sb_contents (SourceBuffer p s) = s"
  and sb_path_SourceBuffer [simp]: "sb_path (SourceBuffer p s) = p"
  by (simp_all add: SourceBuffer_def)

lemma lx_ok_Lexer [inv_intros]: "length s < 2 ^ 32 \<Longrightarrow> lx_ok (Lexer (SourceBuffer p s) fid)"
  by (simp add: lx_ok_def Lexer_def loc_spec_def line_at_def col_at_def)

lemma loc_spec_Suc:
  assumes "off < length s"
  shows "loc_spec s (Suc off)
    = (if s ! off = chr_nl then (fst (loc_spec s off) + 1, 1)
       else (fst (loc_spec s off), snd (loc_spec s off) + 1))"
  using assms
  by (simp add: loc_spec_def line_at_def col_at_def take_Suc_conv_app_nth)

lemma lx_ok_advance [inv_intros]:
  assumes "lx_ok lx"
  shows "lx_ok (advance lx)"
proof (cases "at_end lx")
  case True
  then show ?thesis using assms by (simp add: advance_def)
next
  case False
  then have lt: "lx_pos lx < length (lx_src lx)" by (simp add: at_end_def)
  have "(lx_line lx, lx_col lx) = loc_spec (lx_src lx) (lx_pos lx)"
    using assms by (simp add: lx_ok_def)
  then have "lx_line lx = fst (loc_spec (lx_src lx) (lx_pos lx))"
    and "lx_col lx = snd (loc_spec (lx_src lx) (lx_pos lx))" by (metis fst_conv, metis snd_conv)
  with False assms lt show ?thesis
    by (auto simp: lx_ok_def advance_def loc_spec_Suc [OF lt])
qed

lemma lx_ok_moves [inv_intros]: "moves lx lx' \<Longrightarrow> lx_ok lx \<Longrightarrow> lx_ok lx'"
  by (erule moves_induct) (auto intro: lx_ok_advance)

text \<open>The binary search agrees with the tracked line and column.\<close>

lemma lx_ok_lineColOf:
  assumes "lx_ok lx"
  shows "lineColOf (lx_buf lx) (of_nat (lx_pos lx)) = (lx_line lx, lx_col lx)"
proof -
  have "lineColOf (SourceBuffer (sb_path (lx_buf lx)) (lx_src lx)) (of_nat (lx_pos lx))
          = loc_spec (lx_src lx) (lx_pos lx)"
    by (rule lineColOf_eq_loc_spec) (use assms in \<open>auto simp: lx_ok_def\<close>)
  with assms show ?thesis by (simp add: lx_ok_def)
qed

lemma lx_ok_unat_pos [simp]: "lx_ok lx \<Longrightarrow> unat (of_nat (lx_pos lx) :: u32) = lx_pos lx"
  by (simp add: lx_ok_def unat_of_nat take_bit_nat_eq_self)

lemma seekTo_here: "lx_ok lx \<Longrightarrow> seekTo (loc_offset (here lx)) lx = lx"
  by (simp add: seekTo_def here_def lx_ok_lineColOf) (simp add: lx_ok_def)

subsection \<open>The calls of the parser\<close>

text \<open>
  What one dispatch of \<open>next\<close> does: it consumes at least one character, the token covers exactly
  what was consumed, and an error token is the only way to report an error.
\<close>

definition token_step :: "lexer \<Rightarrow> diag_engine \<Rightarrow> token \<times> lexer \<times> diag_engine \<Rightarrow> bool" where
  "token_step lx de r \<longleftrightarrow>
     (case r of (t, lx', de') \<Rightarrow>
        moves lx lx' \<and> lx_pos lx < lx_pos lx'
        \<and> t_range t = mk_range (here lx) (here lx')
        \<and> t_kind t \<noteq> Tok_Eof \<and> t_kind t \<noteq> Tok_OpaqueCpp
        \<and> (if t_kind t = Tok_Error then \<exists>rg m. de' = diag_error rg m de else de' = de))"

lemma mk_token_sel [simp]:
  "t_kind (mk_token k x b e) = k" "t_text (mk_token k x b e) = x"
  "t_range (mk_token k x b e) = mk_range b e" "t_int (mk_token k x b e) = 0"
  by (simp_all add: mk_token_def)

lemma pos_advance_less [simp]: "\<not> at_end lx \<Longrightarrow> lx_pos lx < lx_pos (advance lx)"
  by (simp add: advance_pos)

lemma pos_after_advance: "\<not> at_end lx \<Longrightarrow> moves (advance lx) lx' \<Longrightarrow> lx_pos lx < lx_pos lx'"
  using moves_pos [of "advance lx" lx'] pos_advance_less [of lx] by linarith

lemma punct_kind_range: "punct_kind c = Some k \<Longrightarrow> k \<notin> {Tok_Eof, Tok_Error, Tok_OpaqueCpp}"
  by (auto simp: punct_kind_def split: if_splits)

lemma directive_kind_range: "directive_kind c = Some k \<Longrightarrow> k \<notin> {Tok_Eof, Tok_Error, Tok_OpaqueCpp}"
  by (auto simp: directive_kind_def split: if_splits)

lemma keyword_kind_range: "keyword_kind s \<notin> {Tok_Eof, Tok_Error, Tok_OpaqueCpp}"
  by (auto simp: keyword_kind_def)

lemma adv_while_progress:
  "\<not> at_end lx \<Longrightarrow> p lx \<Longrightarrow> lx_pos lx < lx_pos (adv_while p lx)"
  using pos_after_advance [OF _ moves_adv_while] by (simp add: adv_while.simps [of p lx])

lemma step_tokOne:
  "\<not> at_end lx \<Longrightarrow> tokOne k (here lx) lx = (t, lx') \<Longrightarrow>
   k \<notin> {Tok_Eof, Tok_Error, Tok_OpaqueCpp} \<Longrightarrow> token_step lx de (t, lx', de)"
  by (auto simp: tokOne_def token_step_def Let_def)

lemma step_tokTwo:
  "\<not> at_end lx \<Longrightarrow> tokTwo k (here lx) lx = (t, lx') \<Longrightarrow>
   k \<notin> {Tok_Eof, Tok_Error, Tok_OpaqueCpp} \<Longrightarrow> token_step lx de (t, lx', de)"
  by (auto simp: tokTwo_def token_step_def Let_def
      intro: moves_advance_after pos_after_advance)

lemma step_lexString:
  assumes "\<not> at_end lx"
  shows "token_step lx de (lexString (here lx) lx de)"
proof -
  obtain out lx1 where l: "lex_string_loop [] (advance lx) = (out, lx1)" by fastforce
  then have "moves (advance lx) lx1"
    using moves_lex_string_loop [of "advance lx" "[]"] by simp
  then have "moves lx lx1" "moves lx (advance lx1)" "lx_pos lx < lx_pos lx1"
    "lx_pos lx < lx_pos (advance lx1)"
    using assms by (auto intro: moves_trans [OF moves_advance] moves_advance_after pos_after_advance)
  then show ?thesis
    by (auto simp: lexString_def token_step_def Let_def l)
qed

lemma step_directive: "\<not> at_end lx \<Longrightarrow> token_step lx de (lexDirectiveKeyword (here lx) lx de)"
  by (auto simp: lexDirectiveKeyword_def token_step_def Let_def dest: directive_kind_range
      split: option.splits intro: sc_while.op_after pos_after_advance moves_adv_while)

lemma step_lexNumber:
  assumes "\<not> at_end lx" and d: "c_isdigit (peek lx)" and "lexNumber (here lx) lx = (t, lx')"
  shows "token_step lx de (t, lx', de)"
proof -
  have t: "t_kind t = Tok_Integer" "t_range t = mk_range (here lx) (here lx')"
    using assms(3) by (auto simp: lexNumber_def Let_def)
  define hex where "hex \<longleftrightarrow> peek lx = CHR ''0'' \<and> (peek_at lx 1 = CHR ''x'' \<or> peek_at lx 1 = CHR ''X'')"
  define oct where "oct \<longleftrightarrow> peek lx = CHR ''0'' \<and> c_isoctal (peek_at lx 1)"
  have "lx' = (if hex then adv_while (\<lambda>l. c_isxdigit (peek l)) (advance (advance lx))
      else if oct then adv_while (\<lambda>l. c_isoctal (peek l)) (advance lx)
      else adv_while (\<lambda>l. c_isdigit (peek l)) lx)"
    using assms(3) unfolding lexNumber_def Let_def hex_def [symmetric] oct_def [symmetric] by auto
  then consider (dec) "lx' = adv_while (\<lambda>l. c_isdigit (peek l)) lx"
    | (oct) p where "lx' = adv_while p (advance lx)"
    | (hex) p where "lx' = adv_while p (advance (advance lx))"
    by metis
  then have "moves lx lx' \<and> lx_pos lx < lx_pos lx'"
  proof cases
    case dec
    with assms adv_while_progress [of lx "\<lambda>l. c_isdigit (peek l)"] show ?thesis
      by (simp add: moves_adv_while)
  next
    case oct
    then have "moves (advance lx) lx'" by (simp add: moves_adv_while)
    with assms(1) show ?thesis by (blast intro: moves_trans [OF moves_advance] pos_after_advance)
  next
    case hex
    then have "moves (advance lx) lx'" by (simp add: sc_while.op_after)
    with assms(1) show ?thesis by (blast intro: moves_trans [OF moves_advance] pos_after_advance)
  qed
  with t show ?thesis by (simp add: token_step_def)
qed

lemma step_word:
  assumes "\<not> at_end lx" and "c_isalpha (peek lx) \<or> peek lx = CHR ''_''"
    and "lexIdentOrKeyword (here lx) lx = (t, lx')"
  shows "token_step lx de (t, lx', de)"
proof -
  have "lx_pos lx < lx_pos (adv_while is_word_char lx)"
    using assms by (intro adv_while_progress) (auto simp: is_word_char_def c_isalnum_def)
  with assms keyword_kind_range show ?thesis
    by (auto simp: lexIdentOrKeyword_def token_step_def Let_def intro: moves_adv_while)
qed

lemma step_bad: "\<not> at_end lx \<Longrightarrow>
    token_step lx de (mk_token Tok_Error x (here lx) (here (advance lx)), advance lx, diag_error rg m de)"
  by (auto simp: token_step_def)

lemma token_step_if:
  "(b \<Longrightarrow> token_step lx de x) \<Longrightarrow> (\<not> b \<Longrightarrow> token_step lx de y) \<Longrightarrow>
   token_step lx de (if b then x else y)"
  by simp

lemma token_step_pure:
  "(\<And>t l. p = (t, l) \<Longrightarrow> token_step lx de (t, l, de)) \<Longrightarrow>
   token_step lx de ((\<lambda>(t, l). (t, l, de)) p)"
  by (cases p) simp

lemma step_lex_at:
  assumes "\<not> at_end lx"
  shows "token_step lx de (lex_at lx de)"
proof (cases "punct_kind (peek lx)")
  case None
  show ?thesis
    unfolding lex_at_def Let_def None option.case
    by (intro token_step_if token_step_pure;
        (rule step_lexString [OF assms] | rule step_directive [OF assms] | rule step_bad [OF assms]
        | (rule step_tokTwo [OF assms], assumption, simp)
        | (rule step_lexNumber [OF assms]; assumption) | (rule step_word [OF assms]; assumption)))
next
  case (Some k)
  show ?thesis
    unfolding lex_at_def Let_def Some option.case
    by (intro token_step_if token_step_pure;
        ((rule step_tokTwo [OF assms], assumption, simp)
        | (rule step_tokOne [OF assms _ punct_kind_range [OF Some]], assumption)))
qed

text \<open>
  One call of \<open>next\<close>: either the lexer stops at the end of the file with an \<open>Eof\<close> token and no
  diagnostics, or it takes one step as above.
\<close>

lemma next_token_step:
  assumes "next_token lx de = (t, lx', de')"
  obtains (eof) "t_kind t = Tok_Eof" "at_end lx'" "moves lx lx'" "de' = de"
      "t_range t = mk_range (here lx') (here lx')"
    | (tok) lx1 where "moves lx lx1" "\<not> at_end lx1" "token_step lx1 de (t, lx', de')"
proof (cases "at_end (skipWhitespaceAndComments lx)")
  case True
  with assms have "t = mk_token Tok_Eof [] (here lx') (here lx')" "at_end lx'" "de' = de"
    "lx' = skipWhitespaceAndComments lx"
    by (auto simp: next_token_def Let_def)
  then show ?thesis using eof sc_trivia.op_moves by simp
next
  case False
  with assms have "token_step (skipWhitespaceAndComments lx) de (t, lx', de')"
    using step_lex_at [OF False, of de] by (simp add: next_token_def Let_def)
  then show ?thesis using tok sc_trivia.op_moves False by blast
qed

lemma next_token_moves: "next_token lx de = (t, lx', de') \<Longrightarrow> moves lx lx'"
  by (erule next_token_step) (auto simp: token_step_def intro: moves_trans)

lemma next_token_end: "next_token lx de = (t, lx', de') \<Longrightarrow> rng_end (t_range t) = here lx'"
  by (erule next_token_step) (auto simp: token_step_def)

lemma next_token_extends: "next_token lx de = (t, lx', de') \<Longrightarrow> diag_extends de de'"
  by (erule next_token_step) (auto simp: token_step_def split: if_splits)

lemma next_token_de_ok: "next_token lx de = (t, lx', de') \<Longrightarrow> de_ok de \<Longrightarrow> de_ok de'"
  by (erule next_token_step) (auto simp: token_step_def de_ok_error split: if_splits)

lemma next_token_progress:
  "next_token lx de = (t, lx', de') \<Longrightarrow> t_kind t \<noteq> Tok_Eof \<Longrightarrow> lx_pos lx < lx_pos lx'"
  by (erule next_token_step) (auto simp: token_step_def dest: moves_pos)

lemma next_token_left:
  "next_token lx de = (t, lx', de') \<Longrightarrow> t_kind t \<noteq> Tok_Eof \<Longrightarrow> lx_left lx' < lx_left lx"
proof -
  assume a: "next_token lx de = (t, lx', de')" "t_kind t \<noteq> Tok_Eof"
  then have less: "lx_pos lx < lx_pos lx'" by (rule next_token_progress)
  obtain n where n: "lx' = (advance ^^ n) lx"
    using next_token_moves [OF a(1)] by (auto simp: moves_def)
  have "lx_pos lx' \<le> length (lx_src lx)"
  proof (rule ccontr)
    assume "\<not> lx_pos lx' \<le> length (lx_src lx)"
    moreover have "lx_pos ((advance ^^ m) lx) \<le> max (lx_pos lx) (length (lx_src lx))
        \<and> lx_buf ((advance ^^ m) lx) = lx_buf lx" for m
      by (induction m) (auto simp: advance_pos at_end_def)
    ultimately show False using n less by (metis le_max_iff_disj not_less order.trans linorder_le_cases max.absorb1 max.absorb2)
  qed
  with less moves_buf [OF next_token_moves [OF a(1)]] show ?thesis by (simp add: lx_left_def)
qed

lemma next_token_not_opaque: "next_token lx de = (t, lx', de') \<Longrightarrow> t_kind t \<noteq> Tok_OpaqueCpp"
  by (erule next_token_step) (auto simp: token_step_def)

text \<open>The end of the file repeats itself.\<close>

lemma next_token_at_end: "at_end lx \<Longrightarrow> next_token lx de = (mk_token Tok_Eof [] (here lx) (here lx), lx, de)"
  by (simp add: next_token_def Let_def skipWhitespaceAndComments.simps [of lx])

lemma opaque_moves: "lexOpaqueBlock lx de = (t, lx', de') \<Longrightarrow> moves lx lx'"
  using moves_opaque_loop [of lx 1]
  by (auto simp: lexOpaqueBlock_def Let_def split: prod.splits if_splits intro: moves_advance_after)

lemma opaque_extends: "lexOpaqueBlock lx de = (t, lx', de') \<Longrightarrow> diag_extends de de'"
  by (auto simp: lexOpaqueBlock_def Let_def split: prod.splits if_splits)

lemma opaque_de_ok: "lexOpaqueBlock lx de = (t, lx', de') \<Longrightarrow> de_ok de \<Longrightarrow> de_ok de'"
  by (auto simp: lexOpaqueBlock_def Let_def de_ok_error split: prod.splits if_splits)

lemma opaque_error:
  "lexOpaqueBlock lx de = (t, lx', de') \<Longrightarrow>
   (if t_kind t = Tok_Error then \<exists>r m. de' = diag_error r m de else t_kind t = Tok_OpaqueCpp \<and> de' = de)"
  by (auto simp: lexOpaqueBlock_def Let_def split: prod.splits if_splits)

end
