(* ===== verification/LexerText.thy ===== *)
theory LexerText
  imports LexerFacts
begin

text \<open>
  The lexer against the text in front of it: integer literals and identifiers read back as they
  were printed, and \<open>lexOpaqueBlock\<close> returns exactly the C++ text between its braces for every
  text in which braces, comments and literals are closed (\<open>cpp_body\<close>).
\<close>

subsection \<open>The text ahead\<close>

definition ahead :: "lexer \<Rightarrow> string" where
  "ahead lx = drop (lx_pos lx) (lx_src lx)"

definition skips :: "nat \<Rightarrow> lexer \<Rightarrow> lexer" where
  "skips n lx = (advance ^^ n) lx"

lemma skips_0 [simp]: "skips 0 lx = lx"
  by (simp add: skips_def)

lemma skips_Suc: "skips (Suc n) lx = skips n (advance lx)"
  by (simp add: skips_def funpow_swap1)

lemma skips_of_advance: "skips n (advance lx) = skips (Suc n) lx"
  by (simp add: skips_Suc)

lemma advance_skips: "advance (skips n lx) = skips (Suc n) lx"
  by (simp add: skips_def)

lemma skips_add: "skips n (skips m lx) = skips (m + n) lx"
  by (simp add: skips_def add.commute [of m n] funpow_add)

lemmas skips_norm = skips_of_advance advance_skips skips_add

lemma moves_skips [simp]: "moves lx (skips n lx)"
  by (auto simp: moves_def skips_def)

lemma at_end_ahead: "at_end lx \<longleftrightarrow> ahead lx = []"
  by (simp add: at_end_def ahead_def)

lemma peek_ahead: "peek_at lx k = (if k < length (ahead lx) then ahead lx ! k else chr_nul)"
  by (auto simp: peek_at_def ahead_def)

lemma ahead_advance [simp]: "ahead (advance lx) = tl (ahead lx)"
  by (auto simp: ahead_def advance_pos at_end_def tl_drop drop_Suc)

lemma ahead_skips [simp]: "ahead (skips n lx) = drop n (ahead lx)"
  by (induction n arbitrary: lx) (simp_all add: skips_Suc drop_Suc)

lemma pos_skips: "n \<le> length (ahead lx) \<Longrightarrow> lx_pos (skips n lx) = lx_pos lx + n"
proof (induction n arbitrary: lx)
  case 0
  then show ?case by simp
next
  case (Suc n)
  then have "\<not> at_end lx" by (auto simp: at_end_ahead)
  then have "lx_pos (advance lx) = Suc (lx_pos lx)" by (simp add: advance_pos)
  moreover have "n \<le> length (ahead (advance lx))" using Suc.prems by simp
  ultimately show ?case using Suc.IH [of "advance lx"] by (simp add: skips_Suc)
qed

lemma scanned_skips:
  "n \<le> length (ahead lx) \<Longrightarrow> scanned (lx_pos lx) (skips n lx) = take n (ahead lx)"
  using moves_buf [OF moves_skips [of lx n]]
  by (simp add: scanned_def substr_def pos_skips ahead_def)

text \<open>A scanning loop runs over a prefix on which its condition holds.\<close>

lemma adv_while_run:
  assumes "\<And>k. k < n \<Longrightarrow> \<not> at_end (skips k lx) \<and> p (skips k lx)"
  shows "adv_while p lx = adv_while p (skips n lx)"
  using assms
proof (induction n)
  case 0
  then show ?case by simp
next
  case (Suc n)
  have "adv_while p (skips n lx) = adv_while p (advance (skips n lx))"
    using Suc.prems [of n] by (simp add: adv_while.simps [of p "skips n lx"])
  moreover have "advance (skips n lx) = skips (Suc n) lx" by (simp add: skips_def)
  ultimately show ?case using Suc by simp
qed

lemma adv_while_chars:
  assumes "ahead lx = x @ y" and "\<forall>c\<in>set x. q c" and "y = [] \<or> \<not> q (hd y)"
  shows "adv_while (\<lambda>l. q (peek l)) lx = skips (length x) lx"
proof -
  have "adv_while (\<lambda>l. q (peek l)) lx = adv_while (\<lambda>l. q (peek l)) (skips (length x) lx)"
    by (rule adv_while_run) (use assms in \<open>auto simp: at_end_ahead peek_ahead nth_append\<close>)
  also have "\<dots> = skips (length x) lx"
    using assms by (subst adv_while.simps) (auto simp: at_end_ahead peek_ahead hd_conv_nth)
  finally show ?thesis .
qed

subsection \<open>Integers and identifiers\<close>

lemma not_trivia:
  assumes "ahead lx = c # cs" and "\<not> c_isspace c" and "c \<noteq> CHR ''/''" and "c \<noteq> CHR ''#''"
  shows "skipWhitespaceAndComments lx = lx"
  using assms
  by (subst skipWhitespaceAndComments.simps)
    (auto simp: Let_def is_line_comment_def is_block_comment_def peek_ahead c_isspace_def char_code_def)

lemma digit_not_special:
  assumes "c_isdigit c"
  shows "punct_kind c = None" and "c \<noteq> chr_dq" and "c \<noteq> CHR ''.''" and "c \<noteq> CHR ''-''"
    and "c \<noteq> CHR ''=''" and "c \<noteq> CHR '':''" and "\<not> c_isspace c" and "c \<noteq> CHR ''/''" and "c \<noteq> CHR ''#''"
proof -
  have n: "c \<noteq> x" if "\<not> c_isdigit x" for x using assms that by auto
  show "punct_kind c = None"
    unfolding punct_kind_def by (simp add: n c_isdigit_def char_code_def)
  show "\<not> c_isspace c"
    using assms by (auto simp: c_isdigit_def c_isspace_def)
  show "c \<noteq> chr_dq" "c \<noteq> CHR ''.''" "c \<noteq> CHR ''-''" "c \<noteq> CHR ''=''" "c \<noteq> CHR '':''" "c \<noteq> CHR ''/''"
    "c \<noteq> CHR ''#''"
    by (simp_all add: n c_isdigit_def char_code_def)
qed

text \<open>A number printed in decimal and followed by no digit lexes to one integer token of its value.\<close>

lemma lexNumber_nat_str:
  assumes a: "ahead lx = nat_str n @ rest" and n: "n < 2 ^ 64"
    and r: "rest = [] \<or> \<not> c_isdigit (hd rest) \<and> hd rest \<noteq> CHR ''x'' \<and> hd rest \<noteq> CHR ''X''"
  shows "lexNumber start lx =
     ((mk_token Tok_Integer (nat_str n) start (here (skips (length (nat_str n)) lx)))\<lparr>t_int := of_nat n\<rparr>,
      skips (length (nat_str n)) lx)"
proof -
  obtain d ds where s: "nat_str n = d # ds" by (cases "nat_str n") auto
  have dig: "\<forall>c\<in>set (nat_str n). c_isdigit c" using nat_str_digits by blast
  have zero: "d = CHR ''0'' \<Longrightarrow> n = 0"
    using nat_str_hd [of n] s by (cases n) auto
  have pk: "peek lx = d" using a s by (simp add: peek_ahead)
  have nd: "\<not> (peek_at lx 1 = CHR ''x'' \<or> peek_at lx 1 = CHR ''X'') \<and> \<not> c_isoctal (peek_at lx 1)"
    if "d = CHR ''0''"
  proof -
    have "n = 0" using that by (rule zero)
    then have "nat_str n = [digit_char 0]" by (simp add: nat_str.simps [of 0])
    then have "ahead lx = digit_char 0 # rest" using a by simp
    with r show ?thesis
      by (cases rest) (auto simp: peek_ahead c_isoctal_def c_isdigit_def char_code_def)
  qed
  have hex: "(peek lx = CHR ''0'' \<and> (peek_at lx 1 = CHR ''x'' \<or> peek_at lx 1 = CHR ''X'')) = False"
    and oct: "(peek lx = CHR ''0'' \<and> c_isoctal (peek_at lx 1)) = False"
    using nd pk by blast+
  have w: "adv_while (\<lambda>l. c_isdigit (peek l)) lx = skips (length (nat_str n)) lx"
    by (rule adv_while_chars [OF a dig]) (use r in auto)
  have "scanned (lx_pos lx) (skips (length (nat_str n)) lx) = nat_str n"
    using a by (simp add: scanned_skips)
  then show ?thesis
    unfolding lexNumber_def Let_def hex oct if_False w using n by (simp add: stoull_nat_str)
qed

lemma next_token_nat_str:
  assumes a: "ahead lx = nat_str n @ rest" and n: "n < 2 ^ 64"
    and r: "rest = [] \<or> \<not> c_isdigit (hd rest) \<and> hd rest \<noteq> CHR ''x'' \<and> hd rest \<noteq> CHR ''X''"
  shows "\<exists>t lx'. next_token lx de = (t, lx', de) \<and> t_kind t = Tok_Integer \<and> t_int t = of_nat n
     \<and> t_text t = nat_str n \<and> ahead lx' = rest"
proof -
  obtain d ds where s: "nat_str n = d # ds" by (cases "nat_str n") auto
  have "c_isdigit d" using nat_str_digits [of d n] s by simp
  note d = this digit_not_special [OF this]
  have "skipWhitespaceAndComments lx = lx"
    by (rule not_trivia) (use a s d in auto)
  moreover have "\<not> at_end lx" "peek lx = d" using a s by (auto simp: at_end_ahead peek_ahead)
  ultimately have "next_token lx de = (\<lambda>(t, l). (t, l, de)) (lexNumber (here lx) lx)"
    using d by (simp add: next_token_def lex_at_def Let_def)
  then show ?thesis
    using lexNumber_nat_str [OF a n r] a by simp
qed

subsection \<open>Opaque C++ text\<close>

text \<open>The text of a block comment holds no closing mark.\<close>

fun close_free :: "string \<Rightarrow> bool" where
  "close_free (a # b # s) = (\<not> (a = CHR ''*'' \<and> b = CHR ''/'') \<and> close_free (b # s))"
| "close_free _ = True"

text \<open>The inside of a string or character literal with quote \<open>q\<close>.\<close>

inductive lit_body :: "char \<Rightarrow> string \<Rightarrow> bool" where
  lit_end: "lit_body q []"
| lit_char: "c \<noteq> q \<Longrightarrow> c \<noteq> chr_bslash \<Longrightarrow> lit_body q s \<Longrightarrow> lit_body q (c # s)"
| lit_escape: "lit_body q s \<Longrightarrow> lit_body q (chr_bslash # c # s)"

text \<open>Element bodies: plain text, nested braces, comments and literals, all closed.\<close>

inductive cpp_body :: "string \<Rightarrow> bool" where
  cpp_end: "cpp_body []"
| cpp_plain: "c \<notin> {CHR ''{'', CHR ''}'', chr_dq, chr_sq, CHR ''/''} \<Longrightarrow> cpp_body s \<Longrightarrow> cpp_body (c # s)"
| cpp_slash: "cpp_body s \<Longrightarrow> s = [] \<or> hd s \<notin> {CHR ''/'', CHR ''*''} \<Longrightarrow> cpp_body (CHR ''/'' # s)"
| cpp_braces: "cpp_body s \<Longrightarrow> cpp_body t \<Longrightarrow> cpp_body (CHR ''{'' # s @ CHR ''}'' # t)"
| cpp_line: "chr_nl \<notin> set x \<Longrightarrow> cpp_body s \<Longrightarrow> cpp_body (CHR ''/'' # CHR ''/'' # x @ chr_nl # s)"
| cpp_block: "close_free x \<Longrightarrow> cpp_body s \<Longrightarrow>
    cpp_body (CHR ''/'' # CHR ''*'' # x @ CHR ''*'' # CHR ''/'' # s)"
| cpp_literal: "q \<in> {chr_dq, chr_sq} \<Longrightarrow> lit_body q x \<Longrightarrow> cpp_body s \<Longrightarrow> cpp_body (q # x @ q # s)"

lemma skip_string_loop_lit:
  assumes "lit_body q x" and "q \<noteq> chr_bslash" and "ahead lx = x @ q # s"
  shows "skip_string_loop q lx = skips (length x) lx"
  using assms
proof (induction q x arbitrary: lx rule: lit_body.induct)
  case (lit_end q)
  then show ?case
    by (subst skip_string_loop.simps) (simp add: at_end_ahead peek_ahead)
next
  case (lit_char c q x)
  have "skip_string_loop q lx = skip_string_loop q (advance lx)"
    using lit_char.prems lit_char.hyps
    by (subst skip_string_loop.simps) (simp add: at_end_ahead peek_ahead)
  with lit_char show ?case by (simp add: skips_Suc)
next
  case (lit_escape q x c)
  have "lx_pos lx + 1 < length (lx_src lx)"
  proof -
    have "length (ahead lx) = Suc (Suc (length (x @ q # s)))"
      using lit_escape.prems by simp
    then show ?thesis by (simp add: ahead_def)
  qed
  then have "skip_string_loop q lx = skip_string_loop q (advance (advance lx))"
    using lit_escape.prems lit_escape.hyps
    by (subst skip_string_loop.simps) (auto simp: at_end_ahead peek_ahead)
  with lit_escape show ?case by (simp add: skips_Suc)
qed

lemma skipString_lit:
  assumes "lit_body q x" and "q \<in> {chr_dq, chr_sq}" and "ahead lx = q # x @ q # s"
  shows "skipString q lx = skips (length x + 2) lx"
proof -
  have "skip_string_loop q (advance lx) = skips (length x) (advance lx)"
    by (rule skip_string_loop_lit [OF assms(1)]) (use assms in auto)
  moreover have "\<not> at_end (skips (length x) (advance lx))"
    using assms by (simp add: at_end_ahead)
  ultimately show ?thesis
    by (simp add: skipString_def Let_def skips_def funpow_swap1)
qed

lemma close_free_nth:
  "close_free s \<Longrightarrow> Suc k < length s \<Longrightarrow> \<not> (s ! k = CHR ''*'' \<and> s ! Suc k = CHR ''/'')"
proof (induction s arbitrary: k rule: close_free.induct)
  case (1 a b s)
  then show ?case by (cases k) auto
qed auto

lemma skip_block_comment_text:
  assumes cf: "close_free x" and a: "ahead lx = CHR ''/'' # CHR ''*'' # x @ CHR ''*'' # CHR ''/'' # s"
  shows "skip_block_comment lx = skips (length x + 4) lx"
proof -
  let ?l = "advance (advance lx)"
  have al: "ahead ?l = x @ CHR ''*'' # CHR ''/'' # s" using a by simp
  have "adv_while not_comment_end ?l = adv_while not_comment_end (skips (length x) ?l)"
  proof (rule adv_while_run)
    fix k assume k: "k < length x"
    have "ahead (skips k ?l) = drop k x @ CHR ''*'' # CHR ''/'' # s" using k al by simp
    moreover have "drop k x = x ! k # drop (Suc k) x" using k by (rule nth_drop_Cons)
    moreover have "\<not> (x ! k = CHR ''*'' \<and> drop (Suc k) x \<noteq> [] \<and> hd (drop (Suc k) x) = CHR ''/'')"
      using close_free_nth [OF cf, of k] by (auto simp: hd_drop_conv_nth)
    ultimately show "\<not> at_end (skips k ?l) \<and> not_comment_end (skips k ?l)"
      by (cases "drop (Suc k) x") (auto simp: at_end_ahead not_comment_end_def peek_ahead)
  qed
  also have "\<dots> = skips (length x) ?l"
    using al by (subst adv_while.simps) (simp add: not_comment_end_def peek_ahead)
  finally have "adv_while not_comment_end ?l = skips (length x) ?l" .
  moreover have "\<not> at_end (skips (length x) ?l)" using al by (simp add: at_end_ahead)
  ultimately show ?thesis
    by (simp add: skip_block_comment_def Let_def skips_def funpow_swap1 numeral_eq_Suc)
qed

text \<open>The loop runs over a body and keeps the depth.\<close>

lemma opaque_loop_body:
  assumes "cpp_body s" and "ahead lx = s @ CHR ''}'' # t" and "0 < d"
  shows "opaque_loop d lx = opaque_loop d (skips (length s) lx)"
  using assms
proof (induction s arbitrary: lx t d rule: cpp_body.induct)
  case cpp_end
  then show ?case by simp
next
  case (cpp_plain c s)
  have "opaque_loop d lx = opaque_loop d (advance lx)"
    using cpp_plain.prems cpp_plain.hyps
    by (subst opaque_loop.simps)
      (simp add: at_end_ahead peek_ahead is_line_comment_def is_block_comment_def Let_def)
  with cpp_plain show ?case by (simp add: skips_Suc)
next
  case (cpp_slash s)
  have "s @ CHR ''}'' # t \<noteq> [] \<and> hd (s @ CHR ''}'' # t) \<notin> {CHR ''/'', CHR ''*''}"
    using cpp_slash.hyps by (cases s) auto
  then have "opaque_loop d lx = opaque_loop d (advance lx)"
    using cpp_slash.prems
    by (subst opaque_loop.simps)
      (auto simp: at_end_ahead peek_ahead is_line_comment_def is_block_comment_def Let_def hd_conv_nth)
  with cpp_slash show ?case by (simp add: skips_Suc)
next
  case (cpp_braces s u)
  let ?l1 = "skips (length s) (advance lx)"
  have "opaque_loop d lx = opaque_loop (Suc d) (advance lx)"
    using cpp_braces.prems
    by (subst opaque_loop.simps)
      (simp add: at_end_ahead peek_ahead is_line_comment_def is_block_comment_def Let_def)
  also have "\<dots> = opaque_loop (Suc d) ?l1"
    by (rule cpp_braces.IH(1)) (use cpp_braces.prems in auto)
  also have "\<dots> = opaque_loop d (advance ?l1)"
    using cpp_braces.prems
    by (subst opaque_loop.simps)
      (simp add: at_end_ahead peek_ahead is_line_comment_def is_block_comment_def Let_def)
  also have "\<dots> = opaque_loop d (skips (length u) (advance ?l1))"
    by (rule cpp_braces.IH(2)) (use cpp_braces.prems in auto)
  also have "skips (length u) (advance ?l1) = skips (length (CHR ''{'' # s @ CHR ''}'' # u)) lx"
    by (simp add: skips_norm add.commute)
  finally show ?case .
next
  case (cpp_line x s)
  let ?c = "CHR ''/'' # CHR ''/'' # x"
  have "adv_while not_nl lx = skips (length ?c) lx"
    using adv_while_chars [of lx ?c "chr_nl # s @ CHR ''}'' # t" "\<lambda>c. c \<noteq> chr_nl"] cpp_line
    unfolding not_nl_def by (auto simp del: length_Cons)
  moreover have "opaque_loop d lx = opaque_loop d (adv_while not_nl lx)"
    using cpp_line.prems
    by (subst opaque_loop.simps) (simp add: at_end_ahead peek_ahead is_line_comment_def Let_def)
  moreover have "opaque_loop d (skips (length ?c) lx) = opaque_loop d (advance (skips (length ?c) lx))"
    using cpp_line.prems
    by (subst opaque_loop.simps)
      (simp add: at_end_ahead peek_ahead is_line_comment_def is_block_comment_def Let_def)
  moreover have "opaque_loop d (advance (skips (length ?c) lx))
      = opaque_loop d (skips (length s) (advance (skips (length ?c) lx)))"
    by (rule cpp_line.IH) (use cpp_line.prems in auto)
  moreover have "skips (length s) (advance (skips (length ?c) lx))
      = skips (length (?c @ chr_nl # s)) lx"
    by (simp add: skips_norm add.commute)
  ultimately show ?case by simp
next
  case (cpp_block x s)
  have b: "skip_block_comment lx = skips (length x + 4) lx"
    by (rule skip_block_comment_text [OF cpp_block.hyps(1)]) (use cpp_block.prems in simp)
  have "opaque_loop d lx = opaque_loop d (skips (length x + 4) lx)"
    using cpp_block.prems unfolding b [symmetric]
    by (subst opaque_loop.simps)
      (simp add: at_end_ahead peek_ahead is_line_comment_def is_block_comment_def Let_def)
  also have "\<dots> = opaque_loop d (skips (length s) (skips (length x + 4) lx))"
    by (rule cpp_block.IH) (use cpp_block.prems in \<open>auto simp: numeral_eq_Suc\<close>)
  finally show ?case by (simp add: skips_add add.commute add.left_commute numeral_eq_Suc)
next
  case (cpp_literal q x s)
  have b: "skipString q lx = skips (length x + 2) lx"
    by (rule skipString_lit [OF cpp_literal.hyps(2,1)]) (use cpp_literal.prems in simp)
  have "opaque_loop d lx = opaque_loop d (skips (length x + 2) lx)"
    using cpp_literal.prems cpp_literal.hyps unfolding b [symmetric]
    by (subst opaque_loop.simps)
      (auto simp add: at_end_ahead peek_ahead is_line_comment_def is_block_comment_def Let_def)
  also have "\<dots> = opaque_loop d (skips (length s) (skips (length x + 2) lx))"
    by (rule cpp_literal.IH) (use cpp_literal.prems in \<open>auto simp: numeral_eq_Suc\<close>)
  finally show ?case by (simp add: skips_add add.commute add.left_commute numeral_eq_Suc)
qed

lemma lexOpaqueBlock_body:
  assumes b: "cpp_body s" and a: "ahead lx = s @ CHR ''}'' # rest"
  shows "\<exists>t lx'. lexOpaqueBlock lx de = (t, lx', de) \<and> t_kind t = Tok_OpaqueCpp \<and> t_text t = s
     \<and> ahead lx' = rest"
proof -
  let ?l = "skips (length s) lx"
  have al: "ahead ?l = CHR ''}'' # rest" using a by simp
  have "opaque_loop 1 lx = opaque_loop 1 ?l" by (rule opaque_loop_body [OF b a]) simp
  also have "\<dots> = (0, ?l)"
    using al by (subst opaque_loop.simps)
      (simp add: at_end_ahead peek_ahead is_line_comment_def is_block_comment_def Let_def)
  finally have o: "opaque_loop 1 lx = (0, ?l)" .
  have "scanned (lx_pos lx) ?l = s" using a by (simp add: scanned_skips)
  with o al show ?thesis
    by (simp add: lexOpaqueBlock_def Let_def peek_ahead)
qed

end
