(* ===== verification/Ast.thy ===== *)
theory Ast
  imports SourceText
begin

text \<open>
  The surface syntax tree (\<open>compiler/include/openclicknp/ast.hpp\<close>): one record per struct with the
  default member initialisers as constants, and a datatype for each \<open>std::variant\<close>.
\<close>

record opaque_cpp =
  oc_text :: string
  oc_src :: source_range

record signal_param =
  sp_type_name :: string
  sp_field_name :: string
  sp_src :: source_range

record element_decl =
  el_name :: string
  el_n_in_ports :: int
  el_n_out_ports :: int
  el_state :: "opaque_cpp option"
  el_init :: "opaque_cpp option"
  el_handler :: "opaque_cpp option"
  el_signal :: "opaque_cpp option"
  el_signal_params :: "signal_param list"
  el_pipeline_ii :: int
  el_hls_pragmas :: "string list"
  el_src :: source_range

definition element_decl_default :: element_decl where
  "element_decl_default =
     \<lparr>el_name = [], el_n_in_ports = -1, el_n_out_ports = -1, el_state = None, el_init = None,
      el_handler = None, el_signal = None, el_signal_params = [], el_pipeline_ii = 0,
      el_hls_pragmas = [], el_src = range_default\<rparr>"

datatype param_kind = Param_Number | Param_String

record instance_param =
  ip_kind :: param_kind
  ip_text :: string
  ip_src :: source_range

record instance_decl =
  in_type :: string
  in_name :: string
  in_anonymous :: bool
  in_host_control :: bool
  in_autorun :: bool
  in_n_in_ports :: int
  in_n_out_ports :: int
  in_channel_depth :: int
  in_params :: "instance_param list"
  in_src :: source_range

definition instance_decl_default :: instance_decl where
  "instance_decl_default =
     \<lparr>in_type = [], in_name = [], in_anonymous = False, in_host_control = False,
      in_autorun = False, in_n_in_ports = -1, in_n_out_ports = -1, in_channel_depth = 64,
      in_params = [], in_src = range_default\<rparr>"

record port_range =
  pr_lo :: int
  pr_hi :: int
  pr_depth :: int
  pr_src :: source_range

definition port_range_default :: port_range where
  "port_range_default = \<lparr>pr_lo = 0, pr_hi = 0, pr_depth = -1, pr_src = range_default\<rparr>"

record conn_end =
  ce_node_name :: string
  ce_range :: port_range
  ce_src :: source_range

record connection_decl =
  cd_source :: conn_end
  cd_dest :: conn_end
  cd_lossy :: bool
  cd_src :: source_range

datatype group_stmt = Group_Instance instance_decl | Group_Connection connection_decl

record element_group_decl =
  gd_name :: string
  gd_n_in_ports :: int
  gd_n_out_ports :: int
  gd_body :: "group_stmt list"
  gd_src :: source_range

definition element_group_default :: element_group_decl where
  "element_group_default =
     \<lparr>gd_name = [], gd_n_in_ports = -1, gd_n_out_ports = -1, gd_body = [], gd_src = range_default\<rparr>"

record import_decl =
  im_path :: string
  im_src :: source_range

datatype top_stmt =
    Top_Import import_decl
  | Top_Element element_decl
  | Top_Group element_group_decl
  | Top_Instance instance_decl
  | Top_Connection connection_decl

record ast_module =
  md_file :: u32
  md_stmts :: "top_stmt list"

definition module_default :: ast_module where
  "module_default = \<lparr>md_file = 0, md_stmts = []\<rparr>"

text \<open>\<open>parseDeclOrChain\<close> pushes the same statement into a module or into a group body.\<close>

fun top_of_group :: "group_stmt \<Rightarrow> top_stmt" where
  "top_of_group (Group_Instance i) = Top_Instance i"
| "top_of_group (Group_Connection c) = Top_Connection c"

definition mod_push :: "top_stmt list \<Rightarrow> ast_module \<Rightarrow> ast_module" where
  "mod_push ss m = m\<lparr>md_stmts := md_stmts m @ ss\<rparr>"

end
