(* ===== verification/ParserMonad.thy ===== *)
theory ParserMonad
  imports Ast LexerFacts
begin

text \<open>
  The state of a parse and the control flow the productions are written in
  (\<open>compiler/include/openclicknp/parser.hpp\<close>, the helpers of \<open>compiler/src/parse/parser.cpp\<close>).

  A production either returns a value, or returns \<open>false\<close>/\<open>nullopt\<close> with whatever state it reached
  (\<open>Fail\<close>), or does not return normally (\<open>Abort\<close>: an uncaught exception, or a loop out of fuel). The
  C++ loops are \<open>p_while\<close>: its fuel is one more than the measure \<open>ps_left\<close>, the characters and the
  token still to read, which every iteration must lower; the contract \<open>behaved\<close> below implies
  that the fuel is never used up.
\<close>

subsection \<open>State\<close>

text \<open>
  \<open>Parser::State\<close> (lexer, current and previous token, file id) together with the members of the
  parser (\<open>sm_\<close>, \<open>diags_\<close>, \<open>seen_files_\<close>), the statements pushed by the production that is running
  (\<open>push_instance\<close>, \<open>push_conn\<close>) and the file system the process runs against.
\<close>

record pstate =
  ps_fs :: file_system
  ps_lex :: lexer
  ps_cur :: token
  ps_prev :: token
  ps_file :: u32
  ps_diags :: diag_engine
  ps_sm :: source_manager
  ps_seen :: "string set"
  ps_out :: "group_stmt list"

abbreviation n_buffers :: "pstate \<Rightarrow> nat" where
  "n_buffers s \<equiv> length (sm_buffers (ps_sm s))"

datatype 'a outcome = Ok 'a | Fail | Abort

type_synonym 'a parser = "pstate \<Rightarrow> 'a outcome \<times> pstate"

definition p_return :: "'a \<Rightarrow> 'a parser" where
  "p_return a s = (Ok a, s)"

definition p_fail :: "'a parser" where
  "p_fail s = (Fail, s)"

definition p_bind :: "'a parser \<Rightarrow> ('a \<Rightarrow> 'b parser) \<Rightarrow> 'b parser" where
  "p_bind m f s =
     (case m s of
        (Ok a, s') \<Rightarrow> f a s'
      | (Fail, s') \<Rightarrow> (Fail, s')
      | (Abort, s') \<Rightarrow> (Abort, s'))"

definition p_then :: "'a parser \<Rightarrow> 'b parser \<Rightarrow> 'b parser" where
  "p_then m k = p_bind m (\<lambda>_. k)"

definition p_get :: "(pstate \<Rightarrow> 'a) \<Rightarrow> 'a parser" where
  "p_get f s = (Ok (f s), s)"

definition p_if :: "(pstate \<Rightarrow> bool) \<Rightarrow> 'a parser \<Rightarrow> 'a parser \<Rightarrow> 'a parser" where
  "p_if b x y s = (if b s then x s else y s)"

text \<open>The caller looks at a returned \<open>false\<close> and goes on.\<close>

definition p_optional :: "'a parser \<Rightarrow> 'a option parser" where
  "p_optional p s =
     (case p s of
        (Ok a, s') \<Rightarrow> (Ok (Some a), s')
      | (Fail, s') \<Rightarrow> (Ok None, s')
      | (Abort, s') \<Rightarrow> (Abort, s'))"

abbreviation cur_kind :: "pstate \<Rightarrow> tok" where
  "cur_kind s \<equiv> t_kind (ps_cur s)"

subsection \<open>Token helpers\<close>

definition ps_advance :: "pstate \<Rightarrow> pstate" where
  "ps_advance s =
     (let (t, lx, de) = next_token (ps_lex s) (ps_diags s)
      in s\<lparr>ps_prev := ps_cur s, ps_cur := t, ps_lex := lx, ps_diags := de\<rparr>)"

definition p_advance :: "unit parser" where
  "p_advance s = (Ok (), ps_advance s)"

definition p_check :: "tok \<Rightarrow> pstate \<Rightarrow> bool" where
  "p_check k s \<longleftrightarrow> cur_kind s = k"

definition p_accept :: "tok \<Rightarrow> bool parser" where
  "p_accept k s = (if cur_kind s = k then (Ok True, ps_advance s) else (Ok False, s))"

text \<open>\<open>Parser::error\<close> on a token.\<close>

definition p_error :: "token \<Rightarrow> string \<Rightarrow> unit parser" where
  "p_error at msg s = (Ok (), s\<lparr>ps_diags := diag_error (t_range at) msg (ps_diags s)\<rparr>)"

definition p_note :: "token \<Rightarrow> string \<Rightarrow> unit parser" where
  "p_note at msg s = (Ok (), s\<lparr>ps_diags := diag_note (t_range at) msg (ps_diags s)\<rparr>)"

definition p_expect :: "tok \<Rightarrow> string \<Rightarrow> token parser" where
  "p_expect k what s =
     (if cur_kind s = k then (Ok (ps_cur s), ps_advance s)
      else (Ok (token_default\<lparr>t_kind := Tok_Error, t_range := t_range (ps_cur s)\<rparr>),
            s\<lparr>ps_diags := diag_error (t_range (ps_cur s))
                (''expected '' @ what @ '' (got '' @ tokName (cur_kind s) @ '')'') (ps_diags s)\<rparr>))"

text \<open>\<open>Token x = expect(s, k, what); if (x.kind != k) return false;\<close>\<close>

definition p_need :: "tok \<Rightarrow> string \<Rightarrow> token parser" where
  "p_need k what = p_bind (p_expect k what) (\<lambda>t. if t_kind t \<noteq> k then p_fail else p_return t)"

definition p_fail_at :: "token \<Rightarrow> string \<Rightarrow> 'a parser" where
  "p_fail_at at msg = p_then (p_error at msg) p_fail"

subsection \<open>Loops\<close>

text \<open>The characters left, and one more while the current token is not the end of the file.\<close>

definition ps_left :: "pstate \<Rightarrow> nat" where
  "ps_left s = lx_left (ps_lex s) + (if cur_kind s = Tok_Eof then 0 else 1)"

datatype 'a ctl = Continue 'a | Break 'a

primrec p_loop :: "nat \<Rightarrow> (pstate \<Rightarrow> bool) \<Rightarrow> ('a \<Rightarrow> 'a ctl parser) \<Rightarrow> 'a \<Rightarrow> 'a parser" where
  "p_loop 0 c body a s = (Abort, s)"
| "p_loop (Suc n) c body a s =
     (if c s then
        (case body a s of
           (Ok (Continue a'), s') \<Rightarrow> p_loop n c body a' s'
         | (Ok (Break a'), s') \<Rightarrow> (Ok a', s')
         | (Fail, s') \<Rightarrow> (Fail, s')
         | (Abort, s') \<Rightarrow> (Abort, s'))
      else (Ok a, s))"

definition p_while :: "(pstate \<Rightarrow> bool) \<Rightarrow> ('a \<Rightarrow> 'a ctl parser) \<Rightarrow> 'a \<Rightarrow> 'a parser" where
  "p_while c body a s = p_loop (Suc (ps_left s)) c body a s"

subsection \<open>The contract of a production\<close>

text \<open>
  The invariant between productions: the lexer state is consistent, it stands right after the
  current token, the counters match the diagnostics, an error token has been reported, and the
  file being parsed is one of the source manager's buffers.

  One failure leaves the invariant: an unterminated opaque block, after which the lexer is at the
  end of the file while the current token is still the opening brace (\<open>ps_dead\<close>). The flag of the
  contract says whether a production may fail in that state.
\<close>

definition has_errors :: "pstate \<Rightarrow> bool" where
  "has_errors s \<longleftrightarrow> errors_of (de_diags (ps_diags s)) \<noteq> []"

definition ps_base :: "pstate \<Rightarrow> bool" where
  "ps_base s \<longleftrightarrow>
     lx_ok (ps_lex s) \<and> de_ok (ps_diags s) \<and> unat (ps_file s) < n_buffers s"

definition ps_inv :: "pstate \<Rightarrow> bool" where
  "ps_inv s \<longleftrightarrow>
     ps_base s \<and> rng_end (t_range (ps_cur s)) = here (ps_lex s)
     \<and> (cur_kind s = Tok_Error \<longrightarrow> has_errors s)"

definition ps_dead :: "pstate \<Rightarrow> bool" where
  "ps_dead s \<longleftrightarrow> ps_base s \<and> cur_kind s = Tok_LBrace \<and> at_end (ps_lex s)"

text \<open>The canonical name of a path, and the canonical names of readable files not yet parsed.\<close>

definition fs_canon :: "file_system \<Rightarrow> string \<Rightarrow> string" where
  "fs_canon fs p = (case fs_weakly_canonical fs p of Some c \<Rightarrow> c | None \<Rightarrow> p)"

definition readable :: "file_system \<Rightarrow> string set" where
  "readable fs = {fs_canon fs p |p. fs_read fs p \<noteq> None}"

definition unread :: "pstate \<Rightarrow> string set" where
  "unread s = readable (ps_fs s) - ps_seen s"

text \<open>
  What a step may change: it reads forward, appends diagnostics, keeps the file, and a new buffer
  is a file that had not been read.
\<close>

definition ps_step :: "pstate \<Rightarrow> pstate \<Rightarrow> bool" where
  "ps_step s s' \<longleftrightarrow>
     ps_left s' \<le> ps_left s \<and> lx_buf (ps_lex s') = lx_buf (ps_lex s)
     \<and> diag_extends (ps_diags s) (ps_diags s') \<and> ps_file s' = ps_file s
     \<and> ps_fs s' = ps_fs s \<and> ps_seen s \<subseteq> ps_seen s' \<and> n_buffers s \<le> n_buffers s'
     \<and> n_buffers s' + card (unread s') \<le> n_buffers s + card (unread s)"

definition res_ok :: "bool \<Rightarrow> pstate \<Rightarrow> 'a outcome \<Rightarrow> pstate \<Rightarrow> bool" where
  "res_ok d s r s' \<longleftrightarrow>
     ps_step s s' \<and> r \<noteq> Abort \<and> (r = Fail \<longrightarrow> has_errors s')
     \<and> (ps_inv s' \<or> (d \<and> r = Fail \<and> ps_dead s'))"

definition behaved :: "bool \<Rightarrow> 'a parser \<Rightarrow> bool" where
  "behaved d p \<longleftrightarrow> (\<forall>s r s'. ps_inv s \<longrightarrow> p s = (r, s') \<longrightarrow> res_ok d s r s')"

text \<open>A production that returns only after it has read at least one token.\<close>

definition consuming :: "'a parser \<Rightarrow> bool" where
  "consuming p \<longleftrightarrow> (\<forall>s r s'. ps_inv s \<longrightarrow> p s = (Ok r, s') \<longrightarrow> ps_left s' < ps_left s)"

lemma ps_step_refl [simp]: "ps_step s s"
  by (simp add: ps_step_def)

lemma ps_step_trans [trans]: "ps_step a b \<Longrightarrow> ps_step b c \<Longrightarrow> ps_step a c"
  by (auto simp: ps_step_def intro: diag_extends_trans)

lemma ps_step_left: "ps_step a b \<Longrightarrow> ps_left b \<le> ps_left a"
  by (simp add: ps_step_def)

lemma res_okD:
  assumes "res_ok d s r s'"
  shows "ps_step s s'" "r \<noteq> Abort" "r = Fail \<Longrightarrow> has_errors s'" "r \<noteq> Fail \<Longrightarrow> ps_inv s'"
  using assms by (auto simp: res_ok_def)

lemma res_ok_trans: "ps_step a b \<Longrightarrow> res_ok d b r c \<Longrightarrow> res_ok d a r c"
  by (auto simp: res_ok_def intro: ps_step_trans)

lemma res_ok_weaken: "res_ok False s r s' \<Longrightarrow> res_ok d s r s'"
  by (auto simp: res_ok_def)

lemma has_errors_extends:
  "has_errors s \<Longrightarrow> diag_extends (ps_diags s) (ps_diags s') \<Longrightarrow> has_errors s'"
  by (auto simp: has_errors_def diag_extends_def)

lemma has_errors_step: "has_errors s \<Longrightarrow> ps_step s s' \<Longrightarrow> has_errors s'"
  by (simp add: has_errors_extends ps_step_def)

lemma behavedI: "(\<And>s r s'. ps_inv s \<Longrightarrow> p s = (r, s') \<Longrightarrow> res_ok d s r s') \<Longrightarrow> behaved d p"
  by (simp add: behaved_def)

lemma behavedD: "behaved d p \<Longrightarrow> ps_inv s \<Longrightarrow> p s = (r, s') \<Longrightarrow> res_ok d s r s'"
  by (simp add: behaved_def)

lemma behaved_weaken: "behaved False p \<Longrightarrow> behaved d p"
  by (simp add: behaved_def res_ok_weaken)

lemma ps_advance_left: "cur_kind s \<noteq> Tok_Eof \<Longrightarrow> ps_left (ps_advance s) < ps_left s"
proof -
  assume c: "cur_kind s \<noteq> Tok_Eof"
  obtain t lx de where n: "next_token (ps_lex s) (ps_diags s) = (t, lx, de)"
    by (metis prod_cases3)
  have "lx_left lx \<le> lx_left (ps_lex s)" by (rule moves_left [OF next_token_moves [OF n]])
  with next_token_left [OF n] c n show ?thesis by (auto simp: ps_left_def ps_advance_def)
qed

lemma next_token_error_reported:
  "next_token lx de = (t, lx', de') \<Longrightarrow> t_kind t = Tok_Error \<Longrightarrow> errors_of (de_diags de') \<noteq> []"
  by (erule next_token_step) (auto simp: token_step_def split: if_splits)

lemma ps_advance_ok:
  assumes "ps_base s"
  shows "ps_inv (ps_advance s)" and "ps_step s (ps_advance s)"
proof -
  obtain t lx de where n: "next_token (ps_lex s) (ps_diags s) = (t, lx, de)"
    by (metis prod_cases3)
  note mv = next_token_moves [OF n]
  have "ps_left (ps_advance s) \<le> ps_left s"
  proof (cases "cur_kind s = Tok_Eof")
    case True
    have "lx_left lx \<le> lx_left (ps_lex s)" by (rule moves_left [OF mv])
    with True next_token_left [OF n] n show ?thesis by (auto simp: ps_left_def ps_advance_def)
  next
    case False
    then show ?thesis using ps_advance_left by fastforce
  qed
  then show "ps_step s (ps_advance s)"
    using n next_token_extends [OF n] moves_buf [OF mv] by (simp add: ps_step_def ps_advance_def unread_def)
  have "lx_ok lx" using assms lx_ok_moves [OF mv] by (simp add: ps_base_def)
  then show "ps_inv (ps_advance s)"
    using assms n next_token_end [OF n] next_token_de_ok [OF n] next_token_error_reported [OF n]
    by (auto simp: ps_inv_def ps_base_def ps_advance_def has_errors_def)
qed

lemma ps_inv_base: "ps_inv s \<Longrightarrow> ps_base s"
  by (simp add: ps_inv_def)

lemma ps_diag_error_ok:
  assumes "ps_inv s"
  shows "ps_inv (s\<lparr>ps_diags := diag_error r m (ps_diags s)\<rparr>)"
    and "ps_step s (s\<lparr>ps_diags := diag_error r m (ps_diags s)\<rparr>)"
    and "has_errors (s\<lparr>ps_diags := diag_error r m (ps_diags s)\<rparr>)"
  using assms by (auto simp: ps_step_def ps_inv_def ps_base_def ps_left_def has_errors_def de_ok_error unread_def)

text \<open>
  \<open>wb_intros\<close> closes the question whether a composed production keeps the contract, and
  \<open>wb_unfolds\<close> collects the bodies of the elementary ones.
\<close>

named_theorems wb_intros

lemmas wb_elementary =
  behaved_def res_ok_def ps_advance_ok ps_diag_error_ok ps_inv_base

lemma wb_return [wb_intros]: "behaved d (p_return a)"
  by (auto simp: p_return_def wb_elementary)

lemma wb_get [wb_intros]: "behaved d (p_get f)"
  by (auto simp: p_get_def wb_elementary)

lemma wb_advance [wb_intros]: "behaved d p_advance"
  by (auto simp: p_advance_def wb_elementary)

lemma wb_accept [wb_intros]: "behaved d (p_accept k)"
  by (auto simp: p_accept_def wb_elementary split: if_splits)

lemma wb_error [wb_intros]: "behaved d (p_error at msg)"
  by (auto simp: p_error_def wb_elementary)

lemma wb_expect [wb_intros]: "behaved d (p_expect k w)"
  by (auto simp: p_expect_def wb_elementary split: if_splits)

lemma wb_fail_at [wb_intros]: "behaved d (p_fail_at at msg)"
  by (auto simp: p_fail_at_def p_then_def p_bind_def p_error_def p_fail_def wb_elementary)

lemma wb_need [wb_intros]: "k \<noteq> Tok_Error \<Longrightarrow> behaved d (p_need k w)"
  by (auto simp: p_need_def p_bind_def p_expect_def p_fail_def p_return_def wb_elementary
      split: if_splits)

lemma wb_bind [wb_intros]:
  assumes m: "behaved d m" and f: "\<And>a. behaved d (f a)"
  shows "behaved d (p_bind m f)"
proof (rule behavedI)
  fix s r s'
  assume inv: "ps_inv s" and eq: "p_bind m f s = (r, s')"
  obtain r1 s1 where m1: "m s = (r1, s1)" by fastforce
  note w1 = behavedD [OF m inv m1]
  show "res_ok d s r s'"
  proof (cases r1)
    case (Ok a)
    then have "f a s1 = (r, s')" using eq m1 by (simp add: p_bind_def)
    then have "res_ok d s1 r s'" using behavedD [OF f] res_okD(4) [OF w1] Ok by simp
    with res_okD(1) [OF w1] show ?thesis by (rule res_ok_trans)
  qed (use w1 eq m1 in \<open>auto simp: p_bind_def res_ok_def\<close>)
qed

lemma wb_then [wb_intros]: "behaved d m \<Longrightarrow> behaved d k \<Longrightarrow> behaved d (p_then m k)"
  by (simp add: p_then_def wb_bind)

lemma wb_if [wb_intros]: "behaved d x \<Longrightarrow> behaved d y \<Longrightarrow> behaved d (p_if b x y)"
  by (auto simp: behaved_def p_if_def)

lemma wb_HOL_if [wb_intros]:
  "(b \<Longrightarrow> behaved d x) \<Longrightarrow> (\<not> b \<Longrightarrow> behaved d y) \<Longrightarrow> behaved d (if b then x else y)"
  by simp

lemma wb_option [wb_intros]:
  "(o1 = None \<Longrightarrow> behaved d x) \<Longrightarrow> (\<And>a. o1 = Some a \<Longrightarrow> behaved d (y a)) \<Longrightarrow>
   behaved d (case o1 of None \<Rightarrow> x | Some a \<Rightarrow> y a)"
  by (cases o1) simp_all

lemma wb_optional [wb_intros]: "behaved False p \<Longrightarrow> behaved d (p_optional p)"
  unfolding behaved_def p_optional_def res_ok_def
  by (fastforce split: prod.splits outcome.splits)

lemma consuming_need: "k \<noteq> Tok_Error \<Longrightarrow> k \<noteq> Tok_Eof \<Longrightarrow> consuming (p_need k w)"
  by (auto simp: consuming_def p_need_def p_bind_def p_expect_def p_fail_def p_return_def
      ps_advance_left split: if_splits)

lemma consuming_bind:
  assumes "consuming m" and "behaved d m" and "\<And>a. behaved d (f a)"
  shows "consuming (p_bind m f)"
  unfolding consuming_def
proof (intro allI impI)
  fix s r s'
  assume inv: "ps_inv s" and eq: "p_bind m f s = (Ok r, s')"
  obtain r1 s1 where m1: "m s = (r1, s1)" by fastforce
  then obtain a where a: "r1 = Ok a" using eq by (cases r1) (auto simp: p_bind_def)
  have "f a s1 = (Ok r, s')" using eq m1 a by (simp add: p_bind_def)
  moreover have "ps_inv s1" using res_okD(4) [OF behavedD [OF assms(2) inv m1]] a by simp
  ultimately have "ps_left s' \<le> ps_left s1"
    using behavedD [OF assms(3)] res_okD(1) ps_step_left by blast
  moreover have "ps_left s1 < ps_left s" using assms(1) inv m1 a by (auto simp: consuming_def)
  ultimately show "ps_left s' < ps_left s" by simp
qed

text \<open>
  A loop keeps the contract when its body does and every iteration that goes on reads at least
  one token: the fuel is larger than the number of iterations the measure allows. The condition
  \<open>Q\<close> is one that steps cannot destroy.
\<close>

definition stable :: "(pstate \<Rightarrow> bool) \<Rightarrow> bool" where
  "stable Q \<longleftrightarrow> (\<forall>s s'. ps_step s s' \<longrightarrow> Q s \<longrightarrow> Q s')"

definition body_ok :: "bool \<Rightarrow> ('a \<Rightarrow> bool) \<Rightarrow> pstate \<Rightarrow> 'a ctl outcome \<Rightarrow> pstate \<Rightarrow> bool" where
  "body_ok d P s r s' \<longleftrightarrow>
     res_ok d s r s'
     \<and> (\<forall>a. r = Ok (Continue a) \<longrightarrow> P a \<and> ps_left s' < ps_left s) \<and> (\<forall>a. r = Ok (Break a) \<longrightarrow> P a)"

lemma p_loop_ok:
  assumes body: "\<And>a s r s'. ps_inv s \<Longrightarrow> Q s \<Longrightarrow> P a \<Longrightarrow> c s \<Longrightarrow> body a s = (r, s') \<Longrightarrow> body_ok d P s r s'"
    and Q: "stable Q"
    and "ps_inv s" and "Q s" and "P a" and "ps_left s < n" and "p_loop n c body a s = (r, s')"
  shows "res_ok d s r s' \<and> (\<forall>a'. r = Ok a' \<longrightarrow> P a')"
  using assms(3-7)
proof (induction n arbitrary: a s)
  case 0
  then show ?case by simp
next
  case (Suc n)
  show ?case
  proof (cases "c s")
    case False
    with Suc.prems show ?thesis by (auto simp: res_ok_def)
  next
    case True
    obtain r1 s1 where b: "body a s = (r1, s1)" by fastforce
    have bo: "body_ok d P s r1 s1" by (rule body [OF Suc.prems(1-3) True b])
    then have w: "res_ok d s r1 s1" by (simp add: body_ok_def)
    show ?thesis
    proof (cases r1)
      case (Ok x)
      show ?thesis
      proof (cases x)
        case (Continue a')
        then have "ps_left s1 < ps_left s" "P a'" using bo Ok by (simp_all add: body_ok_def)
        moreover have "p_loop n c body a' s1 = (r, s')"
          using Suc.prems(5) True b Ok Continue by simp
        moreover have "ps_inv s1" using res_okD(4) [OF w] Ok by simp
        moreover have "Q s1" using Q res_okD(1) [OF w] Suc.prems(2) unfolding stable_def by blast
        ultimately have "res_ok d s1 r s' \<and> (\<forall>a'. r = Ok a' \<longrightarrow> P a')"
          using Suc.prems(4) by (intro Suc.IH) simp_all
        with res_ok_trans [OF res_okD(1) [OF w]] show ?thesis by blast
      next
        case (Break a')
        with Suc.prems True b Ok bo show ?thesis by (auto simp: res_ok_def body_ok_def)
      qed
    next
      case Fail
      with Suc.prems True b w show ?thesis by (auto simp: res_ok_def)
    next
      case Abort
      with res_okD(2) [OF w] show ?thesis by simp
    qed
  qed
qed

definition progressing :: "(pstate \<Rightarrow> bool) \<Rightarrow> 'a ctl parser \<Rightarrow> bool" where
  "progressing c p \<longleftrightarrow>
     (\<forall>s a s'. ps_inv s \<longrightarrow> c s \<longrightarrow> p s = (Ok (Continue a), s') \<longrightarrow> ps_left s' < ps_left s)"

lemma stable_True [simp]: "stable (\<lambda>_. True)"
  by (simp add: stable_def)

lemma wb_while:
  assumes "\<And>a. behaved d (body a)" and "\<And>a. progressing c (body a)"
  shows "behaved d (p_while c body a)"
proof (rule behavedI)
  fix s r s'
  assume inv: "ps_inv s" and eq: "p_while c body a s = (r, s')"
  have bo: "body_ok d (\<lambda>_. True) s1 r1 s1'" if "ps_inv s1" "c s1" "body b s1 = (r1, s1')" for b s1 r1 s1'
    using that assms by (auto simp: body_ok_def behaved_def progressing_def)
  have "res_ok d s r s' \<and> (\<forall>a'. r = Ok a' \<longrightarrow> True)"
    by (rule p_loop_ok [where Q = "\<lambda>_. True" and n = "Suc (ps_left s)", OF _ stable_True inv _ _ _
          eq [unfolded p_while_def]]) (use bo in auto)
  then show "res_ok d s r s'" by simp
qed

lemma progressing_consuming: "consuming p \<Longrightarrow> progressing c p"
  by (auto simp: consuming_def progressing_def)

text \<open>A body that starts by reading a token the loop condition has seen.\<close>

lemma progressing_advance:
  assumes "\<And>s. c s \<Longrightarrow> cur_kind s \<noteq> Tok_Eof" and "\<And>a. behaved d (f a)"
  shows "progressing c (p_bind p_advance f)"
  unfolding progressing_def
proof (intro allI impI)
  fix s a s'
  assume inv: "ps_inv s" and c: "c s" and eq: "p_bind p_advance f s = (Ok (Continue a), s')"
  have "f () (ps_advance s) = (Ok (Continue a), s')"
    using eq by (simp add: p_bind_def p_advance_def)
  then have "ps_left s' \<le> ps_left (ps_advance s)"
    using behavedD [OF assms(2)] ps_advance_ok(1) [OF ps_inv_base [OF inv]]
      res_okD(1) ps_step_left by blast
  then show "ps_left s' < ps_left s" using ps_advance_left [OF assms(1) [OF c]] by simp
qed

subsection \<open>What a returned value satisfies\<close>

text \<open>Partial correctness of the value alone; a loop carries the predicate through its accumulator.\<close>

definition yields :: "('a \<Rightarrow> bool) \<Rightarrow> 'a parser \<Rightarrow> bool" where
  "yields P p \<longleftrightarrow> (\<forall>s a s'. p s = (Ok a, s') \<longrightarrow> P a)"

fun ctl_value :: "'a ctl \<Rightarrow> 'a" where
  "ctl_value (Continue a) = a"
| "ctl_value (Break a) = a"

named_theorems yields_intros

lemma yields_return [yields_intros]: "P a \<Longrightarrow> yields P (p_return a)"
  by (simp add: yields_def p_return_def)

lemma yields_fail [yields_intros]: "yields P p_fail"
  by (simp add: yields_def p_fail_def)

lemma yields_bind': "yields R m \<Longrightarrow> (\<And>a. R a \<Longrightarrow> yields P (f a)) \<Longrightarrow> yields P (p_bind m f)"
  unfolding yields_def p_bind_def by (fastforce split: prod.splits outcome.splits)

lemma yields_bind [yields_intros]: "(\<And>a. yields P (f a)) \<Longrightarrow> yields P (p_bind m f)"
  unfolding yields_def p_bind_def by (fastforce split: prod.splits outcome.splits)

lemma yields_then [yields_intros]: "yields P k \<Longrightarrow> yields P (p_then m k)"
  by (simp add: p_then_def yields_bind)

lemma yields_fail_at [yields_intros]: "yields P (p_fail_at t m)"
  by (simp add: p_fail_at_def yields_then yields_fail)

lemma yields_if [yields_intros]: "yields P x \<Longrightarrow> yields P y \<Longrightarrow> yields P (p_if b x y)"
  by (simp add: yields_def p_if_def)

lemma yields_HOL_if [yields_intros]:
  "(b \<Longrightarrow> yields P x) \<Longrightarrow> (\<not> b \<Longrightarrow> yields P y) \<Longrightarrow> yields P (if b then x else y)"
  by simp

lemma yields_loop:
  assumes "\<And>a. P a \<Longrightarrow> yields (\<lambda>x. P (ctl_value x)) (body a)"
  shows "P a \<Longrightarrow> yields P (p_loop n c body a)"
proof (induction n arbitrary: a)
  case 0
  then show ?case by (simp add: yields_def)
next
  case (Suc n)
  then show ?case
    using assms [OF Suc.prems] unfolding yields_def
    by (fastforce split: if_splits prod.splits outcome.splits ctl.splits)
qed

lemma yields_while:
  "P a \<Longrightarrow> (\<And>a. P a \<Longrightarrow> yields (\<lambda>x. P (ctl_value x)) (body a)) \<Longrightarrow> yields P (p_while c body a)"
  using yields_loop [of P body a] unfolding yields_def p_while_def by blast

end
