(* ===== verification/Parser.thy ===== *)
theory Parser
  imports ParserMonad
begin

text \<open>
  The productions of \<open>compiler/src/parse/parser.cpp\<close>, in the order of the source. A production that
  fills in a declaration takes the declaration and returns the updated one; a production that
  pushes statements pushes them to \<open>ps_out\<close> (\<open>p_collect\<close> hands them to the module or the group
  body).
\<close>

subsection \<open>Blocks of opaque C++\<close>

definition parseBraceBlock :: "opaque_cpp parser" where
  "parseBraceBlock s =
     (if cur_kind s \<noteq> Tok_LBrace then
        p_fail_at (ps_cur s) (''expected `{` (got '' @ tokName (cur_kind s) @ '')'') s
      else
        let lb_begin = rng_begin (t_range (ps_cur s));
            after_lb = loc_offset (rng_end (t_range (ps_cur s)));
            (body, lx1, de1) = lexOpaqueBlock (seekTo after_lb (ps_lex s)) (ps_diags s)
        in if t_kind body = Tok_Error then (Fail, s\<lparr>ps_lex := lx1, ps_diags := de1\<rparr>)
           else
             let (t, lx2, de2) = next_token lx1 de1
             in (Ok \<lparr>oc_text = t_text body, oc_src = mk_range lb_begin (rng_end (t_range body))\<rparr>,
                 s\<lparr>ps_cur := t, ps_lex := lx2, ps_diags := de2\<rparr>))"

definition parseSignalParam :: "signal_param parser" where
  "parseSignalParam =
     p_bind (p_need Tok_Ident ''signal parameter type'') (\<lambda>ty.
     p_bind (p_need Tok_Ident ''signal parameter name'') (\<lambda>nm.
     p_return \<lparr>sp_type_name = t_text ty, sp_field_name = t_text nm,
               sp_src = mk_range (rng_begin (t_range ty)) (rng_end (t_range nm))\<rparr>))"

subsection \<open>Element bodies\<close>

definition not_rbrace :: "pstate \<Rightarrow> bool" where
  "not_rbrace s \<longleftrightarrow> cur_kind s \<noteq> Tok_RBrace \<and> cur_kind s \<noteq> Tok_Eof"

definition not_rparen :: "pstate \<Rightarrow> bool" where
  "not_rparen s \<longleftrightarrow> cur_kind s \<noteq> Tok_RParen \<and> cur_kind s \<noteq> Tok_Eof"

definition signal_params :: "element_decl \<Rightarrow> element_decl parser" where
  "signal_params =
     p_while not_rparen (\<lambda>e.
       p_bind parseSignalParam (\<lambda>p.
       p_bind (p_accept Tok_Comma) (\<lambda>more.
       let e' = e\<lparr>el_signal_params := el_signal_params e @ [p]\<rparr>
       in p_return (if more then Continue e' else Break e'))))"

definition signal_item :: "element_decl \<Rightarrow> element_decl parser" where
  "signal_item e =
     p_bind (p_accept Tok_LParen) (\<lambda>lp.
     p_bind (if lp then p_bind (signal_params e) (\<lambda>e'. p_then (p_expect Tok_RParen ''`)`'') (p_return e'))
             else p_return e) (\<lambda>e'.
     p_bind parseBraceBlock (\<lambda>b. p_return (e'\<lparr>el_signal := Some b\<rparr>))))"

definition hls_pragma_item :: "element_decl \<Rightarrow> element_decl parser" where
  "hls_pragma_item e =
     p_then (p_need Tok_LBrace ''`{` after .hls_pragma'')
    (p_bind (p_while not_rbrace (\<lambda>e1.
               p_bind (p_need Tok_StringLit ''HLS directive string'') (\<lambda>str.
               p_then (p_expect Tok_Semicolon ''`;` after HLS directive'')
               (p_return (Continue (e1\<lparr>el_hls_pragmas := el_hls_pragmas e1 @ [t_text str]\<rparr>))))) e) (\<lambda>e'.
     p_then (p_expect Tok_RBrace ''`}` to close .hls_pragma block'') (p_return e')))"

text \<open>The right-hand side of \<open>ii = N\<close>; \<open>None\<close> of \<open>stoi\<close> is the exception that is caught.\<close>

definition timing_ii :: "token \<Rightarrow> element_decl \<Rightarrow> element_decl parser" where
  "timing_ii val e =
     (case stoi (t_text val) of
        None \<Rightarrow> p_fail_at val ''invalid integer for ii''
      | Some ii \<Rightarrow>
          if ii < 1 \<or> 64 < ii then p_fail_at val ''ii must be in [1, 64]''
          else p_return (e\<lparr>el_pipeline_ii := ii\<rparr>))"

definition timing_entry :: "element_decl \<Rightarrow> element_decl parser" where
  "timing_entry e =
     p_bind (p_need Tok_Ident ''timing key (e.g. `ii`)'') (\<lambda>key.
     p_then (p_need Tok_Equals ''`=` after timing key'')
    (p_bind (p_need Tok_Integer ''integer value'') (\<lambda>val.
     p_bind (if t_text key = ''ii'' then timing_ii val e
             else p_fail_at key (''unknown timing key `'' @ t_text key @ ''` (only `ii` supported)'')) (\<lambda>e'.
     p_then (p_expect Tok_Semicolon ''`;` after timing entry'') (p_return e')))))"

definition timing_item :: "element_decl \<Rightarrow> element_decl parser" where
  "timing_item e =
     p_then (p_need Tok_LBrace ''`{` after .timing'')
    (p_bind (p_while not_rbrace (\<lambda>e1. p_bind (timing_entry e1) (\<lambda>e2. p_return (Continue e2))) e) (\<lambda>e'.
     p_then (p_expect Tok_RBrace ''`}` to close .timing block'') (p_return e')))"

text \<open>One iteration of the loop over the items of an element body.\<close>

definition body_item :: "element_decl \<Rightarrow> element_decl parser" where
  "body_item e =
     p_bind (p_get cur_kind) (\<lambda>k.
     if k = Tok_KwState then
       p_then p_advance (p_bind parseBraceBlock (\<lambda>b. p_return (e\<lparr>el_state := Some b\<rparr>)))
     else if k = Tok_KwInit then
       p_then p_advance (p_bind parseBraceBlock (\<lambda>b. p_return (e\<lparr>el_init := Some b\<rparr>)))
     else if k = Tok_KwHandler then
       p_then p_advance (p_bind parseBraceBlock (\<lambda>b. p_return (e\<lparr>el_handler := Some b\<rparr>)))
     else if k = Tok_KwSignal then p_then p_advance (signal_item e)
     else if k = Tok_KwHlsPragma then p_then p_advance (hls_pragma_item e)
     else if k = Tok_KwTiming then p_then p_advance (timing_item e)
     else p_bind (p_get ps_cur) (\<lambda>t.
       p_fail_at t (''unexpected token in element body: '' @ tokName k)))"

definition parseElementBody :: "element_decl \<Rightarrow> element_decl parser" where
  "parseElementBody e =
     p_then (p_need Tok_LBrace ''`{` to begin element body'')
    (p_bind (p_while not_rbrace (\<lambda>e1. p_bind (body_item e1) (\<lambda>e2. p_return (Continue e2))) e) (\<lambda>e'.
     p_then (p_expect Tok_RBrace ''`}`'') (p_return e')))"

text \<open>The optional \<open><in, out>\<close> after the name of an element or a group.\<close>

definition port_counts :: "(int \<times> int) parser" where
  "port_counts =
     p_bind (p_accept Tok_LAngle) (\<lambda>la.
     if la then
       p_bind (p_need Tok_Integer ''input port count'') (\<lambda>i.
       p_then (p_expect Tok_Comma ''`,`'')
      (p_bind (p_need Tok_Integer ''output port count'') (\<lambda>o1.
       p_then (p_expect Tok_RAngle ''`>`'') (p_return (int_of_u64 (t_int i), int_of_u64 (t_int o1))))))
     else p_return (-1, -1))"

definition parseElementDecl :: "element_decl parser" where
  "parseElementDecl =
     p_bind (p_get ps_cur) (\<lambda>kw.
     p_then p_advance
    (p_bind (p_need Tok_Ident ''element name'') (\<lambda>name.
     p_bind port_counts (\<lambda>(i, o1).
     parseElementBody
       (element_decl_default\<lparr>el_name := t_text name,
          el_src := mk_range (rng_begin (t_range kw)) (rng_end (t_range name)),
          el_n_in_ports := i, el_n_out_ports := o1\<rparr>)))))"

subsection \<open>Instances and connection chains\<close>

definition p_push :: "group_stmt \<Rightarrow> unit parser" where
  "p_push g s = (Ok (), s\<lparr>ps_out := ps_out s @ [g]\<rparr>)"

text \<open>The loop accumulates the two flags (host control, autorun).\<close>

definition parseHostQualifier :: "(bool \<times> bool) parser" where
  "parseHostQualifier =
     p_while (\<lambda>s. cur_kind s = Tok_At \<or> cur_kind s = Tok_Amp) (\<lambda>(h, a).
       p_bind (p_get cur_kind) (\<lambda>k.
       p_then p_advance (p_return (Continue (if k = Tok_At then (True, a) else (h, True))))))
       (False, False)"

text \<open>\<open>[lo]\<close>, \<open>[lo-hi]\<close>, with an optional \<open>*depth\<close> before the closing bracket.\<close>

definition range_body :: "port_range parser" where
  "range_body =
     p_bind (p_get ps_cur) (\<lambda>lb.
     p_then p_advance
    (p_bind (p_need Tok_Integer ''port number'') (\<lambda>n1.
     p_bind (p_accept Tok_Dash) (\<lambda>dash.
     p_bind (if dash then p_bind (p_need Tok_Integer ''port number'') (\<lambda>n2. p_return (int_of_u64 (t_int n2)))
             else p_return (int_of_u64 (t_int n1))) (\<lambda>hi.
     p_bind (p_accept Tok_Star) (\<lambda>star.
     p_bind (if star then p_bind (p_need Tok_Integer ''channel depth'') (\<lambda>nd. p_return (int_of_u64 (t_int nd)))
             else p_return (-1)) (\<lambda>depth.
     p_bind (p_expect Tok_RBracket ''`]`'') (\<lambda>rb.
     p_return \<lparr>pr_lo = int_of_u64 (t_int n1), pr_hi = hi, pr_depth = depth,
               pr_src = mk_range (rng_begin (t_range lb)) (rng_end (t_range rb))\<rparr>))))))))"

definition parseOptionalRange :: "port_range option parser" where
  "parseOptionalRange =
     p_if (\<lambda>s. cur_kind s \<noteq> Tok_LBracket) (p_return None) (p_optional range_body)"

definition instance_param_of :: "token \<Rightarrow> instance_param" where
  "instance_param_of t =
     \<lparr>ip_kind = (if t_kind t = Tok_Integer then Param_Number else Param_String),
      ip_text = t_text t, ip_src = t_range t\<rparr>"

text \<open>
  The two loops over further parameters. The condition \<open>accept(s, Comma)\<close> reads the comma; on
  another token the loop of a declaration reports and fails, the loop of an anonymous instance
  stops.
\<close>

definition params_loop :: "bool \<Rightarrow> instance_param list \<Rightarrow> instance_param list parser" where
  "params_loop strict =
     p_while (\<lambda>s. cur_kind s = Tok_Comma) (\<lambda>ps.
       p_then p_advance (p_bind (p_get ps_cur) (\<lambda>t.
         if t_kind t = Tok_Integer \<or> t_kind t = Tok_StringLit
         then p_then p_advance (p_return (Continue (ps @ [instance_param_of t])))
         else if strict then p_fail_at t ''expected number or string param''
         else p_return (Break ps))))"

text \<open>What stands between the parentheses: port counts, depth, parameters.\<close>

definition paren_args :: "bool \<Rightarrow> (int \<times> int \<times> int \<times> instance_param list) parser" where
  "paren_args strict =
     p_bind (p_need Tok_Integer ''input port count'') (\<lambda>i.
     p_then (p_expect Tok_Comma ''`,`'')
    (p_bind (p_need Tok_Integer ''output port count'') (\<lambda>o1.
     p_bind (p_accept Tok_Star) (\<lambda>star.
     p_bind (if star then p_bind (p_need Tok_Integer ''channel depth'') (\<lambda>d. p_return (int_of_u64 (t_int d)))
             else p_return 64) (\<lambda>depth.
     p_bind (params_loop strict []) (\<lambda>ps.
     p_then (p_expect Tok_RParen ''`)`'')
     (p_return (int_of_u64 (t_int i), int_of_u64 (t_int o1), depth, ps))))))))"

text \<open>\<open>Type :: name ...\<close>, from the double colon on.\<close>

definition instance_rest :: "token \<Rightarrow> unit parser" where
  "instance_rest first =
     p_then p_advance
    (p_bind (p_need Tok_Ident ''instance name'') (\<lambda>name.
     p_bind parseHostQualifier (\<lambda>(h, a).
     p_bind (p_accept Tok_LParen) (\<lambda>lp.
     p_bind (if lp then paren_args True else p_return (-1, -1, 64, [])) (\<lambda>(i, o1, depth, ps).
     p_then (p_accept Tok_Semicolon)
     (p_push (Group_Instance
        \<lparr>in_type = t_text first, in_name = t_text name, in_anonymous = False, in_host_control = h,
         in_autorun = a, in_n_in_ports = i, in_n_out_ports = o1, in_channel_depth = depth,
         in_params = ps,
         in_src = mk_range (rng_begin (t_range first)) (rng_end (t_range name))\<rparr>)))))))"

text \<open>The name of an anonymous instance: its type and where it is written.\<close>

definition anon_name :: "token \<Rightarrow> string" where
  "anon_name t =
     t_text t @ ''__anon_'' @ nat_str (unat (loc_line (rng_begin (t_range t)))) @ ''_''
       @ nat_str (unat (loc_column (rng_begin (t_range t))))"

text \<open>
  A node of a chain after its identifier: an anonymous instance is pushed and its generated name
  returned, otherwise the identifier is the name (\<open>make_or_use_first\<close>, and the same code for a
  node after an arrow).
\<close>

definition node_name :: "token \<Rightarrow> string parser" where
  "node_name t =
     p_if (p_check Tok_LParen)
       (p_then p_advance
       (p_bind (paren_args False) (\<lambda>(i, o1, depth, ps).
        p_bind (p_get (\<lambda>s. rng_end (t_range (ps_prev s)))) (\<lambda>e.
        p_then (p_push (Group_Instance
          (instance_decl_default\<lparr>in_type := t_text t, in_name := anon_name t, in_anonymous := True,
             in_n_in_ports := i, in_n_out_ports := o1, in_channel_depth := depth, in_params := ps,
             in_src := mk_range (rng_begin (t_range t)) e\<rparr>)))
        (p_return (anon_name t))))))
       (p_return (t_text t))"

text \<open>The connection end of a node: the trailing range wins over the leading one.\<close>

definition node_end :: "port_range option \<Rightarrow> token \<Rightarrow> string \<Rightarrow> conn_end parser" where
  "node_end leading t name =
     p_bind (p_get (\<lambda>s. rng_end (t_range (ps_prev s)))) (\<lambda>e.
     p_bind parseOptionalRange (\<lambda>trailing.
     p_return \<lparr>ce_node_name = name,
               ce_range = (case trailing of Some r \<Rightarrow> r
                           | None \<Rightarrow> (case leading of Some r \<Rightarrow> r | None \<Rightarrow> port_range_default)),
               ce_src = mk_range (rng_begin (t_range t)) e\<rparr>))"

definition skip_if :: "tok \<Rightarrow> unit parser" where
  "skip_if k = p_if (p_check k) p_advance (p_return ())"

text \<open>A production that no other one calls: an end of a connection with its range before or after the name.\<close>

definition parseConnEnd :: "conn_end parser" where
  "parseConnEnd =
     p_bind (p_get (\<lambda>s. rng_begin (t_range (ps_cur s)))) (\<lambda>b.
     p_bind parseOptionalRange (\<lambda>leading.
     p_bind (p_need Tok_Ident ''node name'') (\<lambda>name.
       case leading of
         Some r \<Rightarrow> p_return \<lparr>ce_node_name = t_text name, ce_range = r, ce_src = mk_range b (rng_end (t_range name))\<rparr>
       | None \<Rightarrow>
           p_bind parseOptionalRange (\<lambda>trailing.
             case trailing of
               Some r \<Rightarrow> p_bind (p_get (\<lambda>s. rng_end (t_range (ps_prev s)))) (\<lambda>e.
                 p_return \<lparr>ce_node_name = t_text name, ce_range = r, ce_src = mk_range b e\<rparr>)
             | None \<Rightarrow> p_return \<lparr>ce_node_name = t_text name, ce_range = port_range_default,
                         ce_src = mk_range b (rng_end (t_range name))\<rparr>))))"

text \<open>One arrow and its destination: the loop body of the chain, on the end to its left.\<close>

definition chain_step :: "conn_end \<Rightarrow> conn_end parser" where
  "chain_step src =
     p_bind (p_get (\<lambda>s. cur_kind s = Tok_FatArrow)) (\<lambda>lossy.
     p_then p_advance
    (p_bind parseOptionalRange (\<lambda>leading.
     p_bind (p_get ps_cur) (\<lambda>t.
     if t_kind t \<noteq> Tok_Ident \<and> t_kind t \<noteq> Tok_KwHost \<and> t_kind t \<noteq> Tok_KwVerilog
     then p_fail_at t ''expected node after arrow''
     else
       p_then (skip_if Tok_KwHost) (p_then (skip_if Tok_KwVerilog)
      (p_bind (p_need Tok_Ident ''node name'') (\<lambda>next.
       p_bind (node_name next) (\<lambda>name.
       p_bind (node_end leading next name) (\<lambda>dst.
       p_then (p_push (Group_Connection
         \<lparr>cd_source = src, cd_dest = dst, cd_lossy = lossy,
          cd_src = mk_range (rng_begin (ce_src src)) (rng_end (ce_src dst))\<rparr>))
       (p_return dst))))))))))"

definition at_arrow :: "pstate \<Rightarrow> bool" where
  "at_arrow s \<longleftrightarrow> cur_kind s = Tok_Arrow \<or> cur_kind s = Tok_FatArrow"

definition chain_rest :: "token \<Rightarrow> unit parser" where
  "chain_rest first =
     p_bind (node_name first) (\<lambda>name.
     p_bind (node_end None first name) (\<lambda>e.
     p_then (p_while at_arrow (\<lambda>src. p_bind (chain_step src) (\<lambda>dst. p_return (Continue dst))) e)
    (p_then (p_accept Tok_Semicolon) (p_return ()))))"

definition parseDeclOrChain :: "unit parser" where
  "parseDeclOrChain =
     p_then (p_if (p_check Tok_KwHost) p_advance (skip_if Tok_KwVerilog))
    (p_bind (p_get ps_cur) (\<lambda>first.
     if t_kind first \<noteq> Tok_Ident
     then p_fail_at first (''expected identifier (got '' @ tokName (t_kind first) @ '')'')
     else
       p_then p_advance
      (p_if (p_check Tok_DoubleColon) (instance_rest first) (chain_rest first))))"

text \<open>
  Run a production and take the statements it pushed, whether it succeeded or not; the flag is
  what it returned.
\<close>

definition p_collect :: "unit parser \<Rightarrow> (bool \<times> group_stmt list) parser" where
  "p_collect p s =
     (case p (s\<lparr>ps_out := []\<rparr>) of
        (Ok u, s') \<Rightarrow> (Ok (True, ps_out s'), s'\<lparr>ps_out := ps_out s\<rparr>)
      | (Fail, s') \<Rightarrow> (Ok (False, ps_out s'), s'\<lparr>ps_out := ps_out s\<rparr>)
      | (Abort, s') \<Rightarrow> (Abort, s'))"

subsection \<open>Element groups\<close>

text \<open>Error recovery: read on until the current token is one of the given kinds.\<close>

definition skip_until :: "(pstate \<Rightarrow> bool) \<Rightarrow> unit parser" where
  "skip_until stop =
     p_while (\<lambda>s. \<not> stop s \<and> cur_kind s \<noteq> Tok_Eof) (\<lambda>_. p_then p_advance (p_return (Continue ()))) ()"

definition group_restart :: "pstate \<Rightarrow> bool" where
  "group_restart s \<longleftrightarrow> cur_kind s \<in> {Tok_RBrace, Tok_Ident, Tok_KwHost, Tok_KwVerilog}"

definition group_item :: "group_stmt list \<Rightarrow> group_stmt list ctl parser" where
  "group_item acc =
     p_bind (p_collect parseDeclOrChain) (\<lambda>(ok, out).
     if ok then p_return (Continue (acc @ out))
     else p_then (skip_until group_restart) (p_return (Continue (acc @ out))))"

definition parseGroupBody :: "group_stmt list parser" where
  "parseGroupBody =
     p_then (p_need Tok_LBrace ''`{` to begin element group body'')
    (p_bind (p_while not_rbrace group_item []) (\<lambda>body.
     p_then (p_expect Tok_RBrace ''`}`'') (p_return body)))"

definition parseElementGroupDecl :: "element_group_decl parser" where
  "parseElementGroupDecl =
     p_bind (p_get ps_cur) (\<lambda>kw.
     p_then p_advance
    (p_bind (p_need Tok_Ident ''element group name'') (\<lambda>name.
     p_bind port_counts (\<lambda>(i, o1).
     p_bind parseGroupBody (\<lambda>body.
     p_return (element_group_default\<lparr>gd_name := t_text name,
       gd_src := mk_range (rng_begin (t_range kw)) (rng_end (t_range name)),
       gd_n_in_ports := i, gd_n_out_ports := o1, gd_body := body\<rparr>))))))"

subsection \<open>Files and imports\<close>

text \<open>
  The parse of an imported file is a parameter of these definitions; \<open>parseFile\<close> below ties the
  knot. A failed production leaves the module as it is, with what it had pushed before.
\<close>

definition parseImport :: "(string \<Rightarrow> ast_module parser) \<Rightarrow> ast_module \<Rightarrow> ast_module parser" where
  "parseImport sub m =
     p_bind (p_get ps_cur) (\<lambda>kw.
     p_then p_advance
    (p_bind (p_need Tok_StringLit ''import path string'') (\<lambda>str.
     p_then (p_accept Tok_Semicolon) (\<lambda>s.
       case sm_buffer (ps_sm s) (md_file m) of
         None \<Rightarrow> (Abort, s)
       | Some referer \<Rightarrow>
           p_bind (p_optional (sub (resolveImport (ps_fs s) (ps_sm s) (sb_path referer) (t_text str)))) (\<lambda>r.
             case r of
               None \<Rightarrow> p_fail_at str (''failed to parse imported file `'' @ t_text str @ ''`'')
             | Some m2 \<Rightarrow>
                 p_return (mod_push (md_stmts m2 @ [Top_Import
                   \<lparr>im_path = t_text str,
                    im_src = mk_range (rng_begin (t_range kw)) (rng_end (t_range str))\<rparr>]) m)) s))))"

definition parseInstanceOrConnection :: "ast_module \<Rightarrow> (bool \<times> ast_module) parser" where
  "parseInstanceOrConnection m =
     p_bind (p_collect parseDeclOrChain) (\<lambda>(ok, out). p_return (ok, mod_push (map top_of_group out) m))"

text \<open>A production that pushes only when it succeeds.\<close>

definition or_keep :: "'a \<Rightarrow> 'a parser \<Rightarrow> (bool \<times> 'a) parser" where
  "or_keep m p = p_bind (p_optional p) (\<lambda>r. case r of Some m' \<Rightarrow> p_return (True, m') | None \<Rightarrow> p_return (False, m))"

definition parseTopStmt :: "(string \<Rightarrow> ast_module parser) \<Rightarrow> ast_module \<Rightarrow> (bool \<times> ast_module) parser" where
  "parseTopStmt sub m =
     p_bind (p_get cur_kind) (\<lambda>k.
     if k = Tok_KwImport then or_keep m (parseImport sub m)
     else if k = Tok_KwElement then
       or_keep m (p_bind parseElementDecl (\<lambda>e. p_return (mod_push [Top_Element e] m)))
     else if k = Tok_KwElementGroup then
       or_keep m (p_bind parseElementGroupDecl (\<lambda>g. p_return (mod_push [Top_Group g] m)))
     else parseInstanceOrConnection m)"

definition top_restart :: "pstate \<Rightarrow> bool" where
  "top_restart s \<longleftrightarrow> cur_kind s \<in> {Tok_KwElement, Tok_KwElementGroup, Tok_KwImport}"

definition not_eof :: "pstate \<Rightarrow> bool" where
  "not_eof s \<longleftrightarrow> cur_kind s \<noteq> Tok_Eof"

definition top_item :: "(string \<Rightarrow> ast_module parser) \<Rightarrow> ast_module \<Rightarrow> ast_module ctl parser" where
  "top_item sub m =
     p_bind (parseTopStmt sub m) (\<lambda>(ok, m').
     if ok then p_return (Continue m')
     else p_then (skip_until top_restart) (p_return (Continue m')))"

definition dummy_range :: source_range where
  "dummy_range =
     (let l = \<lparr>loc_file = 0, loc_line = 1, loc_column = 1, loc_offset = 0\<rparr> in mk_range l l)"

text \<open>The state of a fresh \<open>Parser::State\<close> on a buffer.\<close>

definition enter_buffer :: "source_buffer \<Rightarrow> u32 \<Rightarrow> pstate \<Rightarrow> pstate" where
  "enter_buffer buf fid s =
     (let (t, lx, de) = next_token (Lexer buf fid) (ps_diags s)
      in s\<lparr>ps_lex := lx, ps_cur := t, ps_prev := token_default, ps_file := fid, ps_diags := de,
           ps_out := []\<rparr>)"

text \<open>The caller keeps its own token stream; what the callee did to the shared members stays.\<close>

definition leave_buffer :: "pstate \<Rightarrow> pstate \<Rightarrow> pstate" where
  "leave_buffer caller s =
     caller\<lparr>ps_diags := ps_diags s, ps_sm := ps_sm s, ps_seen := ps_seen s\<rparr>"

definition parse_file_with :: "(string \<Rightarrow> ast_module parser) \<Rightarrow> string \<Rightarrow> ast_module parser" where
  "parse_file_with sub path s =
     (let canon = fs_canon (ps_fs s) path in
      if canon \<in> ps_seen s then (Ok module_default, s)
      else
        let s1 = s\<lparr>ps_seen := insert canon (ps_seen s)\<rparr> in
        case fs_read (ps_fs s) path of
          None \<Rightarrow>
            (Fail, s1\<lparr>ps_diags := diag_error dummy_range (''cannot open `'' @ path @ ''`'') (ps_diags s1)\<rparr>)
        | Some text \<Rightarrow>
            (let (fid, sm) = addBuffer path text (ps_sm s1) in
             case sm_buffer sm fid of
               None \<Rightarrow> (Abort, s1)
             | Some buf \<Rightarrow>
                 (case p_while not_eof (top_item sub) (module_default\<lparr>md_file := fid\<rparr>)
                         (enter_buffer buf fid (s1\<lparr>ps_sm := sm\<rparr>)) of
                    (r, s2) \<Rightarrow> (r, leave_buffer s s2))))"

text \<open>The fuel bounds the depth of nested imports.\<close>

primrec parseFile :: "nat \<Rightarrow> string \<Rightarrow> ast_module parser" where
  "parseFile 0 path = (\<lambda>s. (Abort, s))"
| "parseFile (Suc n) path = parse_file_with (parseFile n) path"

text \<open>The parser object as the driver constructs it.\<close>

definition Parser :: "file_system \<Rightarrow> source_manager \<Rightarrow> diag_engine \<Rightarrow> pstate" where
  "Parser fs sm de =
     \<lparr>ps_fs = fs, ps_lex = Lexer (SourceBuffer [] []) 0, ps_cur = token_default,
      ps_prev = token_default, ps_file = 0, ps_diags = de, ps_sm = sm, ps_seen = {}, ps_out = []\<rparr>"

end
