(* ===== verification/ParserFacts.thy ===== *)
theory ParserFacts
  imports Parser
begin

text \<open>
  The productions keep the contract of \<open>ParserMonad\<close>: they return, a failure has been reported,
  and the invariant holds again afterwards. The file level adds the import graph: with more fuel
  than readable files the parse returns (\<open>parseFile_ok\<close>).
\<close>

subsection \<open>The productions keep the contract\<close>

lemma wb_prod [wb_intros]: "(\<And>a b. behaved d (f a b)) \<Longrightarrow> behaved d (case p of (a, b) \<Rightarrow> f a b)"
  by (cases p) simp

lemma wb_Let [wb_intros]: "behaved d (f x) \<Longrightarrow> behaved d (let y = x in f y)"
  by simp

lemma opaque_final:
  assumes "lexOpaqueBlock lx de = (t, lx', de')"
  shows "moves lx lx'" and "diag_extends de de'" and "de_ok de \<Longrightarrow> de_ok de'"
  using opaque_moves opaque_extends opaque_de_ok assms by blast+

text \<open>The scan of a block stops with open braces only at the end of the file.\<close>

definition open_only_at_end :: "nat \<times> lexer \<Rightarrow> bool" where
  "open_only_at_end r \<longleftrightarrow> (fst r \<noteq> 0 \<longrightarrow> at_end (snd r))"

lemma open_only_at_end_if:
  "(b \<Longrightarrow> open_only_at_end x) \<Longrightarrow> (\<not> b \<Longrightarrow> open_only_at_end y) \<Longrightarrow>
   open_only_at_end (if b then x else y)"
  by simp

lemma opaque_loop_unterminated: "open_only_at_end (opaque_loop d lx)"
proof (induction d lx rule: opaque_loop.induct)
  case (1 d lx)
  show ?case
    unfolding opaque_loop.simps [of d lx] Let_def
    apply (intro open_only_at_end_if)
          apply (auto simp: open_only_at_end_def) [1]
         apply (rule 1(1) [OF _ refl]; assumption)
        apply (rule 1(2) [OF _ refl]; assumption)
       apply (rule 1(3) [OF _ refl]; assumption)
      apply (rule 1(4) [OF _ refl]; assumption)
     apply (simp add: open_only_at_end_def)
    apply (rule 1(5) [OF _ refl]; assumption)
    apply (rule 1(6) [OF _ refl]; assumption)
    done
qed

lemma peek_at_end: "at_end lx \<Longrightarrow> peek lx = chr_nul"
  by (simp add: at_end_def peek_at_def)

lemma opaque_unterminated:
  "lexOpaqueBlock lx de = (t, lx', de') \<Longrightarrow> t_kind t = Tok_Error \<Longrightarrow>
   at_end lx' \<and> errors_of (de_diags de') \<noteq> []"
  using opaque_loop_unterminated [of 1 lx] peek_at_end [of "snd (opaque_loop 1 lx)"]
  by (auto simp: open_only_at_end_def lexOpaqueBlock_def Let_def split: prod.splits if_splits)

lemma wb_brace_block [wb_intros]: "behaved True parseBraceBlock"
proof (rule behavedI)
  fix s and r :: "opaque_cpp outcome" and s'
  assume inv: "ps_inv s" and eq: "parseBraceBlock s = (r, s')"
  show "res_ok True s r s'"
  proof (cases "cur_kind s = Tok_LBrace")
    case False
    then have "p_fail_at (ps_cur s) (''expected `{` (got '' @ tokName (cur_kind s) @ '')'') s = (r, s')"
      using eq by (simp add: parseBraceBlock_def)
    then show ?thesis by (rule behavedD [OF wb_fail_at inv])
  next
    case True
    have sk: "seekTo (loc_offset (rng_end (t_range (ps_cur s)))) (ps_lex s) = ps_lex s"
      using inv seekTo_here by (simp add: ps_inv_def ps_base_def)
    obtain body lx1 de1 where o1: "lexOpaqueBlock (ps_lex s) (ps_diags s) = (body, lx1, de1)"
      by (metis prod_cases3)
    note of = opaque_final [OF o1]
    have ok1: "lx_ok lx1" using lx_ok_moves [OF of(1)] inv by (simp add: ps_inv_def ps_base_def)
    show ?thesis
    proof (cases "t_kind body = Tok_Error")
      case err: True
      then have e: "r = Fail" "s' = s\<lparr>ps_lex := lx1, ps_diags := de1\<rparr>"
        using eq True sk o1 by (simp_all add: parseBraceBlock_def Let_def)
      have "at_end lx1" "errors_of (de_diags de1) \<noteq> []" using opaque_unterminated [OF o1 err] by auto
      moreover have "lx_left lx1 \<le> lx_left (ps_lex s)" by (rule moves_left [OF of(1)])
      ultimately show ?thesis
        using True inv of(2) of(3) ok1 moves_buf [OF of(1)]
        by (simp add: e res_ok_def ps_step_def ps_dead_def ps_inv_def ps_base_def ps_left_def
            has_errors_def unread_def)
    next
      case ok: False
      obtain t lx2 de2 where n: "next_token lx1 de1 = (t, lx2, de2)" by (metis prod_cases3)
      define m where "m = s\<lparr>ps_lex := lx1, ps_diags := de1\<rparr>"
      have "s' = (ps_advance m)\<lparr>ps_prev := ps_prev s\<rparr>" and r: "r \<noteq> Fail" "r \<noteq> Abort"
        using eq True sk o1 ok n
        by (auto simp: parseBraceBlock_def Let_def ps_advance_def m_def)
      moreover have "ps_base m" using inv of(3) ok1 by (simp add: m_def ps_inv_def ps_base_def)
      from ps_advance_ok [OF this] have "ps_inv (ps_advance m)" "ps_step m (ps_advance m)" .
      moreover have "ps_step s m"
        using moves_left [OF of(1)] moves_buf [OF of(1)] of(2)
        by (simp add: m_def ps_step_def ps_left_def unread_def)
      ultimately show ?thesis
        using ps_step_trans [of s m "ps_advance m"]
        by (auto simp: res_ok_def ps_inv_def ps_base_def ps_step_def ps_left_def has_errors_def unread_def)
    qed
  qed
qed

lemma wb_push [wb_intros]: "behaved d (p_push g)"
  by (auto simp: p_push_def behaved_def res_ok_def ps_inv_def ps_base_def ps_step_def ps_left_def
      has_errors_def unread_def)

lemma ps_out_irrelevant [simp]:
  "ps_inv (s\<lparr>ps_out := x\<rparr>) = ps_inv s"
  "ps_step (s\<lparr>ps_out := x\<rparr>) s' = ps_step s s'"
  "ps_step s (s'\<lparr>ps_out := x\<rparr>) = ps_step s s'"
  "ps_left (s\<lparr>ps_out := x\<rparr>) = ps_left s"
  by (simp_all add: ps_inv_def ps_base_def ps_step_def ps_left_def has_errors_def unread_def)

lemma wb_collect [wb_intros]: "behaved False p \<Longrightarrow> behaved d (p_collect p)"
proof (rule behavedI)
  fix s r s'
  assume p: "behaved False p" and inv: "ps_inv s" and eq: "p_collect p s = (r, s')"
  obtain r1 s1 where p1: "p (s\<lparr>ps_out := []\<rparr>) = (r1, s1)" by fastforce
  have "res_ok False (s\<lparr>ps_out := []\<rparr>) r1 s1" using behavedD [OF p _ p1] inv by simp
  note w = this [unfolded res_ok_def, simplified]
  show "res_ok d s r s'"
  proof (cases r1)
    case (Ok u)
    with eq p1 have "r = Ok (True, ps_out s1)" "s' = s1\<lparr>ps_out := ps_out s\<rparr>"
      by (simp_all add: p_collect_def)
    with w Ok show ?thesis by (simp add: res_ok_def)
  next
    case Fail
    with eq p1 have "r = Ok (False, ps_out s1)" "s' = s1\<lparr>ps_out := ps_out s\<rparr>"
      by (simp_all add: p_collect_def)
    with w Fail show ?thesis by (simp add: res_ok_def)
  next
    case Abort
    with w show ?thesis by simp
  qed
qed

lemma kinds_not_eof [simp]:
  "not_rbrace s \<Longrightarrow> cur_kind s \<noteq> Tok_Eof" "not_rparen s \<Longrightarrow> cur_kind s \<noteq> Tok_Eof"
  "at_arrow s \<Longrightarrow> cur_kind s \<noteq> Tok_Eof" "not_eof s \<Longrightarrow> cur_kind s \<noteq> Tok_Eof"
  by (auto simp: not_rbrace_def not_rparen_def at_arrow_def not_eof_def)

lemma wb_signal_param [wb_intros]: "behaved d parseSignalParam"
  unfolding parseSignalParam_def by (intro wb_intros) simp_all

lemma wb_signal_params [wb_intros]: "behaved d (signal_params e)"
  unfolding signal_params_def
proof (rule wb_while)
  fix e1
  show b: "behaved d (p_bind parseSignalParam (\<lambda>p. p_bind (p_accept Tok_Comma) (\<lambda>more.
       let e' = e1\<lparr>el_signal_params := el_signal_params e1 @ [p]\<rparr>
       in p_return (if more then Continue e' else Break e'))))"
    by (intro wb_intros)
  show "progressing not_rparen (p_bind parseSignalParam (\<lambda>p. p_bind (p_accept Tok_Comma) (\<lambda>more.
       let e' = e1\<lparr>el_signal_params := el_signal_params e1 @ [p]\<rparr>
       in p_return (if more then Continue e' else Break e'))))"
    unfolding parseSignalParam_def
    by (intro progressing_consuming consuming_bind [where d = d] consuming_need wb_intros) simp_all
qed

lemma wb_signal_item [wb_intros]: "behaved True (signal_item e)"
  unfolding signal_item_def by (intro wb_intros)

text \<open>A loop whose body starts by requiring a token.\<close>

lemma wb_while_need:
  assumes "k \<noteq> Tok_Error" and "k \<noteq> Tok_Eof" and "\<And>a t. behaved d (f a t)"
  shows "behaved d (p_while c (\<lambda>a. p_bind (p_need k w) (f a)) a0)"
  using assms
  by (intro wb_while wb_intros progressing_consuming consuming_bind [where d = d] consuming_need)

lemma wb_while_advance:
  assumes "\<And>s. c s \<Longrightarrow> cur_kind s \<noteq> Tok_Eof" and "\<And>a. behaved d (f a)"
  shows "behaved d (p_while c (\<lambda>a. p_then p_advance (f a)) a0)"
  unfolding p_then_def using assms
  by (intro wb_while wb_intros progressing_advance [where d = d]) simp_all

lemma progressing_get:
  "(\<And>x. progressing c (f x)) \<Longrightarrow> progressing c (p_bind (p_get g) f)"
  by (simp add: progressing_def p_bind_def p_get_def)

lemma wb_hls_pragma_item [wb_intros]: "behaved d (hls_pragma_item e)"
  unfolding hls_pragma_item_def by (intro wb_intros wb_while_need) simp_all

lemma wb_timing_ii [wb_intros]: "behaved d (timing_ii v e)"
  unfolding timing_ii_def by (intro wb_intros)

lemma wb_timing_entry [wb_intros]: "behaved d (timing_entry e)"
  unfolding timing_entry_def by (intro wb_intros) simp_all

lemma consuming_timing_entry: "consuming (timing_entry e)"
  unfolding timing_entry_def
  by (intro consuming_bind [where d = True] consuming_need wb_intros) simp_all

lemma wb_timing_item [wb_intros]: "behaved d (timing_item e)"
  unfolding timing_item_def
  by (intro wb_intros wb_while progressing_consuming consuming_bind [where d = d]
      consuming_timing_entry) simp_all

lemma wb_body_item [wb_intros]: "behaved True (body_item e)"
  unfolding body_item_def by (intro wb_intros)

text \<open>An item starts with a token the loop has not rejected, and fails on any other.\<close>

lemma progressing_fail_at: "progressing c (p_bind (p_fail_at t m) f)"
  by (simp add: progressing_def p_bind_def p_fail_at_def p_then_def p_error_def p_fail_def)

lemma progressing_if:
  "(b \<Longrightarrow> progressing c x) \<Longrightarrow> (\<not> b \<Longrightarrow> progressing c y) \<Longrightarrow> progressing c (if b then x else y)"
  by simp

lemma bind_if: "p_bind (if b then x else y) f = (if b then p_bind x f else p_bind y f)"
  by simp

lemma bind_assoc: "p_bind (p_bind m f) g = p_bind m (\<lambda>a. p_bind (f a) g)"
  by (auto simp: p_bind_def fun_eq_iff split: prod.splits outcome.splits)

lemma bind_then: "p_bind (p_then m k) g = p_then m (p_bind k g)"
  by (simp add: p_then_def bind_assoc)

lemma progressing_then_advance:
  "(\<And>s. c s \<Longrightarrow> cur_kind s \<noteq> Tok_Eof) \<Longrightarrow> behaved d f \<Longrightarrow> progressing c (p_then p_advance f)"
  unfolding p_then_def by (rule progressing_advance)

lemma progressing_body_item: "progressing not_rbrace (p_bind (body_item e) (\<lambda>e2. p_return (Continue e2)))"
  unfolding body_item_def bind_assoc bind_if bind_then
  by (intro progressing_get progressing_if progressing_then_advance [where d = True]
      progressing_fail_at wb_intros) simp_all

lemma wb_element_body [wb_intros]: "behaved True (parseElementBody e)"
  unfolding parseElementBody_def by (intro wb_intros wb_while progressing_body_item) simp_all

lemma wb_port_counts [wb_intros]: "behaved d port_counts"
  unfolding port_counts_def by (intro wb_intros) simp_all

lemma wb_element_decl [wb_intros]: "behaved True parseElementDecl"
  unfolding parseElementDecl_def by (intro wb_intros) simp_all

lemma wb_qualifier [wb_intros]: "behaved d parseHostQualifier"
proof -
  have "behaved d (p_while (\<lambda>s. cur_kind s = Tok_At \<or> cur_kind s = Tok_Amp)
      (\<lambda>x. p_bind (p_get cur_kind) (\<lambda>k. p_then p_advance
        (p_return (Continue (if k = Tok_At then (True, snd x) else (fst x, True)))))) (False, False))"
    by (intro wb_while wb_intros progressing_get progressing_then_advance [where d = d]) auto
  then show ?thesis by (simp add: parseHostQualifier_def case_prod_beta')
qed

lemma wb_range_body [wb_intros]: "behaved d range_body"
  unfolding range_body_def by (intro wb_intros) simp_all

lemma wb_range [wb_intros]: "behaved d parseOptionalRange"
  unfolding parseOptionalRange_def by (intro wb_intros)

lemma wb_params_loop [wb_intros]: "behaved d (params_loop strict ps)"
  unfolding params_loop_def by (intro wb_while_advance wb_intros) simp

lemma wb_paren_args [wb_intros]: "behaved d (paren_args strict)"
  unfolding paren_args_def by (intro wb_intros) simp_all

lemma wb_instance_rest [wb_intros]: "behaved d (instance_rest t)"
  unfolding instance_rest_def by (intro wb_intros) simp_all

lemma wb_node_name [wb_intros]: "behaved d (node_name t)"
  unfolding node_name_def by (intro wb_intros)

lemma wb_node_end [wb_intros]: "behaved d (node_end l t n)"
  unfolding node_end_def by (intro wb_intros)

lemma wb_conn_end: "behaved d parseConnEnd"
  unfolding parseConnEnd_def by (intro wb_intros) simp_all

lemma wb_skip_if [wb_intros]: "behaved d (skip_if k)"
  unfolding skip_if_def by (intro wb_intros)

lemma wb_chain_step [wb_intros]: "behaved d (chain_step e)"
  unfolding chain_step_def by (intro wb_intros) simp_all

lemma progressing_chain_step: "progressing at_arrow (p_bind (chain_step e) (\<lambda>x. p_return (Continue x)))"
  unfolding chain_step_def bind_assoc bind_then bind_if
  by (intro progressing_get progressing_then_advance [where d = True] wb_intros) simp_all

lemma wb_chain_rest [wb_intros]: "behaved d (chain_rest t)"
  unfolding chain_rest_def by (intro wb_intros wb_while progressing_chain_step)

lemma wb_decl_or_chain [wb_intros]: "behaved d parseDeclOrChain"
  unfolding parseDeclOrChain_def by (intro wb_intros)

lemma wb_skip_until [wb_intros]: "behaved d (skip_until stop)"
  unfolding skip_until_def by (intro wb_while_advance wb_intros) simp

subsection \<open>Progress of the recovering loops\<close>

text \<open>Recovery that has to skip something reads at least one token, also from a dead state.\<close>

lemma skip_until_skips:
  assumes base: "ps_base s" and go: "\<not> stop s" "cur_kind s \<noteq> Tok_Eof"
    and eq: "skip_until stop s = (r, s')"
  shows "ps_step s s' \<and> r \<noteq> Abort \<and> (r = Fail \<longrightarrow> has_errors s') \<and> ps_inv s' \<and> ps_left s' < ps_left s"
proof -
  let ?c = "\<lambda>s. \<not> stop s \<and> cur_kind s \<noteq> Tok_Eof"
  let ?b = "\<lambda>_::unit. p_then p_advance (p_return (Continue ()))"
  have b: "?b a t = (Ok (Continue ()), ps_advance t)" for a t
    by (simp add: p_then_def p_bind_def p_advance_def p_return_def)
  have l: "p_loop (ps_left s) ?c ?b () (ps_advance s) = (r, s')"
    using eq go b by (simp add: skip_until_def p_while_def)
  note adv = ps_advance_ok [OF base] ps_advance_left [OF go(2)]
  have "res_ok False (ps_advance s) r s' \<and> (\<forall>a'. r = Ok a' \<longrightarrow> True)"
    by (rule p_loop_ok [where Q = "\<lambda>_. True" and P = "\<lambda>_. True", OF _ stable_True adv(1) _ _ adv(3) l])
      (auto simp: b body_ok_def res_ok_def ps_advance_ok ps_inv_base ps_advance_left)
  then have ro: "res_ok False (ps_advance s) r s'" by simp
  moreover from this have "ps_step s s'" using adv(2) ps_step_trans res_okD(1) by blast
  moreover have "ps_left s' \<le> ps_left (ps_advance s)" using ro res_okD(1) ps_step_left by blast
  ultimately show ?thesis using adv(3) by (simp add: res_ok_def)
qed

definition chain_start :: "tok set" where
  "chain_start = {Tok_Ident, Tok_KwHost, Tok_KwVerilog}"

lemma decl_or_chain_progress:
  assumes inv: "ps_inv s" and eq: "parseDeclOrChain s = (r, s')" and ne: "cur_kind s \<noteq> Tok_Eof"
  shows "ps_left s' < ps_left s \<or> (cur_kind s' = cur_kind s \<and> cur_kind s \<notin> chain_start)"
proof -
  have less: "ps_left s' < ps_left s" if p: "behaved True p" "p (ps_advance s) = (r, s')" for p :: "unit parser"
    using behavedD [OF p(1) ps_advance_ok(1) [OF ps_inv_base [OF inv]] p(2)]
      ps_advance_left [OF ne] ps_step_left res_okD(1) by fastforce
  let ?rest = "p_bind (p_get ps_cur) (\<lambda>first.
     if t_kind first \<noteq> Tok_Ident
     then p_fail_at first (''expected identifier (got '' @ tokName (t_kind first) @ '')'')
     else p_then p_advance (p_if (p_check Tok_DoubleColon) (instance_rest first) (chain_rest first)))"
  have w: "behaved True ?rest" "behaved True (p_if (p_check Tok_DoubleColon) (instance_rest t) (chain_rest t))" for t
    by (intro wb_intros)+
  consider "cur_kind s \<in> {Tok_KwHost, Tok_KwVerilog}" | "cur_kind s = Tok_Ident"
    | "cur_kind s \<notin> chain_start" by (auto simp: chain_start_def)
  then show ?thesis
  proof cases
    case 1
    then have "?rest (ps_advance s) = (r, s')"
      using eq by (auto simp: parseDeclOrChain_def p_then_def p_bind_def p_if_def skip_if_def
          p_check_def p_advance_def split: if_splits)
    with less [OF w(1)] show ?thesis by blast
  next
    case 2
    then have "p_if (p_check Tok_DoubleColon) (instance_rest (ps_cur s)) (chain_rest (ps_cur s))
        (ps_advance s) = (r, s')"
      using eq by (simp add: parseDeclOrChain_def p_then_def p_bind_def p_if_def skip_if_def
          p_check_def p_advance_def p_get_def p_return_def)
    with less [OF w(2)] show ?thesis by blast
  next
    case 3
    then have "cur_kind s' = cur_kind s"
      using eq by (auto simp: chain_start_def parseDeclOrChain_def p_then_def p_bind_def p_if_def skip_if_def
          p_check_def p_get_def p_return_def p_fail_at_def p_error_def p_fail_def)
    with 3 show ?thesis by simp
  qed
qed

text \<open>Collected statements: the flag is the outcome, and a failure has been reported.\<close>

lemma collect_decl_or_chain:
  assumes inv: "ps_inv s" and ne: "cur_kind s \<noteq> Tok_Eof"
    and eq: "p_collect parseDeclOrChain s = (r, s')"
  obtains ok out where "r = Ok (ok, out)" "ps_inv s'" "ps_step s s'" "\<not> ok \<Longrightarrow> has_errors s'"
    "ps_left s' < ps_left s \<or> (cur_kind s' = cur_kind s \<and> cur_kind s \<notin> chain_start \<and> \<not> ok)"
proof -
  obtain r1 s1 where p1: "parseDeclOrChain (s\<lparr>ps_out := []\<rparr>) = (r1, s1)" by fastforce
  have i: "ps_inv (s\<lparr>ps_out := []\<rparr>)" using inv by simp
  have ro: "res_ok False (s\<lparr>ps_out := []\<rparr>) r1 s1" by (rule behavedD [OF wb_decl_or_chain i p1])
  have pr: "ps_left s1 < ps_left s \<or> (cur_kind s1 = cur_kind s \<and> cur_kind s \<notin> chain_start)"
    using decl_or_chain_progress [OF i p1] ne by simp
  have s': "s' = s1\<lparr>ps_out := ps_out s\<rparr>" "r = Ok (r1 = Ok (), ps_out s1)"
    using eq p1 res_okD(2) [OF ro] by (cases r1; simp add: p_collect_def)+
  have fl: "r1 \<noteq> Ok ()" if "cur_kind s \<notin> chain_start"
    using p1 that by (auto simp: chain_start_def parseDeclOrChain_def p_then_def p_bind_def p_if_def
        skip_if_def p_check_def p_get_def p_return_def p_fail_at_def p_error_def p_fail_def)
  have "has_errors s'" if "r1 \<noteq> Ok ()"
    using that res_okD(2,3) [OF ro] s' by (cases r1) (auto simp: has_errors_def)
  moreover have "ps_inv s'" "ps_step s s'" using ro s' by (auto simp: res_ok_def)
  ultimately show ?thesis using that pr fl s' by (auto simp: s')
qed

lemma group_item_ok:
  assumes inv: "ps_inv s" and c: "not_rbrace s" and eq: "group_item acc s = (r, s')"
  shows "body_ok d (\<lambda>_. True) s r s'"
proof -
  obtain r1 s1 where p1: "p_collect parseDeclOrChain s = (r1, s1)" by fastforce
  from collect_decl_or_chain [OF inv kinds_not_eof(1) [OF c] p1] obtain ok out where
    o1: "r1 = Ok (ok, out)" "ps_inv s1" "ps_step s s1" "\<not> ok \<Longrightarrow> has_errors s1"
    "ps_left s1 < ps_left s \<or> (cur_kind s1 = cur_kind s \<and> cur_kind s \<notin> chain_start \<and> \<not> ok)"
    by blast
  show ?thesis
  proof (cases ok)
    case True
    with eq p1 o1 show ?thesis
      by (auto simp: group_item_def p_bind_def p_return_def body_ok_def res_ok_def)
  next
    case False
    obtain r2 s2 where p2: "skip_until group_restart s1 = (r2, s2)" by fastforce
    have ro: "res_ok d s1 r2 s2" by (rule behavedD [OF wb_skip_until o1(2) p2])
    have e: "r = (case r2 of Ok _ \<Rightarrow> Ok (Continue (acc @ out)) | Fail \<Rightarrow> Fail | Abort \<Rightarrow> Abort)" "s' = s2"
      using eq p1 o1(1) False p2
      by (cases r2; simp add: group_item_def p_bind_def p_then_def p_return_def)+
    have less: "ps_left s2 < ps_left s"
    proof (cases "ps_left s1 < ps_left s")
      case True
      with res_okD(1) [OF ro] ps_step_left show ?thesis by fastforce
    next
      case still: False
      then have "\<not> group_restart s1" "cur_kind s1 \<noteq> Tok_Eof"
        using o1(5) c by (auto simp: group_restart_def chain_start_def not_rbrace_def)
      from skip_until_skips [OF ps_inv_base [OF o1(2)] this p2] o1(3) ps_step_left
      show ?thesis by fastforce
    qed
    have "res_ok d s r2 s2" by (rule res_ok_trans [OF o1(3) ro])
    with e less show ?thesis by (cases r2) (auto simp: body_ok_def res_ok_def)
  qed
qed

lemma wb_group_loop [wb_intros]: "behaved d (p_while not_rbrace group_item acc)"
proof (rule behavedI)
  fix s r s'
  assume inv: "ps_inv s" and eq: "p_while not_rbrace group_item acc s = (r, s')"
  have "res_ok d s r s' \<and> (\<forall>a'. r = Ok a' \<longrightarrow> True)"
    by (rule p_loop_ok [where Q = "\<lambda>_. True" and n = "Suc (ps_left s)", OF _ stable_True inv _ _ _
          eq [unfolded p_while_def]]) (use group_item_ok in auto)
  then show "res_ok d s r s'" by simp
qed

lemma wb_group_body [wb_intros]: "behaved d parseGroupBody"
  unfolding parseGroupBody_def by (intro wb_intros) simp_all

lemma wb_group_decl [wb_intros]: "behaved d parseElementGroupDecl"
  unfolding parseElementGroupDecl_def by (intro wb_intros) simp_all

subsection \<open>Imports\<close>

text \<open>
  What the import graph needs: finitely many readable files, fewer of them unread than the fuel,
  file ids that fit 32 bits, and files below 4 GiB.
\<close>

definition imports_ok :: "nat \<Rightarrow> pstate \<Rightarrow> bool" where
  "imports_ok n s \<longleftrightarrow>
     finite (readable (ps_fs s)) \<and> card (unread s) < n \<and> n_buffers s + card (unread s) < 2 ^ 32
     \<and> (\<forall>p t. fs_read (ps_fs s) p = Some t \<longrightarrow> length t < 2 ^ 32)"

lemma stable_imports_ok: "stable (\<lambda>s. imports_ok n s \<and> ps_file s = fid)"
  unfolding stable_def
proof (intro allI impI)
  fix s s'
  assume st: "ps_step s s'" and ok: "imports_ok n s \<and> ps_file s = fid"
  have "unread s' \<subseteq> unread s" using st by (auto simp: ps_step_def unread_def)
  moreover have "finite (unread s)" using ok by (simp add: imports_ok_def unread_def)
  ultimately have "card (unread s') \<le> card (unread s)" by (rule card_mono [rotated])
  with st ok show "imports_ok n s' \<and> ps_file s' = fid" by (auto simp: imports_ok_def ps_step_def)
qed

lemma imports_ok_step: "ps_step s s' \<Longrightarrow> imports_ok n s \<Longrightarrow> imports_ok n s'"
  using stable_imports_ok [of n "ps_file s"] unfolding stable_def by blast

text \<open>What parsing a file may change: the shared members only.\<close>

definition same_stream :: "pstate \<Rightarrow> pstate \<Rightarrow> bool" where
  "same_stream s s' \<longleftrightarrow> s' = leave_buffer s s'"

lemma same_stream_sel:
  assumes "same_stream s s'"
  shows "ps_lex s' = ps_lex s" "ps_cur s' = ps_cur s" "ps_prev s' = ps_prev s" "ps_file s' = ps_file s"
    "ps_fs s' = ps_fs s" "ps_out s' = ps_out s"
  by (subst assms [unfolded same_stream_def], simp add: leave_buffer_def)+

definition file_result :: "pstate \<Rightarrow> 'a outcome \<Rightarrow> pstate \<Rightarrow> bool" where
  "file_result s r s' \<longleftrightarrow>
     same_stream s s' \<and> r \<noteq> Abort \<and> (r = Fail \<longrightarrow> has_errors s') \<and> de_ok (ps_diags s')
     \<and> diag_extends (ps_diags s) (ps_diags s') \<and> ps_seen s \<subseteq> ps_seen s'
     \<and> n_buffers s \<le> n_buffers s' \<and> n_buffers s' + card (unread s') \<le> n_buffers s + card (unread s)"

lemma file_result_res_ok: "ps_inv s \<Longrightarrow> file_result s r s' \<Longrightarrow> res_ok d s r s'"
  using has_errors_extends [of s s']
  by (auto simp: file_result_def res_ok_def ps_inv_def ps_base_def ps_step_def ps_left_def
      same_stream_sel)

definition import_contract :: "nat \<Rightarrow> (string \<Rightarrow> 'a parser) \<Rightarrow> bool" where
  "import_contract n sub \<longleftrightarrow>
     (\<forall>p s r s'. de_ok (ps_diags s) \<longrightarrow> imports_ok n s \<longrightarrow> sub p s = (r, s') \<longrightarrow> file_result s r s')"

text \<open>Running the first half of a sequence.\<close>

lemma bind_cases:
  assumes "behaved d m" and "ps_inv s" and "p_bind m f s = (r, s')"
  obtains (ok) a s1 where "m s = (Ok a, s1)" "ps_inv s1" "ps_step s s1" "f a s1 = (r, s')"
  | (failed) "r = Fail" "res_ok d s (Fail :: 'a outcome) s'" 
proof -
  obtain r1 s1 where m1: "m s = (r1, s1)" by fastforce
  have ro: "res_ok d s r1 s1" by (rule behavedD [OF assms(1,2) m1])
  show ?thesis
  proof (cases r1)
    case (Ok a)
    with m1 ro assms(3) show ?thesis by (intro ok [of a s1]) (auto simp: p_bind_def res_ok_def)
  next
    case Fail
    with m1 ro assms(3) show ?thesis by (intro failed) (auto simp: p_bind_def res_ok_def)
  next
    case Abort
    with res_okD(2) [OF ro] show ?thesis by simp
  qed
qed

lemma res_ok_Fail: "res_ok d s (Fail :: 'a outcome) s' \<Longrightarrow> res_ok d s (Fail :: 'b outcome) s'"
  by (simp add: res_ok_def)

lemma mod_push_file [simp]: "md_file (mod_push ss m) = md_file m"
  by (simp add: mod_push_def)

definition import_tail :: "(string \<Rightarrow> ast_module parser) \<Rightarrow> ast_module \<Rightarrow> token \<Rightarrow> token \<Rightarrow> ast_module parser" where
  "import_tail sub m kw str s =
     (case sm_buffer (ps_sm s) (md_file m) of
        None \<Rightarrow> (Abort, s)
      | Some referer \<Rightarrow>
          p_bind (p_optional (sub (resolveImport (ps_fs s) (ps_sm s) (sb_path referer) (t_text str)))) (\<lambda>r.
            case r of
              None \<Rightarrow> p_fail_at str (''failed to parse imported file `'' @ t_text str @ ''`'')
            | Some m2 \<Rightarrow>
                p_return (mod_push (md_stmts m2 @ [Top_Import
                  \<lparr>im_path = t_text str,
                   im_src = mk_range (rng_begin (t_range kw)) (rng_end (t_range str))\<rparr>]) m)) s)"

lemma parseImport_tail:
  "parseImport sub m =
     p_bind (p_get ps_cur) (\<lambda>kw. p_then p_advance
       (p_bind (p_need Tok_StringLit ''import path string'') (\<lambda>str.
        p_then (p_accept Tok_Semicolon) (import_tail sub m kw str))))"
  by (simp add: parseImport_def import_tail_def [abs_def])

lemma import_tail_ok:
  assumes sub: "import_contract n sub" and inv: "ps_inv s" and im: "imports_ok n s"
    and fid: "md_file m = ps_file s" and eq: "import_tail sub m kw str s = (r, s')"
  shows "res_ok False s r s' \<and> (\<forall>m'. r = Ok m' \<longrightarrow> md_file m' = md_file m)"
proof -
  obtain referer where rf: "sm_buffer (ps_sm s) (md_file m) = Some referer"
    using inv fid by (simp add: sm_buffer_def ps_inv_def ps_base_def)
  define p where "p = resolveImport (ps_fs s) (ps_sm s) (sb_path referer) (t_text str)"
  obtain r1 s1 where s1: "sub p s = (r1, s1)" by fastforce
  have "file_result s r1 s1"
    using sub inv im s1 unfolding import_contract_def ps_inv_def ps_base_def by blast
  then have ro: "res_ok False s r1 s1" by (rule file_result_res_ok [OF inv])
  show ?thesis
  proof (cases r1)
    case (Ok m2)
    with eq rf s1 ro show ?thesis
      by (auto simp: import_tail_def p_def p_bind_def p_optional_def p_return_def res_ok_def)
  next
    case Fail
    let ?m = "''failed to parse imported file `'' @ t_text str @ ''`''"
    have f: "(p_fail_at str ?m :: ast_module parser) s1 = (r, s')"
      using eq rf s1 Fail by (simp add: import_tail_def p_def p_bind_def p_optional_def)
    have "ps_inv s1" using ro by (simp add: res_ok_def)
    from behavedD [OF wb_fail_at this f] have "res_ok False s1 r s'" .
    then have "res_ok False s r s'" by (rule res_ok_trans [OF res_okD(1) [OF ro]])
    moreover have "r = Fail" using f by (auto simp: p_fail_at_def p_then_def p_bind_def p_error_def p_fail_def)
    ultimately show ?thesis by simp
  next
    case Abort
    with res_okD(2) [OF ro] show ?thesis by simp
  qed
qed

lemma parseImport_ok:
  assumes sub: "import_contract n sub" and inv: "ps_inv s" and im: "imports_ok n s"
    and fid: "md_file m = ps_file s" and ne: "cur_kind s \<noteq> Tok_Eof"
    and eq: "parseImport sub m s = (r, s')"
  shows "res_ok False s r s' \<and> ps_left s' < ps_left s \<and> (\<forall>m'. r = Ok m' \<longrightarrow> md_file m' = md_file m)"
proof -
  note adv = ps_advance_ok [OF ps_inv_base [OF inv]] ps_advance_left [OF ne]
  have e1: "p_bind (p_need Tok_StringLit ''import path string'') (\<lambda>str.
      p_then (p_accept Tok_Semicolon) (import_tail sub m (ps_cur s) str)) (ps_advance s) = (r, s')"
    using eq by (simp add: parseImport_tail p_then_def p_bind_def p_get_def p_advance_def)
  have "res_ok False (ps_advance s) r s' \<and> (\<forall>m'. r = Ok m' \<longrightarrow> md_file m' = md_file m)"
  proof (rule bind_cases [OF wb_need adv(1) e1, where d = False])
    fix t s1
    assume i1: "ps_inv s1" and st1: "ps_step (ps_advance s) s1"
      and e2: "p_then (p_accept Tok_Semicolon) (import_tail sub m (ps_cur s) t) s1 = (r, s')"
    show ?thesis
    proof (rule bind_cases [OF wb_accept i1 e2 [unfolded p_then_def], where d = False])
      fix b s2
      assume i2: "ps_inv s2" and st2: "ps_step s1 s2"
        and e3: "import_tail sub m (ps_cur s) t s2 = (r, s')"
      have st: "ps_step (ps_advance s) s2" by (rule ps_step_trans [OF st1 st2])
      have s2: "ps_step s s2" by (rule ps_step_trans [OF adv(2) st])
      have "md_file m = ps_file s2" using fid s2 by (simp add: ps_step_def)
      from import_tail_ok [OF sub i2 imports_ok_step [OF s2 im] this e3] res_ok_trans [OF st]
      show ?thesis by blast
    next
      assume f: "r = Fail" and ro: "res_ok False s1 (Fail :: bool outcome) s'"
      show ?thesis using res_ok_trans [OF st1 res_ok_Fail [OF ro]] f by simp
    qed
  qed (auto intro: res_ok_Fail)
  then show ?thesis using adv res_ok_trans res_okD(1) ps_step_left
    by (meson order.strict_trans1)
qed

subsection \<open>Files\<close>

text \<open>
  A top-level statement hands back the flag and the module; when it failed, the recovery that
  follows has something to skip unless the statement read a token itself.
\<close>

definition top_ok :: "pstate \<Rightarrow> u32 \<Rightarrow> (bool \<times> ast_module) outcome \<Rightarrow> pstate \<Rightarrow> bool" where
  "top_ok s fid r s' \<longleftrightarrow>
     (\<exists>ok m. r = Ok (ok, m) \<and> md_file m = fid \<and> ps_step s s' \<and> (\<not> ok \<longrightarrow> has_errors s')
        \<and> (ps_inv s' \<or> (\<not> ok \<and> ps_dead s'))
        \<and> (ps_left s' < ps_left s \<or> (\<not> ok \<and> \<not> top_restart s' \<and> cur_kind s' \<noteq> Tok_Eof)))"

lemma or_keep_ok:
  assumes ro: "res_ok True s r s'" and eq: "p s = (r, s')" and less: "ps_left s' < ps_left s"
    and m: "md_file m = fid" "\<And>m'. r = Ok m' \<Longrightarrow> md_file m' = fid"
    and e: "or_keep m p s = (r2, s2)"
  shows "top_ok s fid r2 s2"
proof (cases r)
  case (Ok m')
  with e eq ro less m show ?thesis
    by (auto simp: or_keep_def p_bind_def p_optional_def p_return_def top_ok_def res_ok_def)
next
  case Fail
  with e eq ro less m show ?thesis
    by (auto simp: or_keep_def p_bind_def p_optional_def p_return_def top_ok_def res_ok_def)
next
  case Abort
  with res_okD(2) [OF ro] show ?thesis by simp
qed

lemma decl_left:
  assumes inv: "ps_inv s" and ne: "cur_kind s \<noteq> Tok_Eof" and b: "\<And>x. behaved True (f x)"
    and eq: "p_bind (p_get ps_cur) (\<lambda>kw. p_then p_advance (f kw)) s = (r, s')"
  shows "res_ok True s r s' \<and> ps_left s' < ps_left s"
proof -
  note adv = ps_advance_ok [OF ps_inv_base [OF inv]] ps_advance_left [OF ne]
  have "f (ps_cur s) (ps_advance s) = (r, s')"
    using eq by (simp add: p_then_def p_bind_def p_get_def p_advance_def)
  from behavedD [OF b adv(1) this] have ro: "res_ok True (ps_advance s) r s'" .
  have "ps_left s' \<le> ps_left (ps_advance s)" using res_okD(1) [OF ro] ps_step_left by blast
  with adv res_ok_trans [OF adv(2) ro] show ?thesis by simp
qed

lemma wb_mod_decl:
  "behaved True (p_bind parseElementDecl (\<lambda>e. p_return (mod_push [Top_Element e] m)))"
  "behaved True (p_bind parseElementGroupDecl (\<lambda>g. p_return (mod_push [Top_Group g] m)))"
  by (intro wb_intros)+

lemma parseElementDecl_left:
  assumes inv: "ps_inv s" and ne: "cur_kind s \<noteq> Tok_Eof"
    and eq: "p_bind parseElementDecl (\<lambda>e. p_return (mod_push [Top_Element e] m)) s = (r, s')"
  shows "res_ok True s r s' \<and> ps_left s' < ps_left s"
  by (rule decl_left [OF inv ne _ eq [unfolded parseElementDecl_def bind_assoc bind_then]])
    (intro wb_intros; simp)

lemma parseElementGroupDecl_left:
  assumes inv: "ps_inv s" and ne: "cur_kind s \<noteq> Tok_Eof"
    and eq: "p_bind parseElementGroupDecl (\<lambda>g. p_return (mod_push [Top_Group g] m)) s = (r, s')"
  shows "res_ok True s r s' \<and> ps_left s' < ps_left s"
  by (rule decl_left [OF inv ne _ eq [unfolded parseElementGroupDecl_def bind_assoc bind_then]])
    (intro wb_intros; simp)

lemma bind_return_file:
  "p_bind p (\<lambda>e. p_return (mod_push (f e) m)) s = (Ok m', s') \<Longrightarrow> md_file m' = md_file m"
  by (auto simp: p_bind_def p_return_def split: prod.splits outcome.splits)

lemma parseTopStmt_ok:
  assumes sub: "import_contract n sub" and inv: "ps_inv s" and im: "imports_ok n s"
    and fid: "md_file m = ps_file s" and ne: "cur_kind s \<noteq> Tok_Eof"
    and eq: "parseTopStmt sub m s = (r, s')"
  shows "top_ok s (md_file m) r s'"
proof -
  let ?el = "p_bind parseElementDecl (\<lambda>e. p_return (mod_push [Top_Element e] m))"
  let ?gr = "p_bind parseElementGroupDecl (\<lambda>g. p_return (mod_push [Top_Group g] m))"
  consider (imp) "cur_kind s = Tok_KwImport" | (el) "cur_kind s = Tok_KwElement"
    | (gr) "cur_kind s = Tok_KwElementGroup" | (other) "\<not> top_restart s"
    by (auto simp: top_restart_def)
  then show ?thesis
  proof cases
    case imp
    obtain r1 s1 where p1: "parseImport sub m s = (r1, s1)" by fastforce
    from parseImport_ok [OF sub inv im fid ne p1]
    have "res_ok True s r1 s1" "ps_left s1 < ps_left s" "\<And>m'. r1 = Ok m' \<Longrightarrow> md_file m' = md_file m"
      by (auto simp: res_ok_weaken)
    note facts = this
    have "top_ok s (md_file m) r s'"
      by (rule or_keep_ok [where p = "parseImport sub m" and m = m, OF facts(1) p1 facts(2) refl facts(3)])
        (use eq imp in \<open>simp_all add: parseTopStmt_def p_bind_def p_get_def\<close>)
    then show ?thesis .
  next
    case el
    obtain r1 s1 where p1: "?el s = (r1, s1)" by fastforce
    note l = parseElementDecl_left [OF inv ne p1]
    show ?thesis
      by (rule or_keep_ok [where p = ?el and m = m, OF conjunct1 [OF l] p1 conjunct2 [OF l] refl])
        (use eq el p1 in \<open>auto simp: parseTopStmt_def p_bind_def [of "p_get cur_kind"] p_get_def
           dest: bind_return_file\<close>)
  next
    case gr
    obtain r1 s1 where p1: "?gr s = (r1, s1)" by fastforce
    note l = parseElementGroupDecl_left [OF inv ne p1]
    show ?thesis
      by (rule or_keep_ok [where p = ?gr and m = m, OF conjunct1 [OF l] p1 conjunct2 [OF l] refl])
        (use eq gr p1 in \<open>auto simp: parseTopStmt_def p_bind_def [of "p_get cur_kind"] p_get_def
           dest: bind_return_file\<close>)
  next
    case other
    then have e: "parseInstanceOrConnection m s = (r, s')"
      using eq by (simp add: parseTopStmt_def top_restart_def p_bind_def p_get_def)
    obtain r1 s1 where p1: "p_collect parseDeclOrChain s = (r1, s1)" by fastforce
    from collect_decl_or_chain [OF inv ne p1] obtain ok out where
      o1: "r1 = Ok (ok, out)" "ps_inv s1" "ps_step s s1" "\<not> ok \<Longrightarrow> has_errors s1"
      "ps_left s1 < ps_left s \<or> (cur_kind s1 = cur_kind s \<and> cur_kind s \<notin> chain_start \<and> \<not> ok)"
      by blast
    with e p1 other ne show ?thesis
      by (auto simp: parseInstanceOrConnection_def p_bind_def p_return_def top_ok_def top_restart_def)
  qed
qed

lemma ps_dead_kind: "ps_dead s \<Longrightarrow> \<not> top_restart s \<and> cur_kind s \<noteq> Tok_Eof \<and> ps_base s"
  by (simp add: ps_dead_def top_restart_def)

lemma top_item_ok:
  assumes sub: "import_contract n sub" and inv: "ps_inv s" and im: "imports_ok n s \<and> ps_file s = fid"
    and fid: "md_file m = fid" and c: "not_eof s"
    and eq: "top_item sub m s = (r, s')"
  shows "body_ok False (\<lambda>m. md_file m = fid) s r s'"
proof -
  have ne: "cur_kind s \<noteq> Tok_Eof" using c by simp
  have mf: "md_file m = ps_file s" "imports_ok n s" using fid im by simp_all
  obtain r1 s1 where p1: "parseTopStmt sub m s = (r1, s1)" by fastforce
  from parseTopStmt_ok [OF sub inv mf(2) mf(1) ne p1] obtain ok m1 where
    o1: "r1 = Ok (ok, m1)" "md_file m1 = md_file m" "ps_step s s1" "\<not> ok \<longrightarrow> has_errors s1"
    "ps_inv s1 \<or> (\<not> ok \<and> ps_dead s1)"
    "ps_left s1 < ps_left s \<or> (\<not> ok \<and> \<not> top_restart s1 \<and> cur_kind s1 \<noteq> Tok_Eof)"
    unfolding top_ok_def by blast
  show ?thesis
  proof (cases ok)
    case True
    with eq p1 o1 fid show ?thesis
      by (auto simp: top_item_def p_bind_def p_return_def body_ok_def res_ok_def)
  next
    case False
    obtain r2 s2 where p2: "skip_until top_restart s1 = (r2, s2)" by fastforce
    have e: "r = (case r2 of Ok _ \<Rightarrow> Ok (Continue m1) | Fail \<Rightarrow> Fail | Abort \<Rightarrow> Abort)" "s' = s2"
      using eq p1 o1(1) False p2
      by (cases r2; simp add: top_item_def p_bind_def p_then_def p_return_def)+
    have "ps_step s1 s2 \<and> r2 \<noteq> Abort \<and> (r2 = Fail \<longrightarrow> has_errors s2) \<and> ps_inv s2 \<and> ps_left s2 < ps_left s"
    proof (cases "\<not> top_restart s1 \<and> cur_kind s1 \<noteq> Tok_Eof")
      case True
      then have "ps_base s1" using o1(5) ps_inv_base ps_dead_kind by blast
      from skip_until_skips [OF this _ _ p2] True o1(3) ps_step_left show ?thesis by fastforce
    next
      case no: False
      then have i1: "ps_inv s1" and less: "ps_left s1 < ps_left s"
        using o1(5,6) ps_dead_kind by blast+
      have ro: "res_ok False s1 r2 s2" by (rule behavedD [OF wb_skip_until i1 p2])
      moreover have "ps_left s2 \<le> ps_left s1" using res_okD(1) [OF ro] ps_step_left by blast
      ultimately show ?thesis using less by (simp add: res_ok_def)
    qed
    with e o1(2,3) fid ps_step_trans show ?thesis
      by (cases r2) (auto simp: body_ok_def res_ok_def)
  qed
qed

text \<open>Entering a buffer that has just been added.\<close>

lemma enter_buffer_ok:
  assumes "de_ok (ps_diags s)" and "length contents < 2 ^ 32" and "unat fid < n_buffers s"
    and "s' = enter_buffer (SourceBuffer p contents) fid s"
  shows "ps_inv s'" and "ps_file s' = fid" and "ps_fs s' = ps_fs s" and "ps_seen s' = ps_seen s"
    and "ps_sm s' = ps_sm s" and "diag_extends (ps_diags s) (ps_diags s')"
proof -
  define s0 where "s0 = s\<lparr>ps_lex := Lexer (SourceBuffer p contents) fid, ps_file := fid, ps_out := []\<rparr>"
  have "ps_base s0" using assms(1-3) by (simp add: s0_def ps_base_def lx_ok_Lexer)
  note adv = ps_advance_ok [OF this]
  have e: "s' = (ps_advance s0)\<lparr>ps_prev := token_default\<rparr>"
    by (simp add: assms(4) enter_buffer_def ps_advance_def s0_def split: prod.splits)
  show "ps_inv s'" using adv(1) by (simp add: e ps_inv_def ps_base_def has_errors_def)
  show "ps_file s' = fid" "ps_fs s' = ps_fs s" "ps_seen s' = ps_seen s" "ps_sm s' = ps_sm s"
    by (simp_all add: e s0_def ps_advance_def split: prod.splits)
  show "diag_extends (ps_diags s) (ps_diags s')"
    using adv(2) by (simp add: e ps_step_def s0_def)
qed

lemma n_buffers_addBuffer:
  "addBuffer p c sm = (fid, sm') \<Longrightarrow>
   length (sm_buffers sm') = Suc (length (sm_buffers sm)) \<and> fid = of_nat (length (sm_buffers sm))"
  by (auto simp: addBuffer_def Let_def)

lemma parse_file_with_ok:
  assumes sub: "import_contract n sub" and de: "de_ok (ps_diags s)" and im: "imports_ok (Suc n) s"
    and eq: "parse_file_with sub path s = (r, s')"
  shows "file_result s r s'"
proof -
  define canon where "canon = fs_canon (ps_fs s) path"
  show ?thesis
  proof (cases "canon \<in> ps_seen s")
    case True
    with eq de show ?thesis
      by (auto simp: parse_file_with_def canon_def file_result_def same_stream_def leave_buffer_def)
  next
    case new: False
    define s1 where "s1 = s\<lparr>ps_seen := insert canon (ps_seen s)\<rparr>"
    have fin: "finite (unread s)" using im by (simp add: imports_ok_def unread_def)
    have u1: "unread s1 = unread s - {canon}" by (auto simp: unread_def s1_def)
    show ?thesis
    proof (cases "fs_read (ps_fs s) path")
      case None
      have "r = Fail" "s' = s1\<lparr>ps_diags := diag_error dummy_range (''cannot open `'' @ path @ ''`'') (ps_diags s1)\<rparr>"
        using eq new None by (simp_all add: parse_file_with_def canon_def Let_def s1_def)
      moreover have "card (unread s1) \<le> card (unread s)" using fin u1 by (simp add: card_mono)
      ultimately show ?thesis
        using de by (auto simp: file_result_def same_stream_def leave_buffer_def s1_def has_errors_def
            de_ok_error unread_def)
    next
      case (Some contents)
      obtain fid sm where ab: "addBuffer path contents (ps_sm s) = (fid, sm)" by fastforce
      have cin: "canon \<in> unread s" using new Some by (auto simp: unread_def readable_def canon_def)
      then have cd: "Suc (card (unread s1)) = card (unread s)"
        using card_Suc_Diff1 [OF fin] by (simp only: u1)
      have nb: "n_buffers s < 2 ^ 32" using im cd by (simp add: imports_ok_def)
      have buf: "sm_buffer sm fid = Some (SourceBuffer path contents)"
        by (rule sm_buffer_addBuffer [OF ab nb])
      define s2 where "s2 = enter_buffer (SourceBuffer path contents) fid (s1\<lparr>ps_sm := sm\<rparr>)"
      obtain r3 s3 where w: "p_while not_eof (top_item sub) (module_default\<lparr>md_file := fid\<rparr>) s2 = (r3, s3)"
        by fastforce
      have rs: "r = r3" "s' = leave_buffer s s3"
        using eq new Some ab buf w
        by (simp_all add: parse_file_with_def canon_def Let_def s1_def s2_def)
      have nbs: "n_buffers (s1\<lparr>ps_sm := sm\<rparr>) = Suc (n_buffers s)" "unat fid < Suc (n_buffers s)"
        using n_buffers_addBuffer [OF ab] nb
        by (simp_all add: unat_of_nat take_bit_nat_eq_self)
      have lt: "length contents < 2 ^ 32" using im Some by (auto simp: imports_ok_def)
      have en: "ps_inv s2" "ps_file s2 = fid" "ps_fs s2 = ps_fs s" "ps_seen s2 = ps_seen s1"
        "ps_sm s2 = sm" "diag_extends (ps_diags s) (ps_diags s2)"
        using enter_buffer_ok [of "s1\<lparr>ps_sm := sm\<rparr>" contents fid s2 path] de lt nbs
        by (simp_all add: s2_def s1_def)
      have un: "unread s2 = unread s1" using en by (simp add: unread_def s1_def)
      have im2: "imports_ok n s2 \<and> ps_file s2 = fid"
        using im cd en nbs un by (simp add: imports_ok_def)
      have "res_ok False s2 r3 s3 \<and> (\<forall>m. r3 = Ok m \<longrightarrow> md_file m = fid)"
        by (rule p_loop_ok [where Q = "\<lambda>s. imports_ok n s \<and> ps_file s = fid"
              and P = "\<lambda>m. md_file m = fid", OF _ stable_imports_ok en(1) im2 _ _ w [unfolded p_while_def]])
          (auto intro: top_item_ok [OF sub])
      then have ro: "res_ok False s2 r3 s3" by simp
      have st: "ps_step s2 s3" and i3: "ps_inv s3" using ro by (auto simp: res_ok_def)
      have "unread s' = unread s3" using st en by (simp add: unread_def rs leave_buffer_def ps_step_def)
      moreover have "n_buffers s' = n_buffers s3" by (simp add: rs leave_buffer_def)
      ultimately have n: "n_buffers s \<le> n_buffers s'"
        "n_buffers s' + card (unread s') \<le> n_buffers s + card (unread s)"
        using st en un cd nbs by (auto simp: ps_step_def)
      have "diag_extends (ps_diags s) (ps_diags s3)"
        using st en diag_extends_trans by (auto simp: ps_step_def)
      then have "diag_extends (ps_diags s) (ps_diags s')" by (simp add: rs leave_buffer_def)
      moreover have "same_stream s s'" by (simp add: rs same_stream_def leave_buffer_def)
      moreover have "r \<noteq> Abort" "r = Fail \<Longrightarrow> has_errors s'"
        using ro by (auto simp: rs res_ok_def leave_buffer_def has_errors_def)
      moreover have "de_ok (ps_diags s')"
        using i3 by (simp add: rs leave_buffer_def ps_inv_def ps_base_def)
      moreover have "ps_seen s \<subseteq> ps_seen s'"
        using st en by (auto simp: rs leave_buffer_def ps_step_def s1_def)
      ultimately show ?thesis using n unfolding file_result_def by blast
    qed
  qed
qed

lemma import_contract_parseFile: "import_contract n (parseFile n)"
proof (induction n)
  case 0
  then show ?case by (auto simp: import_contract_def imports_ok_def)
next
  case (Suc n)
  from parse_file_with_ok [OF this] show ?case
    by (auto simp: import_contract_def)
qed

end
