(* ===== verification/Graph.thy ===== *)
theory Graph
  imports Ast
begin

text \<open>
  The two intermediate representations: the element graph
  (\<open>compiler/include/openclicknp/eg_ir.hpp\<close>, \<open>compiler/src/ir/eg_builder.cpp\<close>) and the build plan
  the backends read (\<open>compiler/include/openclicknp/be_ir.hpp\<close>, \<open>compiler/src/ir/platform.cpp\<close>),
  with the default member initialisers as constants.
\<close>

subsection \<open>Element graph\<close>

datatype channel_kind = Channel_Flit | Channel_Metadata

datatype special_kind =
    Special_None | TorIn | TorOut | NicIn | NicOut | HostIn | HostOut | Special_Drop | Special_Idle
  | Special_Begin | Special_End

definition specialFromName :: "string \<Rightarrow> special_kind" where
  "specialFromName n =
     (if n = ''tor_in'' then TorIn
      else if n = ''tor_out'' then TorOut
      else if n = ''nic_in'' then NicIn
      else if n = ''nic_out'' then NicOut
      else if n = ''host_in'' then HostIn
      else if n = ''host_out'' then HostOut
      else if n = ''Drop'' then Special_Drop
      else if n = ''Idle'' then Special_Idle
      else if n = ''begin'' then Special_Begin
      else if n = ''end'' then Special_End
      else Special_None)"

fun specialName :: "special_kind \<Rightarrow> string" where
  "specialName Special_None = ''(user)''"
| "specialName TorIn = ''tor_in''"
| "specialName TorOut = ''tor_out''"
| "specialName NicIn = ''nic_in''"
| "specialName NicOut = ''nic_out''"
| "specialName HostIn = ''host_in''"
| "specialName HostOut = ''host_out''"
| "specialName Special_Drop = ''Drop''"
| "specialName Special_Idle = ''Idle''"
| "specialName Special_Begin = ''begin''"
| "specialName Special_End = ''end''"

record kernel =
  k_name :: string
  k_type :: string
  k_special :: special_kind
  k_n_in_ports :: int
  k_n_out_ports :: int
  k_host_control :: bool
  k_autorun :: bool
  k_state_cpp :: string
  k_init_cpp :: string
  k_handler_cpp :: string
  k_signal_cpp :: string
  k_signal_params :: "signal_param list"
  k_params :: "instance_param list"
  k_channel_depth :: int
  k_pipeline_ii :: int
  k_hls_pragmas :: "string list"
  k_axilite_base :: int
  k_gid :: int
  k_src :: source_range

definition kernel_default :: kernel where
  "kernel_default =
     \<lparr>k_name = [], k_type = [], k_special = Special_None, k_n_in_ports = 0, k_n_out_ports = 0,
      k_host_control = False, k_autorun = False, k_state_cpp = [], k_init_cpp = [],
      k_handler_cpp = [], k_signal_cpp = [], k_signal_params = [], k_params = [],
      k_channel_depth = 64, k_pipeline_ii = 0, k_hls_pragmas = [], k_axilite_base = -1, k_gid = -1,
      k_src = range_default\<rparr>"

record edge =
  e_src_kernel :: string
  e_src_port :: int
  e_dst_kernel :: string
  e_dst_port :: int
  e_lossy :: bool
  e_depth :: int
  e_kind :: channel_kind
  e_src :: source_range

record graph =
  g_kernels :: "kernel list"
  g_edges :: "edge list"

definition graph_empty :: graph where
  "graph_empty = \<lparr>g_kernels = [], g_edges = []\<rparr>"

fun find_kernel :: "kernel list \<Rightarrow> string \<Rightarrow> kernel option" where
  "find_kernel [] n = None"
| "find_kernel (k # ks) n = (if k_name k = n then Some k else find_kernel ks n)"

text \<open>\<open>Graph::find\<close>; a null pointer is \<open>None\<close>.\<close>

definition graph_find :: "graph \<Rightarrow> string \<Rightarrow> kernel option" where
  "graph_find g n = find_kernel (g_kernels g) n"

definition kernel_names :: "graph \<Rightarrow> string list" where
  "kernel_names g = map k_name (g_kernels g)"

lemma find_kernel_Some: "find_kernel ks n = Some k \<Longrightarrow> k \<in> set ks \<and> k_name k = n"
  by (induction ks) (auto split: if_splits)

lemma find_kernel_None: "find_kernel ks n = None \<longleftrightarrow> n \<notin> k_name ` set ks"
  by (induction ks) auto

lemma graph_find_Some: "graph_find g n = Some k \<Longrightarrow> k \<in> set (g_kernels g) \<and> k_name k = n"
  by (simp add: graph_find_def find_kernel_Some)

lemma graph_find_names: "n \<in> set (kernel_names g) \<longleftrightarrow> (\<exists>k. graph_find g n = Some k)"
  using find_kernel_None [of "g_kernels g" n] by (auto simp: kernel_names_def graph_find_def)

lemma find_kernel_distinct:
  "distinct (map k_name ks) \<Longrightarrow> k \<in> set ks \<Longrightarrow> find_kernel ks (k_name k) = Some k"
  by (induction ks) (auto simp: image_iff)

text \<open>The names of the pseudo-elements, and that the two tables agree on them.\<close>

lemma specialFromName_specialName: "k \<noteq> Special_None \<Longrightarrow> specialFromName (specialName k) = k"
  by (cases k) (simp_all add: specialFromName_def)

lemma specialName_specialFromName: "specialFromName n \<noteq> Special_None \<Longrightarrow> specialName (specialFromName n) = n"
  by (simp add: specialFromName_def split: if_splits)

subsection \<open>Build plan\<close>

datatype platform = U50_XDMA | U50_QDMA

fun platformName :: "platform \<Rightarrow> string" where
  "platformName U50_XDMA = ''u50_xdma''"
| "platformName U50_QDMA = ''u50_qdma''"

definition platformFromString :: "string \<Rightarrow> platform" where
  "platformFromString s = (if s = ''u50_qdma'' then U50_QDMA else U50_XDMA)"

record port =
  p_index :: int
  p_kind :: channel_kind
  p_width_bits :: int

record kernel_hls =
  kh_name :: string
  kh_element_type :: string
  kh_autorun :: bool
  kh_has_signal :: bool
  kh_axilite_base :: int
  kh_pipeline_ii :: int
  kh_hls_pragmas :: "string list"
  kh_in_ports :: "port list"
  kh_out_ports :: "port list"
  kh_params :: "string list"
  kh_state_cpp :: string
  kh_init_cpp :: string
  kh_handler_cpp :: string
  kh_signal_cpp :: string
  kh_signal_params :: "signal_param list"

record stream_conn =
  sc_src_kernel :: string
  sc_src_port :: int
  sc_dst_kernel :: string
  sc_dst_port :: int
  sc_lossy :: bool
  sc_depth :: int
  sc_width_bits :: int

record host_conn =
  hc_kernel :: string
  hc_port :: int
  hc_kernel_to_host :: bool
  hc_slot_id :: int

record mem_conn =
  mc_kernel :: string
  mc_mem_bank :: string

record signal_entry =
  se_gid :: int
  se_kernel :: string
  se_axilite_base :: int

record build =
  b_platform :: platform
  b_user_clock_hz :: int
  b_kernels :: "kernel_hls list"
  b_stream_conns :: "stream_conn list"
  b_host_conns :: "host_conn list"
  b_mem_conns :: "mem_conn list"
  b_tor_conns :: "stream_conn list"
  b_nic_conns :: "stream_conn list"
  b_host_streams :: "host_conn list"
  b_signal_table :: "signal_entry list"
  b_source_path :: string

definition build_default :: build where
  "build_default =
     \<lparr>b_platform = U50_XDMA, b_user_clock_hz = 322265625, b_kernels = [], b_stream_conns = [],
      b_host_conns = [], b_mem_conns = [], b_tor_conns = [], b_nic_conns = [], b_host_streams = [],
      b_signal_table = [], b_source_path = []\<rparr>"

lemma platform_roundtrip: "platformFromString (platformName p) = p"
  by (cases p) (simp_all add: platformFromString_def)

end
