(* ===== verification/Resolver.thy ===== *)
theory Resolver
  imports Graph Diagnostics "HOL-Library.List_Lexorder"
begin

text \<open>
  Resolution of a module to an element graph (\<open>compiler/src/ir/resolver.cpp\<close>). The private members
  of the class are the two declaration tables, the counter for anonymous names, the diagnostics
  and the graph under construction. Groups nest through \<open>processTop\<close>: the fuel bounds the nesting,
  and \<open>None\<close> is a recursion that does not return.
\<close>

subsection \<open>State\<close>

record decl_tables =
  dt_elems :: "string \<Rightarrow> element_decl option"
  dt_groups :: "string \<Rightarrow> element_group_decl option"

record resolver =
  rs_anon :: nat
  rs_diags :: diag_engine
  rs_graph :: graph

definition r_error :: "source_range \<Rightarrow> string \<Rightarrow> resolver \<Rightarrow> resolver" where
  "r_error at msg st = st\<lparr>rs_diags := diag_error at msg (rs_diags st)\<rparr>"

definition push_kernel :: "kernel \<Rightarrow> resolver \<Rightarrow> resolver" where
  "push_kernel k st = st\<lparr>rs_graph := (rs_graph st)\<lparr>g_kernels := g_kernels (rs_graph st) @ [k]\<rparr>\<rparr>"

definition push_edge :: "edge \<Rightarrow> resolver \<Rightarrow> resolver" where
  "push_edge e st = st\<lparr>rs_graph := (rs_graph st)\<lparr>g_edges := g_edges (rs_graph st) @ [e]\<rparr>\<rparr>"

subsection \<open>Declarations\<close>

fun collectDecl :: "top_stmt \<Rightarrow> decl_tables \<times> diag_engine \<Rightarrow> decl_tables \<times> diag_engine" where
  "collectDecl (Top_Element d) (t, de) =
     (if dt_elems t (el_name d) \<noteq> None
      then (t, diag_error (el_src d) (''duplicate `.element '' @ el_name d @ ''`'') de)
      else (t\<lparr>dt_elems := (dt_elems t)(el_name d \<mapsto> d)\<rparr>, de))"
| "collectDecl (Top_Group d) (t, de) =
     (if dt_groups t (gd_name d) \<noteq> None
      then (t, diag_error (gd_src d) (''duplicate `.element_group '' @ gd_name d @ ''`'') de)
      else (t\<lparr>dt_groups := (dt_groups t)(gd_name d \<mapsto> d)\<rparr>, de))"
| "collectDecl _ (t, de) = (t, de)"

subsection \<open>Instances and connections\<close>

definition makeAnonName :: "string \<Rightarrow> nat \<Rightarrow> string" where
  "makeAnonName ty n = ty @ ''__anon_'' @ nat_str n"

text \<open>\<open>makeAnonName\<close> also steps the counter.\<close>

definition instance_name :: "instance_decl \<Rightarrow> resolver \<Rightarrow> string \<times> resolver" where
  "instance_name d st =
     (if in_anonymous d
      then (makeAnonName (in_type d) (rs_anon st), st\<lparr>rs_anon := rs_anon st + 1\<rparr>)
      else (in_name d, st))"

definition opt_text :: "opaque_cpp option \<Rightarrow> string" where
  "opt_text b = (case b of Some c \<Rightarrow> oc_text c | None \<Rightarrow> [])"

text \<open>The instance's count when positive, else the declaration's, and one when neither is given.\<close>

definition port_count :: "int \<Rightarrow> int \<Rightarrow> int" where
  "port_count inst decl = (let n = (if 0 < inst then inst else decl) in if n < 0 then 1 else n)"

definition kernel_of :: "string \<Rightarrow> element_decl \<Rightarrow> instance_decl \<Rightarrow> kernel" where
  "kernel_of name decl d =
     kernel_default\<lparr>k_name := name, k_type := in_type d, k_host_control := in_host_control d,
       k_autorun := in_autorun d,
       k_n_in_ports := port_count (in_n_in_ports d) (el_n_in_ports decl),
       k_n_out_ports := port_count (in_n_out_ports d) (el_n_out_ports decl),
       k_channel_depth := in_channel_depth d, k_params := in_params d,
       k_signal_params := el_signal_params decl,
       k_state_cpp := opt_text (el_state decl), k_init_cpp := opt_text (el_init decl),
       k_handler_cpp := opt_text (el_handler decl), k_signal_cpp := opt_text (el_signal decl),
       k_pipeline_ii := el_pipeline_ii decl, k_hls_pragmas := el_hls_pragmas decl,
       k_src := in_src d\<rparr>"

definition emitKernelFromInstance :: "element_decl \<Rightarrow> instance_decl \<Rightarrow> resolver \<Rightarrow> resolver" where
  "emitKernelFromInstance decl d st =
     (let (name, st1) = instance_name d st in push_kernel (kernel_of name decl d) st1)"

definition edge_of :: "connection_decl \<Rightarrow> edge" where
  "edge_of c =
     (let sr = ce_range (cd_source c); dr = ce_range (cd_dest c) in
      \<lparr>e_src_kernel = ce_node_name (cd_source c),
       e_src_port = (if pr_lo sr = 0 then 1 else pr_lo sr),
       e_dst_kernel = ce_node_name (cd_dest c),
       e_dst_port = (if pr_lo dr = 0 then 1 else pr_lo dr),
       e_lossy = cd_lossy c,
       e_depth = (if 0 < pr_depth dr then pr_depth dr
                  else if 0 < pr_depth sr then pr_depth sr else 64),
       e_kind = Channel_Flit, e_src = cd_src c\<rparr>)"

definition addConnection :: "connection_decl \<Rightarrow> resolver \<Rightarrow> resolver" where
  "addConnection c st = push_edge (edge_of c) st"

definition group_prefix :: "instance_decl \<Rightarrow> string" where
  "group_prefix d = in_name d @ ''::''"

definition rewriteEnd :: "instance_decl \<Rightarrow> conn_end \<Rightarrow> conn_end" where
  "rewriteEnd d e =
     e\<lparr>ce_node_name :=
         (if ce_node_name e = ''begin'' \<or> ce_node_name e = ''end'' then in_name d
          else group_prefix d @ ce_node_name e)\<rparr>"

text \<open>One statement of a group body; \<open>proc\<close> is \<open>processTop\<close> on the renamed instance.\<close>

fun inline_stmt ::
  "(instance_decl \<Rightarrow> resolver \<Rightarrow> resolver option) \<Rightarrow> instance_decl \<Rightarrow> group_stmt \<Rightarrow> resolver
   \<Rightarrow> resolver option" where
  "inline_stmt proc d (Group_Instance v) st =
     (let (name, st1) = instance_name v st
      in proc (v\<lparr>in_name := group_prefix d @ name, in_anonymous := False\<rparr>) st1)"
| "inline_stmt proc d (Group_Connection c) st =
     Some (addConnection
       (c\<lparr>cd_source := rewriteEnd d (cd_source c), cd_dest := rewriteEnd d (cd_dest c)\<rparr>) st)"

definition inlineGroup ::
  "(instance_decl \<Rightarrow> resolver \<Rightarrow> resolver option) \<Rightarrow> element_group_decl \<Rightarrow> instance_decl \<Rightarrow> resolver
   \<Rightarrow> resolver option" where
  "inlineGroup proc g d st = fold_opt (inline_stmt proc d) (gd_body g) st"

primrec process_instance ::
  "nat \<Rightarrow> decl_tables \<Rightarrow> instance_decl \<Rightarrow> resolver \<Rightarrow> resolver option" where
  "process_instance 0 t d st = None"
| "process_instance (Suc n) t d st =
     (case dt_elems t (in_type d) of
        Some decl \<Rightarrow> Some (emitKernelFromInstance decl d st)
      | None \<Rightarrow>
          (case dt_groups t (in_type d) of
             Some g \<Rightarrow> inlineGroup (process_instance n t) g d st
           | None \<Rightarrow>
               Some (r_error (in_src d) (''unknown element or group type `'' @ in_type d @ ''`'') st)))"

fun processTop :: "nat \<Rightarrow> decl_tables \<Rightarrow> top_stmt \<Rightarrow> resolver \<Rightarrow> resolver option" where
  "processTop n t (Top_Instance d) st = process_instance n t d st"
| "processTop n t (Top_Connection c) st = Some (addConnection c st)"
| "processTop n t _ st = Some st"

subsection \<open>Pseudo-elements\<close>

fun special_ports :: "special_kind \<Rightarrow> int \<times> int" where
  "special_ports TorIn = (0, 1)"
| "special_ports NicIn = (0, 1)"
| "special_ports HostIn = (0, 1)"
| "special_ports Special_Idle = (0, 1)"
| "special_ports TorOut = (1, 0)"
| "special_ports NicOut = (1, 0)"
| "special_ports HostOut = (1, 0)"
| "special_ports Special_Drop = (1, 0)"
| "special_ports _ = (1, 1)"

definition special_kernel :: "string \<Rightarrow> kernel" where
  "special_kernel n =
     (let kind = specialFromName n; (i, o1) = special_ports kind in
      kernel_default\<lparr>k_name := n, k_type := n, k_special := kind, k_n_in_ports := i,
        k_n_out_ports := o1, k_autorun := True\<rparr>)"

text \<open>The lambda \<open>add_special\<close> on the kernels; \<open>existing\<close> is the set of their names.\<close>

definition add_special :: "string \<Rightarrow> kernel list \<Rightarrow> kernel list" where
  "add_special n ks =
     (if n \<in> k_name ` set ks then ks
      else if specialFromName n = Special_None then ks
      else ks @ [special_kernel n])"

text \<open>The names the edges mention, in the order of \<open>std::set\<close>.\<close>

definition referenced :: "graph \<Rightarrow> string list" where
  "referenced g = sort (remdups (concat (map (\<lambda>e. [e_src_kernel e, e_dst_kernel e]) (g_edges g))))"

definition check_edge :: "string set \<Rightarrow> edge \<Rightarrow> diag_engine \<Rightarrow> diag_engine" where
  "check_edge existing e de =
     (let de1 = (if e_src_kernel e \<in> existing then de
                 else diag_error (e_src e) (''unknown source node `'' @ e_src_kernel e @ ''`'') de)
      in if e_dst_kernel e \<in> existing then de1
         else diag_error (e_src e) (''unknown destination node `'' @ e_dst_kernel e @ ''`'') de1)"

definition synthesizeSpecials :: "graph \<Rightarrow> diag_engine \<Rightarrow> graph \<times> diag_engine" where
  "synthesizeSpecials g de =
     (let ks = fold add_special (referenced g) (g_kernels g)
      in (g\<lparr>g_kernels := ks\<rparr>, fold (check_edge (k_name ` set ks)) (g_edges g) de))"

subsection \<open>Signal slots\<close>

definition is_slot_kernel :: "kernel \<Rightarrow> bool" where
  "is_slot_kernel k \<longleftrightarrow> k_host_control k \<and> k_special k = Special_None"

fun assign_slots :: "int \<Rightarrow> int \<Rightarrow> kernel list \<Rightarrow> kernel list" where
  "assign_slots gid base [] = []"
| "assign_slots gid base (k # ks) =
     (if is_slot_kernel k
      then k\<lparr>k_gid := gid, k_axilite_base := base\<rparr> # assign_slots (gid + 1) (base + 0x80) ks
      else k # assign_slots gid base ks)"

definition assignSignalSlots :: "graph \<Rightarrow> graph" where
  "assignSignalSlots g = g\<lparr>g_kernels := assign_slots 0 0x1000 (g_kernels g)\<rparr>"

subsection \<open>The pass\<close>

definition no_decls :: decl_tables where
  "no_decls = \<lparr>dt_elems = (\<lambda>_. None), dt_groups = (\<lambda>_. None)\<rparr>"

definition collect_decls :: "ast_module \<Rightarrow> diag_engine \<Rightarrow> decl_tables \<times> diag_engine" where
  "collect_decls m de = fold collectDecl (md_stmts m) (no_decls, de)"

definition resolveModuleToGraph ::
  "nat \<Rightarrow> ast_module \<Rightarrow> diag_engine \<Rightarrow> (bool \<times> graph \<times> diag_engine) option" where
  "resolveModuleToGraph n m de =
     (let (t, de1) = collect_decls m de in
      case fold_opt (processTop n t) (md_stmts m)
             \<lparr>rs_anon = 0, rs_diags = de1, rs_graph = graph_empty\<rparr> of
        None \<Rightarrow> None
      | Some st \<Rightarrow>
          (let (g, de2) = synthesizeSpecials (rs_graph st) (rs_diags st)
           in Some (\<not> hasError de2, assignSignalSlots g, de2)))"

end
