(* ===== verification/ResolverFacts.thy ===== *)
theory ResolverFacts
  imports Resolver Parser
begin

text \<open>
  What resolution guarantees: a graph it accepts has no dangling edge, kernels are well formed,
  signal slots are numbered without gaps; and where it does not return or cannot succeed: recursive
  groups, anonymous instances in chains.
\<close>

subsection \<open>Diagnostics only grow\<close>

lemma collectDecl_step: "de_step (snd x) (snd (collectDecl s x))"
  by (cases "(s, x)" rule: collectDecl.cases) (simp_all add: de_step_error)

lemma collect_decls_step: "collect_decls m de = (t, de1) \<Longrightarrow> de_step de de1"
proof -
  assume "collect_decls m de = (t, de1)"
  then have "de1 = snd (fold collectDecl (md_stmts m) (no_decls, de))"
    by (simp add: collect_decls_def)
  moreover have "de_step (snd (no_decls, de)) (snd (fold collectDecl (md_stmts m) (no_decls, de)))"
    by (rule fold_rel [where R = "\<lambda>a b. de_step (snd a) (snd b)"]) 
      (blast intro: collectDecl_step de_step_refl de_step_trans)+
  ultimately show ?thesis by simp
qed

text \<open>The relation every step of the statement loop keeps.\<close>

definition rs_extends :: "resolver \<Rightarrow> resolver \<Rightarrow> bool" where
  "rs_extends a b \<longleftrightarrow> de_step (rs_diags a) (rs_diags b) \<and> rs_anon a \<le> rs_anon b"

lemma rs_extends_refl [simp]: "rs_extends a a"
  by (simp add: rs_extends_def)

lemma rs_extends_trans: "rs_extends a b \<Longrightarrow> rs_extends b c \<Longrightarrow> rs_extends a c"
  unfolding rs_extends_def using de_step_trans order.trans by blast

lemma rs_extends_steps:
  "rs_extends st (push_kernel k st)" "rs_extends st (addConnection c st)" "rs_extends st (r_error r m st)"
  "rs_extends st (st\<lparr>rs_anon := rs_anon st + 1\<rparr>)"
  by (simp_all add: rs_extends_def push_kernel_def addConnection_def push_edge_def r_error_def de_step_error)

text \<open>
  A step relation between resolver states that holds of the elementary steps holds of the whole
  recursion: the induction all invariants below use.
\<close>

definition instance_rel :: "decl_tables \<Rightarrow> (resolver \<Rightarrow> resolver \<Rightarrow> bool) \<Rightarrow> bool" where
  "instance_rel t R \<longleftrightarrow>
     (\<forall>s. R s s) \<and> (\<forall>a b c. R a b \<longrightarrow> R b c \<longrightarrow> R a c)
     \<and> (\<forall>s. R s (s\<lparr>rs_anon := rs_anon s + 1\<rparr>)) \<and> (\<forall>s r m. R s (r_error r m s))
     \<and> (\<forall>s c. R s (addConnection c s))
     \<and> (\<forall>s name ty decl d. dt_elems t ty = Some decl \<longrightarrow> R s (push_kernel (kernel_of name decl d) s))"

lemma process_instance_rel:
  assumes R: "instance_rel t R"
  shows "process_instance n t d st = Some st' \<Longrightarrow> R st st'"
proof (induction n arbitrary: d st st')
  case 0
  then show ?case by simp
next
  case (Suc n)
  note rel = R [unfolded instance_rel_def]
  have name: "R s s1" if "instance_name v s = (nm, s1)" for v s nm s1
    using that rel by (auto simp: instance_name_def split: if_splits)
  show ?case
  proof (cases "dt_elems t (in_type d)")
    case (Some decl)
    obtain nm s1 where n1: "instance_name d st = (nm, s1)" by fastforce
    have "st' = push_kernel (kernel_of nm decl d) s1"
      using Suc.prems Some n1 by (simp add: emitKernelFromInstance_def)
    then show ?thesis using name [OF n1] rel Some by blast
  next
    case None
    show ?thesis
    proof (cases "dt_groups t (in_type d)")
      case None
      then show ?thesis using Suc.prems \<open>dt_elems t (in_type d) = None\<close> rel by auto
    next
      case (Some g)
      have step: "R s s'" if "inline_stmt (process_instance n t) d x s = Some s'" for x s s'
      proof (cases x)
        case (Group_Instance v)
        obtain nm s1 where n1: "instance_name v s = (nm, s1)" by fastforce
        then show ?thesis
          using that Group_Instance name [OF n1] Suc.IH [of _ s1 s'] rel by auto
      next
        case (Group_Connection c)
        then show ?thesis using that rel by auto
      qed
      have "fold_opt (inline_stmt (process_instance n t) d) (gd_body g) st = Some st'"
        using Suc.prems Some None by (simp add: inlineGroup_def)
      then show ?thesis
        by (rule fold_opt_rel [where R = R, rotated 3]) (use step rel in blast)+
    qed
  qed
qed

lemma processTop_rel:
  assumes R: "instance_rel t R" and "processTop n t s st = Some st'"
  shows "R st st'"
proof (cases s)
  case (Top_Instance d)
  then show ?thesis using assms process_instance_rel by auto
qed (use assms in \<open>auto simp: instance_rel_def\<close>)

lemma process_all_rel:
  assumes R: "instance_rel t R" and eq: "fold_opt (processTop n t) ss st = Some st'"
  shows "R st st'"
proof (rule fold_opt_rel [where R = R, OF _ _ _ eq])
  show "R s s'" if "processTop n t x s = Some s'" for x s s'
    using R that by (rule processTop_rel)
  show "R s s" "R a b \<Longrightarrow> R b c \<Longrightarrow> R a c" for s a b c
    using R unfolding instance_rel_def by blast+
qed

lemma instance_rel_extends: "instance_rel t rs_extends"
  unfolding instance_rel_def
  using rs_extends_refl rs_extends_trans rs_extends_steps by blast

subsection \<open>No dangling edge\<close>

lemma check_edge_step: "de_step de (check_edge ex e de)"
  unfolding check_edge_def Let_def by (simp add: de_step_error de_step_error_after)

lemma check_edges_step: "de_step de (fold (check_edge ex) es de)"
  by (rule de_step_fold) (rule check_edge_step)

lemma check_edge_clean:
  "errors_of (de_diags (check_edge ex e de)) = [] \<Longrightarrow> e_src_kernel e \<in> ex \<and> e_dst_kernel e \<in> ex"
  by (auto simp: check_edge_def Let_def split: if_splits)

lemma check_edges_clean:
  assumes "errors_of (de_diags (fold (check_edge ex) es de)) = []" and "e \<in> set es"
  shows "e_src_kernel e \<in> ex \<and> e_dst_kernel e \<in> ex"
  using assms
proof (induction es arbitrary: de)
  case Nil
  then show ?case by simp
next
  case (Cons f es)
  have "errors_of (de_diags (check_edge ex f de)) = []"
    using de_step_clean [OF check_edges_step] Cons.prems(1) by simp
  with Cons check_edge_clean show ?case by auto
qed

text \<open>Conversely, an edge to a name that is not there is always reported.\<close>

lemma check_edges_reports:
  assumes "e \<in> set es" and "e_src_kernel e \<notin> ex \<or> e_dst_kernel e \<notin> ex"
  shows "errors_of (de_diags (fold (check_edge ex) es de)) \<noteq> []"
  using check_edges_clean assms by blast

lemma assign_slots_names [simp]: "map k_name (assign_slots g b ks) = map k_name ks"
  by (induction ks arbitrary: g b) auto

lemma kernel_names_assign [simp]: "kernel_names (assignSignalSlots g) = kernel_names g"
  by (simp add: kernel_names_def assignSignalSlots_def)

lemma resolve_unfold:
  assumes "resolveModuleToGraph n m de = Some (ok, g, de')"
  obtains t de1 st where "collect_decls m de = (t, de1)"
    "fold_opt (processTop n t) (md_stmts m) \<lparr>rs_anon = 0, rs_diags = de1, rs_graph = graph_empty\<rparr> = Some st"
    "g = assignSignalSlots (fst (synthesizeSpecials (rs_graph st) (rs_diags st)))"
    "de' = snd (synthesizeSpecials (rs_graph st) (rs_diags st))" "ok = (\<not> hasError de')"
proof -
  obtain t de1 where c: "collect_decls m de = (t, de1)" by fastforce
  obtain st where st: "fold_opt (processTop n t) (md_stmts m)
      \<lparr>rs_anon = 0, rs_diags = de1, rs_graph = graph_empty\<rparr> = Some st"
    using assms c by (auto simp: resolveModuleToGraph_def split: option.splits)
  from that [OF c this] assms c st show ?thesis
    by (simp add: resolveModuleToGraph_def split: prod.splits)
qed

lemma resolve_diags:
  assumes "resolveModuleToGraph n m de = Some (ok, g, de')"
  shows "de_step de de'" and "ok = (\<not> hasError de')"
proof -
  obtain t de1 st where u: "collect_decls m de = (t, de1)"
    "fold_opt (processTop n t) (md_stmts m) \<lparr>rs_anon = 0, rs_diags = de1, rs_graph = graph_empty\<rparr> = Some st"
    "g = assignSignalSlots (fst (synthesizeSpecials (rs_graph st) (rs_diags st)))"
    "de' = snd (synthesizeSpecials (rs_graph st) (rs_diags st))" "ok = (\<not> hasError de')"
    by (rule resolve_unfold [OF assms])
  note st = u(2) and g = u(3) and de' = u(4)
  have "de_step de de1" by (rule collect_decls_step [OF u(1)])
  also have "de_step de1 (rs_diags st)"
    using process_all_rel [OF instance_rel_extends u(2)] by (simp add: rs_extends_def)
  also have "de_step (rs_diags st) de'"
    using de' by (simp add: synthesizeSpecials_def Let_def check_edges_step)
  finally show "de_step de de'" .
  show "ok = (\<not> hasError de')" by (rule u(5))
qed

lemma resolve_edges_exist:
  assumes res: "resolveModuleToGraph n m de = Some (True, g, de')"
    and de: "de_ok de" "length (de_diags de') < 2 ^ 32" and e: "e \<in> set (g_edges g)"
  shows "e_src_kernel e \<in> set (kernel_names g) \<and> e_dst_kernel e \<in> set (kernel_names g)"
proof -
  obtain t de1 st where u: "collect_decls m de = (t, de1)"
    "fold_opt (processTop n t) (md_stmts m) \<lparr>rs_anon = 0, rs_diags = de1, rs_graph = graph_empty\<rparr> = Some st"
    "g = assignSignalSlots (fst (synthesizeSpecials (rs_graph st) (rs_diags st)))"
    "de' = snd (synthesizeSpecials (rs_graph st) (rs_diags st))" "True = (\<not> hasError de')"
    by (rule resolve_unfold [OF res])
  note st = u(2) and g = u(3) and de' = u(4)
  have dstep: "de_ok de'" using resolve_diags(1) [OF res] de(1) unfolding de_step_def by (elim conjE mp)
  have "\<not> hasError de'" using u(5) by (rule iffD1) (rule TrueI)
  then have clean: "errors_of (de_diags de') = []"
    using hasError_iff [OF dstep de(2)] by (simp only: not_not)
  define ks where "ks = fold add_special (referenced (rs_graph st)) (g_kernels (rs_graph st))"
  have "kernel_names g = map k_name ks"
    by (simp add: g synthesizeSpecials_def Let_def kernel_names_def ks_def assignSignalSlots_def)
  then have names: "set (kernel_names g) = k_name ` set ks" by simp
  have es: "g_edges g = g_edges (rs_graph st)"
    by (simp add: g synthesizeSpecials_def Let_def assignSignalSlots_def)
  have "de' = fold (check_edge (k_name ` set ks)) (g_edges (rs_graph st)) (rs_diags st)"
    by (simp add: de' synthesizeSpecials_def Let_def ks_def)
  with clean have "errors_of (de_diags (fold (check_edge (k_name ` set ks)) (g_edges (rs_graph st)) (rs_diags st))) = []"
    by simp
  from check_edges_clean [OF this e [unfolded es]] show ?thesis unfolding names .
qed

subsection \<open>Kernels\<close>

text \<open>Port counts are not negative, and a pseudo-element has the ports of its kind.\<close>

definition kernel_wf :: "kernel \<Rightarrow> bool" where
  "kernel_wf k \<longleftrightarrow>
     0 \<le> k_n_in_ports k \<and> 0 \<le> k_n_out_ports k
     \<and> (k_special k \<noteq> Special_None \<longrightarrow>
          k_name k = specialName (k_special k)
          \<and> (k_n_in_ports k, k_n_out_ports k) = special_ports (k_special k))"

lemma port_count_nonneg: "0 \<le> port_count i d"
  by (simp add: port_count_def Let_def)

lemma kernel_of_wf: "kernel_wf (kernel_of name decl d) \<and> k_special (kernel_of name decl d) = Special_None"
  by (simp add: kernel_wf_def kernel_of_def port_count_nonneg kernel_default_def)

lemma special_ports_nonneg: "special_ports k = (i, o1) \<Longrightarrow> 0 \<le> i \<and> 0 \<le> o1"
  by (cases k) auto

lemma special_kernel_wf: "specialFromName n \<noteq> Special_None \<Longrightarrow> kernel_wf (special_kernel n)"
  using special_ports_nonneg specialName_specialFromName [of n]
  by (auto simp: kernel_wf_def special_kernel_def Let_def kernel_default_def split: prod.splits)

lemma add_special_wf: "\<forall>k\<in>set ks. kernel_wf k \<Longrightarrow> \<forall>k\<in>set (add_special n ks). kernel_wf k"
  using special_kernel_wf [of n] by (simp add: add_special_def)

lemma assign_slots_wf: "\<forall>k\<in>set ks. kernel_wf k \<Longrightarrow> \<forall>k\<in>set (assign_slots g b ks). kernel_wf k"
proof (induction ks arbitrary: g b)
  case (Cons k ks)
  have "kernel_wf (k\<lparr>k_gid := g, k_axilite_base := b\<rparr>)"
    using Cons.prems by (simp add: kernel_wf_def)
  with Cons show ?case by simp
qed simp

definition user_kernels_only :: "resolver \<Rightarrow> bool" where
  "user_kernels_only st \<longleftrightarrow> (\<forall>k\<in>set (g_kernels (rs_graph st)). kernel_wf k \<and> k_special k = Special_None)"

lemma instance_rel_user: "instance_rel t (\<lambda>a b. user_kernels_only a \<longrightarrow> user_kernels_only b)"
proof -
  have "user_kernels_only (s\<lparr>rs_anon := n\<rparr>) = user_kernels_only s"
    "user_kernels_only (r_error r m s) = user_kernels_only s"
    "user_kernels_only (addConnection c s) = user_kernels_only s" for s n r m c
    by (simp_all add: user_kernels_only_def r_error_def addConnection_def push_edge_def)
  moreover have "user_kernels_only (push_kernel (kernel_of name decl d) s)"
    if "user_kernels_only s" for s name decl d
    using that kernel_of_wf [of name decl d] by (simp add: user_kernels_only_def push_kernel_def)
  ultimately show ?thesis unfolding instance_rel_def by blast
qed

lemma resolve_kernels_wf:
  assumes res: "resolveModuleToGraph n m de = Some (ok, g, de')" and k: "k \<in> set (g_kernels g)"
  shows "kernel_wf k"
proof -
  obtain t de1 st where u: "collect_decls m de = (t, de1)"
    "fold_opt (processTop n t) (md_stmts m) \<lparr>rs_anon = 0, rs_diags = de1, rs_graph = graph_empty\<rparr> = Some st"
    "g = assignSignalSlots (fst (synthesizeSpecials (rs_graph st) (rs_diags st)))"
    "de' = snd (synthesizeSpecials (rs_graph st) (rs_diags st))" "ok = (\<not> hasError de')"
    by (rule resolve_unfold [OF res])
  note st = u(2) and g = u(3) and de' = u(4)
  have "user_kernels_only st"
    using process_all_rel [OF instance_rel_user st] by (simp add: user_kernels_only_def graph_empty_def)
  then have "\<forall>k\<in>set (fold add_special (referenced (rs_graph st)) (g_kernels (rs_graph st))). kernel_wf k"
    by (intro fold_invariant' [where P = "\<lambda>ks. \<forall>k\<in>set ks. kernel_wf k"])
      (auto simp: user_kernels_only_def add_special_wf)
  then have "\<forall>k\<in>set (g_kernels g). kernel_wf k"
    by (simp add: g assignSignalSlots_def synthesizeSpecials_def Let_def assign_slots_wf)
  with k show ?thesis by blast
qed

subsection \<open>Signal slots\<close>

lemma is_slot_update [simp]: "is_slot_kernel (k\<lparr>k_gid := x, k_axilite_base := y\<rparr>) = is_slot_kernel k"
  by (simp add: is_slot_kernel_def)

lemma assign_slots_gids:
  "map k_gid (filter is_slot_kernel (assign_slots gid base ks))
     = map (\<lambda>i. gid + int i) [0..<length (filter is_slot_kernel ks)]"
  by (induction gid base ks rule: assign_slots.induct)
    (auto simp: upt_conv_Cons map_Suc_upt [symmetric] simp del: upt_Suc)

lemma assign_slots_bases:
  "map k_axilite_base (filter is_slot_kernel (assign_slots gid base ks))
     = map (\<lambda>i. base + 0x80 * int i) [0..<length (filter is_slot_kernel ks)]"
  by (induction gid base ks rule: assign_slots.induct)
    (auto simp: upt_conv_Cons map_Suc_upt [symmetric] simp del: upt_Suc)

subsection \<open>Element groups\<close>

text \<open>A nesting that a rank decreases along needs no more fuel than the rank.\<close>

definition group_rank :: "decl_tables \<Rightarrow> (string \<Rightarrow> nat) \<Rightarrow> bool" where
  "group_rank t rank \<longleftrightarrow>
     (\<forall>ty g v. dt_elems t ty = None \<longrightarrow> dt_groups t ty = Some g \<longrightarrow> Group_Instance v \<in> set (gd_body g)
        \<longrightarrow> rank (in_type v) < rank ty)"

lemma process_instance_returns:
  assumes "group_rank t rank"
  shows "rank (in_type d) < n \<Longrightarrow> \<exists>st'. process_instance n t d st = Some st'"
proof (induction n arbitrary: d st)
  case 0
  then show ?case by simp
next
  case (Suc n)
  show ?case
  proof (cases "dt_elems t (in_type d)")
    case None
    show ?thesis
    proof (cases "dt_groups t (in_type d)")
      case (Some g)
      have "\<exists>s'. inline_stmt (process_instance n t) d x s = Some s'" if x: "x \<in> set (gd_body g)" for x s
      proof (cases x)
        case (Group_Instance v)
        have "rank (in_type v) < n"
          using assms [unfolded group_rank_def, rule_format, OF None Some] x Group_Instance Suc.prems
          by (meson less_Suc_eq_le order.strict_trans2)
        then show ?thesis using Group_Instance Suc.IH by (simp split: prod.splits)
      next
        case (Group_Connection c)
        then show ?thesis by simp
      qed
      then have "\<exists>s'. fold_opt (inline_stmt (process_instance n t) d) (gd_body g) st = Some s'"
        by (rule fold_opt_total)
      then show ?thesis using None Some by (simp add: inlineGroup_def)
    qed (use None in simp)
  qed simp
qed

lemma resolve_returns:
  assumes rank: "group_rank (fst (collect_decls m de)) rank"
    and d: "\<And>d. Top_Instance d \<in> set (md_stmts m) \<Longrightarrow> rank (in_type d) < n"
  shows "\<exists>r. resolveModuleToGraph n m de = Some r"
proof -
  obtain t de1 where c: "collect_decls m de = (t, de1)" by fastforce
  have pi: "\<exists>st'. process_instance n t d st = Some st'" if "Top_Instance d \<in> set (md_stmts m)" for d st
    using process_instance_returns [of t rank d n st] rank c d [OF that] by simp
  have "\<exists>st'. processTop n t x st = Some st'" if x: "x \<in> set (md_stmts m)" for x st
  proof (cases x)
    case (Top_Instance d)
    then show ?thesis using pi [of d st] x by simp
  qed simp_all
  then have "\<exists>st. fold_opt (processTop n t) (md_stmts m)
      \<lparr>rs_anon = 0, rs_diags = de1, rs_graph = graph_empty\<rparr> = Some st"
    by (rule fold_opt_total)
  then show ?thesis using c by (auto simp: resolveModuleToGraph_def split: prod.splits)
qed

text \<open>A group that contains itself: no fuel is enough.\<close>

lemma fold_opt_None:
  "x \<in> set xs \<Longrightarrow> (\<And>s. f x s = None) \<Longrightarrow> fold_opt f xs s = None"
  by (induction xs arbitrary: s) (auto split: option.splits)

lemma recursive_group_never_returns:
  assumes "dt_elems t ty = None" and "dt_groups t ty = Some g"
    and "Group_Instance v \<in> set (gd_body g)" and "in_type v = ty"
  shows "in_type d = ty \<Longrightarrow> process_instance n t d st = None"
proof (induction n arbitrary: d st)
  case 0
  then show ?case by simp
next
  case (Suc n)
  have "inline_stmt (process_instance n t) d (Group_Instance v) s = None" for s
    using Suc.IH assms(4) by (simp split: prod.splits)
  then have "fold_opt (inline_stmt (process_instance n t) d) (gd_body g) st = None"
    by (rule fold_opt_None [OF assms(3)])
  then show ?case using Suc.prems assms by (simp add: inlineGroup_def)
qed

subsection \<open>Modules without groups\<close>

text \<open>The instances and connections of a module, in order.\<close>

definition instances_of :: "top_stmt list \<Rightarrow> instance_decl list" where
  "instances_of ss = concat (map (\<lambda>s. case s of Top_Instance d \<Rightarrow> [d] | _ \<Rightarrow> []) ss)"

definition connections_of :: "top_stmt list \<Rightarrow> connection_decl list" where
  "connections_of ss = concat (map (\<lambda>s. case s of Top_Connection c \<Rightarrow> [c] | _ \<Rightarrow> []) ss)"

text \<open>Every instance is named and of a declared element type.\<close>

definition flat_instance :: "decl_tables \<Rightarrow> instance_decl \<Rightarrow> bool" where
  "flat_instance t d \<longleftrightarrow> \<not> in_anonymous d \<and> dt_elems t (in_type d) \<noteq> None"

definition flat_kernel :: "decl_tables \<Rightarrow> instance_decl \<Rightarrow> kernel" where
  "flat_kernel t d = kernel_of (in_name d) (the (dt_elems t (in_type d))) d"

lemma process_flat:
  assumes "\<forall>d\<in>set (instances_of ss). flat_instance t d"
  shows "fold_opt (processTop (Suc n) t) ss st = Some
    (st\<lparr>rs_graph := \<lparr>g_kernels = g_kernels (rs_graph st) @ map (flat_kernel t) (instances_of ss),
                    g_edges = g_edges (rs_graph st) @ map edge_of (connections_of ss)\<rparr>\<rparr>)"
  using assms
proof (induction ss arbitrary: st)
  case Nil
  then show ?case by (simp add: instances_of_def connections_of_def)
next
  case (Cons s ss)
  then show ?case
    by (cases s) (auto simp: instances_of_def connections_of_def flat_instance_def flat_kernel_def
        emitKernelFromInstance_def instance_name_def push_kernel_def addConnection_def push_edge_def)
qed

subsection \<open>Anonymous instances\<close>

text \<open>
  The parser names an anonymous instance after its position and the connections of the chain use
  that name; the resolver names its kernel after a counter. The two never coincide.
\<close>

lemma nat_str_no_underscore: "CHR ''_'' \<notin> set (nat_str n)"
  using nat_str_digits [of "CHR ''_''" n] by (auto simp: cctype_defs)

lemma anon_names_differ: "anon_name t \<noteq> makeAnonName (t_text t) n"
proof
  assume "anon_name t = makeAnonName (t_text t) n"
  then have e: "nat_str (unat (loc_line (rng_begin (t_range t)))) @ ''_''
      @ nat_str (unat (loc_column (rng_begin (t_range t)))) = nat_str n"
    by (simp add: anon_name_def makeAnonName_def)
  have "CHR ''_'' \<in> set (nat_str n)" by (simp flip: e)
  then show False by (simp add: nat_str_no_underscore)
qed

end
