(* ===== verification/Analyses.thy ===== *)
theory Analyses
  imports Graph Diagnostics
begin

text \<open>
  The analyses on the element graph: port arity, autorun and bandwidth
  (\<open>compiler/src/analyses/port_arity.cpp\<close>, \<open>autorun.cpp\<close>, \<open>bandwidth.cpp\<close>).
\<close>

subsection \<open>Port arity\<close>

text \<open>One iteration of the loop; the flag is the result so far.\<close>

definition arity_msg :: "kernel \<Rightarrow> int \<Rightarrow> string \<Rightarrow> int \<Rightarrow> string" where
  "arity_msg k n dir p =
     ''kernel `'' @ k_name k @ ''` has '' @ int_str n @ '' '' @ dir
       @ '' port(s), but connection uses port '' @ int_str p"

definition arity_src :: "graph \<Rightarrow> edge \<Rightarrow> bool \<times> diag_engine \<Rightarrow> bool \<times> diag_engine" where
  "arity_src g e r =
     (case graph_find g (e_src_kernel e) of
        Some k \<Rightarrow>
          if k_n_out_ports k < e_src_port e
          then (False, diag_error (e_src e) (arity_msg k (k_n_out_ports k) ''output'' (e_src_port e)) (snd r))
          else r
      | None \<Rightarrow> r)"

definition arity_dst :: "graph \<Rightarrow> edge \<Rightarrow> bool \<times> diag_engine \<Rightarrow> bool \<times> diag_engine" where
  "arity_dst g e r =
     (case graph_find g (e_dst_kernel e) of
        Some k \<Rightarrow>
          if k_n_in_ports k < e_dst_port e
          then (False, diag_error (e_src e) (arity_msg k (k_n_in_ports k) ''input'' (e_dst_port e)) (snd r))
          else r
      | None \<Rightarrow> r)"

definition arity_positive :: "edge \<Rightarrow> bool \<times> diag_engine \<Rightarrow> bool \<times> diag_engine" where
  "arity_positive e r =
     (let r1 = (if e_src_port e < 1
                then (False, diag_error (e_src e) ''source port must be >= 1'' (snd r)) else r)
      in if e_dst_port e < 1
         then (False, diag_error (e_src e) ''destination port must be >= 1'' (snd r1)) else r1)"

definition arity_edge :: "graph \<Rightarrow> edge \<Rightarrow> bool \<times> diag_engine \<Rightarrow> bool \<times> diag_engine" where
  "arity_edge g e r = arity_positive e (arity_dst g e (arity_src g e r))"

definition analyzePortArity :: "graph \<Rightarrow> diag_engine \<Rightarrow> bool \<times> diag_engine" where
  "analyzePortArity g de = fold (arity_edge g) (g_edges g) (True, de)"

text \<open>The specification: both ports are in range of the kernels they are on.\<close>

definition port_in_range :: "kernel option \<Rightarrow> (kernel \<Rightarrow> int) \<Rightarrow> int \<Rightarrow> bool" where
  "port_in_range k n p \<longleftrightarrow> 1 \<le> p \<and> (case k of Some k \<Rightarrow> p \<le> n k | None \<Rightarrow> True)"

definition edge_arity_ok :: "graph \<Rightarrow> edge \<Rightarrow> bool" where
  "edge_arity_ok g e \<longleftrightarrow>
     port_in_range (graph_find g (e_src_kernel e)) k_n_out_ports (e_src_port e)
     \<and> port_in_range (graph_find g (e_dst_kernel e)) k_n_in_ports (e_dst_port e)"

text \<open>What the checks have in common: they clear the flag exactly when they report.\<close>

definition check_result :: "bool \<Rightarrow> bool \<times> diag_engine \<Rightarrow> bool \<times> diag_engine \<Rightarrow> bool" where
  "check_result good r r' \<longleftrightarrow>
     de_step (snd r) (snd r') \<and> (fst r' \<longleftrightarrow> fst r \<and> good)
     \<and> (errors_of (de_diags (snd r')) = [] \<longleftrightarrow> errors_of (de_diags (snd r)) = [] \<and> good)"

lemma check_result_trans:
  "check_result a r s \<Longrightarrow> check_result b s t \<Longrightarrow> c = (a \<and> b) \<Longrightarrow> check_result c r t"
  unfolding check_result_def using de_step_trans by blast

lemma check_result_skip: "check_result True r r"
  by (simp add: check_result_def)

lemma check_result_fail: "check_result False r (False, diag_error at m (snd r))"
  by (simp add: check_result_def de_step_error)

lemma check_result_if:
  "check_result (\<not> b) r (if b then (False, diag_error at m (snd r)) else r)"
  by (simp add: check_result_skip check_result_fail)

lemma arity_src_result:
  "check_result (case graph_find g (e_src_kernel e) of Some k \<Rightarrow> e_src_port e \<le> k_n_out_ports k | None \<Rightarrow> True)
     r (arity_src g e r)"
proof (cases "graph_find g (e_src_kernel e)")
  case None
  then show ?thesis by (simp add: arity_src_def check_result_skip)
next
  case (Some k)
  then show ?thesis
    using check_result_if [of "k_n_out_ports k < e_src_port e" r] by (simp add: arity_src_def not_less)
qed

lemma arity_dst_result:
  "check_result (case graph_find g (e_dst_kernel e) of Some k \<Rightarrow> e_dst_port e \<le> k_n_in_ports k | None \<Rightarrow> True)
     r (arity_dst g e r)"
proof (cases "graph_find g (e_dst_kernel e)")
  case None
  then show ?thesis by (simp add: arity_dst_def check_result_skip)
next
  case (Some k)
  then show ?thesis
    using check_result_if [of "k_n_in_ports k < e_dst_port e" r] by (simp add: arity_dst_def not_less)
qed

lemma arity_positive_result: "check_result (1 \<le> e_src_port e \<and> 1 \<le> e_dst_port e) r (arity_positive e r)"
  unfolding arity_positive_def Let_def
  by (rule check_result_trans [OF check_result_if check_result_if]) auto

lemma arity_edge_result: "check_result (edge_arity_ok g e) r (arity_edge g e r)"
  unfolding arity_edge_def
  by (rule check_result_trans [OF check_result_trans [OF arity_src_result arity_dst_result refl]
        arity_positive_result]) (auto simp: edge_arity_ok_def port_in_range_def split: option.splits)

lemma analyzePortArity_result:
  "check_result (\<forall>e\<in>set (g_edges g). edge_arity_ok g e) (True, de) (analyzePortArity g de)"
proof -
  have "check_result (\<forall>e\<in>set es. edge_arity_ok g e) r (fold (arity_edge g) es r)" for es r
  proof (induction es arbitrary: r)
    case Nil
    then show ?case by (simp add: check_result_skip)
  next
    case (Cons e es)
    have "fold (arity_edge g) (e # es) r = fold (arity_edge g) es (arity_edge g e r)" by simp
    then show ?case using check_result_trans [OF arity_edge_result Cons.IH] by simp
  qed
  then show ?thesis by (simp add: analyzePortArity_def)
qed

subsection \<open>Autorun\<close>

text \<open>Both branches of the code set the flag.\<close>

definition autorun_kernel :: "kernel \<Rightarrow> kernel" where
  "autorun_kernel k =
     (if k_special k \<noteq> Special_None then k
      else if k_host_control k then k\<lparr>k_autorun := True\<rparr> else k\<lparr>k_autorun := True\<rparr>)"

definition analyzeAutorun :: "graph \<Rightarrow> graph" where
  "analyzeAutorun g = g\<lparr>g_kernels := map autorun_kernel (g_kernels g)\<rparr>"

lemma autorun_kernel_simps [simp]:
  "k_name (autorun_kernel k) = k_name k" "k_special (autorun_kernel k) = k_special k"
  "k_n_in_ports (autorun_kernel k) = k_n_in_ports k" "k_n_out_ports (autorun_kernel k) = k_n_out_ports k"
  "k_host_control (autorun_kernel k) = k_host_control k" "k_gid (autorun_kernel k) = k_gid k"
  "k_axilite_base (autorun_kernel k) = k_axilite_base k" "k_pipeline_ii (autorun_kernel k) = k_pipeline_ii k"
  by (simp_all add: autorun_kernel_def)

lemma find_kernel_autorun:
  "find_kernel (map autorun_kernel ks) n = map_option autorun_kernel (find_kernel ks n)"
  by (induction ks) auto

lemma graph_find_autorun: "graph_find (analyzeAutorun g) n = map_option autorun_kernel (graph_find g n)"
  by (simp add: graph_find_def analyzeAutorun_def find_kernel_autorun)

lemma kernel_names_autorun [simp]: "kernel_names (analyzeAutorun g) = kernel_names g"
  by (simp add: kernel_names_def analyzeAutorun_def)

lemma edges_autorun [simp]: "g_edges (analyzeAutorun g) = g_edges g"
  by (simp add: analyzeAutorun_def)

lemma edge_arity_ok_autorun: "edge_arity_ok (analyzeAutorun g) e = edge_arity_ok g e"
  by (simp add: edge_arity_ok_def port_in_range_def graph_find_autorun option.case_eq_if option.map_sel)

subsection \<open>Bandwidth\<close>

definition isBoundary :: "kernel option \<Rightarrow> bool" where
  "isBoundary k =
     (case k of None \<Rightarrow> False
      | Some k \<Rightarrow> k_special k \<in> {TorIn, TorOut, NicIn, NicOut, HostIn, HostOut})"

text \<open>
  \<open>512.0 * clock\<close> is exact in double precision for every \<open>int\<close>, so the comparison with the CMAC
  rate is one of integers. How \<open>ostream\<close> prints the two rates at three digits is a parameter.
\<close>

definition cmac_bps :: int where
  "cmac_bps = 100000000000"

definition bandwidth_msg :: "(int \<Rightarrow> string) \<Rightarrow> int \<Rightarrow> string" where
  "bandwidth_msg show_gbps bps =
     ''internal datapath '' @ show_gbps bps @ '' Gb/s is below CMAC line rate '' @ show_gbps cmac_bps
       @ '' Gb/s; this is fine for sub-line-rate workloads, but 100 G saturation requires 195+ MHz user clock''"

fun bandwidth_loop :: "(int \<Rightarrow> string) \<Rightarrow> graph \<Rightarrow> int \<Rightarrow> edge list \<Rightarrow> diag_engine \<Rightarrow> diag_engine" where
  "bandwidth_loop sh g bps [] de = de"
| "bandwidth_loop sh g bps (e # es) de =
     (if (isBoundary (graph_find g (e_src_kernel e)) \<or> isBoundary (graph_find g (e_dst_kernel e)))
         \<and> bps < cmac_bps
      then diag_warn (e_src e) (bandwidth_msg sh bps) de
      else bandwidth_loop sh g bps es de)"

definition analyzeBandwidth :: "(int \<Rightarrow> string) \<Rightarrow> graph \<Rightarrow> diag_engine \<Rightarrow> int \<Rightarrow> diag_engine" where
  "analyzeBandwidth sh g de clock = bandwidth_loop sh g (512 * clock) (g_edges g) de"

lemma bandwidth_loop_silent: "cmac_bps \<le> bps \<Longrightarrow> bandwidth_loop sh g bps es de = de"
  by (induction es) auto

lemma bandwidth_silent: "195312500 \<le> clock \<Longrightarrow> analyzeBandwidth sh g de clock = de"
  by (simp add: analyzeBandwidth_def bandwidth_loop_silent cmac_bps_def)

text \<open>At most one warning, and only when a boundary edge meets a slow clock.\<close>

lemma bandwidth_loop_cases:
  "bandwidth_loop sh g bps es de = de \<or>
   (\<exists>e\<in>set es. bandwidth_loop sh g bps es de = diag_warn (e_src e) (bandwidth_msg sh bps) de)"
  by (induction es) auto

end
