(* ===== verification/Cycles.thy ===== *)
theory Cycles
  imports Graph Diagnostics
begin

text \<open>
  Cycle detection (\<open>compiler/src/analyses/cycles.cpp\<close>): Tarjan's algorithm on the kernel graph. The
  stack of the code grows at its back; here it is a list that grows at its head. The recursion of
  \<open>strong\<close> is on fuel, and \<open>tarjan_returns\<close> shows that one unit per node is enough.
\<close>

record tarjan =
  tj_idx :: "string \<Rightarrow> nat option"
  tj_low :: "string \<Rightarrow> nat"
  tj_onstack :: "string \<Rightarrow> bool"
  tj_stk :: "string list"
  tj_sccs :: "string list list"
  tj_counter :: nat

definition tarjan_init :: tarjan where
  "tarjan_init =
     \<lparr>tj_idx = (\<lambda>_. None), tj_low = (\<lambda>_. 0), tj_onstack = (\<lambda>_. False), tj_stk = [], tj_sccs = [],
      tj_counter = 0\<rparr>"

text \<open>The adjacency lists that the constructor fills, in the order of the edges.\<close>

definition succ_of :: "graph \<Rightarrow> string \<Rightarrow> string list" where
  "succ_of g v = map e_dst_kernel (filter (\<lambda>e. e_src_kernel e = v) (g_edges g))"

definition tj_enter :: "string \<Rightarrow> tarjan \<Rightarrow> tarjan" where
  "tj_enter v s =
     s\<lparr>tj_idx := (tj_idx s)(v \<mapsto> tj_counter s), tj_low := (tj_low s)(v := tj_counter s),
       tj_counter := tj_counter s + 1, tj_stk := v # tj_stk s,
       tj_onstack := (tj_onstack s)(v := True)\<rparr>"

definition set_low :: "string \<Rightarrow> nat \<Rightarrow> tarjan \<Rightarrow> tarjan" where
  "set_low v n s = s\<lparr>tj_low := (tj_low s)(v := min (tj_low s v) n)\<rparr>"

text \<open>One successor; \<open>rec\<close> is the recursive call.\<close>

definition tj_visit ::
  "(string \<Rightarrow> tarjan \<Rightarrow> tarjan option) \<Rightarrow> string \<Rightarrow> string \<Rightarrow> tarjan \<Rightarrow> tarjan option" where
  "tj_visit rec v w s =
     (case tj_idx s w of
        None \<Rightarrow> (case rec w s of None \<Rightarrow> None | Some s' \<Rightarrow> Some (set_low v (tj_low s' w) s'))
      | Some i \<Rightarrow> Some (if tj_onstack s w then set_low v i s else s))"

text \<open>The loop that pops a component, up to and including its root.\<close>

fun pop_comp :: "string \<Rightarrow> string list \<Rightarrow> string list \<times> string list" where
  "pop_comp v [] = ([], [])"
| "pop_comp v (w # ws) = (if w = v then ([w], ws) else let (c, r) = pop_comp v ws in (w # c, r))"

definition tj_finish :: "string \<Rightarrow> tarjan \<Rightarrow> tarjan" where
  "tj_finish v s =
     (if tj_idx s v = Some (tj_low s v) then
        (let (scc, rest) = pop_comp v (tj_stk s) in
         s\<lparr>tj_stk := rest, tj_onstack := (\<lambda>w. tj_onstack s w \<and> w \<notin> set scc),
           tj_sccs := tj_sccs s @ [scc]\<rparr>)
      else s)"

primrec strong :: "nat \<Rightarrow> graph \<Rightarrow> string \<Rightarrow> tarjan \<Rightarrow> tarjan option" where
  "strong 0 g v s = None"
| "strong (Suc n) g v s =
     (case fold_opt (tj_visit (strong n g) v) (succ_of g v) (tj_enter v s) of
        None \<Rightarrow> None
      | Some s' \<Rightarrow> Some (tj_finish v s'))"

definition tj_root :: "nat \<Rightarrow> graph \<Rightarrow> kernel \<Rightarrow> tarjan \<Rightarrow> tarjan option" where
  "tj_root n g k s = (case tj_idx s (k_name k) of None \<Rightarrow> strong n g (k_name k) s | Some _ \<Rightarrow> Some s)"

definition tarjan_run :: "nat \<Rightarrow> graph \<Rightarrow> tarjan option" where
  "tarjan_run n g = fold_opt (tj_root n g) (g_kernels g) tarjan_init"

subsection \<open>The pass\<close>

definition tolerated :: "graph \<Rightarrow> string list \<Rightarrow> bool" where
  "tolerated g scc \<longleftrightarrow>
     (\<exists>n\<in>set scc. case graph_find g n of Some k \<Rightarrow> k_host_control k | None \<Rightarrow> False)"

definition cycle_msg :: "string list \<Rightarrow> string" where
  "cycle_msg scc =
     ''pure-dataflow cycle (deadlock risk) involving:'' @ concat (map (\<lambda>n. CHR '' '' # n) scc)"

definition report_comp :: "graph \<Rightarrow> string list \<Rightarrow> diag_engine \<Rightarrow> diag_engine" where
  "report_comp g scc de =
     (if length scc < 2 then de
      else if tolerated g scc then de
      else diag_warn (case graph_find g (hd scc) of Some k \<Rightarrow> k_src k | None \<Rightarrow> range_default)
             (cycle_msg scc) de)"

definition analyzeCycles :: "nat \<Rightarrow> graph \<Rightarrow> diag_engine \<Rightarrow> diag_engine option" where
  "analyzeCycles n g de =
     (case tarjan_run n g of
        None \<Rightarrow> None
      | Some t \<Rightarrow> Some (fold (report_comp g) (tj_sccs t) de))"

subsection \<open>Termination\<close>

text \<open>The names the search can meet, and the ones it has not met.\<close>

definition node_names :: "graph \<Rightarrow> string set" where
  "node_names g = k_name ` set (g_kernels g) \<union> e_dst_kernel ` set (g_edges g)"

definition unindexed :: "graph \<Rightarrow> tarjan \<Rightarrow> string set" where
  "unindexed g s = node_names g - dom (tj_idx s)"

lemma finite_unindexed [simp]: "finite (unindexed g s)"
  by (simp add: unindexed_def node_names_def)

definition idx_le :: "tarjan \<Rightarrow> tarjan \<Rightarrow> bool" where
  "idx_le a b \<longleftrightarrow> tj_idx a \<subseteq>\<^sub>m tj_idx b"

lemma idx_le_refl [simp]: "idx_le a a"
  by (simp add: idx_le_def)

lemma idx_le_trans: "idx_le a b \<Longrightarrow> idx_le b c \<Longrightarrow> idx_le a c"
  unfolding idx_le_def by (rule map_le_trans)

lemma idx_le_unindexed: "idx_le a b \<Longrightarrow> card (unindexed g b) \<le> card (unindexed g a)"
  by (rule card_mono [OF finite_unindexed])
    (auto simp: unindexed_def idx_le_def dest: map_le_implies_dom_le)

lemma tj_idx_low [simp]: "tj_idx (set_low v n s) = tj_idx s"
  by (simp add: set_low_def)

lemma tj_idx_finish [simp]: "tj_idx (tj_finish v s) = tj_idx s"
  by (simp add: tj_finish_def split: prod.splits)

lemma unindexed_enter: "v \<in> unindexed g s \<Longrightarrow> Suc (card (unindexed g (tj_enter v s))) = card (unindexed g s)"
proof -
  assume v: "v \<in> unindexed g s"
  have "unindexed g (tj_enter v s) = unindexed g s - {v}"
    by (auto simp: unindexed_def tj_enter_def)
  then show ?thesis using card_Suc_Diff1 [OF finite_unindexed v] by simp
qed

lemma succ_of_nodes: "w \<in> set (succ_of g v) \<Longrightarrow> w \<in> node_names g"
  by (auto simp: succ_of_def node_names_def)

lemma fold_opt_total_inv:
  assumes step: "\<And>x s. x \<in> set xs \<Longrightarrow> P s \<Longrightarrow> \<exists>s'. f x s = Some s' \<and> P s'"
  shows "P s \<Longrightarrow> \<exists>s'. fold_opt f xs s = Some s' \<and> P s'"
  using step
proof (induction xs arbitrary: s)
  case Nil
  then show ?case by simp
next
  case (Cons x xs)
  obtain s1 where s1: "f x s = Some s1" "P s1" using Cons.prems(2) [of x s] Cons.prems(1) by auto
  have "\<exists>s'. fold_opt f xs s1 = Some s' \<and> P s'"
    by (rule Cons.IH [OF s1(2)]) (rule Cons.prems(2), simp_all)
  with s1 show ?case by simp
qed

lemma strong_returns:
  "v \<in> unindexed g s \<Longrightarrow> card (unindexed g s) \<le> n \<Longrightarrow> \<exists>s'. strong n g v s = Some s' \<and> idx_le s s'"
proof (induction n arbitrary: v s)
  case 0
  then show ?case by (metis card_0_eq empty_iff finite_unindexed le_zero_eq)
next
  case (Suc n)
  let ?s1 = "tj_enter v s"
  have c1: "card (unindexed g ?s1) \<le> n" using unindexed_enter [OF Suc.prems(1)] Suc.prems(2) by simp
  have e1: "idx_le s ?s1"
    using Suc.prems(1) by (auto simp: idx_le_def tj_enter_def map_le_def unindexed_def)
  have "\<exists>s'. fold_opt (tj_visit (strong n g) v) (succ_of g v) ?s1 = Some s' \<and> idx_le ?s1 s'"
  proof (rule fold_opt_total_inv [where P = "idx_le ?s1"])
    fix w t
    assume w: "w \<in> set (succ_of g v)" and t: "idx_le ?s1 t"
    show "\<exists>t'. tj_visit (strong n g) v w t = Some t' \<and> idx_le ?s1 t'"
    proof (cases "tj_idx t w")
      case None
      then have "w \<in> unindexed g t" using succ_of_nodes [OF w] by (auto simp: unindexed_def)
      moreover have "card (unindexed g t) \<le> n" using idx_le_unindexed [OF t] c1 by (rule order.trans)
      ultimately obtain t1 where t1: "strong n g w t = Some t1" "idx_le t t1" using Suc.IH by blast
      then have "tj_visit (strong n g) v w t = Some (set_low v (tj_low t1 w) t1)"
        using None by (simp add: tj_visit_def)
      moreover have "idx_le ?s1 (set_low v (tj_low t1 w) t1)"
        using idx_le_trans [OF t t1(2)] by (simp add: idx_le_def)
      ultimately show ?thesis by blast
    next
      case (Some i)
      then show ?thesis using t by (simp add: tj_visit_def idx_le_def)
    qed
  qed simp
  then obtain s2 where "fold_opt (tj_visit (strong n g) v) (succ_of g v) ?s1 = Some s2" "idx_le ?s1 s2"
    by blast
  moreover from this have "idx_le s (tj_finish v s2)"
    using idx_le_trans [OF e1] by (simp add: idx_le_def)
  ultimately show ?case by simp
qed

lemma tarjan_returns:
  assumes "card (node_names g) \<le> n"
  shows "\<exists>t. tarjan_run n g = Some t"
  unfolding tarjan_run_def
proof (rule fold_opt_total)
  fix k s
  assume k: "k \<in> set (g_kernels g)"
  show "\<exists>s'. tj_root n g k s = Some s'"
  proof (cases "tj_idx s (k_name k)")
    case None
    then have "k_name k \<in> unindexed g s" using k by (auto simp: unindexed_def node_names_def)
    moreover have "card (unindexed g s) \<le> card (node_names g)"
      by (rule card_mono) (auto simp: unindexed_def node_names_def)
    ultimately have "\<exists>s'. strong n g (k_name k) s = Some s' \<and> idx_le s s'"
      using assms by (intro strong_returns) simp_all
    then show ?thesis using None by (auto simp: tj_root_def)
  qed (simp add: tj_root_def)
qed

lemma analyzeCycles_returns: "card (node_names g) \<le> n \<Longrightarrow> \<exists>de'. analyzeCycles n g de = Some de'"
  using tarjan_returns [of g n] by (auto simp: analyzeCycles_def)

text \<open>The pass only warns.\<close>

lemma report_comp_step:
  "de_step de (report_comp g c de) \<and> errors_of (de_diags (report_comp g c de)) = errors_of (de_diags de)"
  by (simp add: report_comp_def de_step_warn)

lemma report_all_step:
  "de_step de (fold (report_comp g) cs de)
   \<and> errors_of (de_diags (fold (report_comp g) cs de)) = errors_of (de_diags de)"
proof (induction cs arbitrary: de)
  case (Cons c cs)
  show ?case using Cons.IH [of "report_comp g c de"] report_comp_step [of de g c] de_step_trans by simp blast
qed simp

lemma analyzeCycles_step:
  assumes "analyzeCycles n g de = Some de'"
  shows "de_step de de'" and "errors_of (de_diags de') = errors_of (de_diags de)"
proof -
  obtain t where t: "tarjan_run n g = Some t"
    using assms by (cases "tarjan_run n g") (simp_all add: analyzeCycles_def)
  then have "de' = fold (report_comp g) (tj_sccs t) de"
    using assms by (simp add: analyzeCycles_def)
  then show "de_step de de'" "errors_of (de_diags de') = errors_of (de_diags de)"
    using report_all_step [of de g "tj_sccs t"] by simp_all
qed

end
