(* ===== verification/Lowering.thy ===== *)
theory Lowering
  imports Graph
begin

text \<open>
  Lowering of the element graph to the build plan (\<open>compiler/src/ir/lower.cpp\<close>). The two loops are
  folds over the kernels and the edges; the second carries the next host slot. The specification
  \<open>edge_class\<close> says where an edge belongs, and the plan is shown to hold exactly the edges of each
  class, in order.
\<close>

subsection \<open>Kernels\<close>

definition ports_upto :: "int \<Rightarrow> port list" where
  "ports_upto n = map (\<lambda>i. \<lparr>p_index = i, p_kind = Channel_Flit, p_width_bits = 512\<rparr>) [1..n]"

definition lower_kernel :: "kernel \<Rightarrow> kernel_hls" where
  "lower_kernel k =
     \<lparr>kh_name = k_name k, kh_element_type = k_type k, kh_autorun = k_autorun k,
      kh_has_signal = k_host_control k, kh_axilite_base = k_axilite_base k,
      kh_pipeline_ii = k_pipeline_ii k, kh_hls_pragmas = k_hls_pragmas k,
      kh_in_ports = ports_upto (k_n_in_ports k), kh_out_ports = ports_upto (k_n_out_ports k),
      kh_params = map ip_text (k_params k), kh_state_cpp = k_state_cpp k,
      kh_init_cpp = k_init_cpp k, kh_handler_cpp = k_handler_cpp k, kh_signal_cpp = k_signal_cpp k,
      kh_signal_params = k_signal_params k\<rparr>"

definition lower_kernel_step :: "kernel \<Rightarrow> build \<Rightarrow> build" where
  "lower_kernel_step k b =
     (if k_special k \<noteq> Special_None then b
      else
        let b1 = b\<lparr>b_kernels := b_kernels b @ [lower_kernel k]\<rparr> in
        if k_host_control k
        then b1\<lparr>b_signal_table := b_signal_table b1 @
               [\<lparr>se_gid = k_gid k, se_kernel = k_name k, se_axilite_base = k_axilite_base k\<rparr>]\<rparr>
        else b1)"

subsection \<open>Edges\<close>

definition stream_of :: "edge \<Rightarrow> stream_conn" where
  "stream_of e =
     \<lparr>sc_src_kernel = e_src_kernel e, sc_src_port = e_src_port e, sc_dst_kernel = e_dst_kernel e,
      sc_dst_port = e_dst_port e, sc_lossy = e_lossy e, sc_depth = e_depth e, sc_width_bits = 512\<rparr>"

definition special_of :: "kernel option \<Rightarrow> special_kind" where
  "special_of k = (case k of Some k \<Rightarrow> k_special k | None \<Rightarrow> Special_None)"

definition host_to_kernel :: "edge \<Rightarrow> int \<Rightarrow> host_conn" where
  "host_to_kernel e slot =
     \<lparr>hc_kernel = e_dst_kernel e, hc_port = e_dst_port e, hc_kernel_to_host = False, hc_slot_id = slot\<rparr>"

definition kernel_to_host :: "edge \<Rightarrow> int \<Rightarrow> host_conn" where
  "kernel_to_host e slot =
     \<lparr>hc_kernel = e_src_kernel e, hc_port = e_src_port e, hc_kernel_to_host = True, hc_slot_id = slot\<rparr>"

text \<open>
  The switch on the destination: \<open>Some\<close> is a case that ends the iteration (\<open>continue\<close>), \<open>None\<close>
  falls through.
\<close>

definition lower_dst :: "graph \<Rightarrow> edge \<Rightarrow> build \<times> int \<Rightarrow> (build \<times> int) option" where
  "lower_dst g e r =
     (case r of (b, slot) \<Rightarrow>
       (case special_of (graph_find g (e_dst_kernel e)) of
          TorOut \<Rightarrow> Some (b\<lparr>b_tor_conns := b_tor_conns b @ [stream_of e]\<rparr>, slot)
        | NicOut \<Rightarrow> Some (b\<lparr>b_nic_conns := b_nic_conns b @ [stream_of e]\<rparr>, slot)
        | HostOut \<Rightarrow> Some (b\<lparr>b_host_streams := b_host_streams b @ [kernel_to_host e slot]\<rparr>, slot + 1)
        | Special_Drop \<Rightarrow> Some (b, slot)
        | _ \<Rightarrow> None))"

definition lower_src :: "graph \<Rightarrow> edge \<Rightarrow> build \<times> int \<Rightarrow> (build \<times> int) option" where
  "lower_src g e r =
     (case r of (b, slot) \<Rightarrow>
       (case special_of (graph_find g (e_src_kernel e)) of
          TorIn \<Rightarrow> Some (b\<lparr>b_tor_conns := b_tor_conns b @ [stream_of e]\<rparr>, slot)
        | NicIn \<Rightarrow> Some (b\<lparr>b_nic_conns := b_nic_conns b @ [stream_of e]\<rparr>, slot)
        | HostIn \<Rightarrow> Some (b\<lparr>b_host_streams := b_host_streams b @ [host_to_kernel e slot]\<rparr>, slot + 1)
        | Special_Idle \<Rightarrow> Some (b, slot)
        | _ \<Rightarrow> None))"

definition lower_edge :: "graph \<Rightarrow> edge \<Rightarrow> build \<times> int \<Rightarrow> build \<times> int" where
  "lower_edge g e r =
     (case lower_src g e r of
        Some r' \<Rightarrow> r'
      | None \<Rightarrow>
          (case lower_dst g e r of
             Some r' \<Rightarrow> r'
           | None \<Rightarrow> (case r of (b, slot) \<Rightarrow>
               (b\<lparr>b_stream_conns := b_stream_conns b @ [stream_of e]\<rparr>, slot))))"

definition lowerToBackend :: "graph \<Rightarrow> platform \<Rightarrow> int \<Rightarrow> string \<Rightarrow> build" where
  "lowerToBackend g pf clock path =
     (let b0 = build_default\<lparr>b_platform := pf, b_user_clock_hz := clock, b_source_path := path\<rparr>;
          b1 = fold lower_kernel_step (g_kernels g) b0
      in fst (fold (lower_edge g) (g_edges g) (b1, 32)))"

subsection \<open>Where an edge belongs\<close>

datatype edge_class = To_Tor | To_Nic | From_Host | To_Host | Discarded | Internal

definition edge_class :: "graph \<Rightarrow> edge \<Rightarrow> edge_class" where
  "edge_class g e =
     (let s = special_of (graph_find g (e_src_kernel e)); d = special_of (graph_find g (e_dst_kernel e)) in
      if s = TorIn then To_Tor
      else if s = NicIn then To_Nic
      else if s = HostIn then From_Host
      else if s = Special_Idle then Discarded
      else if d = TorOut then To_Tor
      else if d = NicOut then To_Nic
      else if d = HostOut then To_Host
      else if d = Special_Drop then Discarded
      else Internal)"

definition edges_in :: "graph \<Rightarrow> edge_class \<Rightarrow> edge list" where
  "edges_in g c = filter (\<lambda>e. edge_class g e = c) (g_edges g)"

text \<open>The effect of an iteration, by class.\<close>

definition class_step :: "edge_class \<Rightarrow> edge \<Rightarrow> build \<times> int \<Rightarrow> build \<times> int" where
  "class_step c e r =
     (case r of (b, slot) \<Rightarrow>
       (case c of
          To_Tor \<Rightarrow> (b\<lparr>b_tor_conns := b_tor_conns b @ [stream_of e]\<rparr>, slot)
        | To_Nic \<Rightarrow> (b\<lparr>b_nic_conns := b_nic_conns b @ [stream_of e]\<rparr>, slot)
        | From_Host \<Rightarrow> (b\<lparr>b_host_streams := b_host_streams b @ [host_to_kernel e slot]\<rparr>, slot + 1)
        | To_Host \<Rightarrow> (b\<lparr>b_host_streams := b_host_streams b @ [kernel_to_host e slot]\<rparr>, slot + 1)
        | Discarded \<Rightarrow> (b, slot)
        | Internal \<Rightarrow> (b\<lparr>b_stream_conns := b_stream_conns b @ [stream_of e]\<rparr>, slot)))"

lemma lower_edge_class: "lower_edge g e r = class_step (edge_class g e) e r"
proof (cases r)
  case (Pair b slot)
  show ?thesis
    unfolding lower_edge_def lower_src_def lower_dst_def class_step_def edge_class_def Let_def Pair
    by (cases "special_of (graph_find g (e_src_kernel e))";
        cases "special_of (graph_find g (e_dst_kernel e))") simp_all
qed

text \<open>The host streams of a list of edges, from a first slot on.\<close>

fun host_conns_from :: "graph \<Rightarrow> int \<Rightarrow> edge list \<Rightarrow> host_conn list" where
  "host_conns_from g slot [] = []"
| "host_conns_from g slot (e # es) =
     (case edge_class g e of
        From_Host \<Rightarrow> host_to_kernel e slot # host_conns_from g (slot + 1) es
      | To_Host \<Rightarrow> kernel_to_host e slot # host_conns_from g (slot + 1) es
      | _ \<Rightarrow> host_conns_from g slot es)"

definition streams_in :: "graph \<Rightarrow> edge_class \<Rightarrow> edge list \<Rightarrow> stream_conn list" where
  "streams_in g c es = map stream_of (filter (\<lambda>e. edge_class g e = c) es)"

lemma lower_edges:
  "fst (fold (lower_edge g) es (b, slot)) =
     b\<lparr>b_tor_conns := b_tor_conns b @ streams_in g To_Tor es,
       b_nic_conns := b_nic_conns b @ streams_in g To_Nic es,
       b_stream_conns := b_stream_conns b @ streams_in g Internal es,
       b_host_streams := b_host_streams b @ host_conns_from g slot es\<rparr>"
proof (induction es arbitrary: b slot)
  case Nil
  then show ?case by (simp add: streams_in_def)
next
  case (Cons e es)
  have step: "fold (lower_edge g) (e # es) (b, slot)
      = fold (lower_edge g) es (class_step (edge_class g e) e (b, slot))"
    by (simp only: fold_Cons o_apply lower_edge_class)
  show ?case
    unfolding step
    by (cases "edge_class g e") (simp_all add: class_step_def Cons.IH streams_in_def)
qed

definition signal_entry_of :: "kernel \<Rightarrow> signal_entry" where
  "signal_entry_of k = \<lparr>se_gid = k_gid k, se_kernel = k_name k, se_axilite_base = k_axilite_base k\<rparr>"

definition user_kernel :: "kernel \<Rightarrow> bool" where
  "user_kernel k \<longleftrightarrow> k_special k = Special_None"

definition signal_kernel :: "kernel \<Rightarrow> bool" where
  "signal_kernel k \<longleftrightarrow> k_special k = Special_None \<and> k_host_control k"

lemma lower_kernels:
  "fold lower_kernel_step ks b =
     b\<lparr>b_kernels := b_kernels b @ map lower_kernel (filter user_kernel ks),
       b_signal_table := b_signal_table b @ map signal_entry_of (filter signal_kernel ks)\<rparr>"
proof (induction ks arbitrary: b)
  case Nil
  then show ?case by simp
next
  case (Cons k ks)
  have one: "lower_kernel_step k b =
      b\<lparr>b_kernels := b_kernels b @ map lower_kernel (filter user_kernel [k]),
        b_signal_table := b_signal_table b @ map signal_entry_of (filter signal_kernel [k])\<rparr>"
    by (simp add: lower_kernel_step_def Let_def user_kernel_def signal_kernel_def signal_entry_of_def)
  show ?case
    unfolding fold_Cons o_apply one Cons.IH by simp
qed

text \<open>The whole plan.\<close>

lemma lowerToBackend_plan:
  "lowerToBackend g pf clock path =
     \<lparr>b_platform = pf, b_user_clock_hz = clock,
      b_kernels = map lower_kernel (filter user_kernel (g_kernels g)),
      b_stream_conns = map stream_of (edges_in g Internal), b_host_conns = [], b_mem_conns = [],
      b_tor_conns = map stream_of (edges_in g To_Tor), b_nic_conns = map stream_of (edges_in g To_Nic),
      b_host_streams = host_conns_from g 32 (g_edges g),
      b_signal_table = map signal_entry_of (filter signal_kernel (g_kernels g)),
      b_source_path = path\<rparr>"
  by (simp add: lowerToBackend_def Let_def lower_kernels lower_edges build_default_def edges_in_def
      streams_in_def)

lemma host_slots:
  "map hc_slot_id (host_conns_from g slot es)
     = map (\<lambda>i. slot + int i) [0..<length (host_conns_from g slot es)]"
proof (induction es arbitrary: slot)
  case Nil
  then show ?case by simp
next
  case (Cons e es)
  show ?case
    by (cases "edge_class g e")
      (simp_all add: host_to_kernel_def kernel_to_host_def Cons.IH numbering_Suc del: upt_Suc)
qed

lemma length_host_conns:
  "length (host_conns_from g slot es)
     = length (filter (\<lambda>e. edge_class g e \<in> {From_Host, To_Host}) es)"
proof (induction es arbitrary: slot)
  case (Cons e es)
  then show ?case by (cases "edge_class g e") simp_all
qed simp

text \<open>No edge is lost: every edge is in exactly one list or was to be discarded.\<close>

lemma classes_partition:
  "length es = length (streams_in g To_Tor es) + length (streams_in g To_Nic es)
     + length (streams_in g Internal es) + length (host_conns_from g slot es)
     + length (filter (\<lambda>e. edge_class g e = Discarded) es)"
proof (induction es arbitrary: slot)
  case Nil
  then show ?case by (simp add: streams_in_def)
next
  case (Cons e es)
  then show ?case by (cases "edge_class g e") (simp_all add: streams_in_def)
qed

text \<open>An internal stream has user kernels, or the two group markers, at its ends.\<close>

lemma internal_ends:
  "edge_class g e = Internal \<Longrightarrow>
     special_of (graph_find g (e_src_kernel e)) \<notin> {TorIn, NicIn, HostIn, Special_Idle}
     \<and> special_of (graph_find g (e_dst_kernel e)) \<notin> {TorOut, NicOut, HostOut, Special_Drop}"
  by (simp add: edge_class_def Let_def split: if_splits)

lemma ports_upto_index: "map p_index (ports_upto n) = [1..n]"
  by (simp add: ports_upto_def comp_def)

lemma lower_kernel_name [simp]: "kh_name (lower_kernel k) = k_name k"
  by (simp add: lower_kernel_def)

end
