(* ===== verification/BodyRewrite.thy ===== *)
theory BodyRewrite
  imports Prelude
begin

text \<open>
  The text transformations the emitters share (\<open>compiler/src/backends/body_rewrite.cpp\<close>): the lines
  of a body, \<open>splitState\<close>, \<open>rewriteReturns\<close>, and the rewriting of \<open>constexpr\<close> declarations that three
  of the emitters contain. A position in the text is the rest of the text from there, with the
  character before it; a loop that copies is a function that returns what it copied and the rest.

  The specification reads a body as a list of pieces (words, punctuation, comments, literals, return
  statements): \<open>rewriteReturns\<close> changes the return statements and nothing else.
\<close>

subsection \<open>Lines\<close>

definition ln :: "string \<Rightarrow> string" where
  "ln s = s @ [chr_nl]"

text \<open>A loop of \<open>std::getline\<close>: the last line need not end in a newline.\<close>

function getlines :: "string \<Rightarrow> string list" where
  "getlines s =
     (if s = [] then []
      else takeWhile (\<lambda>c. c \<noteq> chr_nl) s # getlines (drop 1 (dropWhile (\<lambda>c. c \<noteq> chr_nl) s)))"
  by auto
termination
proof (relation "measure length", goal_cases)
  case (2 s)
  then have "0 < length s" by simp
  then have "length (dropWhile (\<lambda>c. c \<noteq> chr_nl) s) - 1 < length s"
    using length_dropWhile_le [of "\<lambda>c. c \<noteq> chr_nl" s] by linarith
  then show ?case by simp
qed simp

declare getlines.simps [simp del]

text \<open>Every line of a text behind an indentation.\<close>

definition indent_lines :: "string \<Rightarrow> string \<Rightarrow> string" where
  "indent_lines pad s = concat (map (\<lambda>l. pad @ ln l) (getlines s))"

definition starts_with :: "string \<Rightarrow> string \<Rightarrow> bool" where
  "starts_with p s \<longleftrightarrow> take (length p) s = p"

subsection \<open>State declarations\<close>

definition split_line :: "string \<Rightarrow> string \<times> string \<Rightarrow> string \<times> string" where
  "split_line line r =
     (let tail = dropWhile c_isspace line in
      if starts_with ''constexpr '' tail then (fst r @ ''    static '' @ ln tail, snd r)
      else if starts_with ''static constexpr '' tail
        then (fst r @ ''    static '' @ ln (drop (length ''static '') tail), snd r)
      else (fst r, snd r @ ln line))"

definition splitState :: "string \<Rightarrow> string \<times> string" where
  "splitState body = fold split_line (getlines body) ([], [])"

text \<open>\<open>std::string::find\<close>; \<open>None\<close> is \<open>npos\<close>.\<close>

fun find_sub :: "string \<Rightarrow> string \<Rightarrow> nat option" where
  "find_sub p s =
     (if starts_with p s then Some 0
      else case s of [] \<Rightarrow> None | _ # cs \<Rightarrow> map_option Suc (find_sub p cs))"

declare find_sub.simps [simp del]

text \<open>What the emitters do to a line of the state block.\<close>

definition static_constexpr :: "string \<Rightarrow> string" where
  "static_constexpr l =
     (case find_sub ''constexpr'' l of
        None \<Rightarrow> l
      | Some pos \<Rightarrow>
          if (pos = 0 \<or> l ! (pos - 1) = CHR '' '' \<or> l ! (pos - 1) = chr_tab)
             \<and> find_sub ''static'' l = None
          then take pos l @ ''static constexpr'' @ drop (pos + length ''constexpr'') l
          else l)"

definition state_lines :: "string \<Rightarrow> string \<Rightarrow> string" where
  "state_lines pad s = concat (map (\<lambda>l. pad @ ln (static_constexpr l)) (getlines s))"

subsection \<open>Return statements\<close>

definition isIdentChar :: "char \<Rightarrow> bool" where
  "isIdentChar c \<longleftrightarrow> c_isalnum c \<or> c = CHR ''_''"

text \<open>The copy of a block comment after its opening, of a literal after its opening quote.\<close>

fun comment_rest :: "string \<Rightarrow> string \<times> string" where
  "comment_rest [] = ([], [])"
| "comment_rest (c # cs) =
     (if c = CHR ''*'' \<and> cs \<noteq> [] \<and> hd cs = CHR ''/'' then ([c, hd cs], tl cs)
      else (let (a, b) = comment_rest cs in (c # a, b)))"

function literal_rest :: "char \<Rightarrow> string \<Rightarrow> string \<times> string" where
  "literal_rest q [] = ([], [])"
| "literal_rest q (c # cs) =
     (if c = q then ([c], cs)
      else if c = chr_bslash \<and> cs \<noteq> []
        then (let (a, b) = literal_rest q (tl cs) in (c # hd cs # a, b))
      else (let (a, b) = literal_rest q cs in (c # a, b)))"
  by pat_completeness auto
termination by (relation "measure (\<lambda>(q, s). length s)") auto

text \<open>The expression of a return: up to a semicolon outside parentheses, or the end of the text.\<close>

fun ret_expr :: "int \<Rightarrow> string \<Rightarrow> string \<times> string" where
  "ret_expr paren [] = ([], [])"
| "ret_expr paren (d # ds) =
     (if d = CHR ''('' then (let (e, r) = ret_expr (paren + 1) ds in (d # e, r))
      else if d = CHR '')'' then (let (e, r) = ret_expr (paren - 1) ds in (d # e, r))
      else if d = CHR '';'' \<and> paren = 0 then ([], d # ds)
      else (let (e, r) = ret_expr paren ds in (d # e, r)))"

definition ret_block :: "string \<Rightarrow> string \<Rightarrow> string" where
  "ret_block which expr =
     (let e = dropWhile c_isspace expr; e = (if e = [] then ''openclicknp::PORT_ALL'' else e)
      in ''{ _ret = ('' @ e @ ''); goto _end_'' @ which @ ''; }'')"

definition at_return :: "char option \<Rightarrow> string \<Rightarrow> bool" where
  "at_return prev s \<longleftrightarrow>
     take 6 s = ''return'' \<and> (case prev of None \<Rightarrow> True | Some c \<Rightarrow> \<not> isIdentChar c)
     \<and> 6 < length s \<and> \<not> isIdentChar (s ! 6)"

definition last_char :: "char option \<Rightarrow> string \<Rightarrow> char option" where
  "last_char prev w = (if w = [] then prev else Some (last w))"

lemma comment_rest_split: "comment_rest s = (a, b) \<Longrightarrow> a @ b = s"
  by (induction s arbitrary: a b) (auto split: if_splits prod.splits simp: neq_Nil_conv)

lemma literal_rest_split: "literal_rest q s = (a, b) \<Longrightarrow> a @ b = s"
  by (induction q s arbitrary: a b rule: literal_rest.induct)
    (auto split: if_splits prod.splits simp: neq_Nil_conv)

lemma ret_expr_split: "ret_expr p s = (a, b) \<Longrightarrow> a @ b = s"
  by (induction p s arbitrary: a b rule: ret_expr.induct) (auto split: if_splits prod.splits)

lemma rest_lengths [termination_simp]:
  "comment_rest s = (a, b) \<Longrightarrow> length b \<le> length s"
  "literal_rest q s = (a, b) \<Longrightarrow> length b \<le> length s"
  "ret_expr p s = (a, b) \<Longrightarrow> length b \<le> length s"
  using comment_rest_split literal_rest_split ret_expr_split by fastforce+

function rewrite_from :: "string \<Rightarrow> char option \<Rightarrow> string \<Rightarrow> string" where
  "rewrite_from which prev s =
     (case s of
        [] \<Rightarrow> []
      | c # cs \<Rightarrow>
          if c = CHR ''/'' \<and> cs \<noteq> [] \<and> hd cs = CHR ''/''
          then takeWhile (\<lambda>c. c \<noteq> chr_nl) s
             @ rewrite_from which (last_char prev (takeWhile (\<lambda>c. c \<noteq> chr_nl) s))
                 (dropWhile (\<lambda>c. c \<noteq> chr_nl) s)
          else if c = CHR ''/'' \<and> cs \<noteq> [] \<and> hd cs = CHR ''*''
          then (let (a, b) = comment_rest (tl cs)
                in c # hd cs # a @ rewrite_from which (last_char prev (c # hd cs # a)) b)
          else if c = chr_dq \<or> c = chr_sq
          then (let (a, b) = literal_rest c cs in c # a @ rewrite_from which (last_char prev (c # a)) b)
          else if at_return prev s
          then (let (e, r) = ret_expr 0 (drop 6 s)
                in ret_block which e @ rewrite_from which (Some (CHR '';'')) (drop 1 r))
          else c # rewrite_from which (Some c) cs)"
  by pat_completeness auto
termination
proof (relation "measure (\<lambda>(w, p, s). length s)", goal_cases)
  case 1
  show ?case by simp
next
  case (2 which prev s c cs)
  have "length (dropWhile (\<lambda>c. c \<noteq> chr_nl) s) \<le> length cs"
    using 2 by (auto intro: length_dropWhile_le)
  with 2 show ?case by simp
next
  case (3 which prev s c cs x a b)
  then have "length b \<le> length (tl cs)" by (metis rest_lengths(1))
  with 3 show ?case by simp
next
  case (4 which prev s c cs x a b)
  then have "length b \<le> length cs" by (metis rest_lengths(2))
  with 4 show ?case by simp
next
  case (5 which prev s c cs x e r)
  then have "length r \<le> length (drop 6 s)" by (metis rest_lengths(3))
  with 5 show ?case by simp
next
  case 6
  then show ?case by simp
qed

declare rewrite_from.simps [simp del]

definition rewriteReturns :: "string \<Rightarrow> string \<Rightarrow> string" where
  "rewriteReturns body which = rewrite_from which None body"

subsection \<open>Bodies as pieces\<close>

datatype piece =
    Word string
  | Punct char
  | Line_comment string
  | Block_comment string
  | Literal char string
  | Ret string

fun piece_text :: "piece \<Rightarrow> string" where
  "piece_text (Word w) = w"
| "piece_text (Punct c) = [c]"
| "piece_text (Line_comment t) = ''//'' @ t @ [chr_nl]"
| "piece_text (Block_comment t) = ''/*'' @ t @ ''*/''"
| "piece_text (Literal q t) = q # t @ [q]"
| "piece_text (Ret e) = ''return'' @ e @ '';''"

fun piece_out :: "string \<Rightarrow> piece \<Rightarrow> string" where
  "piece_out which (Ret e) = ret_block which e"
| "piece_out which p = piece_text p"

fun comment_ok :: "string \<Rightarrow> bool" where
  "comment_ok [] = True"
| "comment_ok (c # cs) = (\<not> (c = CHR ''*'' \<and> cs \<noteq> [] \<and> hd cs = CHR ''/'') \<and> comment_ok cs)"

fun literal_ok :: "char \<Rightarrow> string \<Rightarrow> bool" where
  "literal_ok q [] = True"
| "literal_ok q (c # cs) =
     (if c = chr_bslash then (case cs of [] \<Rightarrow> False | _ # ds \<Rightarrow> literal_ok q ds)
      else c \<noteq> q \<and> literal_ok q cs)"

fun expr_ok :: "int \<Rightarrow> string \<Rightarrow> bool" where
  "expr_ok paren [] = (paren = 0)"
| "expr_ok paren (d # ds) =
     (if d = CHR ''('' then expr_ok (paren + 1) ds
      else if d = CHR '')'' then expr_ok (paren - 1) ds
      else (d \<noteq> CHR '';'' \<or> paren \<noteq> 0) \<and> expr_ok paren ds)"

definition not_ident :: "char option \<Rightarrow> bool" where
  "not_ident p = (case p of None \<Rightarrow> True | Some c \<Rightarrow> \<not> isIdentChar c)"

fun piece_ok :: "char option \<Rightarrow> piece \<Rightarrow> bool" where
  "piece_ok p (Word w) = (w \<noteq> [] \<and> list_all isIdentChar w \<and> w \<noteq> ''return'' \<and> not_ident p)"
| "piece_ok p (Punct c) = (\<not> isIdentChar c \<and> c \<noteq> chr_dq \<and> c \<noteq> chr_sq)"
| "piece_ok p (Line_comment t) = (chr_nl \<notin> set t)"
| "piece_ok p (Block_comment t) = comment_ok t"
| "piece_ok p (Literal q t) = ((q = chr_dq \<or> q = chr_sq) \<and> literal_ok q t)"
| "piece_ok p (Ret e) = (not_ident p \<and> (e = [] \<or> \<not> isIdentChar (hd e)) \<and> expr_ok 0 e)"

text \<open>A slash is a piece of its own only when no comment begins there.\<close>

definition no_comment :: "piece \<Rightarrow> string \<Rightarrow> bool" where
  "no_comment p rest \<longleftrightarrow>
     p = Punct (CHR ''/'') \<longrightarrow> rest = [] \<or> (hd rest \<noteq> CHR ''/'' \<and> hd rest \<noteq> CHR ''*'')"

definition body_text :: "piece list \<Rightarrow> string" where
  "body_text ps = concat (map piece_text ps)"

fun body_ok :: "char option \<Rightarrow> piece list \<Rightarrow> bool" where
  "body_ok p [] = True"
| "body_ok p (x # xs) =
     (piece_ok p x \<and> no_comment x (body_text xs) \<and> body_ok (last_char p (piece_text x)) xs)"

lemma comment_rest_ok: "comment_ok t \<Longrightarrow> comment_rest (t @ ''*/'' @ rest) = (t @ ''*/'', rest)"
proof (induction t)
  case (Cons c cs)
  have "\<not> (c = CHR ''*'' \<and> hd (cs @ ''*/'' @ rest) = CHR ''/'')"
    using Cons.prems by (cases cs) auto
  with Cons show ?case by auto
qed simp

lemma literal_rest_ok: "literal_ok q t \<Longrightarrow> q \<noteq> chr_bslash \<Longrightarrow> literal_rest q (t @ q # rest) = (t @ [q], rest)"
  by (induction q t rule: literal_ok.induct) (auto split: list.splits)

lemma ret_expr_ok: "expr_ok p e \<Longrightarrow> ret_expr p (e @ CHR '';'' # rest) = (e, CHR '';'' # rest)"
  by (induction p e rule: expr_ok.induct) (auto split: if_splits)

lemma ident_not_special:
  "isIdentChar c \<Longrightarrow> c \<noteq> CHR ''/'' \<and> c \<noteq> chr_dq \<and> c \<noteq> chr_sq"
  by (auto simp: isIdentChar_def cctype_defs)

lemma return_ident: "list_all isIdentChar ''return''"
  by code_simp

text \<open>One character that starts nothing.\<close>

lemma rewrite_plain:
  assumes "c \<noteq> chr_dq" "c \<noteq> chr_sq" "\<not> at_return p (c # cs)"
    and "c = CHR ''/'' \<longrightarrow> cs = [] \<or> (hd cs \<noteq> CHR ''/'' \<and> hd cs \<noteq> CHR ''*'')"
  shows "rewrite_from which p (c # cs) = c # rewrite_from which (Some c) cs"
  using assms by (subst rewrite_from.simps) (auto simp: Let_def)

lemma rewrite_ident_run:
  assumes "list_all isIdentChar w" and "c \<in> {c. isIdentChar c}"
  shows "rewrite_from which (Some c) (w @ rest) = w @ rewrite_from which (last_char (Some c) w) rest"
  using assms
proof (induction w arbitrary: c)
  case (Cons d w)
  have "\<not> at_return (Some c) (d # w @ rest)" using Cons.prems by (simp add: at_return_def)
  then have "rewrite_from which (Some c) (d # w @ rest) = d # rewrite_from which (Some d) (w @ rest)"
    using Cons.prems ident_not_special [of d] by (intro rewrite_plain) auto
  with Cons show ?case by (simp add: last_char_def split: if_splits)
qed (simp add: last_char_def)

lemma word_not_return:
  assumes w: "list_all isIdentChar w" "w \<noteq> ''return''" and r: "rest = [] \<or> \<not> isIdentChar (hd rest)"
  shows "\<not> at_return p (w @ rest)"
proof
  assume "at_return p (w @ rest)"
  then have t: "take 6 (w @ rest) = ''return''" and l: "6 < length (w @ rest)"
    and n: "\<not> isIdentChar ((w @ rest) ! 6)" by (simp_all add: at_return_def)
  consider "length w < 6" | "length w = 6" | "6 < length w" by linarith
  then show False
  proof cases
    case 1
    then have ne: "rest \<noteq> []" using l by auto
    have "take 6 (w @ rest) ! length w = hd rest"
      using 1 ne by (simp add: nth_append hd_conv_nth)
    moreover have "isIdentChar (''return'' ! length w)"
      using return_ident 1 by (simp add: list_all_length)
    ultimately show False using t r ne by simp
  next
    case 2
    then show False using t w(2) by simp
  next
    case 3
    then show False using n w(1) by (simp add: nth_append list_all_length)
  qed
qed

lemma rewrite_word:
  assumes "list_all isIdentChar w" "w \<noteq> []" "w \<noteq> ''return''" and "rest = [] \<or> \<not> isIdentChar (hd rest)"
  shows "rewrite_from which p (w @ rest) = w @ rewrite_from which (last_char p w) rest"
proof -
  obtain c cs where w: "w = c # cs" using assms(2) by (cases w) auto
  have "\<not> at_return p (c # cs @ rest)" using word_not_return [of w rest p] assms by (simp add: w)
  then have "rewrite_from which p (c # cs @ rest) = c # rewrite_from which (Some c) (cs @ rest)"
    using assms(1) ident_not_special [of c] by (intro rewrite_plain) (auto simp: w)
  also have "\<dots> = c # cs @ rewrite_from which (last_char (Some c) cs) rest"
    using assms(1) by (subst rewrite_ident_run) (simp_all add: w)
  finally show ?thesis by (simp add: w last_char_def split: if_splits)
qed

lemma next_not_ident:
  assumes "body_ok (Some c) ps" and "isIdentChar c"
  shows "body_text ps = [] \<or> \<not> isIdentChar (hd (body_text ps))"
proof (cases ps)
  case (Cons x xs)
  have "\<not> isIdentChar (CHR ''/'')" "\<not> isIdentChar chr_dq" "\<not> isIdentChar chr_sq" by code_simp+
  then show ?thesis using assms by (cases x) (auto simp: Cons body_text_def not_ident_def)
qed (simp add: body_text_def)

lemma rewrite_line_comment:
  assumes "chr_nl \<notin> set t"
  shows "rewrite_from which p (''//'' @ t @ chr_nl # rest) = ''//'' @ t @ chr_nl # rewrite_from which (Some chr_nl) rest"
proof -
  have tw: "takeWhile (\<lambda>c. c \<noteq> chr_nl) (''//'' @ t @ chr_nl # rest) = ''//'' @ t"
    "dropWhile (\<lambda>c. c \<noteq> chr_nl) (''//'' @ t @ chr_nl # rest) = chr_nl # rest"
    using assms by (auto simp: takeWhile_append dropWhile_append)
  have "rewrite_from which q (chr_nl # rest) = chr_nl # rewrite_from which (Some chr_nl) rest" for q
    by (rule rewrite_plain) (simp_all add: at_return_def)
  then show ?thesis using tw by (subst rewrite_from.simps) simp
qed

lemma at_return_text:
  assumes "not_ident p" and "e = [] \<or> \<not> isIdentChar (hd e)"
  shows "at_return p (''return'' @ e @ CHR '';'' # rest)"
proof -
  have "\<not> isIdentChar (CHR '';'')" by code_simp
  then show ?thesis using assms
    by (cases e) (auto simp: at_return_def not_ident_def)
qed

lemma rewrite_piece:
  assumes "piece_ok p x" "no_comment x (body_text xs)" "body_ok (last_char p (piece_text x)) xs"
  shows "rewrite_from which p (piece_text x @ body_text xs)
    = piece_out which x @ rewrite_from which (last_char p (piece_text x)) (body_text xs)"
proof (cases x)
  case (Word w)
  then have w: "list_all isIdentChar w" "w \<noteq> []" "w \<noteq> ''return''" using assms by simp_all
  then have "body_ok (Some (last w)) xs" "isIdentChar (last w)"
    using assms(3) Word by (simp_all add: last_char_def list_all_iff)
  then show ?thesis using rewrite_word [OF w next_not_ident] Word by simp
next
  case (Punct c)
  have "\<not> isIdentChar c" using assms(1) Punct by simp
  moreover have "isIdentChar (CHR ''r'')" by code_simp
  ultimately have "\<not> at_return p (c # body_text xs)" by (auto simp: at_return_def)
  then show ?thesis using assms(1,2) Punct
    by (simp add: rewrite_plain no_comment_def last_char_def)
next
  case (Line_comment t)
  then show ?thesis using assms(1) rewrite_line_comment [of t which p] by (simp add: last_char_def)
next
  case (Block_comment t)
  then have "comment_rest (t @ ''*/'' @ body_text xs) = (t @ ''*/'', body_text xs)"
    using assms(1) by (intro comment_rest_ok) simp
  then show ?thesis by (subst rewrite_from.simps) (simp add: Block_comment last_char_def)
next
  case (Literal q t)
  then have q: "q = chr_dq \<or> q = chr_sq" using assms(1) by simp
  then have "literal_rest q (t @ q # body_text xs) = (t @ [q], body_text xs)"
    using assms(1) Literal by (intro literal_rest_ok) auto
  then show ?thesis using q by (subst rewrite_from.simps) (auto simp: Literal last_char_def)
next
  case (Ret e)
  then have "at_return p (''return'' @ e @ CHR '';'' # body_text xs)"
    using assms(1) by (intro at_return_text) simp_all
  moreover have "ret_expr 0 (e @ CHR '';'' # body_text xs) = (e, CHR '';'' # body_text xs)"
    using assms(1) Ret by (intro ret_expr_ok) simp
  ultimately show ?thesis by (subst rewrite_from.simps) (simp add: Ret last_char_def)
qed

lemma rewrite_from_pieces:
  "body_ok p ps \<Longrightarrow> rewrite_from which p (body_text ps) = concat (map (piece_out which) ps)"
proof (induction ps arbitrary: p)
  case (Cons x xs)
  then have "rewrite_from which p (piece_text x @ body_text xs)
      = piece_out which x @ rewrite_from which (last_char p (piece_text x)) (body_text xs)"
    by (intro rewrite_piece) simp_all
  moreover have "rewrite_from which (last_char p (piece_text x)) (body_text xs) = concat (map (piece_out which) xs)"
    using Cons by simp
  ultimately show ?case by (simp add: body_text_def)
qed (simp add: body_text_def rewrite_from.simps)

end
