(* ===== verification/Emit.thy ===== *)
theory Emit
  imports BodyRewrite SourceText Diagnostics Graph
begin

text \<open>
  What the emitters have in common: lists of lines, joined lists, hexadecimal numbers, the text they
  generate for the ports of a kernel, and the files they write. The disk is a parameter: which
  directories can be created (\<open>create_directories\<close> throws otherwise) and which files can be opened.
\<close>

subsection \<open>Text\<close>

definition out_lines :: "string list \<Rightarrow> string" where
  "out_lines ls = concat (map ln ls)"

definition em_dash :: string where
  "em_dash = [CHR 0xE2, CHR 0x80, CHR 0x94]"

text \<open>The \<open>first\<close> / \<open>comma\<close> idiom.\<close>

fun joined :: "string \<Rightarrow> string list \<Rightarrow> string" where
  "joined sep [] = []"
| "joined sep [x] = x"
| "joined sep (x # y # zs) = x @ sep @ joined sep (y # zs)"

definition bool_str :: "bool \<Rightarrow> string" where
  "bool_str b = (if b then ''true'' else ''false'')"

fun hex_nat :: "nat \<Rightarrow> string" where
  "hex_nat n = (if n < 16 then [''0123456789abcdef'' ! n] else hex_nat (n div 16) @ [''0123456789abcdef'' ! (n mod 16)])"

declare hex_nat.simps [simp del]

text \<open>\<open>std::hex\<close> prints the bits of an \<open>int\<close>.\<close>

definition hex_str :: "int \<Rightarrow> string" where
  "hex_str i = hex_nat (nat (i mod 2 ^ 32))"

definition ix :: "port \<Rightarrow> string" where
  "ix p = int_str (p_index p)"

definition port_bit_text :: "port \<Rightarrow> string" where
  "port_bit_text p = ''openclicknp::PORT_BIT('' @ ix p @ '')''"

text \<open>
  Port numbers start at 1, and the generated arrays of flits are indexed with them: one slot more
  than there are ports, and at least two.
\<close>

definition array_slots :: "port list \<Rightarrow> nat" where
  "array_slots ps = max 1 (length ps) + 1"

definition flit_array :: "string \<Rightarrow> port list \<Rightarrow> string" where
  "flit_array name ps = ''openclicknp::flit_t '' @ name @ ''['' @ nat_str (array_slots ps) @ '']''"

text \<open>The generated code that reads an input port and that writes an output port.\<close>

definition read_input_text :: "port \<Rightarrow> string" where
  "read_input_text p = out_lines
     [''        if ((_ret & '' @ port_bit_text p @ '') && !(_input_port & '' @ port_bit_text p @ '')) {'',
      ''            openclicknp::flit_t f; if (in_'' @ ix p @ ''.read_nb(f)) {'',
      ''                _input_data['' @ ix p @ ''] = f;'',
      ''                _input_port |= '' @ port_bit_text p @ '';'',
      ''            }'',
      ''        }'']"

definition write_output_text :: "port \<Rightarrow> string" where
  "write_output_text p = out_lines
     [''        if (_output_port & '' @ port_bit_text p @ '') {'',
      ''            bool ok = out_'' @ ix p @ ''.write_nb(_output_data['' @ ix p @ '']);'',
      ''            if (ok) _output_success |= '' @ port_bit_text p @ '';'',
      ''            else    _output_failed  |= '' @ port_bit_text p @ '';'',
      ''        }'']"

subsection \<open>Files\<close>

record output_system =
  os_mkdir :: "string \<Rightarrow> bool"
  os_open :: "string \<Rightarrow> bool"

text \<open>The files written, in order; writing a file again replaces it.\<close>

type_synonym files = "(string \<times> string) list"

definition file_text :: "files \<Rightarrow> string \<Rightarrow> string option" where
  "file_text fs = map_of (rev fs)"

text \<open>An emitter: \<open>None\<close> is an exception of \<open>create_directories\<close>.\<close>

type_synonym emitter = "output_system \<Rightarrow> build \<Rightarrow> string \<Rightarrow> diag_engine \<times> files \<Rightarrow> (bool \<times> diag_engine \<times> files) option"

definition cannot_write :: "string \<Rightarrow> diag_engine \<times> files \<Rightarrow> bool \<times> diag_engine \<times> files" where
  "cannot_write what r = (False, diag_error range_default (''cannot write '' @ what) (fst r), snd r)"

text \<open>The common beginning of the emitters.\<close>

definition in_directory ::
  "output_system \<Rightarrow> string \<Rightarrow> string \<Rightarrow> (string \<Rightarrow> bool \<times> diag_engine \<times> files) \<Rightarrow> (bool \<times> diag_engine \<times> files) option" where
  "in_directory sys outdir sub body =
     (let dir = path_append outdir sub in if os_mkdir sys dir then Some (body dir) else None)"

text \<open>
  Writing one file, or the report that it cannot be written; the continuation runs only when it
  could.
\<close>

definition write_then ::
  "output_system \<Rightarrow> string \<Rightarrow> string \<Rightarrow> string
   \<Rightarrow> (diag_engine \<times> files \<Rightarrow> bool \<times> diag_engine \<times> files) \<Rightarrow> diag_engine \<times> files \<Rightarrow> bool \<times> diag_engine \<times> files" where
  "write_then sys path what txt rest r =
     (if os_open sys path then rest (fst r, snd r @ [(path, txt)]) else cannot_write what r)"

definition emitted :: "diag_engine \<times> files \<Rightarrow> bool \<times> diag_engine \<times> files" where
  "emitted r = (True, r)"

end
