(* ===== verification/EmitHls.thy ===== *)
theory EmitHls
  imports Emit
begin

text \<open>
  The Vitis HLS emitter (\<open>compiler/src/backends/hls_cpp/emit.cpp\<close>): for every kernel of the plan the
  source of its top function and a testbench, and a list of the kernels for the build scripts.
\<close>

definition emitPrologueComment :: "build \<Rightarrow> kernel_hls \<Rightarrow> string" where
  "emitPrologueComment b k = out_lines
     [''// SPDX-License-Identifier: Apache-2.0'',
      ''// Auto-generated by openclicknp-cc '' @ em_dash @ '' DO NOT EDIT'',
      ''// Kernel:        '' @ kh_name k,
      ''// Element type:  '' @ kh_element_type k,
      ''// Source:        '' @ b_source_path b,
      ''// Platform:      '' @ platformName (b_platform b), []]"

definition emitIncludes :: string where
  \<open>emitIncludes = out_lines
     [''#include <ap_int.h>'', ''#include <ap_axi_sdata.h>'', ''#include <hls_stream.h>'',
      ''#include "openclicknp/hls_runtime.hpp"'', ''#include "openclicknp/bigint.hpp"'',
      ''#include "openclicknp/aes128.hpp"'', ''#include "openclicknp/sha1.hpp"'', []]\<close>

definition portList :: "kernel_hls \<Rightarrow> string" where
  "portList k = joined ('','' @ ln [] @ ''    '')
     (map (\<lambda>p. ''hls::stream<openclicknp::flit_t>& in_'' @ ix p) (kh_in_ports k)
      @ map (\<lambda>p. ''hls::stream<openclicknp::flit_t>& out_'' @ ix p) (kh_out_ports k)
      @ (if kh_has_signal k then [''openclicknp::SignalIO& sig_io''] else []))"

definition emitInterfacePragmas :: "kernel_hls \<Rightarrow> string" where
  "emitInterfacePragmas k = out_lines
     (map (\<lambda>p. ''#pragma HLS INTERFACE axis port=in_'' @ ix p) (kh_in_ports k)
      @ map (\<lambda>p. ''#pragma HLS INTERFACE axis port=out_'' @ ix p) (kh_out_ports k)
      @ (if kh_has_signal k
         then [''#pragma HLS INTERFACE s_axilite port=sig_io bundle=control offset=0x''
                 @ hex_str (kh_axilite_base k),
               ''#pragma HLS INTERFACE s_axilite port=return bundle=control'',
               ''#pragma HLS DATA_PACK variable=sig_io'']
         else if kh_autorun k then [''#pragma HLS INTERFACE ap_ctrl_none port=return'']
         else [''#pragma HLS INTERFACE s_axilite port=return bundle=control'']))"

definition hls_state_struct :: "kernel_hls \<Rightarrow> string" where
  "hls_state_struct k =
     (if kh_state_cpp k = [] then []
      else out_lines [''namespace { namespace '' @ kh_name k @ ''_ns {'', ''    using namespace openclicknp;'',
             ''    struct State_t {'']
         @ state_lines ''        '' (kh_state_cpp k)
         @ out_lines [''    };'', ''} }'', []])"

definition hls_state_use :: "kernel_hls \<Rightarrow> string" where
  "hls_state_use k = out_lines
     (''    // ---- state ----''
      # (if kh_state_cpp k = [] then []
         else [''    using State_t = '' @ kh_name k @ ''_ns::State_t;'', ''    static State_t _state;''])
      @ [''    static bool _inited = false;'', []])"

definition hls_init :: "kernel_hls \<Rightarrow> string" where
  "hls_init k =
     (if kh_init_cpp k = [] then out_lines [''    _inited = true;'', []]
      else out_lines [''    if (!_inited) {''] @ indent_lines ''        '' (kh_init_cpp k)
         @ out_lines [''        _inited = true;'', ''    }'', []])"

definition pipeline_interval :: "kernel_hls \<Rightarrow> int" where
  "pipeline_interval k = (if 0 < kh_pipeline_ii k then kh_pipeline_ii k else 1)"

definition hls_loop_head :: "kernel_hls \<Rightarrow> string" where
  "hls_loop_head k = out_lines
     ([''    // ---- handler loop ----'',
       ''    openclicknp::port_mask_t _ret = openclicknp::PORT_ALL;'',
       ''    openclicknp::port_mask_t _input_port = 0, _output_port = 0, _output_failed = 0, _output_success = 0;'',
       ''    '' @ flit_array ''_input_data'' (kh_in_ports k) @ '';'',
       ''    '' @ flit_array ''_output_data'' (kh_out_ports k) @ '';'']
      @ (if kh_has_signal k
         then [''    openclicknp::ClSignal event{}, outevent{};'', ''    bool _has_signal = false;''] else [])
      @ [[], ''    while (true) {'', ''#pragma HLS PIPELINE II='' @ int_str (pipeline_interval k)]
      @ map (\<lambda>pr. ''#pragma HLS '' @ pr) (kh_hls_pragmas k)
      @ (if kh_has_signal k
         then [''        // signal poll (host-controlled element)'', ''        if (!_has_signal) {'',
               ''            _has_signal = openclicknp::poll_signal(sig_io, &event);'', ''        }''] else []))"

definition hls_signal_branch :: "kernel_hls \<Rightarrow> string" where
  "hls_signal_branch k =
     (if \<not> kh_has_signal k then []
      else out_lines [''        if (_has_signal) {'', ''            outevent = event;'',
             ''            // ---- user .signal body ----'']
         @ indent_lines ''            '' (rewriteReturns (kh_signal_cpp k) ''signal'')
         @ out_lines [''            _end_signal: ;'', ''            openclicknp::respond_signal(sig_io, outevent);'',
             ''            _has_signal = false;'', ''        } else {''])"

definition emitKernel :: "build \<Rightarrow> kernel_hls \<Rightarrow> string" where
  \<open>emitKernel b k =
     emitPrologueComment b k @ emitIncludes @ hls_state_struct k
     @ out_lines [''extern "C" void '' @ kh_name k @ ''('']
     @ out_lines [''    '' @ portList k @ '')'', ''{'']
     @ emitInterfacePragmas k @ out_lines [[], ''    using namespace openclicknp;'']
     @ hls_state_use k @ hls_init k @ hls_loop_head k
     @ out_lines [''        // read inputs''] @ concat (map read_input_text (kh_in_ports k))
     @ out_lines [''        _output_port = 0;'', ''        openclicknp::port_mask_t last_rport = _ret;'']
     @ hls_signal_branch k
     @ out_lines [''        // ---- user .handler body ----'']
     @ indent_lines ''        '' (rewriteReturns (kh_handler_cpp k) ''handler'')
     @ out_lines [''        _end_handler: ;'', ''        _output_failed = _output_success = 0;'']
     @ concat (map write_output_text (kh_out_ports k))
     @ (if kh_has_signal k then out_lines [''        }''] else [])
     @ out_lines [''    }'', ''}'']\<close>

definition emitTestbench :: "kernel_hls \<Rightarrow> string" where
  \<open>emitTestbench k =
     out_lines [''// SPDX-License-Identifier: Apache-2.0'',
       ''// Auto-generated cosim testbench for '' @ kh_name k,
       ''#include <hls_stream.h>'', ''#include "openclicknp/hls_runtime.hpp"'', [],
       ''extern "C" void '' @ kh_name k @ ''('', ''    '' @ portList k @ '');'', [], ''int main() {'']
     @ out_lines (map (\<lambda>p. ''    hls::stream<openclicknp::flit_t> in_'' @ ix p @ '';'') (kh_in_ports k)
       @ map (\<lambda>p. ''    hls::stream<openclicknp::flit_t> out_'' @ ix p @ '';'') (kh_out_ports k)
       @ (if kh_has_signal k then [''    static openclicknp::SignalIO sig_io = {};''] else [])
       @ (if kh_in_ports k = [] then []
          else [''    openclicknp::flit_t f{}; f.set(0, 0xCAFEBABEULL); f.set_sop(true); f.set_eop(true);'',
                ''    in_1.write(f);''])
       @ [''    '' @ kh_name k @ ''('',
          ''        '' @ joined '', ''
             (map (\<lambda>p. ''in_'' @ ix p) (kh_in_ports k) @ map (\<lambda>p. ''out_'' @ ix p) (kh_out_ports k)
              @ (if kh_has_signal k then [''sig_io''] else [])) @ '');'',
          ''    return 0;'', ''}''])\<close>

text \<open>One kernel: a source that cannot be opened is an error, a testbench that cannot is skipped.\<close>

definition hls_kernel_files ::
  "output_system \<Rightarrow> build \<Rightarrow> string \<Rightarrow> kernel_hls \<Rightarrow> bool \<times> diag_engine \<times> files \<Rightarrow> bool \<times> diag_engine \<times> files" where
  "hls_kernel_files sys b kdir k r =
     (let p = path_append kdir (kh_name k @ ''.cpp''); tbp = path_append kdir (kh_name k @ ''_tb.cpp'');
          (ok, de, fs) = r
      in if \<not> os_open sys p then cannot_write p (de, fs)
         else (ok, de, fs @ [(p, emitKernel b k)]
            @ (if os_open sys tbp then [(tbp, emitTestbench k)] else [])))"

definition kernel_manifest :: "build \<Rightarrow> string" where
  "kernel_manifest b = out_lines
     (''# Auto-generated kernel manifest''
      # map (\<lambda>k. ''openclicknp_register_kernel('' @ kh_name k @ '')'') (b_kernels b))"

definition emitHlsCpp :: emitter where
  "emitHlsCpp sys b outdir r = in_directory sys outdir ''kernels'' (\<lambda>kdir.
     (let (ok, de, fs) = fold (hls_kernel_files sys b kdir) (b_kernels b) (True, r);
          cm = path_append kdir ''CMakeLists.txt''
      in (ok, de, fs @ (if os_open sys cm then [(cm, kernel_manifest b)] else []))))"

end
