(* ===== verification/EmitSwEmu.thy ===== *)
theory EmitSwEmu
  imports Emit
begin

text \<open>
  The software-emulator emitter (\<open>compiler/src/backends/sw_emu/emit.cpp\<close>): every kernel as a function,
  one stream for every connection of the plan, and a main function that starts each kernel with the
  streams of its ports. The map from ports to streams is built the way the code builds it, one
  assignment at a time.
\<close>

subsection \<open>Kernels\<close>

definition emitTopologyHeader :: "build \<Rightarrow> string" where
  \<open>emitTopologyHeader b = out_lines
     [''// SPDX-License-Identifier: Apache-2.0'',
      ''// Auto-generated software-emulator harness '' @ em_dash @ '' DO NOT EDIT'',
      ''// Source: '' @ b_source_path b, [],
      ''#include <atomic>'', ''#include <cstdint>'', ''#include <thread>'', ''#include <vector>'',
      ''#include <string>'', ''#include <fstream>'', ''#include <iostream>'',
      ''#include "openclicknp/sw_runtime.hpp"'', ''#include "openclicknp/bigint.hpp"'',
      ''#include "openclicknp/aes128.hpp"'', ''#include "openclicknp/sha1.hpp"'', []]\<close>

definition sw_state_struct :: "kernel_hls \<Rightarrow> string" where
  "sw_state_struct k =
     (if kh_state_cpp k = [] then []
      else out_lines [''namespace '' @ kh_name k @ ''_ns {'', ''    using namespace openclicknp;'',
             ''    struct State_t {'']
         @ state_lines ''        '' (kh_state_cpp k)
         @ out_lines [''    };'', ''}''])"

definition sw_parameters :: "kernel_hls \<Rightarrow> string" where
  "sw_parameters k = joined ('','' @ ln [])
     (map (\<lambda>p. ''    openclicknp::SwStream& in_'' @ ix p) (kh_in_ports k)
      @ map (\<lambda>p. ''    openclicknp::SwStream& out_'' @ ix p) (kh_out_ports k)
      @ [''    std::atomic<bool>& _stop'']
      @ (if kh_has_signal k then [''    openclicknp::SignalChannel& _sigch''] else []))"

definition sw_locals :: "kernel_hls \<Rightarrow> string" where
  "sw_locals k = out_lines
     ([''    openclicknp::port_mask_t _ret = openclicknp::PORT_ALL;'',
       ''    openclicknp::port_mask_t _input_port = 0, _output_port = 0, _output_failed = 0, _output_success = 0;'',
       ''    '' @ flit_array ''_input_data'' (kh_in_ports k) @ '' = {};'',
       ''    '' @ flit_array ''_output_data'' (kh_out_ports k) @ '' = {};'']
      @ (if kh_has_signal k
         then [''    openclicknp::ClSignal event{}, outevent{};'', ''    bool _has_signal = false;''] else [])
      @ [''    while (!_stop.load(std::memory_order_relaxed)) {'']
      @ (if kh_has_signal k
         then [''        if (!_has_signal) _has_signal = _sigch.try_recv(event);''] else []))"

definition sw_signal_branch :: "kernel_hls \<Rightarrow> string" where
  "sw_signal_branch k =
     (if \<not> kh_has_signal k then []
      else out_lines [''        if (_has_signal) {'', ''            outevent = event;'']
         @ indent_lines ''            '' (rewriteReturns (kh_signal_cpp k) ''signal'')
         @ out_lines [''            _end_signal: ;'', ''            _sigch.send_response(outevent);'',
             ''            _has_signal = false;'', ''        } else {''])"

definition emitKernelFunc :: "kernel_hls \<Rightarrow> string" where
  \<open>emitKernelFunc k =
     out_lines [''// ---- kernel: '' @ kh_name k @ '' ----''] @ sw_state_struct k
     @ out_lines [''extern "C" void kernel_'' @ kh_name k @ ''('', sw_parameters k @ '')'', ''{'',
         ''    using namespace openclicknp;'']
     @ (if kh_state_cpp k = [] then []
        else out_lines [''    using State_t = '' @ kh_name k @ ''_ns::State_t;'', ''    State_t _state{};''])
     @ (if kh_init_cpp k = [] then []
        else out_lines [''    {''] @ indent_lines ''        '' (kh_init_cpp k) @ out_lines [''    }''])
     @ sw_locals k @ concat (map read_input_text (kh_in_ports k))
     @ out_lines [''        _output_port = 0;'', ''        openclicknp::port_mask_t last_rport = _ret;'']
     @ sw_signal_branch k
     @ out_lines [''        // ---- user .handler ----'']
     @ indent_lines ''        '' (rewriteReturns (kh_handler_cpp k) ''handler'')
     @ out_lines [''        _end_handler: ;'', ''        _output_failed = _output_success = 0;'']
     @ concat (map write_output_text (kh_out_ports k))
     @ (if kh_has_signal k then out_lines [''        }''] else [])
     @ out_lines [''        std::this_thread::yield();'', ''    }'', ''}'', []]\<close>

subsection \<open>Streams\<close>

text \<open>A port of a kernel: the name, whether it is an output (\<open>"out"\<close>) and the number.\<close>

type_synonym port_key = "string \<times> bool \<times> int"

record wiring =
  wi_decls :: "(string \<times> int) list"
  wi_map :: "port_key \<Rightarrow> string option"

definition wiring_empty :: wiring where
  "wiring_empty = \<lparr>wi_decls = [], wi_map = (\<lambda>_. None)\<rparr>"

definition stream_var :: "string \<Rightarrow> nat \<Rightarrow> string" where
  "stream_var base i = base @ nat_str i"

definition attach :: "bool \<Rightarrow> port_key \<Rightarrow> string \<Rightarrow> (port_key \<Rightarrow> string option) \<Rightarrow> (port_key \<Rightarrow> string option)" where
  "attach on key var m = (if on then m(key \<mapsto> var) else m)"

text \<open>
  One connection with the stream of its number. The names are those of the pseudo-elements that are
  left out of the map: none for internal streams, \<open>tor_in\<close> and \<open>tor_out\<close> for the first boundary.
\<close>

definition wire_stream :: "string \<Rightarrow> string list \<Rightarrow> nat \<times> stream_conn \<Rightarrow> wiring \<Rightarrow> wiring" where
  "wire_stream base skip ic w =
     (let (i, sc) = ic; var = stream_var base i in
      w\<lparr>wi_decls := wi_decls w @ [(var, sc_depth sc)],
        wi_map := attach (sc_dst_kernel sc \<notin> set skip) (sc_dst_kernel sc, False, sc_dst_port sc) var
          (attach (sc_src_kernel sc \<notin> set skip) (sc_src_kernel sc, True, sc_src_port sc) var (wi_map w))\<rparr>)"

definition wire_host :: "nat \<times> host_conn \<Rightarrow> wiring \<Rightarrow> wiring" where
  "wire_host ic w =
     (let (i, hc) = ic; var = stream_var ''host_stream_'' i in
      w\<lparr>wi_decls := wi_decls w @ [(var, 64)],
        wi_map := (wi_map w)((hc_kernel hc, hc_kernel_to_host hc, hc_port hc) \<mapsto> var)\<rparr>)"

definition wire_internal :: "build \<Rightarrow> wiring \<Rightarrow> wiring" where
  "wire_internal b = fold (wire_stream ''stream_'' []) (enumerate 0 (b_stream_conns b))"

definition wire_tor :: "build \<Rightarrow> wiring \<Rightarrow> wiring" where
  "wire_tor b = fold (wire_stream ''tor_stream_'' [''tor_in'', ''tor_out'']) (enumerate 0 (b_tor_conns b))"

definition wire_nic :: "build \<Rightarrow> wiring \<Rightarrow> wiring" where
  "wire_nic b = fold (wire_stream ''nic_stream_'' [''nic_in'', ''nic_out'']) (enumerate 0 (b_nic_conns b))"

definition wire_hosts :: "build \<Rightarrow> wiring \<Rightarrow> wiring" where
  "wire_hosts b = fold wire_host (enumerate 0 (b_host_streams b))"

definition wire_all :: "build \<Rightarrow> wiring" where
  "wire_all b = wire_hosts b (wire_nic b (wire_tor b (wire_internal b wiring_empty)))"

subsection \<open>The main function\<close>

definition stream_for :: "wiring \<Rightarrow> port_key \<Rightarrow> string" where
  "stream_for w key =
     (case wi_map w key of
        None \<Rightarrow> ''openclicknp::SwStream::null()''
      | Some var \<Rightarrow> ''openclicknp_sw_emu::'' @ var @ ''()'')"

definition kernel_arguments :: "wiring \<Rightarrow> kernel_hls \<Rightarrow> string list" where
  "kernel_arguments w k =
     map (\<lambda>p. stream_for w (kh_name k, False, p_index p)) (kh_in_ports k)
     @ map (\<lambda>p. stream_for w (kh_name k, True, p_index p)) (kh_out_ports k)
     @ [''_stop''] @ (if kh_has_signal k then [''openclicknp::SignalChannel::dummy()''] else [])"

definition emit_thread :: "wiring \<Rightarrow> kernel_hls \<Rightarrow> string" where
  "emit_thread w k = out_lines
     [''    {'',
      ''        threads.emplace_back([&](){ kernel_'' @ kh_name k @ ''(''
        @ joined '', '' (kernel_arguments w k) @ ''); });'',
      ''    }'']"

definition emit_streams :: "wiring \<Rightarrow> string" where
  "emit_streams w =
     out_lines ([''// Boundary stream accessors (defined out-of-line below) '' @ em_dash @ '' a'',
         ''// test harness can reach in via openclicknp_sw_emu_<name>_stream().'',
         ''namespace openclicknp_sw_emu {'']
       @ map (\<lambda>(var, d). ''    extern openclicknp::SwStream& '' @ var @ ''();'') (wi_decls w)
       @ [''    extern std::atomic<bool>& stop_flag();'', ''}'', [], ''namespace openclicknp_sw_emu {''])
     @ concat (map (\<lambda>(var, d). out_lines
         [''    openclicknp::SwStream& '' @ var @ ''() {'',
          ''        static openclicknp::SwStream s('' @ int_str d @ '');'',
          ''        return s;'', ''    }'']) (wi_decls w))
     @ out_lines [''    std::atomic<bool>& stop_flag() {'', ''        static std::atomic<bool> s{false};'',
         ''        return s;'', ''    }'', ''}'', []]"

definition emitMain :: "build \<Rightarrow> string" where
  "emitMain b =
     (let w = wire_all b in
      out_lines [''// ---- main ----''] @ emit_streams w
      @ out_lines [''int openclicknp_sw_emu_main(int argc, char** argv) {'', ''    (void)argc; (void)argv;'',
          ''    auto& _stop = openclicknp_sw_emu::stop_flag();'', ''    std::vector<std::thread> threads;'', []]
      @ concat (map (emit_thread w) (b_kernels b))
      @ out_lines [''    _stop.store(true);'', ''    for (auto& t : threads) t.join();'',
          ''    return 0;'', ''}''])"

definition sw_emu_topology :: "build \<Rightarrow> string" where
  "sw_emu_topology b = emitTopologyHeader b @ concat (map emitKernelFunc (b_kernels b)) @ emitMain b"

definition emitSwEmu :: emitter where
  "emitSwEmu sys b outdir r = in_directory sys outdir ''sw_emu'' (\<lambda>dir.
     (let p = path_append dir ''topology.cpp'' in write_then sys p p (sw_emu_topology b) emitted r))"

end
