(* ===== verification/EmitSim.thy ===== *)
theory EmitSim
  imports Emit
begin

text \<open>
  The two simulation emitters: SystemC (\<open>compiler/src/backends/systemc/emit.cpp\<close>) and the Verilator
  harness (\<open>compiler/src/backends/verilator_sim/emit.cpp\<close>).
\<close>

subsection \<open>SystemC\<close>

definition sc_header :: "build \<Rightarrow> string" where
  \<open>sc_header b = out_lines
     [''// SPDX-License-Identifier: Apache-2.0'',
      ''// Auto-generated SystemC harness '' @ em_dash @ '' DO NOT EDIT'',
      ''// Source: '' @ b_source_path b, [], ''#include <systemc.h>'',
      ''#include "openclicknp/sc_runtime.hpp"'', []]\<close>

definition sc_read_port :: "port \<Rightarrow> string" where
  "sc_read_port p = out_lines
     [''            if ((_ret & '' @ port_bit_text p @ '') && in_'' @ ix p @ ''.num_available() > 0 && !(_input_port & ''
        @ port_bit_text p @ '')) {'',
      ''                _input_data['' @ ix p @ ''] = in_'' @ ix p @ ''.read();'',
      ''                _input_port |= '' @ port_bit_text p @ '';'',
      ''            }'']"

definition sc_write_port :: "port \<Rightarrow> string" where
  "sc_write_port p = out_lines
     [''            if (_output_port & '' @ port_bit_text p @ '') {'',
      ''                out_'' @ ix p @ ''.write(_output_data['' @ ix p @ '']);'',
      ''            }'']"

definition emitKernelModule :: "kernel_hls \<Rightarrow> string" where
  "emitKernelModule k =
     out_lines ([''SC_MODULE(SC_'' @ kh_name k @ '') {'']
       @ map (\<lambda>p. ''    sc_fifo_in<openclicknp::flit_t>  in_'' @ ix p @ '';'') (kh_in_ports k)
       @ map (\<lambda>p. ''    sc_fifo_out<openclicknp::flit_t> out_'' @ ix p @ '';'') (kh_out_ports k))
     @ (if kh_state_cpp k = [] then []
        else out_lines [''    struct State_t {''] @ state_lines ''        '' (kh_state_cpp k)
           @ out_lines [''    } _state;''])
     @ out_lines [''    void run() {'']
     @ (if kh_init_cpp k = [] then []
        else out_lines [''        {''] @ indent_lines ''            '' (kh_init_cpp k) @ out_lines [''        }''])
     @ out_lines [''        openclicknp::port_mask_t _ret = openclicknp::PORT_ALL;'',
         ''        openclicknp::port_mask_t _input_port = 0, _output_port = 0, _output_failed = 0, _output_success = 0;'',
         ''        '' @ flit_array ''_input_data'' (kh_in_ports k) @ '' = {};'',
         ''        '' @ flit_array ''_output_data'' (kh_out_ports k) @ '' = {};'',
         ''        while (true) {'',
         ''            wait(1, SC_NS);  // 1 cycle = 1 ns @ 1 GHz scaled timebase'']
     @ concat (map sc_read_port (kh_in_ports k))
     @ out_lines [''            _output_port = 0;'', ''            openclicknp::port_mask_t last_rport = _ret;'']
     @ indent_lines ''            '' (rewriteReturns (kh_handler_cpp k) ''handler'')
     @ out_lines [''            _end_handler: ;'']
     @ concat (map sc_write_port (kh_out_ports k))
     @ out_lines [''        }'', ''    }'', ''    SC_CTOR(SC_'' @ kh_name k @ '') { SC_THREAD(run); }'', ''};'', []]"

definition sc_main :: "build \<Rightarrow> string" where
  \<open>sc_main b = out_lines
     ([''int sc_main(int argc, char** argv) {'', ''    (void)argc; (void)argv;'', ''    // FIFO instantiations'']
      @ map (\<lambda>(i, sc). ''    sc_fifo<openclicknp::flit_t> fifo_'' @ nat_str i @ ''('' @ int_str (sc_depth sc) @ '');'')
          (enumerate 0 (b_stream_conns b))
      @ [''    // Kernel instantiations + binding (placeholder)'']
      @ map (\<lambda>k. ''    SC_'' @ kh_name k @ '' m_'' @ kh_name k @ ''("m_'' @ kh_name k @ ''");'') (b_kernels b)
      @ [''    sc_start(1, SC_MS);  // run for 1 ms simulated time'', ''    return 0;'', ''}''])\<close>

definition emitSystemC :: emitter where
  "emitSystemC sys b outdir r = in_directory sys outdir ''systemc'' (\<lambda>dir.
     (let p = path_append dir ''topology.cpp'';
          txt = sc_header b @ concat (map emitKernelModule (b_kernels b)) @ sc_main b
      in write_then sys p p txt emitted r))"

subsection \<open>Verilator\<close>

definition emitTopVerilog :: "build \<Rightarrow> string" where
  "emitTopVerilog b =
     out_lines [''// Auto-generated Verilog top for Verilator full-system sim'',
       ''module openclicknp_sim_top ('',
       ''    input  wire        clk,'',
       ''    input  wire        rstn,'',
       ''    // tor boundary AXIS'',
       ''    input  wire [511:0] tor_in_tdata,'',
       ''    input  wire         tor_in_tvalid,'',
       ''    output wire         tor_in_tready,'',
       ''    output wire [511:0] tor_out_tdata,'',
       ''    output wire         tor_out_tvalid,'',
       ''    input  wire         tor_out_tready,'',
       ''    // nic boundary AXIS'',
       ''    input  wire [511:0] nic_in_tdata,'',
       ''    input  wire         nic_in_tvalid,'',
       ''    output wire         nic_in_tready,'',
       ''    output wire [511:0] nic_out_tdata,'',
       ''    output wire         nic_out_tvalid,'',
       ''    input  wire         nic_out_tready'',
       '');'', []]
     @ concat (map (\<lambda>i. out_lines
         [''    wire [511:0] e'' @ nat_str i @ ''_tdata;'', ''    wire         e'' @ nat_str i @ ''_tvalid;'',
          ''    wire         e'' @ nat_str i @ ''_tready;'']) [0..<length (b_stream_conns b)])
     @ out_lines [[], ''    // Kernel instantiations (placeholders '' @ em_dash @ '' synthesized RTL'',
         ''    // is provided by Vitis HLS).'']
     @ concat (map (\<lambda>k. out_lines
         [''    '' @ kh_name k @ '' u_'' @ kh_name k @ '' ('', ''        .ap_clk(clk), .ap_rst_n(rstn)'',
          ''        // ports wired by build script post-HLS'', ''    );'']) (b_kernels b))
     @ out_lines [[], ''endmodule'']"

definition emitVerilatorCpp :: string where
  \<open>emitVerilatorCpp = out_lines
     [''// SPDX-License-Identifier: Apache-2.0'',
      ''// Verilator testbench for openclicknp'',
      ''#include <verilated.h>'',
      ''#include <verilated_fst_c.h>'',
      ''#include "Vopenclicknp_sim_top.h"'',
      ''#include <cstdio>'', [],
      ''int main(int argc, char** argv) {'',
      ''    Verilated::commandArgs(argc, argv);'',
      ''    Verilated::traceEverOn(true);'',
      ''    auto* top = new Vopenclicknp_sim_top;'',
      ''    auto* trace = new VerilatedFstC;'',
      ''    top->trace(trace, 99);'',
      ''    trace->open("topology.fst");'',
      ''    top->rstn = 0; top->clk = 0;'',
      ''    for (int t = 0; t < 200000; ++t) {'',
      ''        top->clk = !top->clk;'',
      ''        if (t == 20) top->rstn = 1;'',
      ''        top->eval();'',
      ''        trace->dump(t);'',
      ''    }'',
      ''    trace->close();'',
      ''    delete trace; delete top;'',
      ''    return 0;'', ''}'']\<close>

definition emitVerilator :: emitter where
  "emitVerilator sys b outdir r = in_directory sys outdir ''verilator'' (\<lambda>dir.
     write_then sys (path_append dir ''topology.v'') ''topology.v'' (emitTopVerilog b)
       (write_then sys (path_append dir ''tb.cpp'') ''tb.cpp'' emitVerilatorCpp emitted) r)"

end
