(* ===== verification/EmitLink.thy ===== *)
theory EmitLink
  imports Emit "HOL-Library.List_Lexorder"
begin

text \<open>
  The link configuration (\<open>compiler/src/backends/vpp_link/emit.cpp\<close>) and the host side
  (\<open>compiler/src/backends/xrt_host/emit.cpp\<close>): the tables the runtime registers and one class for
  every element type.
\<close>

subsection \<open>Link configuration\<close>

definition end_out :: "string \<Rightarrow> int \<Rightarrow> string" where
  "end_out k p = k @ ''.out_'' @ int_str p"

definition end_in :: "string \<Rightarrow> int \<Rightarrow> string" where
  "end_in k p = k @ ''.in_'' @ int_str p"

definition link_stream :: "stream_conn \<Rightarrow> string" where
  "link_stream sc = ''stream_connect='' @ end_out (sc_src_kernel sc) (sc_src_port sc) @ '':''
     @ end_in (sc_dst_kernel sc) (sc_dst_port sc) @ '':'' @ int_str (sc_depth sc)"

text \<open>A boundary stream (of \<open>tor\<close> or \<open>nic\<close>): the direction is told by the destination's name.\<close>

definition link_boundary :: "string \<Rightarrow> nat \<times> stream_conn \<Rightarrow> string" where
  "link_boundary side ic =
     (let (idx, sc) = ic in
      if find_sub (side @ ''_out'') (sc_dst_kernel sc) = None
      then ''stream_connect='' @ side @ ''_in'' @ nat_str idx @ '':''
         @ end_in (sc_dst_kernel sc) (sc_dst_port sc) @ '':'' @ int_str (sc_depth sc)
      else ''stream_connect='' @ end_out (sc_src_kernel sc) (sc_src_port sc) @ '':'' @ side @ ''_out''
         @ nat_str idx @ '':'' @ int_str (sc_depth sc))"

definition link_host :: "host_conn \<Rightarrow> string" where
  "link_host hs =
     (if hc_kernel_to_host hs
      then ''stream_connect='' @ end_out (hc_kernel hs) (hc_port hs) @ '':host_c2h_'' @ int_str (hc_slot_id hs)
      else ''stream_connect=host_h2c_'' @ int_str (hc_slot_id hs) @ '':'' @ end_in (hc_kernel hs) (hc_port hs))"

definition emitConnectivity :: "build \<Rightarrow> string" where
  "emitConnectivity b = out_lines
     ([''# Auto-generated v++ link connectivity'', ''[connectivity]'']
      @ map (\<lambda>k. ''nk='' @ kh_element_type k @ '':1:'' @ kh_name k) (b_kernels b)
      @ map link_stream (b_stream_conns b)
      @ map (link_boundary ''tor'') (enumerate 0 (b_tor_conns b))
      @ map (link_boundary ''nic'') (enumerate 0 (b_nic_conns b))
      @ map link_host (b_host_streams b))"

definition emitClocks :: "build \<Rightarrow> string" where
  "emitClocks b = out_lines
     ([''# Auto-generated v++ clock configuration'', ''[clock]'']
      @ map (\<lambda>k. ''freqHz='' @ int_str (b_user_clock_hz b) @ '':'' @ kh_name k @ ''.ap_clk'') (b_kernels b))"

definition emitVppLink :: emitter where
  "emitVppLink sys b outdir r = in_directory sys outdir ''link'' (\<lambda>dir.
     write_then sys (path_append dir ''connectivity.cfg'') ''connectivity.cfg'' (emitConnectivity b)
       (write_then sys (path_append dir ''clocks.cfg'') ''clocks.cfg'' (emitClocks b) emitted) r)"

subsection \<open>Host tables and classes\<close>

definition c_string :: "string \<Rightarrow> string" where
  "c_string s = chr_dq # s @ [chr_dq]"

definition table_kernel :: "kernel_hls \<Rightarrow> string" where
  "table_kernel k = ''    { '' @ c_string (kh_name k) @ '', '' @ c_string (kh_element_type k) @ '', ''
     @ bool_str (kh_has_signal k) @ '', '' @ bool_str (kh_autorun k) @ '', ''
     @ int_str (kh_axilite_base k) @ '' },''"

definition table_signal :: "signal_entry \<Rightarrow> string" where
  "table_signal s = ''    { '' @ int_str (se_gid s) @ '', '' @ c_string (se_kernel s) @ '', ''
     @ int_str (se_axilite_base s) @ '' },''"

definition table_stream :: "host_conn \<Rightarrow> string" where
  "table_stream h = ''    { '' @ c_string (hc_kernel h) @ '', '' @ int_str (hc_port h) @ '', ''
     @ bool_str (hc_kernel_to_host h) @ '', '' @ int_str (hc_slot_id h) @ '' },''"

text \<open>The iteration order of \<open>std::set<std::string>\<close>.\<close>

definition element_types :: "build \<Rightarrow> string list" where
  "element_types b = sort (remdups (map kh_element_type (b_kernels b)))"

definition emitKernelTable :: "build \<Rightarrow> string" where
  \<open>emitKernelTable b = out_lines
     ([''// SPDX-License-Identifier: Apache-2.0'',
       ''// Auto-generated by openclicknp-cc '' @ em_dash @ '' DO NOT EDIT'',
       ''#include "openclicknp/platform.hpp"'']
      @ map (\<lambda>t. ''#include "openclicknp/generated/'' @ t @ ''.hpp"'') (element_types b)
      @ [[], ''namespace openclicknp::generated {'', [], ''const KernelInfo kKernels[] = {'']
      @ map table_kernel (b_kernels b)
      @ [''};'', ''const size_t kKernelCount = sizeof(kKernels)/sizeof(kKernels[0]);'',
         [], ''const SignalEntry kSignalTable[] = {'']
      @ map table_signal (b_signal_table b)
      @ [''};'', ''const size_t kSignalEntryCount = sizeof(kSignalTable)/sizeof(kSignalTable[0]);'',
         [], ''const HostStreamEntry kHostStreams[] = {'']
      @ map table_stream (b_host_streams b)
      @ [''};'', ''const size_t kHostStreamCount = sizeof(kHostStreams)/sizeof(kHostStreams[0]);'',
         [], ''}  // namespace openclicknp::generated''])\<close>

definition signal_argument :: "nat \<times> signal_param \<Rightarrow> string" where
  "signal_argument ip = ''        req.lparam['' @ nat_str (fst ip) @ ''] = static_cast<uint64_t>(''
     @ sp_field_name (snd ip) @ '');''"

text \<open>The loop over the parameters stops after the seventh.\<close>

definition signal_invoke :: "kernel_hls \<Rightarrow> string list" where
  "signal_invoke k =
     (if \<not> kh_has_signal k \<or> kh_signal_params k = [] then []
      else [[], ''    // Typed signal RPC derived from .signal arg list.'',
            ''    void invoke('' @ joined '', ''
               (map (\<lambda>sp. sp_type_name sp @ '' '' @ sp_field_name sp) (kh_signal_params k)) @ '') {'',
            ''        openclicknp::SignalRequest req{};'']
         @ map signal_argument (take 7 (enumerate 0 (kh_signal_params k)))
         @ [''        signal(req);'', ''    }''])"

definition emitElementHeader :: "kernel_hls \<Rightarrow> string \<Rightarrow> string" where
  \<open>emitElementHeader k ty = out_lines
     ([''// SPDX-License-Identifier: Apache-2.0'',
       ''// Auto-generated element-class header for `'' @ ty @ ''`'',
       ''#pragma once'', ''#include "openclicknp/element.hpp"'', [],
       ''namespace openclicknp::generated {'', [],
       ''class '' @ ty @ '' : public openclicknp::Element {'', ''public:'',
       ''    '' @ ty @ ''(openclicknp::Platform& p, std::string name)'',
       ''        : openclicknp::Element(p, std::move(name)) {}'']
      @ signal_invoke k
      @ [''};'', [], ''}  // namespace openclicknp::generated''])\<close>

text \<open>The first kernel of each type gives its header; a file that cannot be opened ends the emitter.\<close>

fun element_headers ::
  "output_system \<Rightarrow> string \<Rightarrow> string list \<Rightarrow> kernel_hls list \<Rightarrow> diag_engine \<times> files \<Rightarrow> bool \<times> diag_engine \<times> files" where
  "element_headers sys dir done [] r = emitted r"
| "element_headers sys dir done (k # ks) r =
     (if kh_element_type k \<in> set done then element_headers sys dir done ks r
      else write_then sys (path_append dir (kh_element_type k @ ''.hpp'')) ''element header''
             (emitElementHeader k (kh_element_type k))
             (element_headers sys dir (kh_element_type k # done) ks) r)"

definition emitXrtHost :: emitter where
  "emitXrtHost sys b outdir r = in_directory sys outdir ''host'' (\<lambda>dir.
     write_then sys (path_append dir ''kernel_table.cpp'') ''kernel_table.cpp'' (emitKernelTable b)
       (element_headers sys dir [] (b_kernels b)) r)"

end
