(* ===== verification/Driver.thy ===== *)
theory Driver
  imports ParserFacts ResolverFacts Analyses Cycles Lowering EmitHls EmitSwEmu EmitSim EmitLink
begin

text \<open>
  The driver (\<open>compiler/include/openclicknp/driver.hpp\<close>, \<open>compiler/src/driver.cpp\<close>) and the command
  line (\<open>compiler/src/main.cpp\<close>). A run either returns a status, the text written to \<open>stderr\<close> and
  the files the emitters wrote, or ends in an uncaught exception, or does not return.
\<close>

record driver_options =
  op_input_path :: string
  op_output_dir :: string
  op_platform :: platform
  op_emit_hls_cpp :: bool
  op_emit_systemc :: bool
  op_emit_sw_emu :: bool
  op_emit_verilator_sim :: bool
  op_emit_vpp_link :: bool
  op_emit_xrt_host :: bool
  op_import_dirs :: "string list"
  op_parse_only :: bool
  op_dump_eg_ir :: bool
  op_dump_be_ir :: bool

definition options_default :: driver_options where
  "options_default =
     \<lparr>op_input_path = [], op_output_dir = ''generated'', op_platform = U50_XDMA,
      op_emit_hls_cpp = True, op_emit_systemc = True, op_emit_sw_emu = True,
      op_emit_verilator_sim = True, op_emit_vpp_link = True, op_emit_xrt_host = True,
      op_import_dirs = [], op_parse_only = False, op_dump_eg_ir = False, op_dump_be_ir = False\<rparr>"

datatype run_outcome = Returned int string files | Uncaught | No_return

text \<open>The conversion of \<open>uint32_t\<close> to \<open>int\<close>, and the two forms of the status.\<close>

definition status_of :: "u32 \<Rightarrow> int" where
  "status_of n = sint n"

definition at_least_one :: "u32 \<Rightarrow> u32" where
  "at_least_one n = (if n < 1 then 1 else n)"

text \<open>Render the diagnostics and return the status.\<close>

definition finish_run :: "source_manager \<Rightarrow> diag_engine \<Rightarrow> int \<Rightarrow> files \<Rightarrow> run_outcome" where
  "finish_run sm de status fs =
     (case render sm de of None \<Rightarrow> Uncaught | Some txt \<Rightarrow> Returned status txt fs)"

text \<open>\<open>ok &= emit\<dots>(build, opts.output_dir, diags)\<close>, when the option is on.\<close>

definition run_emitter ::
  "bool \<Rightarrow> emitter \<Rightarrow> output_system \<Rightarrow> build \<Rightarrow> string
   \<Rightarrow> (bool \<times> diag_engine \<times> files) option \<Rightarrow> (bool \<times> diag_engine \<times> files) option" where
  "run_emitter on em sys b dir r =
     (case r of
        None \<Rightarrow> None
      | Some (ok, st) \<Rightarrow>
          if on then map_option (\<lambda>(ok', st'). (ok \<and> ok', st')) (em sys b dir st) else r)"

definition run_backends ::
  "output_system \<Rightarrow> driver_options \<Rightarrow> build \<Rightarrow> diag_engine \<Rightarrow> (bool \<times> diag_engine \<times> files) option" where
  "run_backends sys opts b de =
     run_emitter (op_emit_xrt_host opts) emitXrtHost sys b (op_output_dir opts)
    (run_emitter (op_emit_vpp_link opts) emitVppLink sys b (op_output_dir opts)
    (run_emitter (op_emit_verilator_sim opts) emitVerilator sys b (op_output_dir opts)
    (run_emitter (op_emit_sw_emu opts) emitSwEmu sys b (op_output_dir opts)
    (run_emitter (op_emit_systemc opts) emitSystemC sys b (op_output_dir opts)
    (run_emitter (op_emit_hls_cpp opts) emitHlsCpp sys b (op_output_dir opts) (Some (True, de, [])))))))"

definition default_clock_hz :: int where
  "default_clock_hz = 322265625"

text \<open>The four analyses in their order; \<open>None\<close> when the cycle search runs out of fuel.\<close>

definition analyze ::
  "nat \<Rightarrow> (int \<Rightarrow> string) \<Rightarrow> graph \<Rightarrow> diag_engine \<Rightarrow> (graph \<times> diag_engine) option" where
  "analyze n sh g de =
     (let (_, de1) = analyzePortArity g de; g1 = analyzeAutorun g in
      case analyzeCycles n g1 de1 of
        None \<Rightarrow> None
      | Some de2 \<Rightarrow> Some (g1, analyzeBandwidth sh g1 de2 default_clock_hz))"

text \<open>What the front half of a run produces: a plan, or the end of the run.\<close>

datatype 'a stage = Stage 'a | Stopped run_outcome

definition compile_plan ::
  "nat \<Rightarrow> (int \<Rightarrow> string) \<Rightarrow> driver_options \<Rightarrow> source_manager \<Rightarrow> ast_module \<Rightarrow> diag_engine
   \<Rightarrow> (build \<times> diag_engine) stage" where
  "compile_plan n sh opts sm m de =
     (case resolveModuleToGraph n m de of
        None \<Rightarrow> Stopped No_return
      | Some (ok, g, de1) \<Rightarrow>
          if \<not> ok then Stopped (finish_run sm de1 (status_of (at_least_one (de_error_count de1))) [])
          else
            (case analyze n sh g de1 of
               None \<Rightarrow> Stopped No_return
             | Some (g2, de2) \<Rightarrow>
                 if hasError de2 then Stopped (finish_run sm de2 (status_of (de_error_count de2)) [])
                 else Stage (lowerToBackend g2 (op_platform opts) default_clock_hz (op_input_path opts), de2)))"

definition import_source_manager :: "driver_options \<Rightarrow> source_manager" where
  "import_source_manager opts = fold addImportDir (op_import_dirs opts) sm_empty"

definition final_status :: "bool \<Rightarrow> diag_engine \<Rightarrow> int" where
  "final_status ok de =
     (if ok then status_of (de_error_count de) else max 1 (status_of (de_error_count de)))"

definition Driver_run ::
  "file_system \<Rightarrow> output_system \<Rightarrow> (int \<Rightarrow> string) \<Rightarrow> nat \<Rightarrow> driver_options \<Rightarrow> run_outcome" where
  "Driver_run fs sys sh n opts =
     (case parseFile n (op_input_path opts) (Parser fs (import_source_manager opts) diag_empty) of
        (Abort, s) \<Rightarrow> No_return
      | (Fail, s) \<Rightarrow>
          finish_run (ps_sm s) (ps_diags s) (status_of (at_least_one (de_error_count (ps_diags s)))) []
      | (Ok m, s) \<Rightarrow>
          if op_parse_only opts
          then finish_run (ps_sm s) (ps_diags s) (status_of (de_error_count (ps_diags s))) []
          else
            (case compile_plan n sh opts (ps_sm s) m (ps_diags s) of
               Stopped out \<Rightarrow> out
             | Stage (b, de) \<Rightarrow>
                 (case run_backends sys opts b de of
                    None \<Rightarrow> Uncaught
                  | Some (ok, de', files) \<Rightarrow> finish_run (ps_sm s) de' (final_status ok de') files)))"

subsection \<open>Command line\<close>

text \<open>The text of the help, with the three bytes of its dash.\<close>

definition usage :: string where
  "usage = concat (map (\<lambda>l. l @ [chr_nl])
    [''openclicknp-cc '' @ [CHR 0xE2, CHR 0x80, CHR 0x94] @ '' clean-room ClickNP DSL compiler'',
     [],
     ''Usage: openclicknp-cc [options] <input.clnp>'',
     [],
     ''Options:'',
     ''  -o <dir>             output directory (default: generated/)'',
     ''  --platform <p>       target platform: u50_xdma | u50_qdma'',
     ''                         (default: u50_xdma)'',
     ''  -I <dir>             add directory to import search path'',
     ''  --parse-only         parse and exit'',
     ''  --no-hls             skip Vitis HLS C++ backend'',
     ''  --no-systemc         skip SystemC backend'',
     ''  --no-swemu           skip software-emulator backend'',
     ''  --no-verilator       skip Verilator harness backend'',
     ''  --no-link            skip v++ link config backend'',
     ''  --no-host            skip XRT host stub backend'',
     ''  -h, --help           print this help''])"

text \<open>A run of the driver, or an exit with a status after writing to standard error.\<close>

datatype cli = Cli_Run driver_options | Cli_Exit int string

text \<open>The loop over the arguments.\<close>

fun parse_args :: "driver_options \<Rightarrow> string list \<Rightarrow> cli" where
  "parse_args opts [] = (if op_input_path opts = [] then Cli_Exit 1 usage else Cli_Run opts)"
| "parse_args opts (a # rest) =
     (if a = ''-h'' \<or> a = ''--help'' then Cli_Exit 0 usage
      else if a = ''-o'' \<and> rest \<noteq> [] then parse_args (opts\<lparr>op_output_dir := hd rest\<rparr>) (tl rest)
      else if a = ''--platform'' \<and> rest \<noteq> []
        then parse_args (opts\<lparr>op_platform := platformFromString (hd rest)\<rparr>) (tl rest)
      else if a = ''-I'' \<and> rest \<noteq> []
        then parse_args (opts\<lparr>op_import_dirs := op_import_dirs opts @ [hd rest]\<rparr>) (tl rest)
      else if a = ''--parse-only'' then parse_args (opts\<lparr>op_parse_only := True\<rparr>) rest
      else if a = ''--no-hls'' then parse_args (opts\<lparr>op_emit_hls_cpp := False\<rparr>) rest
      else if a = ''--no-systemc'' then parse_args (opts\<lparr>op_emit_systemc := False\<rparr>) rest
      else if a = ''--no-swemu'' then parse_args (opts\<lparr>op_emit_sw_emu := False\<rparr>) rest
      else if a = ''--no-verilator'' then parse_args (opts\<lparr>op_emit_verilator_sim := False\<rparr>) rest
      else if a = ''--no-link'' then parse_args (opts\<lparr>op_emit_vpp_link := False\<rparr>) rest
      else if a = ''--no-host'' then parse_args (opts\<lparr>op_emit_xrt_host := False\<rparr>) rest
      else if a \<noteq> [] \<and> hd a \<noteq> CHR ''-'' then parse_args (opts\<lparr>op_input_path := a\<rparr>) rest
      else Cli_Exit 1 (''unknown option: '' @ a @ [chr_nl] @ usage))"

definition main_args :: "string list \<Rightarrow> cli" where
  "main_args args = (if args = [] then Cli_Exit 1 usage else parse_args options_default args)"

text \<open>The exit status the environment sees: the low eight bits.\<close>

definition exit_status :: "int \<Rightarrow> int" where
  "exit_status s = s mod 256"

subsection \<open>What a plan guarantees\<close>

text \<open>The ends of an edge exist and carry the ports it uses.\<close>

definition edge_sound :: "graph \<Rightarrow> edge \<Rightarrow> bool" where
  "edge_sound g e \<longleftrightarrow>
     (\<exists>sk dk. graph_find g (e_src_kernel e) = Some sk \<and> graph_find g (e_dst_kernel e) = Some dk
        \<and> 1 \<le> e_src_port e \<and> e_src_port e \<le> k_n_out_ports sk
        \<and> 1 \<le> e_dst_port e \<and> e_dst_port e \<le> k_n_in_ports dk)"

lemma analyze_stages:
  assumes "analyze n sh g de = Some (g', de')"
  obtains ok de1 where "analyzePortArity g de = (ok, de1)"
    "analyzeCycles n (analyzeAutorun g) de1 = Some de'" "g' = analyzeAutorun g"
proof -
  obtain ok de1 where ar: "analyzePortArity g de = (ok, de1)" by fastforce
  then obtain de2 where "analyzeCycles n (analyzeAutorun g) de1 = Some de2"
    using assms by (cases "analyzeCycles n (analyzeAutorun g) de1") (simp_all add: analyze_def)
  with that [OF ar] assms ar bandwidth_silent show ?thesis
    by (simp add: analyze_def default_clock_hz_def)
qed

lemma analyze_sound:
  assumes an: "analyze n sh g de = Some (g', de')" and names: "\<forall>e\<in>set (g_edges g).
      e_src_kernel e \<in> set (kernel_names g) \<and> e_dst_kernel e \<in> set (kernel_names g)"
    and de: "de_ok de" and clean: "\<not> hasError de'" "length (de_diags de') < 2 ^ 32"
  shows "g' = analyzeAutorun g" and "\<forall>e\<in>set (g_edges g'). edge_sound g' e"
proof -
  obtain ok de1 where ar: "analyzePortArity g de = (ok, de1)"
    and cy: "analyzeCycles n (analyzeAutorun g) de1 = Some de'" and g': "g' = analyzeAutorun g"
    by (rule analyze_stages [OF an])
  have cr: "check_result (\<forall>e\<in>set (g_edges g). edge_arity_ok g e) (True, de) (ok, de1)"
    using analyzePortArity_result [of g de] ar by simp
  then have "de_ok de1" using de by (simp add: check_result_def de_step_def)
  then have "de_ok de'" using analyzeCycles_step(1) [OF cy] by (simp add: de_step_def)
  then have "errors_of (de_diags de') = []"
    using hasError_iff [of de'] clean by simp
  then have "errors_of (de_diags de1) = []" using analyzeCycles_step(2) [OF cy] by simp
  then have ok: "\<forall>e\<in>set (g_edges g). edge_arity_ok g e" using cr by (simp add: check_result_def)
  show "g' = analyzeAutorun g" by (rule g')
  show "\<forall>e\<in>set (g_edges g'). edge_sound g' e"
  proof
    fix e
    assume "e \<in> set (g_edges g')"
    then have e: "e \<in> set (g_edges g)" by (simp add: g')
    then obtain sk dk where k: "graph_find g' (e_src_kernel e) = Some sk" "graph_find g' (e_dst_kernel e) = Some dk"
      using names graph_find_names [of _ g'] by (auto simp: g')
    have "edge_arity_ok g' e" using ok e by (simp add: g' edge_arity_ok_autorun)
    with k show "edge_sound g' e" by (simp add: edge_sound_def edge_arity_ok_def port_in_range_def)
  qed
qed

lemma compile_plan_stage:
  assumes "compile_plan n sh opts sm m de = Stage (b, de')"
  obtains g de1 g' where "resolveModuleToGraph n m de = Some (True, g, de1)"
    "analyze n sh g de1 = Some (g', de')" "\<not> hasError de'"
    "b = lowerToBackend g' (op_platform opts) default_clock_hz (op_input_path opts)"
  using assms that by (auto simp: compile_plan_def split: option.splits prod.splits if_splits)

text \<open>
  A plan comes from a graph without dangling edges or ports out of range, and with no error among
  the diagnostics.
\<close>

lemma analyze_diags:
  "analyze n sh g de = Some (g', de') \<Longrightarrow> de_step de de'"
proof -
  assume an: "analyze n sh g de = Some (g', de')"
  obtain ok de1 where ar: "analyzePortArity g de = (ok, de1)"
    and cy: "analyzeCycles n (analyzeAutorun g) de1 = Some de'"
    by (rule analyze_stages [OF an])
  have "de_step de de1" using analyzePortArity_result [of g de] ar by (simp add: check_result_def)
  also have "de_step de1 de'" by (rule analyzeCycles_step(1) [OF cy])
  finally show ?thesis .
qed

lemma plan_sound:
  assumes st: "compile_plan n sh opts sm m de = Stage (b, de')"
    and de: "de_ok de" "length (de_diags de') < 2 ^ 32"
  obtains g where "b = lowerToBackend g (op_platform opts) default_clock_hz (op_input_path opts)"
    "\<forall>e\<in>set (g_edges g). edge_sound g e" "errors_of (de_diags de') = []"
proof -
  obtain g de1 g' where
    r: "resolveModuleToGraph n m de = Some (True, g, de1)" and a: "analyze n sh g de1 = Some (g', de')"
    and ne: "\<not> hasError de'" and b: "b = lowerToBackend g' (op_platform opts) default_clock_hz (op_input_path opts)"
    by (rule compile_plan_stage [OF st])
  have ok1: "de_ok de1" using resolve_diags(1) [OF r] de(1) by (simp add: de_step_def)
  have st1: "de_step de1 de'" by (rule analyze_diags [OF a])
  then have len: "length (de_diags de1) < 2 ^ 32"
    using de(2) by (auto simp: de_step_def diag_extends_def)
  have nm: "\<forall>e\<in>set (g_edges g). e_src_kernel e \<in> set (kernel_names g) \<and> e_dst_kernel e \<in> set (kernel_names g)"
    using resolve_edges_exist [OF r de(1) len] by blast
  have "errors_of (de_diags de') = []"
    using hasError_iff [of de'] ok1 st1 ne de(2) by (simp add: de_step_def)
  with that [OF b analyze_sound(2) [OF a nm ok1 ne de(2)]] show ?thesis .
qed

text \<open>An input that cannot be read: the diagnostic names a buffer that does not exist.\<close>

lemma fold_addImportDir_buffers: "sm_buffers (fold addImportDir ds sm) = sm_buffers sm"
  by (induction ds arbitrary: sm) (simp_all add: addImportDir_def)

lemma run_missing_input:
  assumes "fs_read fs (op_input_path opts) = None"
  shows "Driver_run fs sys sh (Suc n) opts = Uncaught"
  using assms
  by (simp add: Driver_run_def parse_file_with_def Parser_def Let_def finish_run_def render_def
      diag_empty_def diag_error_def diag_emit_def dummy_range_def sm_buffer_def
      import_source_manager_def fold_addImportDir_buffers sm_empty_def)

end
