(* ===== verification/DriverFacts.thy ===== *)
theory DriverFacts
  imports Driver
begin

text \<open>
  What holds of every build plan the front half of the driver hands to the backends: streams are
  wired to ports that exist, host slots and signal slots are numbered without gaps.
\<close>

text \<open>A source that is a pseudo-element of its own class has no output port, and dually.\<close>

lemma internal_source_user:
  assumes wf: "\<forall>k\<in>set (g_kernels g). kernel_wf k" and e: "edge_sound g e" and c: "edge_class g e = Internal"
    and n: "e_src_kernel e \<notin> {''begin'', ''end''}"
  obtains k where "k \<in> set (g_kernels g)" "k_name k = e_src_kernel e" "k_special k = Special_None"
    "e_src_port e \<in> {1..k_n_out_ports k}"
proof -
  obtain k where k: "graph_find g (e_src_kernel e) = Some k" and p: "1 \<le> e_src_port e" "e_src_port e \<le> k_n_out_ports k"
    using e by (auto simp: edge_sound_def)
  have ks: "k \<in> set (g_kernels g)" "k_name k = e_src_kernel e" using graph_find_Some [OF k] by simp_all
  have "kernel_wf k" using wf ks by blast
  moreover have "k_special k \<notin> {TorIn, NicIn, HostIn, Special_Idle}"
    using internal_ends [OF c] k by (simp add: special_of_def)
  ultimately have "k_special k = Special_None"
    using p n ks(2) by (cases "k_special k") (auto simp: kernel_wf_def)
  with that ks p show ?thesis by simp
qed

lemma internal_dest_user:
  assumes wf: "\<forall>k\<in>set (g_kernels g). kernel_wf k" and e: "edge_sound g e" and c: "edge_class g e = Internal"
    and n: "e_dst_kernel e \<notin> {''begin'', ''end''}"
  obtains k where "k \<in> set (g_kernels g)" "k_name k = e_dst_kernel e" "k_special k = Special_None"
    "e_dst_port e \<in> {1..k_n_in_ports k}"
proof -
  obtain k where k: "graph_find g (e_dst_kernel e) = Some k" and p: "1 \<le> e_dst_port e" "e_dst_port e \<le> k_n_in_ports k"
    using e by (auto simp: edge_sound_def)
  have ks: "k \<in> set (g_kernels g)" "k_name k = e_dst_kernel e" using graph_find_Some [OF k] by simp_all
  have "kernel_wf k" using wf ks by blast
  moreover have "k_special k \<notin> {TorOut, NicOut, HostOut, Special_Drop}"
    using internal_ends [OF c] k by (simp add: special_of_def)
  ultimately have "k_special k = Special_None"
    using p n ks(2) by (cases "k_special k") (auto simp: kernel_wf_def)
  with that ks p show ?thesis by simp
qed

definition has_port :: "kernel_hls list \<Rightarrow> (kernel_hls \<Rightarrow> port list) \<Rightarrow> string \<Rightarrow> int \<Rightarrow> bool" where
  "has_port ks ports name i \<longleftrightarrow> (\<exists>k\<in>set ks. kh_name k = name \<and> i \<in> set (map p_index (ports k)))"

lemma has_port_lower:
  assumes "k \<in> set (g_kernels g)" and "k_special k = Special_None"
  shows "i \<in> {1..k_n_out_ports k} \<Longrightarrow>
           has_port (b_kernels (lowerToBackend g pf c p)) kh_out_ports (k_name k) i"
    and "i \<in> {1..k_n_in_ports k} \<Longrightarrow>
           has_port (b_kernels (lowerToBackend g pf c p)) kh_in_ports (k_name k) i"
proof -
  have "lower_kernel k \<in> set (b_kernels (lowerToBackend g pf c p))"
    using assms by (simp add: lowerToBackend_plan user_kernel_def)
  moreover have "map p_index (kh_out_ports (lower_kernel k)) = [1..k_n_out_ports k]"
    "map p_index (kh_in_ports (lower_kernel k)) = [1..k_n_in_ports k]"
    by (simp_all add: lower_kernel_def ports_upto_index)
  ultimately show "i \<in> {1..k_n_out_ports k} \<Longrightarrow>
      has_port (b_kernels (lowerToBackend g pf c p)) kh_out_ports (k_name k) i"
    "i \<in> {1..k_n_in_ports k} \<Longrightarrow>
      has_port (b_kernels (lowerToBackend g pf c p)) kh_in_ports (k_name k) i"
    unfolding has_port_def by (metis atLeastAtMost_iff lower_kernel_name set_upto)+
qed

text \<open>
  A stream of the plan is wired when each of its ends is a kernel of the plan with that port, or
  one of the two group markers.
\<close>

definition stream_wired :: "build \<Rightarrow> stream_conn \<Rightarrow> bool" where
  "stream_wired b sc \<longleftrightarrow>
     (sc_src_kernel sc \<in> {''begin'', ''end''}
        \<or> has_port (b_kernels b) kh_out_ports (sc_src_kernel sc) (sc_src_port sc))
     \<and> (sc_dst_kernel sc \<in> {''begin'', ''end''}
        \<or> has_port (b_kernels b) kh_in_ports (sc_dst_kernel sc) (sc_dst_port sc))"

lemma stream_of_sel [simp]:
  "sc_src_kernel (stream_of e) = e_src_kernel e" "sc_src_port (stream_of e) = e_src_port e"
  "sc_dst_kernel (stream_of e) = e_dst_kernel e" "sc_dst_port (stream_of e) = e_dst_port e"
  by (simp_all add: stream_of_def)

lemma disj_if_not: "(\<not> P \<Longrightarrow> Q) \<Longrightarrow> P \<or> Q"
  by blast

lemma edge_wired:
  assumes wf: "\<forall>k\<in>set (g_kernels g). kernel_wf k" and e: "edge_sound g e" and c: "edge_class g e = Internal"
  shows "stream_wired (lowerToBackend g pf clk p) (stream_of e)"
  unfolding stream_wired_def stream_of_sel
proof (intro conjI disj_if_not)
  assume n: "e_src_kernel e \<notin> {''begin'', ''end''}"
  obtain k where "k \<in> set (g_kernels g)" "k_name k = e_src_kernel e" "k_special k = Special_None"
    "e_src_port e \<in> {1..k_n_out_ports k}" by (rule internal_source_user [OF wf e c n])
  then show "has_port (b_kernels (lowerToBackend g pf clk p)) kh_out_ports (e_src_kernel e) (e_src_port e)"
    by (metis has_port_lower(1))
next
  assume n: "e_dst_kernel e \<notin> {''begin'', ''end''}"
  obtain k where "k \<in> set (g_kernels g)" "k_name k = e_dst_kernel e" "k_special k = Special_None"
    "e_dst_port e \<in> {1..k_n_in_ports k}" by (rule internal_dest_user [OF wf e c n])
  then show "has_port (b_kernels (lowerToBackend g pf clk p)) kh_in_ports (e_dst_kernel e) (e_dst_port e)"
    by (metis has_port_lower(2))
qed

lemma autorun_wf: "kernel_wf (autorun_kernel k) = kernel_wf k"
  by (simp add: kernel_wf_def)

lemma plan_graph:
  assumes st: "compile_plan n sh opts sm m de = Stage (b, de')"
    and de: "de_ok de" "length (de_diags de') < 2 ^ 32"
  obtains g0 de1 where "resolveModuleToGraph n m de = Some (True, g0, de1)"
    "b = lowerToBackend (analyzeAutorun g0) (op_platform opts) default_clock_hz (op_input_path opts)"
    "\<forall>e\<in>set (g_edges g0). edge_sound (analyzeAutorun g0) e"
    "\<forall>k\<in>set (g_kernels (analyzeAutorun g0)). kernel_wf k" "errors_of (de_diags de') = []"
proof -
  obtain g de1 g' where
    r: "resolveModuleToGraph n m de = Some (True, g, de1)" and a: "analyze n sh g de1 = Some (g', de')"
    and ne: "\<not> hasError de'" and b: "b = lowerToBackend g' (op_platform opts) default_clock_hz (op_input_path opts)"
    by (rule compile_plan_stage [OF st])
  have ok1: "de_ok de1" using resolve_diags(1) [OF r] de(1) by (simp add: de_step_def)
  have st1: "de_step de1 de'" by (rule analyze_diags [OF a])
  then have len: "length (de_diags de1) < 2 ^ 32"
    using de(2) by (auto simp: de_step_def diag_extends_def)
  have nm: "\<forall>e\<in>set (g_edges g). e_src_kernel e \<in> set (kernel_names g) \<and> e_dst_kernel e \<in> set (kernel_names g)"
    using resolve_edges_exist [OF r de(1) len] by blast
  have "errors_of (de_diags de') = []"
    using hasError_iff [of de'] ok1 st1 ne de(2) by (simp add: de_step_def)
  moreover have "\<forall>k\<in>set (g_kernels (analyzeAutorun g)). kernel_wf k"
    using resolve_kernels_wf [OF r] by (simp add: analyzeAutorun_def autorun_wf)
  moreover have "g' = analyzeAutorun g" "\<forall>e\<in>set (g_edges g'). edge_sound g' e"
    using analyze_sound [OF a nm ok1 ne de(2)] by blast+
  ultimately show ?thesis using that [OF r] b by simp
qed

lemma plan_streams_wired:
  assumes st: "compile_plan n sh opts sm m de = Stage (b, de')"
    and de: "de_ok de" "length (de_diags de') < 2 ^ 32" and sc: "sc \<in> set (b_stream_conns b)"
  shows "stream_wired b sc"
proof -
  obtain g0 de1 where r: "resolveModuleToGraph n m de = Some (True, g0, de1)"
    and b: "b = lowerToBackend (analyzeAutorun g0) (op_platform opts) default_clock_hz (op_input_path opts)"
    and es: "\<forall>e\<in>set (g_edges g0). edge_sound (analyzeAutorun g0) e"
    and wf: "\<forall>k\<in>set (g_kernels (analyzeAutorun g0)). kernel_wf k"
    and "errors_of (de_diags de') = []"
    by (rule plan_graph [OF st de])
  obtain e where e: "e \<in> set (g_edges g0)" "edge_class (analyzeAutorun g0) e = Internal" "sc = stream_of e"
    using sc by (auto simp: b lowerToBackend_plan edges_in_def)
  show ?thesis unfolding b e(3) by (rule edge_wired [OF wf bspec [OF es e(1)] e(2)])
qed

text \<open>The signal table of a plan.\<close>

lemma signal_filter_autorun:
  "filter signal_kernel (map autorun_kernel ks) = map autorun_kernel (filter is_slot_kernel ks)"
  by (induction ks) (auto simp: signal_kernel_def is_slot_kernel_def)

lemma plan_signal_table:
  fixes pf clk p
  assumes r: "resolveModuleToGraph n m de = Some (ok, g, de1)"
  defines "t \<equiv> b_signal_table (lowerToBackend (analyzeAutorun g) pf clk p)"
  shows "map se_gid t = map int [0..<length t]"
    and "map se_axilite_base t = map (\<lambda>i. 0x1000 + 0x80 * int i) [0..<length t]"
proof -
  obtain st where g: "g = assignSignalSlots st"
    by (rule resolve_unfold [OF r])
  define ks where "ks = filter is_slot_kernel (g_kernels g)"
  have t: "t = map (\<lambda>k. signal_entry_of (autorun_kernel k)) ks"
    by (simp add: t_def lowerToBackend_plan analyzeAutorun_def signal_filter_autorun ks_def comp_def)
  have len: "length ks = length (filter is_slot_kernel (g_kernels st))"
  proof -
    have "length (map k_gid ks) = length (filter is_slot_kernel (g_kernels st))"
      unfolding ks_def g assignSignalSlots_def by (simp add: assign_slots_gids)
    then show ?thesis by simp
  qed
  have "map k_gid ks = map int [0..<length ks]"
    using assign_slots_gids [of 0 "0x1000" "g_kernels st"] len by (simp add: ks_def g assignSignalSlots_def)
  then show "map se_gid t = map int [0..<length t]" by (simp add: t signal_entry_of_def comp_def)
  have "map k_axilite_base ks = map (\<lambda>i. 0x1000 + 0x80 * int i) [0..<length ks]"
    using assign_slots_bases [of 0 "0x1000" "g_kernels st"] len by (simp add: ks_def g assignSignalSlots_def)
  then show "map se_axilite_base t = map (\<lambda>i. 0x1000 + 0x80 * int i) [0..<length t]"
    by (simp add: t signal_entry_of_def comp_def)
qed

end
