(* ===== verification/EmitFacts.thy ===== *)
theory EmitFacts
  imports DriverFacts
begin

text \<open>
  What the generated files say: lines and their restoration, the streams the software emulator gives
  to each port, the sizes of the generated arrays, the direction of boundary streams in the link
  configuration, and how the emitters report a file they cannot write.
\<close>

subsection \<open>Lines\<close>

lemma getlines_Nil [simp]: "getlines [] = []"
  by (subst getlines.simps) simp

lemma getlines_line:
  assumes "chr_nl \<notin> set l"
  shows "getlines (l @ chr_nl # s) = l # getlines s"
proof -
  have "takeWhile (\<lambda>c. c \<noteq> chr_nl) (l @ chr_nl # s) = l"
    "dropWhile (\<lambda>c. c \<noteq> chr_nl) (l @ chr_nl # s) = chr_nl # s"
    using assms by (auto simp: takeWhile_append dropWhile_append)
  then show ?thesis by (subst getlines.simps) simp
qed

lemma getlines_lines: "\<forall>l\<in>set ls. chr_nl \<notin> set l \<Longrightarrow> getlines (out_lines ls) = ls"
  by (induction ls) (simp_all add: out_lines_def ln_def getlines_line)

lemma getlines_restore: "out_lines (getlines s) = (if s = [] \<or> last s = chr_nl then s else ln s)"
proof (induction s rule: getlines.induct)
  case (1 s)
  define l where "l = takeWhile (\<lambda>c. c \<noteq> chr_nl) s"
  define r where "r = dropWhile (\<lambda>c. c \<noteq> chr_nl) s"
  have s: "s = l @ r" by (simp add: l_def r_def)
  show ?case
  proof (cases "s = []")
    case False
    then have step: "out_lines (getlines s) = ln l @ out_lines (getlines (drop 1 r))"
      by (subst getlines.simps) (simp add: out_lines_def l_def r_def)
    have IH: "out_lines (getlines (drop 1 r)) = (if drop 1 r = [] \<or> last (drop 1 r) = chr_nl then drop 1 r else ln (drop 1 r))"
      unfolding r_def using 1 False by blast
    show ?thesis
    proof (cases r)
      case Nil
      then have "s = l" "l \<noteq> []" using s False by simp_all
      moreover have "last l \<noteq> chr_nl" using \<open>l \<noteq> []\<close> set_takeWhileD [of "last l" "\<lambda>c. c \<noteq> chr_nl" s]
        by (metis l_def last_in_set)
      ultimately show ?thesis using step Nil by (simp add: out_lines_def)
    next
      case (Cons c r')
      then have "c = chr_nl" using hd_dropWhile [of "\<lambda>c. c \<noteq> chr_nl" s] by (metis list.discI list.sel(1) r_def)
      then show ?thesis using step IH Cons s False by (simp add: ln_def)
    qed
  qed (simp add: out_lines_def)
qed

subsection \<open>Streams of the software emulator\<close>

text \<open>The assignments to the map of ports, in order, and the map they give.\<close>

definition stream_attach :: "string \<Rightarrow> string list \<Rightarrow> nat \<times> stream_conn \<Rightarrow> (port_key \<times> string) list" where
  "stream_attach base skip ic =
     (let (i, sc) = ic; var = stream_var base i in
      (if sc_src_kernel sc \<in> set skip then [] else [((sc_src_kernel sc, True, sc_src_port sc), var)])
      @ (if sc_dst_kernel sc \<in> set skip then [] else [((sc_dst_kernel sc, False, sc_dst_port sc), var)]))"

definition host_attach :: "nat \<times> host_conn \<Rightarrow> (port_key \<times> string) list" where
  "host_attach ic =
     (let (i, hc) = ic in [((hc_kernel hc, hc_kernel_to_host hc, hc_port hc), stream_var ''host_stream_'' i)])"

definition attachments :: "build \<Rightarrow> (port_key \<times> string) list" where
  "attachments b =
     concat (map (stream_attach ''stream_'' []) (enumerate 0 (b_stream_conns b)))
     @ concat (map (stream_attach ''tor_stream_'' [''tor_in'', ''tor_out'']) (enumerate 0 (b_tor_conns b)))
     @ concat (map (stream_attach ''nic_stream_'' [''nic_in'', ''nic_out'']) (enumerate 0 (b_nic_conns b)))
     @ concat (map host_attach (enumerate 0 (b_host_streams b)))"

lemma wire_streams_map:
  "wi_map (fold (wire_stream base skip) ics w) = wi_map w ++ map_of (rev (concat (map (stream_attach base skip) ics)))"
proof (induction ics arbitrary: w)
  case (Cons ic ics)
  have "wi_map (wire_stream base skip ic w) = wi_map w ++ map_of (rev (stream_attach base skip ic))"
    by (cases ic) (auto simp: wire_stream_def stream_attach_def attach_def Let_def)
  with Cons show ?case by simp
qed simp

lemma wire_hosts_map:
  "wi_map (fold wire_host ics w) = wi_map w ++ map_of (rev (concat (map host_attach ics)))"
proof (induction ics arbitrary: w)
  case (Cons ic ics)
  have "wi_map (wire_host ic w) = wi_map w ++ map_of (rev (host_attach ic))"
    by (cases ic) (auto simp: wire_host_def host_attach_def Let_def)
  with Cons show ?case by simp
qed simp

lemma wire_all_map: "wi_map (wire_all b) = map_of (rev (attachments b))"
  by (simp add: wire_all_def wire_hosts_def wire_nic_def wire_tor_def wire_internal_def wiring_empty_def
      wire_streams_map wire_hosts_map attachments_def empty_def [symmetric])

text \<open>When no port has two connections, every assignment stands.\<close>

definition ports_used_once :: "build \<Rightarrow> bool" where
  "ports_used_once b \<longleftrightarrow> distinct (map fst (attachments b))"

lemma attached:
  assumes "ports_used_once b" and "(key, var) \<in> set (attachments b)"
  shows "stream_for (wire_all b) key = ''openclicknp_sw_emu::'' @ var @ ''()''"
proof -
  have "map_of (rev (attachments b)) key = Some var"
    using assms by (intro map_of_is_SomeI) (simp_all add: ports_used_once_def rev_map [symmetric])
  then show ?thesis by (simp add: stream_for_def wire_all_map)
qed

lemma unattached:
  "key \<notin> fst ` set (attachments b) \<Longrightarrow> stream_for (wire_all b) key = ''openclicknp::SwStream::null()''"
proof -
  assume "key \<notin> fst ` set (attachments b)"
  then have "map_of (rev (attachments b)) key = None" by (simp add: map_of_eq_None_iff)
  then show ?thesis by (simp add: stream_for_def wire_all_map)
qed

lemma in_concat_map: "y \<in> set ys \<Longrightarrow> x \<in> set (f y) \<Longrightarrow> x \<in> set (concat (map f ys))"
  by auto

lemma internal_attached:
  assumes "i < length (b_stream_conns b)" and "sc = b_stream_conns b ! i"
  shows "((sc_src_kernel sc, True, sc_src_port sc), stream_var ''stream_'' i) \<in> set (attachments b)"
    and "((sc_dst_kernel sc, False, sc_dst_port sc), stream_var ''stream_'' i) \<in> set (attachments b)"
proof -
  have ic: "(i, sc) \<in> set (enumerate 0 (b_stream_conns b))" using assms by (simp add: in_set_enumerate_eq)
  have sub: "x \<in> set (attachments b)" if "x \<in> set (stream_attach ''stream_'' [] (i, sc))" for x
    unfolding attachments_def set_append by (rule UnI1) (rule in_concat_map [where f = "stream_attach ''stream_'' []", OF ic that])
  have "((sc_src_kernel sc, True, sc_src_port sc), stream_var ''stream_'' i) \<in> set (stream_attach ''stream_'' [] (i, sc))"
    "((sc_dst_kernel sc, False, sc_dst_port sc), stream_var ''stream_'' i) \<in> set (stream_attach ''stream_'' [] (i, sc))"
    by (simp_all add: stream_attach_def Let_def)
  with sub show "((sc_src_kernel sc, True, sc_src_port sc), stream_var ''stream_'' i) \<in> set (attachments b)"
    "((sc_dst_kernel sc, False, sc_dst_port sc), stream_var ''stream_'' i) \<in> set (attachments b)"
    by blast+
qed

lemma stream_var_inject: "stream_var base i = stream_var base j \<longleftrightarrow> i = j"
  by (auto simp: stream_var_def dest: nat_str_inject)

lemma internal_stream:
  assumes "ports_used_once b" and "i < length (b_stream_conns b)" and "sc = b_stream_conns b ! i"
  shows "stream_for (wire_all b) (sc_src_kernel sc, True, sc_src_port sc) = ''openclicknp_sw_emu::stream_'' @ nat_str i @ ''()''"
    and "stream_for (wire_all b) (sc_dst_kernel sc, False, sc_dst_port sc) = ''openclicknp_sw_emu::stream_'' @ nat_str i @ ''()''"
  using attached [OF assms(1) internal_attached(1) [OF assms(2,3)]]
    attached [OF assms(1) internal_attached(2) [OF assms(2,3)]]
  by (simp_all add: stream_var_def)

text \<open>The stream of a port is an argument of the kernel that has the port.\<close>

lemma argument_of_port:
  "i \<in> set (map p_index (kh_out_ports k)) \<Longrightarrow> stream_for w (kh_name k, True, i) \<in> set (kernel_arguments w k)"
  "i \<in> set (map p_index (kh_in_ports k)) \<Longrightarrow> stream_for w (kh_name k, False, i) \<in> set (kernel_arguments w k)"
  by (auto simp: kernel_arguments_def)

subsection \<open>Generated arrays\<close>

lemma array_holds_ports:
  assumes "p \<in> set (ports_upto n)"
  shows "1 \<le> p_index p \<and> p_index p < int (array_slots (ports_upto n))"
proof -
  have "p_index p \<in> set (map p_index (ports_upto n))" using assms by simp
  then have "1 \<le> p_index p" "p_index p \<le> n" by (simp_all add: ports_upto_index)
  moreover have "length (ports_upto n) = nat n" by (simp add: ports_upto_def)
  ultimately show ?thesis by (simp add: array_slots_def)
qed

subsection \<open>Emitters and the status of a run\<close>

text \<open>A result of an emitter is honest when it fails exactly if it reported an error.\<close>

definition honest :: "diag_engine \<Rightarrow> bool \<times> diag_engine \<times> files \<Rightarrow> bool" where
  "honest de r \<longleftrightarrow> de_step de (fst (snd r)) \<and> (fst r \<longrightarrow> fst (snd r) = de)
     \<and> (\<not> fst r \<longrightarrow> errors_of (de_diags (fst (snd r))) \<noteq> [])"

lemma honest_emitted: "honest (fst r) (emitted r)"
  by (simp add: honest_def emitted_def)

lemma cannot_write_honest: "de_step de (fst r) \<Longrightarrow> honest de (cannot_write what r)"
  by (simp add: honest_def cannot_write_def de_step_error_after)

lemma honest_write_then:
  "(\<And>r'. fst r' = fst r \<Longrightarrow> honest (fst r') (rest r')) \<Longrightarrow> honest (fst r) (write_then sys path what txt rest r)"
  by (auto simp: write_then_def cannot_write_honest)

lemma honest_directory:
  assumes "\<And>dir. honest (fst r) (body dir)" and "in_directory sys outdir sub body = Some res"
  shows "honest (fst r) res"
  using assms by (auto simp: in_directory_def Let_def split: if_splits)

lemma honest_element_headers: "honest (fst r) (element_headers sys dir seen ks r)"
proof (induction ks arbitrary: seen r)
  case (Cons k ks)
  then show ?case by (auto intro: honest_write_then)
qed (simp add: honest_emitted)

lemma honest_hls_kernel: "honest de r \<Longrightarrow> honest de (hls_kernel_files sys b kdir k r)"
  by (cases r) (auto simp: hls_kernel_files_def Let_def honest_def cannot_write_def de_step_error_after)

lemma honest_hls_kernels: "honest de r \<Longrightarrow> honest de (fold (hls_kernel_files sys b kdir) ks r)"
  by (induction ks arbitrary: r) (simp_all add: honest_hls_kernel)

lemma emitters_report:
  "emitHlsCpp sys b dir r = Some res \<Longrightarrow> honest (fst r) res"
  "emitSystemC sys b dir r = Some res \<Longrightarrow> honest (fst r) res"
  "emitSwEmu sys b dir r = Some res \<Longrightarrow> honest (fst r) res"
  "emitVerilator sys b dir r = Some res \<Longrightarrow> honest (fst r) res"
  "emitVppLink sys b dir r = Some res \<Longrightarrow> honest (fst r) res"
  "emitXrtHost sys b dir r = Some res \<Longrightarrow> honest (fst r) res"
proof -
  have hls: "honest (fst r) (let (ok, de, fs) = fold (hls_kernel_files sys b kdir) (b_kernels b) (True, r)
      in (ok, de, fs @ more de))" for r sys b kdir more
  proof -
    have "honest (fst r) (fold (hls_kernel_files sys b kdir) (b_kernels b) (True, r))"
      by (rule honest_hls_kernels) (simp add: honest_def)
    then show ?thesis by (auto simp: honest_def split: prod.splits)
  qed
  show "emitHlsCpp sys b dir r = Some res \<Longrightarrow> honest (fst r) res"
    unfolding emitHlsCpp_def Let_def
    by (erule honest_directory [rotated]) (rule hls [unfolded Let_def])
  show "emitSystemC sys b dir r = Some res \<Longrightarrow> honest (fst r) res"
    "emitSwEmu sys b dir r = Some res \<Longrightarrow> honest (fst r) res"
    "emitVerilator sys b dir r = Some res \<Longrightarrow> honest (fst r) res"
    "emitVppLink sys b dir r = Some res \<Longrightarrow> honest (fst r) res"
    "emitXrtHost sys b dir r = Some res \<Longrightarrow> honest (fst r) res"
    unfolding emitSystemC_def emitSwEmu_def emitVerilator_def emitVppLink_def emitXrtHost_def Let_def
    by (erule honest_directory [rotated], intro honest_write_then honest_emitted honest_element_headers)+
qed

subsection \<open>Files of the kernels\<close>

definition os_ready :: "output_system \<Rightarrow> bool" where
  "os_ready sys \<longleftrightarrow> (\<forall>p. os_mkdir sys p \<and> os_open sys p)"

definition hls_entry :: "build \<Rightarrow> string \<Rightarrow> kernel_hls \<Rightarrow> files" where
  "hls_entry b kdir k =
     [(path_append kdir (kh_name k @ ''.cpp''), emitKernel b k),
      (path_append kdir (kh_name k @ ''_tb.cpp''), emitTestbench k)]"

lemma hls_kernels_ready:
  assumes "os_ready sys"
  shows "fold (hls_kernel_files sys b kdir) ks (ok, de, fs) = (ok, de, fs @ concat (map (hls_entry b kdir) ks))"
  using assms
  by (induction ks arbitrary: fs) (simp_all add: hls_kernel_files_def hls_entry_def os_ready_def Let_def)

lemma emitHlsCpp_ready:
  assumes "os_ready sys"
  shows "emitHlsCpp sys b outdir (de, fs) = Some (True, de, fs
    @ concat (map (hls_entry b (path_append outdir ''kernels'')) (b_kernels b))
    @ [(path_append (path_append outdir ''kernels'') ''CMakeLists.txt'', kernel_manifest b)])"
  using assms by (simp add: emitHlsCpp_def in_directory_def Let_def hls_kernels_ready) (simp add: os_ready_def)

lemma emitters_ready:
  assumes "os_ready sys"
  shows "\<exists>fs'. emitHlsCpp sys b dir (de, fs) = Some (True, de, fs')"
    and "\<exists>fs'. emitSystemC sys b dir (de, fs) = Some (True, de, fs')"
    and "\<exists>fs'. emitSwEmu sys b dir (de, fs) = Some (True, de, fs')"
    and "\<exists>fs'. emitVerilator sys b dir (de, fs) = Some (True, de, fs')"
    and "\<exists>fs'. emitVppLink sys b dir (de, fs) = Some (True, de, fs')"
    and "\<exists>fs'. emitXrtHost sys b dir (de, fs) = Some (True, de, fs')"
proof -
  have w: "write_then sys p what tx rest r = rest (fst r, snd r @ [(p, tx)])" for p what tx rest r
    using assms by (simp add: write_then_def os_ready_def)
  have d: "in_directory sys o1 sub body = Some (body (path_append o1 sub))" for o1 sub body
    using assms by (simp add: in_directory_def os_ready_def Let_def)
  have h: "\<exists>fs'. element_headers sys d1 seen ks (de, fs) = (True, de, fs')" for d1 seen ks fs
    by (induction ks arbitrary: seen fs) (auto simp: w emitted_def)
  show "\<exists>fs'. emitHlsCpp sys b dir (de, fs) = Some (True, de, fs')"
    using assms by (simp add: emitHlsCpp_ready)
  show "\<exists>fs'. emitSystemC sys b dir (de, fs) = Some (True, de, fs')"
    "\<exists>fs'. emitSwEmu sys b dir (de, fs) = Some (True, de, fs')"
    "\<exists>fs'. emitVerilator sys b dir (de, fs) = Some (True, de, fs')"
    "\<exists>fs'. emitVppLink sys b dir (de, fs) = Some (True, de, fs')"
    by (simp_all add: emitSystemC_def emitSwEmu_def emitVerilator_def emitVppLink_def d w emitted_def Let_def)
  show "\<exists>fs'. emitXrtHost sys b dir (de, fs) = Some (True, de, fs')"
    using h by (simp add: emitXrtHost_def d w)
qed

subsection \<open>The contract of an emitter\<close>

text \<open>
  What the driver relies on: an emitter fails exactly when it reports an error, and on a disk where
  everything can be written it succeeds and reports nothing.
\<close>

definition honest_opt :: "diag_engine \<Rightarrow> (bool \<times> diag_engine \<times> files) option \<Rightarrow> bool" where
  "honest_opt de r \<longleftrightarrow> (\<forall>r0. r = Some r0 \<longrightarrow> honest de r0)"

lemma honest_both:
  assumes "honest de (ok, st)" and "honest (fst st) (ok', st')"
  shows "honest de (ok \<and> ok', st')"
proof -
  have st: "de_step (fst st) (fst st')" using assms(2) by (simp add: honest_def)
  have "errors_of (de_diags (fst st')) \<noteq> []" if "\<not> ok"
    using assms(1) that diag_extends_errors [of "fst st" "fst st'"] st by (simp add: honest_def de_step_def)
  then show ?thesis using assms de_step_trans [OF _ st, of de] by (auto simp: honest_def)
qed

locale reporting_emitter =
  fixes em :: emitter
  assumes reports: "em sys b dir r = Some res \<Longrightarrow> honest (fst r) res"
    and succeeds: "os_ready sys \<Longrightarrow> \<exists>fs'. em sys b dir (de, fs) = Some (True, de, fs')"
begin

lemma run_honest:
  assumes "honest_opt de r"
  shows "honest_opt de (run_emitter on em sys b dir r)"
proof (cases r)
  case (Some x)
  obtain ok st where x: "x = (ok, st)" by (cases x)
  have h: "honest de (ok, st)" using assms Some x by (simp add: honest_opt_def)
  show ?thesis
  proof (cases "on \<and> em sys b dir st \<noteq> None")
    case True
    then obtain y where "em sys b dir st = Some y" by auto
    then obtain ok' st' where e: "em sys b dir st = Some (ok', st')" by (cases y) simp
    from honest_both [OF h reports [OF e]] show ?thesis
      using True by (simp add: honest_opt_def run_emitter_def Some x e)
  next
    case False
    then show ?thesis using h by (auto simp: honest_opt_def run_emitter_def Some x)
  qed
qed (simp add: run_emitter_def honest_opt_def)

lemma run_ready:
  assumes "os_ready sys" and "\<exists>fs. r = Some (True, de, fs)"
  shows "\<exists>fs. run_emitter on em sys b dir r = Some (True, de, fs)"
proof -
  obtain fs where r: "r = Some (True, de, fs)" using assms(2) by blast
  obtain fs' where "em sys b dir (de, fs) = Some (True, de, fs')" using succeeds [OF assms(1)] by blast
  then show ?thesis by (simp add: run_emitter_def r)
qed

end

interpretation hls: reporting_emitter emitHlsCpp
  by (rule reporting_emitter.intro) (erule emitters_report, erule emitters_ready)

interpretation systemc: reporting_emitter emitSystemC
  by (rule reporting_emitter.intro) (erule emitters_report, erule emitters_ready)

interpretation sw_emu: reporting_emitter emitSwEmu
  by (rule reporting_emitter.intro) (erule emitters_report, erule emitters_ready)

interpretation verilator: reporting_emitter emitVerilator
  by (rule reporting_emitter.intro) (erule emitters_report, erule emitters_ready)

interpretation vpp_link: reporting_emitter emitVppLink
  by (rule reporting_emitter.intro) (erule emitters_report, erule emitters_ready)

interpretation xrt_host: reporting_emitter emitXrtHost
  by (rule reporting_emitter.intro) (erule emitters_report, erule emitters_ready)

lemmas backends_honest = hls.run_honest systemc.run_honest sw_emu.run_honest verilator.run_honest
  vpp_link.run_honest xrt_host.run_honest

lemmas backends_ready = hls.run_ready systemc.run_ready sw_emu.run_ready verilator.run_ready
  vpp_link.run_ready xrt_host.run_ready

lemma run_backends_honest:
  assumes "run_backends sys opts b de = Some res"
  shows "honest de res"
proof -
  have "honest_opt de (Some (True, de, []))" by (simp add: honest_def honest_opt_def)
  then have "honest_opt de (run_backends sys opts b de)"
    unfolding run_backends_def by (intro backends_honest)
  with assms show ?thesis by (simp add: honest_opt_def)
qed

lemma run_backends_ready:
  assumes "os_ready sys"
  shows "\<exists>fs. run_backends sys opts b de = Some (True, de, fs)"
  unfolding run_backends_def by (intro backends_ready assms) simp

subsection \<open>The sources of the kernels\<close>

text \<open>Paths below one directory are told apart by their last part.\<close>

lemma path_append_inject:
  "\<not> path_is_absolute x \<Longrightarrow> \<not> path_is_absolute y \<Longrightarrow> path_append d x = path_append d y \<longleftrightarrow> x = y"
  by (simp add: path_append_def)

definition separate_names :: "build \<Rightarrow> bool" where
  "separate_names b \<longleftrightarrow> distinct (map kh_name (b_kernels b))
     \<and> (\<forall>k\<in>set (b_kernels b). \<forall>k'\<in>set (b_kernels b). kh_name k' \<noteq> kh_name k @ ''_tb'')
     \<and> (\<forall>k\<in>set (b_kernels b). kh_name k \<noteq> [] \<and> hd (kh_name k) \<noteq> CHR ''/'')"

lemma map_of_rev_last:
  assumes "(x, v) \<in> set xs" and "\<And>v'. (x, v') \<in> set xs \<Longrightarrow> v' = v"
  shows "map_of (rev xs) x = Some v"
proof -
  have "x \<in> fst ` set (rev xs)" using assms(1) by (force simp: image_iff)
  then obtain v' where v': "map_of (rev xs) x = Some v'" by (metis map_of_eq_None_iff not_Some_eq)
  then have "(x, v') \<in> set xs" using map_of_SomeD by fastforce
  with assms(2) v' show ?thesis by simp
qed

lemma suffix_cpp: "a @ ''.cpp'' = b @ ''.cpp'' \<longleftrightarrow> a = b"
  "a @ ''.cpp'' = b @ ''_tb.cpp'' \<longleftrightarrow> a = b @ ''_tb''"
  "a @ ''.cpp'' \<noteq> ''CMakeLists.txt''"
proof -
  show "a @ ''.cpp'' = b @ ''.cpp'' \<longleftrightarrow> a = b" by simp
  have "b @ ''_tb.cpp'' = (b @ ''_tb'') @ ''.cpp''" by simp
  then show "a @ ''.cpp'' = b @ ''_tb.cpp'' \<longleftrightarrow> a = b @ ''_tb''" by (metis append_same_eq)
  show "a @ ''.cpp'' \<noteq> ''CMakeLists.txt''"
  proof
    assume "a @ ''.cpp'' = ''CMakeLists.txt''"
    then have "last (a @ ''.cpp'') = last ''CMakeLists.txt''" by (simp only:)
    then show False by simp
  qed
qed

lemma kernel_file_kept:
  assumes sep: "separate_names b" and k: "k \<in> set (b_kernels b)" and ready: "os_ready sys"
  shows "\<exists>files. emitHlsCpp sys b outdir (de, fs) = Some (True, de, files)
    \<and> file_text files (path_append (path_append outdir ''kernels'') (kh_name k @ ''.cpp'')) = Some (emitKernel b k)"
proof -
  define d where "d = path_append outdir ''kernels''"
  define L where "L = concat (map (hls_entry b d) (b_kernels b)) @ [(path_append d ''CMakeLists.txt'', kernel_manifest b)]"
  define p where "p = path_append d (kh_name k @ ''.cpp'')"
  have rel: "\<not> path_is_absolute (kh_name k' @ x)" if "k' \<in> set (b_kernels b)" for k' x
    using sep that unfolding separate_names_def path_is_absolute_def by (cases "kh_name k'") auto
  have rel': "\<not> path_is_absolute ''CMakeLists.txt''" by code_simp
  have "(p, emitKernel b k) \<in> set L" using k by (auto simp: L_def p_def hls_entry_def)
  moreover have "v = emitKernel b k" if pv: "(p, v) \<in> set L" for v
  proof -
    have "p \<noteq> path_append d ''CMakeLists.txt''"
      unfolding p_def path_append_inject [OF rel [OF k] rel'] by (rule suffix_cpp(3))
    then obtain k' where k': "k' \<in> set (b_kernels b)" "(p, v) \<in> set (hls_entry b d k')"
      using pv by (auto simp: L_def)
    have "p \<noteq> path_append d (kh_name k' @ ''_tb.cpp'')"
      unfolding p_def path_append_inject [OF rel [OF k] rel [OF k'(1)]] suffix_cpp(2)
      using sep k k'(1) by (simp add: separate_names_def)
    then have "p = path_append d (kh_name k' @ ''.cpp'')" "v = emitKernel b k'"
      using k'(2) by (auto simp: hls_entry_def)
    then have "kh_name k = kh_name k'"
      unfolding p_def path_append_inject [OF rel [OF k] rel [OF k'(1)]] suffix_cpp(1) by simp
    then have "k = k'" using sep k k'(1) by (auto simp: separate_names_def distinct_map dest: inj_onD)
    with \<open>v = emitKernel b k'\<close> show ?thesis by simp
  qed
  ultimately have "map_of (rev L) p = Some (emitKernel b k)" by (rule map_of_rev_last)
  then have "file_text (fs @ L) p = Some (emitKernel b k)" by (simp add: file_text_def map_add_def)
  moreover have "emitHlsCpp sys b outdir (de, fs) = Some (True, de, fs @ L)"
    unfolding emitHlsCpp_ready [OF ready] L_def d_def by simp
  ultimately show ?thesis unfolding p_def d_def by blast
qed

subsection \<open>Boundary streams in the link configuration\<close>

text \<open>What the line should be: from the outside to the kernel, or from the kernel to the outside.\<close>

definition boundary_line :: "bool \<Rightarrow> string \<Rightarrow> nat \<Rightarrow> stream_conn \<Rightarrow> string" where
  "boundary_line inward side idx sc =
     (if inward
      then ''stream_connect='' @ side @ ''_in'' @ nat_str idx @ '':''
         @ end_in (sc_dst_kernel sc) (sc_dst_port sc) @ '':'' @ int_str (sc_depth sc)
      else ''stream_connect='' @ end_out (sc_src_kernel sc) (sc_src_port sc) @ '':'' @ side @ ''_out''
         @ nat_str idx @ '':'' @ int_str (sc_depth sc))"

lemma find_sub_None: "find_sub p s = None \<longleftrightarrow> (\<forall>i\<le>length s. \<not> starts_with p (drop i s))"
proof (induction s)
  case Nil
  then show ?case by (subst find_sub.simps) simp
next
  case (Cons c cs)
  have "(\<forall>i\<le>length (c # cs). \<not> starts_with p (drop i (c # cs)))
      \<longleftrightarrow> \<not> starts_with p (c # cs) \<and> (\<forall>i\<le>length cs. \<not> starts_with p (drop i cs))"
    by (metis Suc_le_mono drop0 drop_Suc_Cons le0 length_Cons not0_implies_Suc)
  then show ?case by (subst find_sub.simps) (simp add: Cons.IH)
qed

lemma link_boundary_line:
  "link_boundary side (idx, sc) = boundary_line (find_sub (side @ ''_out'') (sc_dst_kernel sc) = None) side idx sc"
  by (simp add: link_boundary_def boundary_line_def)

lemma find_sub_refl: "find_sub p p \<noteq> None"
  by (subst find_sub.simps) (simp add: starts_with_def)

subsection \<open>Where the rewriting of returns goes wrong\<close>

text \<open>A semicolon in a literal ends the expression, and so does one inside braces.\<close>

lemma return_cut_at_semicolon:
  "rewriteReturns (''return c == '' @ [chr_sq] @ '';'' @ [chr_sq] @ '';'') ''handler''
     = ''{ _ret = (c == '' @ [chr_sq] @ ''); goto _end_handler; }'' @ [chr_sq] @ '';''"
  "rewriteReturns ''return T{f([]{a;})};'' ''handler'' = ''{ _ret = (T{f([]{a;})}); goto _end_handler; }''"
  "rewriteReturns ''return [&]{a;b;}();'' ''handler'' = ''{ _ret = ([&]{a); goto _end_handler; }b;}();''"
  by code_simp+

end
