(* ===== verification/RunFacts.thy ===== *)
theory RunFacts
  imports EmitFacts
begin

text \<open>
  Whole runs: more fuel changes nothing once resolution returns, compilation of a module whose groups
  are not recursive ends, and the exit status tells whether the emitters wrote everything.
\<close>

subsection \<open>Fuel\<close>

lemma fold_opt_mono:
  assumes "\<And>x s s'. f x s = Some s' \<Longrightarrow> g x s = Some s'" and "fold_opt f xs s = Some s'"
  shows "fold_opt g xs s = Some s'"
  using assms(2)
proof (induction xs arbitrary: s)
  case (Cons x xs)
  then obtain s1 where "f x s = Some s1" "fold_opt f xs s1 = Some s'"
    by (auto split: option.splits)
  with Cons.IH show ?case by (simp add: assms(1))
qed simp

lemma inline_stmt_mono:
  assumes "\<And>d st st'. p d st = Some st' \<Longrightarrow> q d st = Some st'" and "inline_stmt p d x st = Some st'"
  shows "inline_stmt q d x st = Some st'"
  using assms(2) by (cases x) (auto split: prod.splits intro: assms(1))

lemma process_instance_mono:
  "process_instance n t d st = Some st' \<Longrightarrow> n \<le> n' \<Longrightarrow> process_instance n' t d st = Some st'"
proof (induction n arbitrary: d st st' n')
  case (Suc n)
  then obtain k where n': "n' = Suc k" "n \<le> k" by (cases n') auto
  have step: "inline_stmt (process_instance k t) e x s = Some s'"
    if "inline_stmt (process_instance n t) e x s = Some s'" for e x s s'
    by (rule inline_stmt_mono [OF _ that]) (rule Suc.IH [OF _ n'(2)])
  show ?case
    using Suc.prems(1) fold_opt_mono [OF step]
    by (auto simp: n'(1) inlineGroup_def split: option.splits)
qed simp

lemma processTop_mono:
  "processTop n t x st = Some st' \<Longrightarrow> n \<le> n' \<Longrightarrow> processTop n' t x st = Some st'"
  by (cases x) (auto intro: process_instance_mono)

lemma resolve_mono:
  assumes "resolveModuleToGraph n m de = Some r" and "n \<le> n'"
  shows "resolveModuleToGraph n' m de = Some r"
proof -
  obtain t de1 where c: "collect_decls m de = (t, de1)" by fastforce
  obtain st where st: "fold_opt (processTop n t) (md_stmts m)
      \<lparr>rs_anon = 0, rs_diags = de1, rs_graph = graph_empty\<rparr> = Some st"
    using assms(1) c by (auto simp: resolveModuleToGraph_def split: option.splits)
  have "fold_opt (processTop n' t) (md_stmts m)
      \<lparr>rs_anon = 0, rs_diags = de1, rs_graph = graph_empty\<rparr> = Some st"
    by (rule fold_opt_mono [OF _ st]) (rule processTop_mono [OF _ assms(2)])
  with st assms(1) c show ?thesis by (simp add: resolveModuleToGraph_def)
qed

lemma rank_bound: "\<exists>n. \<forall>d. Top_Instance d \<in> set (md_stmts m) \<longrightarrow> rank (in_type d) < (n :: nat)"
proof -
  define f where "f = (\<lambda>x. case x of Top_Instance d \<Rightarrow> rank (in_type d) | _ \<Rightarrow> 0)"
  have "rank (in_type d) < Suc (Max (f ` set (md_stmts m)))" if "Top_Instance d \<in> set (md_stmts m)" for d
  proof -
    have "f (Top_Instance d) \<le> Max (f ` set (md_stmts m))" using that by (intro Max_ge) auto
    then show ?thesis by (simp add: f_def)
  qed
  then show ?thesis by blast
qed

lemma finish_run_ends: "finish_run sm de status fs \<noteq> No_return"
  by (simp add: finish_run_def split: option.splits)

lemma compile_plan_ends:
  assumes "group_rank (fst (collect_decls m de)) rank"
  shows "\<exists>n0. \<forall>n\<ge>n0. compile_plan n sh opts sm m de \<noteq> Stopped No_return"
proof -
  obtain n1 where n1: "\<forall>d. Top_Instance d \<in> set (md_stmts m) \<longrightarrow> rank (in_type d) < n1"
    using rank_bound by blast
  obtain r where r: "resolveModuleToGraph n1 m de = Some r"
    using resolve_returns [OF assms] n1 by blast
  obtain ok g de1 where res: "r = (ok, g, de1)" by (cases r)
  define n0 where "n0 = max n1 (card (node_names (analyzeAutorun g)))"
  have "compile_plan n sh opts sm m de \<noteq> Stopped No_return" if "n0 \<le> n" for n
  proof -
    have rn: "resolveModuleToGraph n m de = Some (ok, g, de1)"
      using resolve_mono [OF r] that by (simp add: n0_def res)
    have cy: "\<exists>de'. analyzeCycles n (analyzeAutorun g) de2 = Some de'" for de2
      by (rule analyzeCycles_returns) (use that in \<open>simp add: n0_def\<close>)
    have "\<exists>g2 de2. analyze n sh g de1 = Some (g2, de2)"
    proof -
      obtain b de2 where "analyzePortArity g de1 = (b, de2)" by (cases "analyzePortArity g de1")
      moreover obtain de3 where "analyzeCycles n (analyzeAutorun g) de2 = Some de3" using cy by blast
      ultimately show ?thesis by (simp add: analyze_def Let_def)
    qed
    then show ?thesis using rn finish_run_ends by (auto simp: compile_plan_def split: if_splits)
  qed
  then show ?thesis by blast
qed

subsection \<open>Exit status\<close>

lemma status_zero:
  assumes "de_ok de" and "length (de_diags de) < 2 ^ 31"
  shows "status_of (de_error_count de) = 0 \<longleftrightarrow> errors_of (de_diags de) = []"
    and "0 \<le> status_of (de_error_count de)"
proof -
  have len: "length (errors_of (de_diags de)) < 2 ^ 31"
    using assms(2) unfolding errors_of_def by (rule le_less_trans [OF length_filter_le])
  have n: "de_error_count de = of_nat (length (errors_of (de_diags de)))"
    using assms(1) by (simp add: de_ok_def)
  have "sint (of_nat (length (errors_of (de_diags de))) :: u32) = int (length (errors_of (de_diags de)))"
    using len by (simp add: signed_of_nat signed_take_bit_int_eq_self)
  then show "status_of (de_error_count de) = 0 \<longleftrightarrow> errors_of (de_diags de) = []"
    "0 \<le> status_of (de_error_count de)"
    by (simp_all add: status_of_def n)
qed

text \<open>After a clean plan, the status is zero exactly when no emitter reported an error.\<close>

lemma backends_status:
  assumes run: "run_backends sys opts b de = Some (ok, de', files)"
    and de: "de_ok de" "errors_of (de_diags de) = []" and len: "length (de_diags de') < 2 ^ 31"
  shows "final_status ok de' = 0 \<longleftrightarrow> ok" and "ok \<longleftrightarrow> errors_of (de_diags de') = []"
proof -
  have h: "honest de (ok, de', files)" by (rule run_backends_honest [OF run])
  then have "de_ok de'" using de(1) by (simp add: honest_def de_step_def)
  note st = status_zero [OF this len]
  show eq: "ok \<longleftrightarrow> errors_of (de_diags de') = []" using h de(2) by (auto simp: honest_def)
  show "final_status ok de' = 0 \<longleftrightarrow> ok"
    using st(1) eq by (cases ok) (simp_all add: final_status_def max_def)
qed

subsection \<open>The ends of an element group\<close>

definition edges_grow :: "resolver \<Rightarrow> resolver \<Rightarrow> bool" where
  "edges_grow a b \<longleftrightarrow> set (g_edges (rs_graph a)) \<subseteq> set (g_edges (rs_graph b))"

lemma instance_rel_edges: "instance_rel t edges_grow"
  by (auto simp: instance_rel_def edges_grow_def push_kernel_def addConnection_def push_edge_def r_error_def)

lemma fold_opt_at:
  assumes "fold_opt f xs s = Some s'" and "x \<in> set xs"
    and step: "\<And>y a b. f y a = Some b \<Longrightarrow> R a b" and refl: "\<And>a. R a a"
    and trans: "\<And>a b c. R a b \<Longrightarrow> R b c \<Longrightarrow> R a c"
  shows "\<exists>a b. f x a = Some b \<and> R b s'"
  using assms(1,2)
proof (induction xs arbitrary: s)
  case (Cons y ys)
  then obtain s1 where s1: "f y s = Some s1" "fold_opt f ys s1 = Some s'" by (auto split: option.splits)
  show ?case
  proof (cases "x = y")
    case True
    have "R s1 s'"
      by (rule fold_opt_rel [where R = R, OF _ _ _ s1(2)]) (blast intro: step refl trans)+
    with s1(1) True show ?thesis by blast
  next
    case False
    with Cons s1(2) show ?thesis by simp
  qed
qed simp

lemma group_edge_kept:
  assumes run: "process_instance n t d st = Some st'" and none: "dt_elems t (in_type d) = None"
    and grp: "dt_groups t (in_type d) = Some grp" and c: "Group_Connection c \<in> set (gd_body grp)"
  shows "edge_of (c\<lparr>cd_source := rewriteEnd d (cd_source c), cd_dest := rewriteEnd d (cd_dest c)\<rparr>)
      \<in> set (g_edges (rs_graph st'))"
proof -
  obtain k where n: "n = Suc k" using run by (cases n) auto
  have body: "fold_opt (inline_stmt (process_instance k t) d) (gd_body grp) st = Some st'"
    using run none grp by (simp add: n inlineGroup_def)
  have grow: "edges_grow a b" if "inline_stmt (process_instance k t) d x a = Some b" for x a b
  proof (cases x)
    case (Group_Instance v)
    obtain nm s1 where nm: "instance_name v a = (nm, s1)" by fastforce
    then have "edges_grow a s1" by (auto simp: instance_name_def edges_grow_def split: if_splits)
    moreover have "edges_grow s1 b"
      using that Group_Instance nm process_instance_rel [OF instance_rel_edges] by simp
    ultimately show ?thesis by (simp add: edges_grow_def)
  next
    case (Group_Connection c')
    then show ?thesis using that by (auto simp: edges_grow_def addConnection_def push_edge_def)
  qed
  have "\<exists>a b. inline_stmt (process_instance k t) d (Group_Connection c) a = Some b \<and> edges_grow b st'"
    by (rule fold_opt_at [OF body c grow]) (auto simp: edges_grow_def)
  then show ?thesis by (auto simp: edges_grow_def addConnection_def push_edge_def)
qed

lemma resolved_edges:
  assumes r: "resolveModuleToGraph n m de = Some (ok, g, de')" and col: "collect_decls m de = (t, de1)"
    and top: "Top_Instance d \<in> set (md_stmts m)" and none: "dt_elems t (in_type d) = None"
    and grp: "dt_groups t (in_type d) = Some grp" and c: "Group_Connection c \<in> set (gd_body grp)"
  shows "edge_of (c\<lparr>cd_source := rewriteEnd d (cd_source c), cd_dest := rewriteEnd d (cd_dest c)\<rparr>) \<in> set (g_edges g)"
proof -
  obtain t' de1' st where u: "collect_decls m de = (t', de1')"
    "fold_opt (processTop n t') (md_stmts m) \<lparr>rs_anon = 0, rs_diags = de1', rs_graph = graph_empty\<rparr> = Some st"
    "g = assignSignalSlots (fst (synthesizeSpecials (rs_graph st) (rs_diags st)))"
    "de' = snd (synthesizeSpecials (rs_graph st) (rs_diags st))" "ok = (\<not> hasError de')"
    by (rule resolve_unfold [OF r])
  have t: "t' = t" using u(1) col by simp
  have "\<exists>a b. processTop n t (Top_Instance d) a = Some b \<and> edges_grow b st"
    by (rule fold_opt_at [OF u(2) [unfolded t] top processTop_rel [OF instance_rel_edges]])
      (auto simp: edges_grow_def)
  then obtain a b where b: "process_instance n t d a = Some b" "edges_grow b st" by auto
  have "g_edges g = g_edges (rs_graph st)"
    by (simp add: u(3) synthesizeSpecials_def Let_def assignSignalSlots_def)
  with group_edge_kept [OF b(1) none grp c] b(2) show ?thesis by (auto simp: edges_grow_def)
qed

text \<open>Nothing is ever called as the instance of a group, so its own ports are dangling ends.\<close>

lemma group_ends_dangle:
  assumes r: "resolveModuleToGraph n m de = Some (ok, g, de')" and col: "collect_decls m de = (t, de1)"
    and de: "de_ok de" "length (de_diags de') < 2 ^ 32"
    and top: "Top_Instance d \<in> set (md_stmts m)" and none: "dt_elems t (in_type d) = None"
    and grp: "dt_groups t (in_type d) = Some grp" and c: "Group_Connection c \<in> set (gd_body grp)"
    and ends: "ce_node_name (cd_source c) = ''begin'' \<or> ce_node_name (cd_dest c) = ''end''"
    and name: "in_name d \<notin> set (kernel_names g)"
  shows "\<not> ok"
proof
  assume ok
  then have r: "resolveModuleToGraph n m de = Some (True, g, de')" using r by simp
  define e where "e = edge_of (c\<lparr>cd_source := rewriteEnd d (cd_source c), cd_dest := rewriteEnd d (cd_dest c)\<rparr>)"
  have "e \<in> set (g_edges g)" unfolding e_def by (rule resolved_edges [OF r col top none grp c])
  with resolve_edges_exist [OF r de] have
    "e_src_kernel e \<in> set (kernel_names g)" "e_dst_kernel e \<in> set (kernel_names g)" by simp_all
  moreover have "e_src_kernel e = in_name d \<or> e_dst_kernel e = in_name d"
    using ends by (auto simp: e_def edge_of_def rewriteEnd_def Let_def)
  ultimately show False using name by auto
qed

lemma plan_diags_ok:
  assumes "compile_plan n sh opts sm m de = Stage (b, de')" and "de_ok de"
  shows "de_ok de'"
proof -
  obtain g de1 g' where r: "resolveModuleToGraph n m de = Some (True, g, de1)"
    and a: "analyze n sh g de1 = Some (g', de')"
    by (rule compile_plan_stage [OF assms(1)])
  show ?thesis using resolve_diags(1) [OF r] analyze_diags [OF a] assms(2) by (simp add: de_step_def)
qed

end
