(* ===== verification/Flit.thy ===== *)
theory Flit
  imports Prelude
begin

text \<open>
  The channel message (\<open>runtime/include/openclicknp/flit.hpp\<close>): 64 bytes, with accessors for the
  payload, its 64-bit lanes, the flag bits of byte 32, the pad count of byte 33 and the slot number
  in bytes 48 and 49, all little-endian. The port masks and the macros on the port variables of an
  element body are functions on the record of these variables.
\<close>

definition OPENCLICKNP_FLIT_BYTES :: nat where "OPENCLICKNP_FLIT_BYTES = 64"
definition OPENCLICKNP_PAYLOAD_BYTES :: nat where "OPENCLICKNP_PAYLOAD_BYTES = 32"

record flit =
  fl_raw :: "u8 list"

definition flit_zero :: flit where
  "flit_zero = \<lparr>fl_raw = replicate 64 0\<rparr>"

definition flit_ok :: "flit \<Rightarrow> bool" where
  "flit_ok f \<longleftrightarrow> length (fl_raw f) = 64"

definition write_at :: "nat \<Rightarrow> u8 list \<Rightarrow> u8 list \<Rightarrow> u8 list" where
  "write_at k xs raw = take k raw @ xs @ drop (k + length xs) raw"

subsection \<open>Payload and lanes\<close>

definition set_data :: "u8 list \<Rightarrow> nat \<Rightarrow> flit \<Rightarrow> flit" where
  "set_data src len f =
     (let len = (if OPENCLICKNP_PAYLOAD_BYTES < len then OPENCLICKNP_PAYLOAD_BYTES else len)
      in f\<lparr>fl_raw := write_at 0 (take len src) (fl_raw f)\<rparr>)"

definition get_data :: "nat \<Rightarrow> flit \<Rightarrow> u8 list" where
  "get_data len f =
     take (if OPENCLICKNP_PAYLOAD_BYTES < len then OPENCLICKNP_PAYLOAD_BYTES else len) (fl_raw f)"

definition le_bytes :: "nat \<Rightarrow> u64 \<Rightarrow> u8 list" where
  "le_bytes n v = map (\<lambda>i. ucast (drop_bit (8 * i) v)) [0..<n]"

fun le_word :: "u8 list \<Rightarrow> u64" where
  "le_word [] = 0"
| "le_word (b # bs) = ucast b OR push_bit 8 (le_word bs)"

definition set_lane :: "int \<Rightarrow> u64 \<Rightarrow> flit \<Rightarrow> flit" where
  "set_lane lane v f =
     (if lane < 0 \<or> 4 \<le> lane then f
      else f\<lparr>fl_raw := write_at (nat lane * 8) (le_bytes 8 v) (fl_raw f)\<rparr>)"

definition get_lane :: "int \<Rightarrow> flit \<Rightarrow> u64" where
  "get_lane lane f =
     (if lane < 0 \<or> 4 \<le> lane then 0 else le_word (take 8 (drop (nat lane * 8) (fl_raw f))))"

subsection \<open>Flags, pad count and slot\<close>

definition flag :: "u8 \<Rightarrow> flit \<Rightarrow> bool" where
  "flag msk f \<longleftrightarrow> fl_raw f ! 32 AND msk \<noteq> 0"

definition set_flag :: "u8 \<Rightarrow> bool \<Rightarrow> flit \<Rightarrow> flit" where
  "set_flag msk b f =
     f\<lparr>fl_raw := (fl_raw f)[32 := (fl_raw f ! 32 AND NOT msk) OR (if b then msk else 0)]\<rparr>"

definition sop :: "flit \<Rightarrow> bool" where "sop f = flag 0x01 f"
definition eop :: "flit \<Rightarrow> bool" where "eop f = flag 0x02 f"
definition flit_error :: "flit \<Rightarrow> bool" where "flit_error f = flag 0x04 f"
definition fcs_error :: "flit \<Rightarrow> bool" where "fcs_error f = flag 0x08 f"
definition fcs_valid :: "flit \<Rightarrow> bool" where "fcs_valid f = flag 0x10 f"
definition set_sop :: "bool \<Rightarrow> flit \<Rightarrow> flit" where "set_sop b f = set_flag 0x01 b f"
definition set_eop :: "bool \<Rightarrow> flit \<Rightarrow> flit" where "set_eop b f = set_flag 0x02 b f"
definition set_error :: "bool \<Rightarrow> flit \<Rightarrow> flit" where "set_error b f = set_flag 0x04 b f"
definition set_fcs_error :: "bool \<Rightarrow> flit \<Rightarrow> flit" where "set_fcs_error b f = set_flag 0x08 b f"
definition set_fcs_valid :: "bool \<Rightarrow> flit \<Rightarrow> flit" where "set_fcs_valid b f = set_flag 0x10 b f"

definition padbytes :: "flit \<Rightarrow> u8" where "padbytes f = fl_raw f ! 33"

definition set_padbytes :: "u8 \<Rightarrow> flit \<Rightarrow> flit" where
  "set_padbytes pb f = f\<lparr>fl_raw := (fl_raw f)[33 := pb]\<rparr>"

definition slot_id :: "flit \<Rightarrow> u16" where
  "slot_id f = ucast (fl_raw f ! 48) OR push_bit 8 (ucast (fl_raw f ! 49))"

definition set_slot_id :: "u16 \<Rightarrow> flit \<Rightarrow> flit" where
  "set_slot_id s f =
     f\<lparr>fl_raw := (fl_raw f)[48 := ucast (s AND 0xFF), 49 := ucast (drop_bit 8 s AND 0xFF)]\<rparr>"

subsection \<open>Ports of an element body\<close>

definition PORT_NULL :: u32 where "PORT_NULL = 0"
definition PORT_ALL :: u32 where "PORT_ALL = 0x7FFFFFFF"
definition PROC_BREAK :: u32 where "PROC_BREAK = 0x80000000"
definition SIGNAL_DISABLE :: u32 where "SIGNAL_DISABLE = 0x40000000"

definition PORT_BIT :: "nat \<Rightarrow> u32" where
  "PORT_BIT n = push_bit n 1"

record ports =
  po_input_port :: u32
  po_input_data :: "flit list"
  po_output_port :: u32
  po_output_data :: "flit list"
  po_output_failed :: u32
  po_output_success :: u32

definition input_ready :: "u32 \<Rightarrow> ports \<Rightarrow> bool" where
  "input_ready msk p \<longleftrightarrow> po_input_port p AND msk \<noteq> 0"

definition clear_input_ready :: "u32 \<Rightarrow> ports \<Rightarrow> ports" where
  "clear_input_ready msk p = p\<lparr>po_input_port := po_input_port p AND NOT msk\<rparr>"

definition get_input_data :: "nat \<Rightarrow> ports \<Rightarrow> flit" where
  "get_input_data i p = po_input_data p ! i"

text \<open>The lowest set bit of a mask; the builtin is undefined on 0, where this is 32.\<close>

fun ctz_from :: "nat \<Rightarrow> nat \<Rightarrow> u32 \<Rightarrow> nat" where
  "ctz_from 0 i m = i"
| "ctz_from (Suc k) i m = (if drop_bit i m AND 1 \<noteq> 0 then i else ctz_from k (Suc i) m)"

definition builtin_ctz :: "u32 \<Rightarrow> nat" where
  "builtin_ctz m = ctz_from 32 0 m"

definition read_input_port :: "u32 \<Rightarrow> ports \<Rightarrow> flit \<times> ports" where
  "read_input_port msk p = (po_input_data p ! builtin_ctz msk, clear_input_ready msk p)"

definition set_output_ready :: "u32 \<Rightarrow> ports \<Rightarrow> ports" where
  "set_output_ready msk p = p\<lparr>po_output_port := po_output_port p OR msk\<rparr>"

definition clear_output_ready :: "u32 \<Rightarrow> ports \<Rightarrow> ports" where
  "clear_output_ready msk p = p\<lparr>po_output_port := po_output_port p AND NOT msk\<rparr>"

definition set_output_port :: "nat \<Rightarrow> flit \<Rightarrow> ports \<Rightarrow> ports" where
  "set_output_port i v p =
     p\<lparr>po_output_port := po_output_port p OR PORT_BIT i, po_output_data := (po_output_data p)[i := v]\<rparr>"

definition last_output_failed :: "u32 \<Rightarrow> ports \<Rightarrow> bool" where
  "last_output_failed msk p \<longleftrightarrow> po_output_failed p AND msk \<noteq> 0"

definition last_output_success :: "u32 \<Rightarrow> ports \<Rightarrow> bool" where
  "last_output_success msk p \<longleftrightarrow> po_output_success p AND msk \<noteq> 0"

record cl_signal =
  cs_kid :: u16
  cs_cmd :: u16
  cs_sparam :: u32
  cs_lparam :: "u64 list"

subsection \<open>Accessors read what was written and leave the rest alone\<close>

lemma length_write_at [simp]: "k + length xs \<le> length raw \<Longrightarrow> length (write_at k xs raw) = length raw"
  by (simp add: write_at_def)

lemma write_at_nth:
  "k + length xs \<le> length raw \<Longrightarrow> j < length raw \<Longrightarrow>
     write_at k xs raw ! j = (if j < k then raw ! j else if j < k + length xs then xs ! (j - k) else raw ! j)"
  by (auto simp: write_at_def nth_append)

lemma flit_zero_ok [simp]: "flit_ok flit_zero"
  by (simp add: flit_ok_def flit_zero_def)

lemma flit_ops_ok [simp]:
  "flit_ok f \<Longrightarrow> flit_ok (set_data src n f)"
  "flit_ok f \<Longrightarrow> flit_ok (set_flag m b f)"
  "flit_ok f \<Longrightarrow> flit_ok (set_padbytes pb f)"
  "flit_ok f \<Longrightarrow> flit_ok (set_slot_id s f)"
  "flit_ok f \<Longrightarrow> flit_ok (set_lane l v f)"
  by (auto simp: flit_ok_def set_data_def set_flag_def set_padbytes_def set_slot_id_def set_lane_def
      OPENCLICKNP_PAYLOAD_BYTES_def Let_def le_bytes_def)

lemma mask_set: "m \<noteq> 0 \<Longrightarrow> ((x AND NOT m) OR m) AND m \<noteq> 0" for x m :: u8
proof -
  have "((x AND NOT m) OR m) AND m = m" by (auto simp: bit_eq_iff bit_simps)
  then show "m \<noteq> 0 \<Longrightarrow> ((x AND NOT m) OR m) AND m \<noteq> 0" by simp
qed

lemma mask_clear: "(x AND NOT m) AND m = 0" for x m :: u8
  by (simp add: bit_eq_iff bit_simps)

lemma mask_other: "m AND m' = 0 \<Longrightarrow> ((x AND NOT m) OR (if b then m else 0)) AND m' = x AND m'" for x m m' :: u8
  by (auto simp: bit_eq_iff bit_simps)

lemma flag_set_flag:
  assumes "flit_ok f" "m \<noteq> 0"
  shows "flag m (set_flag m b f) = b" and "m AND m' = 0 \<Longrightarrow> flag m' (set_flag m b f) = flag m' f"
  using assms mask_set [of m "fl_raw f ! 32"] mask_clear [of "fl_raw f ! 32" m]
    mask_other [of m m' "fl_raw f ! 32" b]
  by (auto simp: flag_def set_flag_def flit_ok_def)

lemma slot_id_set:
  assumes "flit_ok f"
  shows "slot_id (set_slot_id s f) = s"
proof -
  have "ucast (ucast (s AND 0xFF) :: u8) OR push_bit 8 (ucast (ucast (drop_bit 8 s AND 0xFF) :: u8)) = s"
  proof (rule bit_word_eqI)
    fix n
    assume n: "n < LENGTH(16)"
    have mask: "(0xFF :: u16) = mask 8" by (simp add: mask_eq_exp_minus_1)
    show "bit (ucast (ucast (s AND 0xFF) :: u8) OR push_bit 8 (ucast (ucast (drop_bit 8 s AND 0xFF) :: u8)) :: u16) n = bit s n"
      using n unfolding mask by (cases "n < 8") (auto simp: bit_simps not_less)
  qed
  then show ?thesis using assms by (simp add: slot_id_def set_slot_id_def flit_ok_def)
qed

lemma slot_id_keeps:
  assumes "flit_ok f"
  shows "get_data n (set_slot_id s f) = get_data n f" "flag m (set_slot_id s f) = flag m f"
    "padbytes (set_slot_id s f) = padbytes f"
  using assms by (auto simp: get_data_def set_slot_id_def flag_def padbytes_def flit_ok_def
      OPENCLICKNP_PAYLOAD_BYTES_def)

lemma get_set_data:
  assumes "flit_ok f" "n \<le> 32" "n \<le> length src"
  shows "get_data n (set_data src n f) = take n src"
  using assms by (simp add: get_data_def set_data_def write_at_def OPENCLICKNP_PAYLOAD_BYTES_def flit_ok_def)

lemma le_word_bytes: "n \<le> 8 \<Longrightarrow> le_word (le_bytes n v) = take_bit (8 * n) v"
proof (induction n arbitrary: v)
  case (Suc n)
  have map: "le_bytes (Suc n) v = ucast v # le_bytes n (drop_bit 8 v)"
    by (simp add: le_bytes_def upt_conv_Cons drop_bit_drop_bit add.commute del: upt_Suc flip: map_Suc_upt)
  show ?case
  proof (rule bit_word_eqI)
    fix k
    assume k: "k < LENGTH(64)"
    show "bit (le_word (le_bytes (Suc n) v)) k = bit (take_bit (8 * Suc n) v) k"
      using k Suc by (cases "k < 8") (auto simp: map bit_simps not_less)
  qed
qed (simp add: le_bytes_def)

lemma lane_roundtrip:
  assumes "flit_ok f" "0 \<le> lane" "lane < 4"
  shows "get_lane lane (set_lane lane v f) = v"
proof -
  have k: "nat lane * 8 + 8 \<le> 64" using assms by simp
  have "take 8 (drop (nat lane * 8) (write_at (nat lane * 8) (le_bytes 8 v) (fl_raw f))) = le_bytes 8 v"
    using assms(1) k by (simp add: write_at_def flit_ok_def le_bytes_def)
  then show ?thesis using assms le_word_bytes [of 8 v] by (simp add: get_lane_def set_lane_def take_bit_word_eq_self)
qed

text \<open>The lanes among each other and beside the flags.\<close>

lemma get_lane_cong:
  assumes "length (fl_raw f) = length (fl_raw g)" "\<And>k. k < 32 \<Longrightarrow> fl_raw f ! k = fl_raw g ! k" "flit_ok f"
  shows "get_lane j f = get_lane j g"
proof (cases "j < 0 \<or> 4 \<le> j")
  case False
  then have "nat j * 8 + 8 \<le> 32" by linarith
  with assms have "take 8 (drop (nat j * 8) (fl_raw f)) = take 8 (drop (nat j * 8) (fl_raw g))"
    by (intro nth_equalityI) (auto simp: flit_ok_def)
  then show ?thesis by (simp add: get_lane_def)
qed (auto simp: get_lane_def)

lemma get_lane_keeps [simp]:
  assumes "flit_ok f"
  shows "get_lane j (set_sop b f) = get_lane j f" "get_lane j (set_eop b f) = get_lane j f"
    "get_lane j (set_slot_id s f) = get_lane j f"
  using assms by (auto intro!: get_lane_cong [symmetric] simp: set_sop_def set_eop_def set_flag_def set_slot_id_def flit_ok_def)

lemma lane_other:
  assumes "flit_ok f" "i \<noteq> j" "0 \<le> i" "0 \<le> j"
  shows "get_lane j (set_lane i v f) = get_lane j f"
proof (cases "4 \<le> i \<or> 4 \<le> j")
  case False
  have "nat i \<noteq> nat j" using assms by simp
  then have "nat i + 1 \<le> nat j \<or> nat j + 1 \<le> nat i" by linarith
  then have d: "nat i * 8 + 8 \<le> nat j * 8 \<or> nat j * 8 + 8 \<le> nat i * 8" by linarith
  have len: "length (fl_raw f) = 64" using assms(1) by (simp add: flit_ok_def)
  have fit: "nat i * 8 + 8 \<le> 64" "nat j * 8 + 8 \<le> 64" using False assms(3,4) by linarith+
  have "take 8 (drop (nat j * 8) (write_at (nat i * 8) (le_bytes 8 v) (fl_raw f))) = take 8 (drop (nat j * 8) (fl_raw f))"
    using d fit by (intro nth_equalityI) (auto simp: write_at_nth le_bytes_def len)
  then show ?thesis using False assms by (simp add: get_lane_def set_lane_def)
qed (use assms in \<open>auto simp: get_lane_def set_lane_def\<close>)

lemma flags_ok [simp]: "flit_ok f \<Longrightarrow> flit_ok (set_sop b f)" "flit_ok f \<Longrightarrow> flit_ok (set_eop b f)"
  by (simp_all add: set_sop_def set_eop_def)

end
