(* ===== verification/Streams.thy ===== *)
theory Streams
  imports Flit
begin

text \<open>
  The queues of the runtime: the bounded stream between two kernels of the software emulator and the
  signal channel (\<open>runtime/include/openclicknp/sw_runtime.hpp\<close>). Every operation holds the mutex from
  its first to its last access, so it is one step and the threads interleave operations. A blocking
  operation is the retried (\<open>write\<close>) or delayed (\<open>read\<close>) form of the non-blocking step: it takes
  effect as one such step that succeeds, or not at all. The interface \<open>fifo\<close> says what any of these
  queues promises, and is proved to deliver in order whatever the interleaving.
\<close>

subsection \<open>The queue interface\<close>

datatype 'a queue_op = Push 'a | Pop

text \<open>
  \<open>stored x\<close> is what a queue keeps of a pushed \<open>x\<close>. A run collects the accepted pushes and the
  results of the successful pops.
\<close>

locale fifo =
  fixes items :: "'q \<Rightarrow> 'a list" and push :: "'a \<Rightarrow> 'q \<Rightarrow> bool \<times> 'q" and pop :: "'q \<Rightarrow> 'a option \<times> 'q"
    and stored :: "'a \<Rightarrow> 'a"
  assumes push_items: "items (snd (push x q)) = (if fst (push x q) then items q @ [stored x] else items q)"
    and pop_items: "pop q = (r, q') \<Longrightarrow> (case items q of [] \<Rightarrow> r = None \<and> items q' = [] | y # ys \<Rightarrow> r = Some y \<and> items q' = ys)"
begin

fun run :: "'a queue_op list \<Rightarrow> 'q \<Rightarrow> 'a list \<times> 'a list \<times> 'q" where
  "run [] q = ([], [], q)"
| "run (Push x # ops) q =
     (let (ok, q1) = push x q; (acc, out, q2) = run ops q1 in ((if ok then x # acc else acc), out, q2))"
| "run (Pop # ops) q =
     (let (r, q1) = pop q; (acc, out, q2) = run ops q1
      in (acc, (case r of None \<Rightarrow> out | Some y \<Rightarrow> y # out), q2))"

lemma pop_cases:
  obtains (empty) q' where "items q = []" "pop q = (None, q')" "items q' = []"
    | (item) y ys q' where "items q = y # ys" "pop q = (Some y, q')" "items q' = ys"
  using pop_items [of q "fst (pop q)" "snd (pop q)"] by (cases "items q") (auto simp: prod_eq_iff)

lemma run_in_order: "run ops q = (acc, out, q') \<Longrightarrow> out @ items q' = items q @ map stored acc"
proof (induction ops arbitrary: q acc out q')
  case (Cons op ops)
  show ?case
  proof (cases op)
    case (Push x)
    obtain acc1 out1 q2 where r: "run ops (snd (push x q)) = (acc1, out1, q2)" by (metis prod_cases3)
    from Cons.IH [OF r] Cons.prems r show ?thesis
      by (auto simp: Push split_beta push_items split: if_splits)
  next
    case Pop
    show ?thesis
    proof (cases q rule: pop_cases)
      case (empty q1)
      obtain acc1 out1 q2 where r: "run ops q1 = (acc1, out1, q2)" by (metis prod_cases3)
      from Cons.IH [OF r] Cons.prems r show ?thesis by (auto simp: Pop empty)
    next
      case (item y ys q1)
      obtain acc1 out1 q2 where r: "run ops q1 = (acc1, out1, q2)" by (metis prod_cases3)
      from Cons.IH [OF r] Cons.prems r show ?thesis by (auto simp: Pop item)
    qed
  qed
qed simp

end

subsection \<open>SwStream\<close>

record sw_stream =
  sw_q :: "flit list"
  sw_capacity :: int

definition SwStream :: "int \<Rightarrow> sw_stream" where
  "SwStream capacity = \<lparr>sw_q = [], sw_capacity = (if 0 < capacity then capacity else 1)\<rparr>"

definition sw_write_nb :: "flit \<Rightarrow> sw_stream \<Rightarrow> bool \<times> sw_stream" where
  "sw_write_nb f s =
     (if sw_capacity s \<le> int (length (sw_q s)) then (False, s) else (True, s\<lparr>sw_q := sw_q s @ [f]\<rparr>))"

definition sw_read_nb :: "sw_stream \<Rightarrow> flit option \<times> sw_stream" where
  "sw_read_nb s = (case sw_q s of [] \<Rightarrow> (None, s) | f # fs \<Rightarrow> (Some f, s\<lparr>sw_q := fs\<rparr>))"

text \<open>
  The blocking forms against a schedule: the states in which the thread gets the mutex. \<open>write\<close>
  retries until an attempt succeeds, \<open>read\<close> waits for a state that is not empty; None is a thread
  that never gets on.
\<close>

fun sw_write :: "flit \<Rightarrow> sw_stream list \<Rightarrow> sw_stream option" where
  "sw_write f [] = None"
| "sw_write f (s # ss) = (let (ok, s') = sw_write_nb f s in if ok then Some s' else sw_write f ss)"

fun sw_read :: "sw_stream list \<Rightarrow> (flit \<times> sw_stream) option" where
  "sw_read [] = None"
| "sw_read (s # ss) = (case sw_q s of [] \<Rightarrow> sw_read ss | f # fs \<Rightarrow> Some (f, s\<lparr>sw_q := fs\<rparr>))"

definition sw_size :: "sw_stream \<Rightarrow> int" where
  "sw_size s = int (length (sw_q s))"

definition sw_empty :: "sw_stream \<Rightarrow> bool" where
  "sw_empty s \<longleftrightarrow> sw_size s = 0"

definition sw_null :: sw_stream where
  "sw_null = SwStream 1"

interpretation sw: fifo sw_q sw_write_nb sw_read_nb "\<lambda>f. f"
  by unfold_locales (auto simp: sw_write_nb_def sw_read_nb_def split: list.splits)

lemma write_nb_empty: "sw_empty s \<Longrightarrow> 0 < sw_capacity s \<Longrightarrow> fst (sw_write_nb f s)"
  by (simp add: sw_empty_def sw_size_def sw_write_nb_def)

text \<open>The bound and the capacity, over every interleaving of one writer and one reader.\<close>

definition sw_ok :: "sw_stream \<Rightarrow> bool" where
  "sw_ok s \<longleftrightarrow> 1 \<le> sw_capacity s \<and> int (length (sw_q s)) \<le> sw_capacity s"

inductive sw_step :: "sw_stream \<times> flit list \<times> flit list \<Rightarrow> sw_stream \<times> flit list \<times> flit list \<Rightarrow> bool" where
  write_ok: "sw_write_nb f s = (True, s') \<Longrightarrow> sw_step (s, sent, got) (s', sent @ [f], got)"
| write_full: "sw_write_nb f s = (False, s') \<Longrightarrow> sw_step (s, sent, got) (s', sent, got)"
| read_ok: "sw_read_nb s = (Some f, s') \<Longrightarrow> sw_step (s, sent, got) (s', sent, got @ [f])"
| read_none: "sw_read_nb s = (None, s') \<Longrightarrow> sw_step (s, sent, got) (s', sent, got)"

inductive_cases sw_stepE: "sw_step (s, sent, got) t"

definition sw_inv :: "int \<Rightarrow> sw_stream \<times> flit list \<times> flit list \<Rightarrow> bool" where
  "sw_inv cap st \<longleftrightarrow>
     (case st of (s, sent, got) \<Rightarrow> sw_ok s \<and> sw_capacity s = cap \<and> sent = got @ sw_q s)"

lemma sw_step_inv: "sw_step st st' \<Longrightarrow> sw_inv cap st \<Longrightarrow> sw_inv cap st'"
  by (cases st; hypsubst; erule sw_stepE)
    (auto simp: sw_inv_def sw_ok_def sw_write_nb_def sw_read_nb_def split: if_splits list.splits)

lemma sw_reachable_inv:
  assumes "sw_step\<^sup>*\<^sup>* (SwStream c, [], []) st"
  shows "sw_inv (if 0 < c then c else 1) st"
  using assms
proof (induction rule: rtranclp_induct)
  case base
  then show ?case by (simp add: sw_inv_def sw_ok_def SwStream_def)
next
  case (step st st')
  then show ?case by (blast intro: sw_step_inv)
qed

subsection \<open>SignalChannel\<close>

record signal_channel =
  sg_req :: "cl_signal list"
  sg_rsp :: "cl_signal list"

definition channel_empty :: signal_channel where
  "channel_empty = \<lparr>sg_req = [], sg_rsp = []\<rparr>"

definition try_recv :: "signal_channel \<Rightarrow> cl_signal option \<times> signal_channel" where
  "try_recv c = (case sg_req c of [] \<Rightarrow> (None, c) | s # ss \<Rightarrow> (Some s, c\<lparr>sg_req := ss\<rparr>))"

definition send_response :: "cl_signal \<Rightarrow> signal_channel \<Rightarrow> signal_channel" where
  "send_response s c = c\<lparr>sg_rsp := sg_rsp c @ [s]\<rparr>"

definition post_request :: "cl_signal \<Rightarrow> signal_channel \<Rightarrow> signal_channel" where
  "post_request s c = c\<lparr>sg_req := sg_req c @ [s]\<rparr>"

text \<open>The state is the one at the end of the wait: still empty means the timeout has passed.\<close>

definition wait_response :: "signal_channel \<Rightarrow> cl_signal option \<times> signal_channel" where
  "wait_response c = (case sg_rsp c of [] \<Rightarrow> (None, c) | s # ss \<Rightarrow> (Some s, c\<lparr>sg_rsp := ss\<rparr>))"

interpretation sg_requests: fifo sg_req "\<lambda>s c. (True, post_request s c)" try_recv "\<lambda>s. s"
  by unfold_locales (auto simp: post_request_def try_recv_def split: list.splits)

interpretation sg_responses: fifo sg_rsp "\<lambda>s c. (True, send_response s c)" wait_response "\<lambda>s. s"
  by unfold_locales (auto simp: send_response_def wait_response_def split: list.splits)

end
