(* ===== verification/Emulator.thy ===== *)
theory Emulator
  imports Streams EmitSwEmu
begin

text \<open>
  What the program written by the software-emulator emitter does when it runs. The loop of a kernel
  function (\<open>emitKernelFunc\<close> in \<open>compiler/src/backends/sw_emu/emit.cpp\<close>) is a list of instructions, in
  the order in which the emitter writes them; the user's bodies are functions on the local variables
  into which they are inlined. A network is the list of kernel threads with what they share: the
  streams, the signal channel and the stop flag. Each instruction touches the shared state at most
  once and under one mutex, so the threads interleave instructions.
\<close>

subsection \<open>Local variables of a kernel\<close>

record 'st locals =
  lc_ret :: u32
  lc_ports :: ports
  lc_last_rport :: u32
  lc_event :: cl_signal
  lc_outevent :: cl_signal
  lc_has_signal :: bool
  lc_state :: 'st

type_synonym 'st body = "'st locals \<Rightarrow> 'st locals"

definition signal_zero :: cl_signal where
  "signal_zero = \<lparr>cs_kid = 0, cs_cmd = 0, cs_sparam = 0, cs_lparam = replicate 7 0\<rparr>"

definition kernel_locals :: "kernel_hls \<Rightarrow> 'st \<Rightarrow> 'st locals" where
  "kernel_locals k st =
     \<lparr>lc_ret = PORT_ALL,
      lc_ports =
        \<lparr>po_input_port = 0, po_input_data = replicate (array_slots (kh_in_ports k)) flit_zero,
         po_output_port = 0, po_output_data = replicate (array_slots (kh_out_ports k)) flit_zero,
         po_output_failed = 0, po_output_success = 0\<rparr>,
      lc_last_rport = 0, lc_event = signal_zero, lc_outevent = signal_zero, lc_has_signal = False,
      lc_state = st\<rparr>"

abbreviation map_ports :: "(ports \<Rightarrow> ports) \<Rightarrow> 'st body" where
  "map_ports f lc \<equiv> lc\<lparr>lc_ports := f (lc_ports lc)\<rparr>"

subsection \<open>The loop as instructions\<close>

datatype instr =
    Poll_Signal
  | Read_Input nat
  | Clear_Outputs
  | If_Signal "instr list" "instr list"
  | Signal_Body
  | Send_Response
  | Handler_Body
  | Clear_Results
  | Write_Output nat

definition port_no :: "port \<Rightarrow> nat" where
  "port_no p = nat (p_index p)"

definition handler_code :: "kernel_hls \<Rightarrow> instr list" where
  "handler_code k = [Handler_Body, Clear_Results] @ map (\<lambda>p. Write_Output (port_no p)) (kh_out_ports k)"

definition loop_code :: "kernel_hls \<Rightarrow> instr list" where
  "loop_code k =
     (if kh_has_signal k then [Poll_Signal] else [])
     @ map (\<lambda>p. Read_Input (port_no p)) (kh_in_ports k) @ [Clear_Outputs]
     @ (if kh_has_signal k then [If_Signal [Signal_Body, Send_Response] (handler_code k)]
        else handler_code k)"

text \<open>
  What the threads share. The last two components are the history of the streams, the flits accepted
  and the flits delivered so far; no instruction reads them.
\<close>

record shared =
  sh_streams :: "string \<Rightarrow> sw_stream"
  sh_chan :: signal_channel
  sh_stop :: bool
  sh_sent :: "string \<Rightarrow> flit list"
  sh_got :: "string \<Rightarrow> flit list"

definition net_write :: "string \<Rightarrow> flit \<Rightarrow> shared \<Rightarrow> bool \<times> shared" where
  "net_write v f sh =
     (let (ok, s) = sw_write_nb f (sh_streams sh v)
      in (ok, sh\<lparr>sh_streams := (sh_streams sh)(v := s),
               sh_sent := (if ok then (sh_sent sh)(v := sh_sent sh v @ [f]) else sh_sent sh)\<rparr>))"

definition net_read :: "string \<Rightarrow> shared \<Rightarrow> flit option \<times> shared" where
  "net_read v sh =
     (let (r, s) = sw_read_nb (sh_streams sh v)
      in (r, sh\<lparr>sh_streams := (sh_streams sh)(v := s),
              sh_got := (case r of None \<Rightarrow> sh_got sh | Some f \<Rightarrow> (sh_got sh)(v := sh_got sh v @ [f]))\<rparr>))"

text \<open>A kernel function with the streams that its call in the main function passes.\<close>

record 'st kernel_fn =
  kn_in :: "nat \<Rightarrow> string"
  kn_out :: "nat \<Rightarrow> string"
  kn_code :: "instr list"
  kn_handler :: "'st body"
  kn_signal :: "'st body"

definition poll_channel :: "'st locals \<times> shared \<Rightarrow> 'st locals \<times> shared" where
  "poll_channel x = (case x of (lc, sh) \<Rightarrow>
     if lc_has_signal lc then (lc, sh)
     else (case try_recv (sh_chan sh) of
         (None, c) \<Rightarrow> (lc, sh\<lparr>sh_chan := c\<rparr>)
       | (Some s, c) \<Rightarrow> (lc\<lparr>lc_event := s, lc_has_signal := True\<rparr>, sh\<lparr>sh_chan := c\<rparr>)))"

definition wants_input :: "nat \<Rightarrow> 'st locals \<Rightarrow> bool" where
  "wants_input i lc \<longleftrightarrow>
     lc_ret lc AND PORT_BIT i \<noteq> 0 \<and> \<not> po_input_port (lc_ports lc) AND PORT_BIT i \<noteq> 0"

definition buffer_input :: "nat \<Rightarrow> flit \<Rightarrow> ports \<Rightarrow> ports" where
  "buffer_input i f p =
     p\<lparr>po_input_data := (po_input_data p)[i := f], po_input_port := po_input_port p OR PORT_BIT i\<rparr>"

definition read_input :: "'st kernel_fn \<Rightarrow> nat \<Rightarrow> 'st locals \<times> shared \<Rightarrow> 'st locals \<times> shared" where
  "read_input kn i x = (case x of (lc, sh) \<Rightarrow>
     if wants_input i lc then
       (case net_read (kn_in kn i) sh of
          (None, sh') \<Rightarrow> (lc, sh')
        | (Some f, sh') \<Rightarrow> (map_ports (buffer_input i f) lc, sh'))
     else (lc, sh))"

definition record_result :: "nat \<Rightarrow> bool \<Rightarrow> ports \<Rightarrow> ports" where
  "record_result i ok p =
     (if ok then p\<lparr>po_output_success := po_output_success p OR PORT_BIT i\<rparr>
      else p\<lparr>po_output_failed := po_output_failed p OR PORT_BIT i\<rparr>)"

definition write_output :: "'st kernel_fn \<Rightarrow> nat \<Rightarrow> 'st locals \<times> shared \<Rightarrow> 'st locals \<times> shared" where
  "write_output kn i x = (case x of (lc, sh) \<Rightarrow>
     if po_output_port (lc_ports lc) AND PORT_BIT i \<noteq> 0 then
       (let (ok, sh') = net_write (kn_out kn i) (po_output_data (lc_ports lc) ! i) sh
        in (map_ports (record_result i ok) lc, sh'))
     else (lc, sh))"

text \<open>
  One instruction: what is inserted before the rest of the loop body (the branch taken), the local
  variables and the shared state after it. \<open>outevent = event\<close> belongs to the signal branch, clearing
  \<open>_has_signal\<close> to the response.
\<close>

fun exec :: "'st kernel_fn \<Rightarrow> instr \<Rightarrow> 'st locals \<times> shared \<Rightarrow> instr list \<times> 'st locals \<times> shared" where
  "exec kn Poll_Signal x = ([], poll_channel x)"
| "exec kn (Read_Input i) x = ([], read_input kn i x)"
| "exec kn Clear_Outputs (lc, sh) =
     ([], (map_ports (\<lambda>p. p\<lparr>po_output_port := 0\<rparr>) lc)\<lparr>lc_last_rport := lc_ret lc\<rparr>, sh)"
| "exec kn (If_Signal a b) (lc, sh) = ((if lc_has_signal lc then a else b), lc, sh)"
| "exec kn Signal_Body (lc, sh) = ([], kn_signal kn (lc\<lparr>lc_outevent := lc_event lc\<rparr>), sh)"
| "exec kn Send_Response (lc, sh) =
     ([], lc\<lparr>lc_has_signal := False\<rparr>, sh\<lparr>sh_chan := send_response (lc_outevent lc) (sh_chan sh)\<rparr>)"
| "exec kn Handler_Body (lc, sh) = ([], kn_handler kn lc, sh)"
| "exec kn Clear_Results (lc, sh) =
     ([], map_ports (\<lambda>p. p\<lparr>po_output_failed := 0, po_output_success := 0\<rparr>) lc, sh)"
| "exec kn (Write_Output i) x = ([], write_output kn i x)"

subsection \<open>Threads and networks\<close>

record 'st thread =
  th_kernel :: "'st kernel_fn"
  th_cont :: "instr list option"
  th_locals :: "'st locals"

text \<open>A thread whose loop has ended has no continuation.\<close>

definition thread_step :: "'st thread \<times> shared \<Rightarrow> 'st thread \<times> shared" where
  "thread_step x = (case x of (t, sh) \<Rightarrow>
     (case th_cont t of
        None \<Rightarrow> (t, sh)
      | Some [] \<Rightarrow>
          (if sh_stop sh then (t\<lparr>th_cont := None\<rparr>, sh)
           else (t\<lparr>th_cont := Some (kn_code (th_kernel t))\<rparr>, sh))
      | Some (c # cs) \<Rightarrow>
          (case exec (th_kernel t) c (th_locals t, sh) of (br, lc, sh') \<Rightarrow>
             (t\<lparr>th_cont := Some (br @ cs), th_locals := lc\<rparr>, sh'))))"

record 'st net =
  nt_threads :: "'st thread list"
  nt_shared :: shared

text \<open>
  The actions of a run: a step of a thread, or the code around the emulator writing to a stream,
  reading from one, posting a request, taking a response or setting the stop flag.
\<close>

datatype action =
    Run nat
  | Env_Write string flit
  | Env_Read string
  | Env_Post cl_signal
  | Env_Wait
  | Env_Stop

definition run_thread :: "nat \<Rightarrow> 'st net \<Rightarrow> 'st net" where
  "run_thread i n =
     (if i < length (nt_threads n) then
        (case thread_step (nt_threads n ! i, nt_shared n) of (t, sh) \<Rightarrow>
           n\<lparr>nt_threads := (nt_threads n)[i := t], nt_shared := sh\<rparr>)
      else n)"

fun act :: "action \<Rightarrow> 'st net \<Rightarrow> 'st net" where
  "act (Run i) n = run_thread i n"
| "act (Env_Write v f) n = n\<lparr>nt_shared := snd (net_write v f (nt_shared n))\<rparr>"
| "act (Env_Read v) n = n\<lparr>nt_shared := snd (net_read v (nt_shared n))\<rparr>"
| "act (Env_Post s) n = n\<lparr>nt_shared := (nt_shared n)\<lparr>sh_chan := post_request s (sh_chan (nt_shared n))\<rparr>\<rparr>"
| "act Env_Wait n = n\<lparr>nt_shared := (nt_shared n)\<lparr>sh_chan := snd (wait_response (sh_chan (nt_shared n)))\<rparr>\<rparr>"
| "act Env_Stop n = n\<lparr>nt_shared := (nt_shared n)\<lparr>sh_stop := True\<rparr>\<rparr>"

text \<open>
  The steps of a network in which the code around it uses some of the streams only: it writes those
  of \<open>ins\<close> and reads those of \<open>outs\<close>.
\<close>

fun permitted :: "string set \<Rightarrow> string set \<Rightarrow> action \<Rightarrow> bool" where
  "permitted ins outs (Env_Write v f) \<longleftrightarrow> v \<in> ins"
| "permitted ins outs (Env_Read v) \<longleftrightarrow> v \<in> outs"
| "permitted ins outs a \<longleftrightarrow> True"

inductive net_step :: "string set \<Rightarrow> string set \<Rightarrow> 'st net \<Rightarrow> 'st net \<Rightarrow> bool" for ins outs where
  step: "permitted ins outs a \<Longrightarrow> net_step ins outs n (act a n)"

inductive_cases net_stepE: "net_step ins outs n n'"

definition run_net :: "action list \<Rightarrow> 'st net \<Rightarrow> 'st net" where
  "run_net as n = fold act as n"

subsection \<open>The network of a plan\<close>

text \<open>
  The stream that the emitted main function passes for a port. The null stream of the runtime has
  the name \<open>null\<close> here, which no variable of the emitter has.
\<close>

definition null_var :: string where
  "null_var = ''null''"

definition port_stream :: "wiring \<Rightarrow> port_key \<Rightarrow> string" where
  "port_stream w key = (case wi_map w key of None \<Rightarrow> null_var | Some v \<Rightarrow> v)"

definition initial_stream :: "wiring \<Rightarrow> string \<Rightarrow> sw_stream" where
  "initial_stream w v = (case map_of (wi_decls w) v of None \<Rightarrow> sw_null | Some d \<Rightarrow> SwStream d)"

definition kernel_fn_of :: "wiring \<Rightarrow> 'st body \<Rightarrow> 'st body \<Rightarrow> kernel_hls \<Rightarrow> 'st kernel_fn" where
  "kernel_fn_of w h s k =
     \<lparr>kn_in = (\<lambda>i. port_stream w (kh_name k, False, int i)),
      kn_out = (\<lambda>i. port_stream w (kh_name k, True, int i)),
      kn_code = loop_code k, kn_handler = h, kn_signal = s\<rparr>"

text \<open>The bodies are given by kernel: handler, signal body and the state after the init body.\<close>

definition emulator :: "(kernel_hls \<Rightarrow> 'st body \<times> 'st body \<times> 'st) \<Rightarrow> build \<Rightarrow> 'st net" where
  "emulator bodies b =
     (let w = wire_all b in
      \<lparr>nt_threads =
         map (\<lambda>k. case bodies k of (h, s, st) \<Rightarrow>
           \<lparr>th_kernel = kernel_fn_of w h s k, th_cont = Some [], th_locals = kernel_locals k st\<rparr>) (b_kernels b),
       nt_shared =
         \<lparr>sh_streams = initial_stream w, sh_chan = channel_empty, sh_stop = False,
          sh_sent = (\<lambda>_. []), sh_got = (\<lambda>_. [])\<rparr>\<rparr>)"

subsection \<open>Streams deliver in order, whatever the interleaving\<close>

text \<open>A stream operation is one step of the stream with its history, as \<open>sw_step\<close> describes it.\<close>

definition stream_history :: "shared \<Rightarrow> string \<Rightarrow> sw_stream \<times> flit list \<times> flit list" where
  "stream_history sh v = (sh_streams sh v, sh_sent sh v, sh_got sh v)"

definition histories_ok :: "(string \<Rightarrow> sw_stream) \<Rightarrow> shared \<Rightarrow> bool" where
  "histories_ok s0 sh \<longleftrightarrow> (\<forall>v. sw_inv (sw_capacity (s0 v)) (stream_history sh v))"

lemma net_write_step:
  assumes "net_write v f sh = (ok, sh')"
  shows "sw_step (stream_history sh v) (stream_history sh' v)"
    and "u \<noteq> v \<Longrightarrow> stream_history sh' u = stream_history sh u"
  using assms by (cases "sw_write_nb f (sh_streams sh v)";
      auto simp: net_write_def stream_history_def Let_def intro: sw_step.intros split: if_splits)+

lemma net_read_step:
  assumes "net_read v sh = (r, sh')"
  shows "sw_step (stream_history sh v) (stream_history sh' v)"
    and "u \<noteq> v \<Longrightarrow> stream_history sh' u = stream_history sh u"
  using assms by (cases "sw_read_nb (sh_streams sh v)"; cases r;
      auto simp: net_read_def stream_history_def Let_def intro: sw_step.intros)+

lemma net_write_histories:
  "histories_ok s0 sh \<Longrightarrow> net_write v f sh = (ok, sh') \<Longrightarrow> histories_ok s0 sh'"
  unfolding histories_ok_def by (metis net_write_step sw_step_inv)

lemma net_read_histories:
  "histories_ok s0 sh \<Longrightarrow> net_read v sh = (r, sh') \<Longrightarrow> histories_ok s0 sh'"
  unfolding histories_ok_def by (metis net_read_step sw_step_inv)

lemma histories_other [simp]:
  "histories_ok s0 (sh\<lparr>sh_chan := c\<rparr>) = histories_ok s0 sh"
  "histories_ok s0 (sh\<lparr>sh_stop := b\<rparr>) = histories_ok s0 sh"
  by (simp_all add: histories_ok_def stream_history_def)

lemma exec_histories:
  "exec kn c (lc, sh) = (br, lc', sh') \<Longrightarrow> histories_ok s0 sh \<Longrightarrow> histories_ok s0 sh'"
  by (cases c) (auto simp: poll_channel_def read_input_def write_output_def split: if_splits option.splits prod.splits
      intro: net_write_histories net_read_histories)

lemma thread_step_histories:
  "thread_step (t, sh) = (t', sh') \<Longrightarrow> histories_ok s0 sh \<Longrightarrow> histories_ok s0 sh'"
  by (auto simp: thread_step_def split: option.splits list.splits if_splits prod.splits intro: exec_histories)

lemma act_histories: "histories_ok s0 (nt_shared n) \<Longrightarrow> histories_ok s0 (nt_shared (act a n))"
  by (cases a) (auto simp: run_thread_def split: prod.splits intro: thread_step_histories
      net_write_histories net_read_histories prod.collapse [symmetric])

lemma reachable_histories:
  "(net_step ins outs)\<^sup>*\<^sup>* n n' \<Longrightarrow> histories_ok s0 (nt_shared n) \<Longrightarrow> histories_ok s0 (nt_shared n')"
  by (induction rule: rtranclp_induct) (auto elim!: net_stepE intro: act_histories)

lemma initial_stream_ok: "sw_ok (initial_stream w v) \<and> sw_q (initial_stream w v) = []"
  by (simp add: initial_stream_def sw_null_def SwStream_def sw_ok_def split: option.splits)

lemma emulator_histories: "histories_ok (initial_stream (wire_all b)) (nt_shared (emulator bodies b))"
  using initial_stream_ok by (simp add: emulator_def histories_ok_def stream_history_def sw_inv_def Let_def)

subsection \<open>No kernel blocks\<close>

fun steps_of :: "instr \<Rightarrow> nat" where
  "steps_of (If_Signal a b) = Suc (max (sum_list (map steps_of a)) (sum_list (map steps_of b)))"
| "steps_of _ = 1"

definition code_steps :: "instr list \<Rightarrow> nat" where
  "code_steps cs = sum_list (map steps_of cs)"

definition steps_left :: "'st thread \<Rightarrow> nat" where
  "steps_left t = (case th_cont t of None \<Rightarrow> 0 | Some cs \<Rightarrow> Suc (code_steps cs))"

lemma code_steps_simps [simp]:
  "code_steps [] = 0" "code_steps (c # cs) = steps_of c + code_steps cs"
  "code_steps (cs @ ds) = code_steps cs + code_steps ds"
  by (simp_all add: code_steps_def)

lemma steps_of_If_Signal [simp]: "steps_of (If_Signal a b) = Suc (max (code_steps a) (code_steps b))"
  by (simp add: code_steps_def)

declare steps_of.simps(1) [simp del]

lemma code_steps_ports [simp]:
  "code_steps (map (\<lambda>p. Read_Input (g p)) ps) = length ps"
  "code_steps (map (\<lambda>p. Write_Output (g p)) ps) = length ps"
  by (induction ps) simp_all

lemma steps_left_zero: "steps_left t = 0 \<longleftrightarrow> th_cont t = None"
  by (simp add: steps_left_def split: option.splits)

lemma stream_stop:
  "net_write v f sh = (ok, sh') \<Longrightarrow> sh_stop sh' = sh_stop sh"
  "net_read v sh = (r, sh') \<Longrightarrow> sh_stop sh' = sh_stop sh"
  by (auto simp: net_write_def net_read_def split_beta)

lemma exec_stop:
  assumes "exec kn c (lc, sh) = (br, lc', sh')"
  shows "sh_stop sh' = sh_stop sh" and "code_steps br < steps_of c"
  using assms by (cases c; auto simp: poll_channel_def read_input_def write_output_def code_steps_def
      split: if_splits option.splits prod.splits dest: stream_stop)+

lemma exec_progress:
  "exec kn c (lc, sh) = (br, lc', sh') \<Longrightarrow> sh_stop sh' = sh_stop sh \<and> Suc (code_steps br) \<le> steps_of c"
  by (simp add: Suc_le_eq exec_stop)

lemma thread_step_stop:
  assumes "thread_step (t, sh) = (t', sh')"
  shows "sh_stop sh' = sh_stop sh" and "sh_stop sh \<Longrightarrow> steps_left t' \<le> steps_left t - 1"
    and "th_kernel t' = th_kernel t"
    and "steps_left t \<le> Suc (code_steps (kn_code (th_kernel t))) \<Longrightarrow>
      steps_left t' \<le> Suc (code_steps (kn_code (th_kernel t)))"
  using assms by (auto simp: thread_step_def steps_left_def split: option.splits list.splits if_splits prod.splits
      dest!: exec_progress)

lemma act_stop:
  assumes "sh_stop (nt_shared n)" "i < length (nt_threads n)"
  shows "sh_stop (nt_shared (act a n))" and "length (nt_threads (act a n)) = length (nt_threads n)"
    and "steps_left (nt_threads (act a n) ! i) \<le> steps_left (nt_threads n ! i) - (if a = Run i then 1 else 0)"
proof -
  have "sh_stop (nt_shared (act a n)) \<and> length (nt_threads (act a n)) = length (nt_threads n) \<and>
    steps_left (nt_threads (act a n) ! i) \<le> steps_left (nt_threads n ! i) - (if a = Run i then 1 else 0)"
  proof (cases a)
    case (Run j)
    obtain t sh where s: "thread_step (nt_threads n ! j, nt_shared n) = (t, sh)" by (metis prod.exhaust)
    from thread_step_stop [OF s] assms show ?thesis by (auto simp: Run run_thread_def s nth_list_update)
  qed (use assms stream_stop [OF prod.collapse [symmetric]] in auto)
  then show "sh_stop (nt_shared (act a n))" "length (nt_threads (act a n)) = length (nt_threads n)"
    "steps_left (nt_threads (act a n) ! i) \<le> steps_left (nt_threads n ! i) - (if a = Run i then 1 else 0)"
    by simp_all
qed

lemma run_net_stops:
  assumes "sh_stop (nt_shared n)" "i < length (nt_threads n)"
    "steps_left (nt_threads n ! i) \<le> length (filter (\<lambda>a. a = Run i) as)"
  shows "th_cont (nt_threads (run_net as n) ! i) = None"
  using assms
proof (induction as arbitrary: n)
  case Nil
  then show ?case by (simp add: run_net_def steps_left_zero)
next
  case (Cons a as)
  have "steps_left (nt_threads (act a n) ! i) \<le> length (filter (\<lambda>a. a = Run i) as)"
    using act_stop(3) [OF Cons.prems(1,2), of a] Cons.prems(3) by (auto split: if_splits)
  then show ?case using Cons.IH [of "act a n"] act_stop [OF Cons.prems(1,2), of a] Cons.prems(2)
    by (simp add: run_net_def)
qed

text \<open>How long the rest of the loop body is, in every reachable state.\<close>

definition in_loop :: "'st net \<Rightarrow> bool" where
  "in_loop n \<longleftrightarrow> (\<forall>t \<in> set (nt_threads n). steps_left t \<le> Suc (code_steps (kn_code (th_kernel t))))"

lemma act_in_loop: "in_loop n \<Longrightarrow> in_loop (act a n)"
proof (cases a)
  case (Run j)
  assume n: "in_loop n"
  obtain t sh where s: "thread_step (nt_threads n ! j, nt_shared n) = (t, sh)" by (metis prod.exhaust)
  show ?thesis
  proof (cases "j < length (nt_threads n)")
    case True
    then have "nt_threads n ! j \<in> set (nt_threads n)" by simp
    with n thread_step_stop(3,4) [OF s] True set_update_subset_insert [of "nt_threads n" j t] show ?thesis
      by (auto simp: Run run_thread_def s in_loop_def)
  qed (use n in \<open>simp add: Run run_thread_def\<close>)
qed (simp_all add: in_loop_def)

lemma act_kernels: "map th_kernel (nt_threads (act a n)) = map th_kernel (nt_threads n)"
  by (cases a) (auto simp: run_thread_def map_update thread_step_stop(3) list_update_same_conv split: prod.splits)

lemma reachable_in_loop:
  "(net_step ins outs)\<^sup>*\<^sup>* n n' \<Longrightarrow> in_loop n \<Longrightarrow> in_loop n'"
  by (induction rule: rtranclp_induct) (auto elim!: net_stepE intro: act_in_loop)

lemma reachable_kernels:
  "(net_step ins outs)\<^sup>*\<^sup>* n n' \<Longrightarrow> map th_kernel (nt_threads n') = map th_kernel (nt_threads n)"
  by (induction rule: rtranclp_induct) (auto elim!: net_stepE simp: act_kernels)

lemma loop_code_steps:
  "code_steps (loop_code k) \<le> length (kh_in_ports k) + length (kh_out_ports k) + 5"
  by (simp add: loop_code_def handler_code_def)

end
