(* ===== verification/StreamKernel.thy ===== *)
theory StreamKernel
  imports Emulator "HOL-Library.Sublist"
begin

text \<open>
  A kernel as a transformer of streams. The interface \<open>stream_kernel\<close> asks of the bodies of an element
  an invariant between its local variables, the flits it has read on each input and the flits it has
  put out on one output; the invariant then holds of the histories of the streams in every network,
  however the threads interleave, up to what a full output stream refuses.
\<close>

subsection \<open>Histories under one instruction\<close>

lemma net_read_log:
  "net_read v sh = (r, sh') \<Longrightarrow>
     sh_sent sh' = sh_sent sh \<and>
     sh_got sh' = (case r of None \<Rightarrow> sh_got sh | Some f \<Rightarrow> (sh_got sh)(v := sh_got sh v @ [f]))"
  by (auto simp: net_read_def split_beta split: option.splits)

lemma net_write_refused:
  assumes "net_write v f sh = (False, sh')" "histories_ok s0 sh"
  shows "sw_capacity (s0 v) \<le> int (length (sh_sent sh v))"
  using assms by (auto simp: net_write_def sw_write_nb_def histories_ok_def sw_inv_def stream_history_def
      split: if_splits dest: spec [where x = v])

lemma net_write_log:
  "net_write v f sh = (ok, sh') \<Longrightarrow>
     sh_got sh' = sh_got sh \<and> sh_sent sh' = (if ok then (sh_sent sh)(v := sh_sent sh v @ [f]) else sh_sent sh) \<and>
     (ok \<or> (\<forall>s0. histories_ok s0 sh \<longrightarrow> sw_capacity (s0 v) \<le> int (length (sh_sent sh v))))"
  using net_write_refused by (cases ok) (auto simp: net_write_def split_beta)

lemma poll_channel_log:
  "poll_channel (lc, sh) = (lc', sh') \<Longrightarrow>
     lc_ports lc' = lc_ports lc \<and> lc_state lc' = lc_state lc \<and> lc_ret lc' = lc_ret lc
     \<and> sh_sent sh' = sh_sent sh \<and> sh_got sh' = sh_got sh"
  by (auto simp: poll_channel_def split: if_splits option.splits prod.splits)

text \<open>A kernel moves flits of its own streams only.\<close>

lemma exec_elsewhere:
  assumes "exec kn c (lc, sh) = (br, lc', sh')"
  shows "\<forall>i. kn_out kn i \<noteq> v \<Longrightarrow> sh_sent sh' v = sh_sent sh v" and "\<forall>i. kn_in kn i \<noteq> v \<Longrightarrow> sh_got sh' v = sh_got sh v"
  using assms by (cases c; auto simp: read_input_def write_output_def split: if_splits option.splits prod.splits
      dest!: net_read_log net_write_log poll_channel_log; fail)+

lemma thread_step_elsewhere:
  assumes "thread_step (t, sh) = (t', sh')"
  shows "\<forall>i. kn_out (th_kernel t) i \<noteq> v \<Longrightarrow> sh_sent sh' v = sh_sent sh v"
    and "\<forall>i. kn_in (th_kernel t) i \<noteq> v \<Longrightarrow> sh_got sh' v = sh_got sh v"
  using assms by (auto simp: thread_step_def split: option.splits list.splits if_splits prod.splits
      dest: exec_elsewhere)

subsection \<open>The stages of the loop\<close>

text \<open>
  The loop reads its inputs, clears its outputs, runs a body and writes its outputs; \<open>arriving\<close>,
  \<open>cleared\<close>, \<open>leaving\<close> and \<open>answering\<close> are the lists of instructions that can be left to do.
\<close>

fun leaving :: "instr list \<Rightarrow> bool" where
  "leaving [] = True"
| "leaving (Clear_Results # cs) = leaving cs"
| "leaving (Write_Output i # cs) = (Write_Output i \<notin> set cs \<and> leaving cs)"
| "leaving _ = False"

fun answering :: "instr list \<Rightarrow> bool" where
  "answering [] = True"
| "answering (Signal_Body # cs) = answering cs"
| "answering (Send_Response # cs) = answering cs"
| "answering _ = False"

fun cleared :: "nat \<Rightarrow> instr list \<Rightarrow> bool" where
  "cleared q (Handler_Body # cs) = (leaving cs \<and> Write_Output q \<in> set cs)"
| "cleared q [If_Signal a (Handler_Body # cs)] = (answering a \<and> leaving cs \<and> Write_Output q \<in> set cs)"
| "cleared q _ = False"

fun_cases cleared_branchE: "cleared q (If_Signal a b # cs)"

fun arriving :: "nat set \<Rightarrow> nat \<Rightarrow> instr list \<Rightarrow> bool" where
  "arriving ins q (Poll_Signal # cs) = arriving ins q cs"
| "arriving ins q (Read_Input i # cs) = (i \<in> ins \<and> arriving ins q cs)"
| "arriving ins q (Clear_Outputs # cs) = cleared q cs"
| "arriving ins q _ = False"

lemma arriving_reads: "arriving ins q (map (\<lambda>p. Read_Input (f p)) ps @ cs) \<longleftrightarrow> f ` set ps \<subseteq> ins \<and> arriving ins q cs"
  by (induction ps) auto

lemma leaving_writes: "leaving (map (\<lambda>p. Write_Output (f p)) ps) \<longleftrightarrow> distinct (map f ps)"
  by (induction ps) auto

lemma loop_code_stages:
  assumes "distinct (map port_no (kh_out_ports k))" "q \<in> set (map port_no (kh_out_ports k))"
  shows "arriving (set (map port_no (kh_in_ports k))) q (loop_code k)"
  using assms by (auto simp add: loop_code_def handler_code_def arriving_reads leaving_writes)

lemma stages_apart:
  "cs \<noteq> [] \<Longrightarrow> leaving cs \<Longrightarrow> \<not> answering cs" "leaving cs \<Longrightarrow> \<not> cleared q cs" "leaving cs \<Longrightarrow> \<not> arriving ins q cs"
  by (cases cs rule: leaving.cases; auto)+

text \<open>The flit of input \<open>i\<close> that the loop has read and the body has not taken.\<close>

definition held_at :: "nat \<Rightarrow> ports \<Rightarrow> flit list" where
  "held_at i p = (if po_input_port p AND PORT_BIT i \<noteq> 0 then [po_input_data p ! i] else [])"

lemma port_bit_or: "(x OR PORT_BIT j) AND PORT_BIT i = (if i = j then PORT_BIT i else x AND PORT_BIT i)"
  by (auto simp: PORT_BIT_def bit_eq_iff bit_simps)

lemma port_bit_and_not: "(x AND NOT (PORT_BIT j)) AND PORT_BIT i = (if i = j then 0 else x AND PORT_BIT i)"
  by (auto simp: PORT_BIT_def bit_eq_iff bit_simps)

lemma PORT_BIT_nonzero: "i < 32 \<Longrightarrow> PORT_BIT i \<noteq> 0"
  by (auto simp: PORT_BIT_def bit_eq_iff bit_simps)

lemma held_buffer_input:
  assumes "wants_input i lc" "i < length (po_input_data (lc_ports lc))" "i < 32"
  shows "held_at j (buffer_input i f (lc_ports lc)) = (if j = i then held_at i (lc_ports lc) @ [f] else held_at j (lc_ports lc))"
  using assms PORT_BIT_nonzero [of i] by (auto simp: held_at_def buffer_input_def wants_input_def port_bit_or)

text \<open>What the body has put out on port \<open>q\<close> and the loop has still to write.\<close>

definition pending_at :: "nat \<Rightarrow> ports \<Rightarrow> flit list" where
  "pending_at q p = (if po_output_port p AND PORT_BIT q \<noteq> 0 then [po_output_data p ! q] else [])"

text \<open>Calls of a body, with the flits that the loop reads before each; what they put out on port \<open>q\<close>.\<close>

definition handler_call :: "'st body \<Rightarrow> (nat \<times> flit) list \<Rightarrow> 'st body" where
  "handler_call h arrivals lc =
     h (map_ports (\<lambda>p. (fold (\<lambda>(i, f). buffer_input i f) arrivals p)\<lparr>po_output_port := 0\<rparr>) lc)"

fun handler_calls ::
  "nat \<Rightarrow> 'st body \<Rightarrow> (nat \<times> flit) list list \<Rightarrow> 'st locals \<Rightarrow> flit list \<times> 'st locals" where
  "handler_calls q h [] lc = ([], lc)"
| "handler_calls q h (a # as) lc =
     (let lc1 = handler_call h a lc; (fs, lc2) = handler_calls q h as lc1 in (pending_at q (lc_ports lc1) @ fs, lc2))"

lemma handler_calls_append:
  "handler_calls q h (as @ bs) lc =
     (let (fs, lc1) = handler_calls q h as lc; (gs, lc2) = handler_calls q h bs lc1 in (fs @ gs, lc2))"
  by (induction as arbitrary: lc) (simp_all add: Let_def split_beta)

lemma held_buffer_empty:
  assumes "held_at i p = []" "i < length (po_input_data p)" "i < 32"
  shows "held_at j (buffer_input i f p) = (if j = i then [f] else held_at j p)"
  using assms PORT_BIT_nonzero [of i] by (auto simp: held_at_def buffer_input_def port_bit_or split: if_splits)

lemma buffer_input_frame:
  "length (po_input_data (buffer_input i f p)) = length (po_input_data p)"
  "po_output_data (buffer_input i f p) = po_output_data p"
  by (simp_all add: buffer_input_def)

lemma held_clear: "held_at j (clear_input_ready (PORT_BIT i) p) = (if j = i then [] else held_at j p)"
  by (simp add: held_at_def clear_input_ready_def port_bit_and_not)

lemma held_set_output_port: "held_at i (set_output_port q f p) = held_at i p"
  by (simp add: held_at_def set_output_port_def)

lemma or_and_self: "(x OR m) AND m = m" for x m :: u32
  by (auto simp: bit_eq_iff bit_simps)

lemma pending_set_output:
  "po_output_port p = 0 \<Longrightarrow> 2 \<le> length (po_output_data p) \<Longrightarrow> pending_at 1 (set_output_port 1 f p) = [f]"
  using PORT_BIT_nonzero [of 1] by (simp add: pending_at_def set_output_port_def or_and_self)

lemma output_data_length [simp]:
  "length (po_output_data (set_output_port q f p)) = length (po_output_data p)"
  "po_input_data (set_output_port q f p) = po_input_data p"
  by (simp_all add: set_output_port_def)

definition unwritten :: "nat \<Rightarrow> instr list option \<Rightarrow> ports \<Rightarrow> flit list" where
  "unwritten q c p = (case c of None \<Rightarrow> [] | Some cs \<Rightarrow> if leaving cs \<and> Write_Output q \<in> set cs then pending_at q p else [])"

lemma answering_written [simp]: "answering cs \<Longrightarrow> unwritten q (Some cs) p = []"
  using stages_apart(1) [of cs] by (cases "cs = []") (auto simp: unwritten_def)

definition stage_ok :: "nat set \<Rightarrow> nat \<Rightarrow> instr list option \<Rightarrow> ports \<Rightarrow> bool" where
  "stage_ok ins q c p \<longleftrightarrow>
     (case c of None \<Rightarrow> True
      | Some cs \<Rightarrow> arriving ins q cs \<or> cleared q cs \<and> po_output_port p = 0 \<or> leaving cs \<or> answering cs)"

subsection \<open>The interface\<close>

text \<open>What a body and the invariant can see of the local variables, apart from masks of the outputs.\<close>

definition same_view :: "'st locals \<Rightarrow> 'st locals \<Rightarrow> bool" where
  "same_view lc lc' \<longleftrightarrow> lc_state lc' = lc_state lc \<and> lc_ret lc' = lc_ret lc
     \<and> po_input_port (lc_ports lc') = po_input_port (lc_ports lc)
     \<and> po_input_data (lc_ports lc') = po_input_data (lc_ports lc)
     \<and> po_output_data (lc_ports lc') = po_output_data (lc_ports lc)"

definition got_on :: "nat set \<Rightarrow> 'st kernel_fn \<Rightarrow> shared \<Rightarrow> nat \<Rightarrow> flit list" where
  "got_on ins kn sh i = (if i \<in> ins then sh_got sh (kn_in kn i) else [])"

lemma write_output_log:
  assumes "write_output kn i (lc, sh) = (lc', sh')"
  shows "same_view lc lc'" "sh_got sh' = sh_got sh" "po_output_port (lc_ports lc') = po_output_port (lc_ports lc)"
    and "v \<noteq> kn_out kn i \<Longrightarrow> sh_sent sh' v = sh_sent sh v"
    and "histories_ok s0 sh \<Longrightarrow> sh_sent sh' (kn_out kn i) = sh_sent sh (kn_out kn i) @ pending_at i (lc_ports lc) \<or>
       pending_at i (lc_ports lc) \<noteq> [] \<and> sh_sent sh' (kn_out kn i) = sh_sent sh (kn_out kn i) \<and>
       sw_capacity (s0 (kn_out kn i)) \<le> int (length (sh_sent sh (kn_out kn i)))"
  using assms by (auto simp: write_output_def pending_at_def record_result_def Let_def same_view_def
      split: if_splits prod.splits dest!: net_write_log)

text \<open>No two inputs have the same stream, and no other output has that of output \<open>q\<close>.\<close>

lemma got_on_cong: "sh_got sh' = sh_got sh \<Longrightarrow> got_on ins kn sh' = got_on ins kn sh"
  by (simp add: got_on_def fun_eq_iff)

definition own_ports :: "nat set \<Rightarrow> nat \<Rightarrow> 'st kernel_fn \<Rightarrow> bool" where
  "own_ports ins q kn \<longleftrightarrow> (\<forall>i. kn_out kn i = kn_out kn q \<longrightarrow> i = q) \<and> (\<forall>i\<in>ins. \<forall>j. kn_in kn j = kn_in kn i \<longrightarrow> j = i)"

lemma read_input_log:
  assumes "read_input kn i (lc, sh) = (lc', sh')"
  shows "sh_sent sh' = sh_sent sh"
    and "i \<in> ins \<Longrightarrow> own_ports ins q kn \<Longrightarrow> lc' = lc \<and> got_on ins kn sh' = got_on ins kn sh
      \<or> wants_input i lc \<and> (\<exists>f. lc' = map_ports (buffer_input i f) lc
          \<and> got_on ins kn sh' = (got_on ins kn sh)(i := got_on ins kn sh i @ [f]))"
  using assms by (auto simp: read_input_def got_on_def own_ports_def fun_eq_iff split: if_splits option.splits prod.splits
      dest!: net_read_log)

locale stream_kernel =
  fixes handler :: "'st body" and signal :: "'st body" and ins :: "nat set" and q :: nat
    and I :: "'st locals \<Rightarrow> (nat \<Rightarrow> flit list) \<Rightarrow> flit list \<Rightarrow> bool"
  assumes view: "I lc got out \<Longrightarrow> same_view lc lc' \<Longrightarrow> I lc' got out"
    and arrive: "I lc got out \<Longrightarrow> i \<in> ins \<Longrightarrow> wants_input i lc \<Longrightarrow>
      I (map_ports (buffer_input i f) lc) (got(i := got i @ [f])) out"
    and handle: "I lc got out \<Longrightarrow> po_output_port (lc_ports lc) = 0 \<Longrightarrow>
      I (handler lc) got (out @ pending_at q (lc_ports (handler lc)))"
    and answer: "I lc got out \<Longrightarrow> I (signal lc) got out"
begin

definition follows :: "int \<Rightarrow> 'st thread \<times> shared \<Rightarrow> bool" where
  "follows cap x = (case x of (t, sh) \<Rightarrow>
     stage_ok ins q (th_cont t) (lc_ports (th_locals t)) \<and>
     (\<exists>out. I (th_locals t) (got_on ins (th_kernel t) sh) out \<and>
       subseq (sh_sent sh (kn_out (th_kernel t) q) @ unwritten q (th_cont t) (lc_ports (th_locals t))) out \<and>
       (int (length out) \<le> cap \<longrightarrow>
          sh_sent sh (kn_out (th_kernel t) q) @ unwritten q (th_cont t) (lc_ports (th_locals t)) = out)))"

lemma followsI:
  assumes "stage_ok ins q c (lc_ports lc)" "I lc (got_on ins (th_kernel t) sh) out"
    "subseq (sh_sent sh (kn_out (th_kernel t) q) @ unwritten q c (lc_ports lc)) out"
    "int (length out) \<le> cap \<Longrightarrow> sh_sent sh (kn_out (th_kernel t) q) @ unwritten q c (lc_ports lc) = out"
  shows "follows cap (t\<lparr>th_cont := c, th_locals := lc\<rparr>, sh)"
  using assms by (auto simp: follows_def)

lemma follows_exec:
  assumes ex: "exec kn c (lc, sh) = (br, lc', sh')"
    and kn: "th_kernel t = kn" "kn_handler kn = handler" "kn_signal kn = signal" "own_ports ins q kn"
    and hist: "histories_ok s0 sh" "sw_capacity (s0 (kn_out kn q)) = cap"
    and stage: "stage_ok ins q (Some (c # cs)) (lc_ports lc)"
    and inv: "I lc (got_on ins kn sh) out"
    and sub: "subseq (sh_sent sh (kn_out kn q) @ unwritten q (Some (c # cs)) (lc_ports lc)) out"
    and eq: "int (length out) \<le> cap \<Longrightarrow> sh_sent sh (kn_out kn q) @ unwritten q (Some (c # cs)) (lc_ports lc) = out"
  shows "follows cap (t\<lparr>th_cont := Some (br @ cs), th_locals := lc'\<rparr>, sh')"
proof -
  from stage consider
      (poll) "c = Poll_Signal" "arriving ins q cs"
    | (read) i where "c = Read_Input i" "i \<in> ins" "arriving ins q cs"
    | (clear) "c = Clear_Outputs" "cleared q cs"
    | (branch) a hs where "c = If_Signal a (Handler_Body # hs)" "cs = []" "answering a" "leaving hs" "Write_Output q \<in> set hs" "po_output_port (lc_ports lc) = 0"
    | (handler) "c = Handler_Body" "leaving cs" "Write_Output q \<in> set cs" "po_output_port (lc_ports lc) = 0"
    | (results) "c = Clear_Results" "leaving cs"
    | (emit) i where "c = Write_Output i" "leaving cs" "Write_Output i \<notin> set cs"
    | (signal) "c = Signal_Body" "answering cs"
    | (respond) "c = Send_Response" "answering cs"
    by (cases c) (auto simp: stage_ok_def elim!: cleared_branchE)
  then show ?thesis
  proof cases
    case poll
    then have "br = []" "poll_channel (lc, sh) = (lc', sh')" using ex by auto
    note p = poll_channel_log [OF this(2)] \<open>br = []\<close>
    have "I lc' (got_on ins kn sh') out" 
      using view [OF inv, of lc'] p by (simp add: same_view_def got_on_cong [of sh' sh])
    then show ?thesis using sub eq p poll kn(1)
      by (intro followsI [where out = out]) (auto simp: stage_ok_def unwritten_def dest: stages_apart(3))
  next
    case (read i)
    then have "br = []" "read_input kn i (lc, sh) = (lc', sh')" using ex by auto
    from read_input_log(1) [OF this(2)] read_input_log(2) [OF this(2) read(2) kn(4)]
    have "sh_sent sh' = sh_sent sh \<and> I lc' (got_on ins kn sh') out"
      using arrive [OF inv read(2)] inv by fastforce
    then show ?thesis using sub eq read kn(1) \<open>br = []\<close>
      by (intro followsI [where out = out]) (auto simp: stage_ok_def unwritten_def dest: stages_apart(3))
  next
    case clear
    then have x: "br = []" "sh' = sh" "lc' = (map_ports (\<lambda>p. p\<lparr>po_output_port := 0\<rparr>) lc)\<lparr>lc_last_rport := lc_ret lc\<rparr>"
      using ex by auto
    have "I lc' (got_on ins kn sh) out" using view [OF inv, of lc'] x by (simp add: same_view_def)
    then show ?thesis using sub eq x clear kn(1)
      by (intro followsI [where out = out]) (auto simp: stage_ok_def unwritten_def dest: stages_apart(2))
  next
    case (branch a hs)
    then have x: "sh' = sh" "lc' = lc" "br = a \<or> br = Handler_Body # hs" using ex by (auto split: if_splits)
    have "\<not> leaving br \<or> br = []" using x(3) branch(3) by (auto dest: stages_apart(1))
    then show ?thesis using sub eq x branch kn(1) inv
      by (intro followsI [where out = out]) (auto simp: stage_ok_def unwritten_def)
  next
    case handler
    then have x: "br = []" "sh' = sh" "lc' = handler lc" using ex kn by auto
    show ?thesis using sub eq x handler kn(1) handle [OF inv handler(4)]
      by (intro followsI [where out = "out @ pending_at q (lc_ports lc')"])
        (auto simp: stage_ok_def unwritten_def list_emb_append_mono)
  next
    case results
    then have x: "br = []" "sh' = sh"
      "lc' = map_ports (\<lambda>p. p\<lparr>po_output_failed := 0, po_output_success := 0\<rparr>) lc" using ex by auto
    have "I lc' (got_on ins kn sh) out" using view [OF inv, of lc'] x by (simp add: same_view_def)
    moreover have "unwritten q (Some cs) (lc_ports lc') = unwritten q (Some (c # cs)) (lc_ports lc)"
      using results x by (simp add: unwritten_def pending_at_def)
    ultimately show ?thesis using sub eq x results kn(1)
      by (intro followsI [where out = out]) (simp_all add: stage_ok_def)
  next
    case (emit i)
    then have x: "br = []" "write_output kn i (lc, sh) = (lc', sh')" using ex by auto
    note w = write_output_log [OF x(2)]
    have inv': "I lc' (got_on ins kn sh') out" using view [OF inv w(1)] by (simp add: got_on_cong [OF w(2)])
    have stage': "stage_ok ins q (Some cs) (lc_ports lc')" using emit by (simp add: stage_ok_def)
    show ?thesis
    proof (cases "i = q")
      case False
      then have "kn_out kn q \<noteq> kn_out kn i" using kn(4) by (auto simp: own_ports_def)
      from w(4) [OF this] have "sh_sent sh' (kn_out kn q) = sh_sent sh (kn_out kn q)" .
      moreover have u: "unwritten q (Some cs) (lc_ports lc') = unwritten q (Some (c # cs)) (lc_ports lc)"
        using emit False w(1,3) by (simp add: unwritten_def pending_at_def same_view_def)
      ultimately show ?thesis using sub eq kn(1) inv' stage' x(1)
        by (intro followsI [where out = out]) (simp_all add: u)
    next
      case True
      let ?sent = "sh_sent sh (kn_out kn q)" let ?pend = "pending_at q (lc_ports lc)"
      have u: "unwritten q (Some (c # cs)) (lc_ports lc) = ?pend" "unwritten q (Some cs) (lc_ports lc') = []"
        using emit True by (simp_all add: unwritten_def)
      from w(5) [OF hist(1)] consider "sh_sent sh' (kn_out kn q) = ?sent @ ?pend"
        | "sh_sent sh' (kn_out kn q) = ?sent" "?pend \<noteq> []" "cap \<le> int (length ?sent)"
        using True hist(2) by blast
      then show ?thesis
      proof cases
        case 1
        then show ?thesis using sub eq kn(1) inv' stage' x(1) u
          by (intro followsI [where out = out]) simp_all
      next
        case 2
        have "\<not> int (length out) \<le> cap"
        proof
          assume le: "int (length out) \<le> cap"
          from eq [OF le] have "length out = length ?sent + length ?pend" unfolding u by (metis length_append)
          with 2 le show False by (cases ?pend) auto
        qed
        moreover have "subseq ?sent out" using sub unfolding u by (auto intro: subseq_order.trans [rotated])
        ultimately show ?thesis using 2 kn(1) inv' stage' x(1) u
          by (intro followsI [where out = out]) simp_all
      qed
    qed
  next
    case signal
    then have x: "br = []" "sh' = sh" "lc' = signal (lc\<lparr>lc_outevent := lc_event lc\<rparr>)" using ex kn by auto
    have "I (lc\<lparr>lc_outevent := lc_event lc\<rparr>) (got_on ins kn sh) out" using view [OF inv] by (simp add: same_view_def)
    from answer [OF this] show ?thesis using sub eq x signal kn(1)
      by (intro followsI [where out = out]) (simp_all add: stage_ok_def answering_written)
  next
    case respond
    then have x: "br = []" "sh_got sh' = sh_got sh" "sh_sent sh' = sh_sent sh" "lc' = lc\<lparr>lc_has_signal := False\<rparr>"
      using ex by auto
    have "I lc' (got_on ins kn sh') out" using view [OF inv, of lc'] x by (simp add: same_view_def got_on_cong [of sh' sh])
    then show ?thesis using sub eq x respond kn(1)
      by (intro followsI [where out = out]) (simp_all add: stage_ok_def answering_written)
  qed
qed

lemma follows_step:
  assumes step: "thread_step (t, sh) = (t', sh')"
    and kn: "th_kernel t = kn" "kn_handler kn = handler" "kn_signal kn = signal" "own_ports ins q kn" "arriving ins q (kn_code kn)"
    and hist: "histories_ok s0 sh" "sw_capacity (s0 (kn_out kn q)) = cap"
    and fw: "follows cap (t, sh)"
  shows "follows cap (t', sh')"
proof -
  consider "th_cont t = None" | "th_cont t = Some []" | c cs where "th_cont t = Some (c # cs)"
    by (metis list.exhaust option.exhaust)
  then show ?thesis
  proof cases
    case 1
    with step fw show ?thesis by (simp add: thread_step_def)
  next
    case 2
    with step kn have "t' = t\<lparr>th_cont := None\<rparr> \<or> t' = t\<lparr>th_cont := Some (kn_code kn)\<rparr>" "sh' = sh"
      by (auto simp: thread_step_def split: if_splits)
    with fw 2 kn(5) show ?thesis
      by (auto simp: follows_def unwritten_def stage_ok_def dest: stages_apart(3))
  next
    case 3
    obtain br lc' where ex: "exec kn c (th_locals t, sh) = (br, lc', sh')"
      and t': "t' = t\<lparr>th_cont := Some (br @ cs), th_locals := lc'\<rparr>"
      using step kn(1) by (auto simp: thread_step_def 3 split: prod.splits)
    from fw [unfolded follows_def prod.case 3 kn(1)] show ?thesis
      unfolding t' using follows_exec [OF ex kn(1-4) hist] by blast
  qed
qed

lemma follows_elsewhere:
  assumes "follows cap (t, sh)" "sh_sent sh' (kn_out (th_kernel t) q) = sh_sent sh (kn_out (th_kernel t) q)"
    and "\<And>i. i \<in> ins \<Longrightarrow> sh_got sh' (kn_in (th_kernel t) i) = sh_got sh (kn_in (th_kernel t) i)"
  shows "follows cap (t, sh')"
proof -
  have "got_on ins (th_kernel t) sh' = got_on ins (th_kernel t) sh" using assms(3) by (auto simp: got_on_def fun_eq_iff)
  with assms(1,2) show ?thesis by (simp add: follows_def)
qed

end

text \<open>
  No other thread and no permitted action of the surrounding code writes the output stream or reads
  the input streams.
\<close>

definition owns :: "string set \<Rightarrow> string set \<Rightarrow> 'st kernel_fn list \<Rightarrow> nat \<Rightarrow> nat set \<Rightarrow> nat \<Rightarrow> bool" where
  "owns ws rs kns i ins q \<longleftrightarrow>
     kn_out (kns ! i) q \<notin> ws \<and> (\<forall>p\<in>ins. kn_in (kns ! i) p \<notin> rs) \<and>
     (\<forall>j < length kns. j \<noteq> i \<longrightarrow> (\<forall>p. kn_out (kns ! j) p \<noteq> kn_out (kns ! i) q)
        \<and> (\<forall>r\<in>ins. \<forall>p. kn_in (kns ! j) p \<noteq> kn_in (kns ! i) r))"

context stream_kernel
begin

lemma act_follows:
  assumes i: "i < length (nt_threads n)" and kn: "th_kernel (nt_threads n ! i) = kn"
      "kn_handler kn = handler" "kn_signal kn = signal" "own_ports ins q kn" "arriving ins q (kn_code kn)"
    and own: "owns ws rs (map th_kernel (nt_threads n)) i ins q" and perm: "permitted ws rs a"
    and hist: "histories_ok s0 (nt_shared n)" "sw_capacity (s0 (kn_out kn q)) = cap"
    and fw: "follows cap (nt_threads n ! i, nt_shared n)"
  shows "follows cap (nt_threads (act a n) ! i, nt_shared (act a n))"
proof (cases a)
  case (Run j)
  obtain t sh where s: "thread_step (nt_threads n ! j, nt_shared n) = (t, sh)" by (metis prod.exhaust)
  consider "j = i" | "j \<noteq> i" "j < length (nt_threads n)" | "\<not> j < length (nt_threads n)" by blast
  then show ?thesis
  proof cases
    case 1
    from follows_step [OF s [unfolded 1] kn hist fw] i s [unfolded 1] show ?thesis by (simp add: Run run_thread_def 1)
  next
    case 2
    have o: "\<forall>p. kn_out (th_kernel (nt_threads n ! j)) p \<noteq> kn_out kn q"
      "\<forall>r\<in>ins. \<forall>p. kn_in (th_kernel (nt_threads n ! j)) p \<noteq> kn_in kn r"
      using own 2 i kn(1) by (auto simp: owns_def)
    have "follows cap (nt_threads n ! i, sh)"
      using o by (intro follows_elsewhere [OF fw] thread_step_elsewhere [OF s]) (auto simp: kn(1))
    then show ?thesis using 2 by (simp add: Run run_thread_def s)
  qed (use fw in \<open>simp add: Run run_thread_def\<close>)
next
  case (Env_Write v f)
  then have "v \<noteq> kn_out kn q" using perm own i kn(1) by (auto simp: owns_def)
  with Env_Write show ?thesis using net_write_log [OF prod.collapse [symmetric], of v f "nt_shared n"]
    by (auto intro!: follows_elsewhere [OF fw] simp: kn(1))
next
  case (Env_Read v)
  have "kn_in kn p \<noteq> v" if "p \<in> ins" for p using that perm own i kn(1) by (auto simp: owns_def Env_Read)
  with Env_Read show ?thesis using net_read_log [OF prod.collapse [symmetric], of v "nt_shared n"]
    by (auto intro!: follows_elsewhere [OF fw] simp: kn(1) split: option.splits)
qed (auto intro: follows_elsewhere [OF fw])

lemma reachable_follows:
  assumes reach: "(net_step ws rs)\<^sup>*\<^sup>* n n'" and i: "i < length (nt_threads n)"
    and kn: "th_kernel (nt_threads n ! i) = kn"
      "kn_handler kn = handler" "kn_signal kn = signal" "own_ports ins q kn" "arriving ins q (kn_code kn)"
    and own: "owns ws rs (map th_kernel (nt_threads n)) i ins q"
    and hist: "histories_ok s0 (nt_shared n)" "sw_capacity (s0 (kn_out kn q)) = cap"
    and fw: "follows cap (nt_threads n ! i, nt_shared n)"
  shows "follows cap (nt_threads n' ! i, nt_shared n')"
  using reach
proof (induction rule: rtranclp_induct)
  case base
  show ?case by (rule fw)
next
  case (step m m')
  note ks = reachable_kernels [OF step(1)]
  from step(2) obtain a where a: "m' = act a m" "permitted ws rs a" by (rule net_stepE)
  have "th_kernel (nt_threads m ! i) = kn" "i < length (nt_threads m)"
    using ks i kn(1) by (metis length_map nth_map)+
  with act_follows [OF _ _ kn(2-5) _ a(2) reachable_histories [OF step(1) hist(1)] hist(2) step(3)] own ks
  show ?case by (simp add: a)
qed

text \<open>What has been written is, in order, some of what the body has put out, and all of it while there is room.\<close>

lemma follows_result:
  assumes "follows cap (t, sh)"
  obtains out where "I (th_locals t) (got_on ins (th_kernel t) sh) out"
    "subseq (sh_sent sh (kn_out (th_kernel t) q)) out"
    "int (length out) \<le> cap \<Longrightarrow>
       prefix (sh_sent sh (kn_out (th_kernel t) q)) out \<and> length out \<le> length (sh_sent sh (kn_out (th_kernel t) q)) + 1"
proof -
  let ?sent = "sh_sent sh (kn_out (th_kernel t) q)" let ?u = "unwritten q (th_cont t) (lc_ports (th_locals t))"
  from assms obtain out where o: "I (th_locals t) (got_on ins (th_kernel t) sh) out" "subseq (?sent @ ?u) out"
    "int (length out) \<le> cap \<Longrightarrow> ?sent @ ?u = out" by (auto simp: follows_def)
  have "length ?u \<le> 1" by (simp add: unwritten_def pending_at_def split: option.split)
  with o show ?thesis by (intro that [of out]) (auto intro: subseq_order.trans [rotated] simp: prefix_def)
qed

end

subsection \<open>Elements with states of different types in one network\<close>

text \<open>
  Each kernel function has a local state of its own type. In a network of several elements the common
  type of states is one into which each is embedded.
\<close>

definition map_state :: "('a \<Rightarrow> 'b) \<Rightarrow> 'a locals \<Rightarrow> 'b locals" where
  "map_state f lc =
     \<lparr>lc_ret = lc_ret lc, lc_ports = lc_ports lc, lc_last_rport = lc_last_rport lc, lc_event = lc_event lc,
      lc_outevent = lc_outevent lc, lc_has_signal = lc_has_signal lc, lc_state = f (lc_state lc)\<rparr>"

definition embed :: "('b \<Rightarrow> 'a) \<Rightarrow> ('a \<Rightarrow> 'b) \<Rightarrow> 'a body \<Rightarrow> 'b body" where
  "embed get put h lc = map_state put (h (map_state get lc))"

lemma map_state_simps [simp]:
  "lc_ports (map_state f lc) = lc_ports lc" "lc_ret (map_state f lc) = lc_ret lc"
  "lc_state (map_state f lc) = f (lc_state lc)" "map_state f (map_ports g lc) = map_ports g (map_state f lc)"
  "map_state f (kernel_locals k st) = kernel_locals k (f st)"
  by (simp_all add: map_state_def kernel_locals_def)

lemma map_state_map [simp]: "map_state f (map_state g lc) = map_state (f o g) lc"
  by (simp add: map_state_def)

lemma map_state_id: "map_state id lc = lc"
  by (simp add: map_state_def)

locale embedded_kernel = stream_kernel handler signal ins q I
  for handler :: "'a body" and signal ins q I +
  fixes get :: "'b \<Rightarrow> 'a" and put :: "'a \<Rightarrow> 'b"
  assumes get_put: "get (put x) = x"

sublocale embedded_kernel \<subseteq>
  outer: stream_kernel "embed get put handler" "embed get put signal" ins q "\<lambda>lc. I (map_state get lc)"
proof
  fix lc :: "'b locals" and got :: "nat \<Rightarrow> flit list" and out :: "flit list"
  have "get o put = id" by (simp add: fun_eq_iff get_put)
  then have inner: "map_state get (embed get put h lc) = h (map_state get lc)" "lc_ports (embed get put h lc) = lc_ports (h (map_state get lc))"
    for h :: "'a body" by (simp_all add: embed_def map_state_id)
  assume i: "I (map_state get lc) got out"
  show "I (map_state get (embed get put signal lc)) got out" using answer [OF i] by (simp add: inner)
  show "I (map_state get lc') got out" if "same_view lc lc'" for lc'
    using that by (intro view [OF i]) (simp add: same_view_def)
  show "I (map_state get (map_ports (buffer_input k f) lc)) (got(k := got k @ [f])) out"
    if "k \<in> ins" "wants_input k lc" for k f using arrive [OF i, of k f] that by (simp add: wants_input_def)
  assume "po_output_port (lc_ports lc) = 0"
  then show "I (map_state get (embed get put handler lc)) got (out @ pending_at q (lc_ports (embed get put handler lc)))"
    using handle [OF i] by (simp add: inner)
qed

end
