(* ===== verification/Elements.thy ===== *)
theory Elements
  imports StreamKernel
begin

text \<open>
  Elements of the library (\<open>elements/core/*.clnp\<close>) as bodies of emulator kernels, and what a network
  with them delivers. The bodies are statements over the port variables and the \<open>_state\<close> of the element;
  \<open>return e\<close> sets \<open>_ret\<close>, as the emitter rewrites it. The interface \<open>element\<close> is what an
  element with one input and one output promises, and gives the interface of a kernel as a transformer
  of streams; \<open>forwarder\<close> is the case of an element that passes on some of its flits.
\<close>

subsection \<open>Elements with one input and one output\<close>

definition PORT_1 :: u32 where "PORT_1 = PORT_BIT 1"
definition PORT_2 :: u32 where "PORT_2 = PORT_BIT 2"

record pass_state =
  ps_flits_lo :: u32
  ps_flits_hi :: u32
  ps_packets :: u32
  ps_errors :: u32

definition pass_init :: pass_state where
  "pass_init = \<lparr>ps_flits_lo = 0, ps_flits_hi = 0, ps_packets = 0, ps_errors = 0\<rparr>"

definition pass_count :: "flit \<Rightarrow> pass_state \<Rightarrow> pass_state" where
  "pass_count f st =
     (let lo = ps_flits_lo st + 1 in
      st\<lparr>ps_flits_lo := lo,
         ps_flits_hi := (if lo = 0 then ps_flits_hi st + 1 else ps_flits_hi st),
         ps_packets := (if eop f then ps_packets st + 1 else ps_packets st)\<rparr>)"

definition pass_handler :: "pass_state body" where
  "pass_handler lc =
     (if input_ready PORT_1 (lc_ports lc) then
        (let (f, p) = read_input_port PORT_1 (lc_ports lc); st = lc_state lc in
         if flit_error f \<or> fcs_error f
         then lc\<lparr>lc_ports := p, lc_state := st\<lparr>ps_errors := ps_errors st + 1\<rparr>, lc_ret := PORT_1\<rparr>
         else lc\<lparr>lc_ports := set_output_port 1 f p, lc_state := pass_count f st, lc_ret := PORT_1\<rparr>)
      else lc\<lparr>lc_ret := PORT_1\<rparr>)"

definition set_lparams :: "u64 list \<Rightarrow> cl_signal \<Rightarrow> cl_signal" where
  "set_lparams xs s = s\<lparr>cs_lparam := xs @ drop (length xs) (cs_lparam s)\<rparr>"

definition split_count :: "pass_state \<Rightarrow> u64" where
  "split_count st = push_bit 32 (ucast (ps_flits_hi st)) OR ucast (ps_flits_lo st)"

definition pass_signal :: "pass_state body" where
  "pass_signal lc =
     lc\<lparr>lc_outevent := set_lparams
        [split_count (lc_state lc), ucast (ps_packets (lc_state lc)), ucast (ps_errors (lc_state lc))]
        (lc_outevent lc)\<rparr>"

definition pass_through_handler :: "unit body" where
  "pass_through_handler lc =
     (if input_ready PORT_1 (lc_ports lc)
      then (let (f, p) = read_input_port PORT_1 (lc_ports lc)
            in lc\<lparr>lc_ports := set_output_port 1 f p, lc_ret := PORT_1\<rparr>)
      else lc\<lparr>lc_ret := PORT_1\<rparr>)"

subsection \<open>Elements with several ports\<close>

definition tee_handler :: "unit body" where
  "tee_handler lc =
     (if input_ready PORT_1 (lc_ports lc)
      then (let (f, p) = read_input_port PORT_1 (lc_ports lc)
            in lc\<lparr>lc_ports := set_output_port 2 f (set_output_port 1 f p), lc_ret := PORT_1\<rparr>)
      else lc\<lparr>lc_ret := PORT_1\<rparr>)"

record demux_state =
  dm_rr :: u8
  dm_distributed :: u64

definition demux_init :: demux_state where
  "demux_init = \<lparr>dm_rr = 1, dm_distributed = 0\<rparr>"

definition demux_handler :: "demux_state body" where
  "demux_handler lc =
     (if input_ready PORT_1 (lc_ports lc)
      then (let (f, p) = read_input_port PORT_1 (lc_ports lc); st = lc_state lc
            in lc\<lparr>lc_ports := set_output_port (unat (dm_rr st)) f p,
                  lc_state := st\<lparr>dm_rr := dm_rr st mod 8 + 1, dm_distributed := dm_distributed st + 1\<rparr>,
                  lc_ret := PORT_1\<rparr>)
      else lc\<lparr>lc_ret := PORT_1\<rparr>)"

record mux_state =
  mx_rr :: u8
  mx_merged :: u64

definition mux_handler :: "mux_state body" where
  "mux_handler lc =
     (let p = mx_rr (lc_state lc) mod 8 + 1; msk = PORT_BIT (unat p); st = (lc_state lc)\<lparr>mx_rr := p\<rparr> in
      if po_input_port (lc_ports lc) AND msk \<noteq> 0
      then (let f = get_input_data (unat p) (lc_ports lc)
            in lc\<lparr>lc_ports := set_output_port 1 f (clear_input_ready msk (lc_ports lc)),
                  lc_state := st\<lparr>mx_merged := mx_merged st + 1\<rparr>, lc_ret := PORT_ALL\<rparr>)
      else lc\<lparr>lc_state := st, lc_ret := PORT_ALL\<rparr>)"

record counter_state =
  ct_flits :: u64
  ct_packets :: u64
  ct_bytes :: u64

definition counted_bytes :: "flit \<Rightarrow> int" where
  "counted_bytes f =
     (let valid = int OPENCLICKNP_PAYLOAD_BYTES - (if eop f then int (unat (padbytes f)) else 0)
      in if eop f \<and> valid < 0 then 0 else valid)"

definition counter_handler :: "counter_state body" where
  "counter_handler lc =
     (if input_ready PORT_1 (lc_ports lc)
      then (let (f, p) = read_input_port PORT_1 (lc_ports lc); st = lc_state lc
            in lc\<lparr>lc_ports := p,
                  lc_state := \<lparr>ct_flits = ct_flits st + 1,
                    ct_packets = (if eop f then ct_packets st + 1 else ct_packets st),
                    ct_bytes = ct_bytes st + word_of_int (counted_bytes f)\<rparr>,
                  lc_ret := PORT_1\<rparr>)
      else lc\<lparr>lc_ret := PORT_1\<rparr>)"

definition counter_signal :: "counter_state body" where
  "counter_signal lc =
     (let st = lc_state lc in
      lc\<lparr>lc_outevent := set_lparams [ct_flits st, ct_packets st, ct_bytes st] (lc_outevent lc),
         lc_state := (if cs_cmd (lc_event lc) = 1 then \<lparr>ct_flits = 0, ct_packets = 0, ct_bytes = 0\<rparr> else st)\<rparr>)"

subsection \<open>The interface of a forwarding element\<close>

abbreviation buffered :: "ports \<Rightarrow> flit list" where
  "buffered \<equiv> held_at 1"

abbreviation pending_out :: "ports \<Rightarrow> flit list" where
  "pending_out \<equiv> pending_at 1"

definition ports_fit :: "ports \<Rightarrow> bool" where
  "ports_fit p \<longleftrightarrow> 2 \<le> length (po_input_data p) \<and> 2 \<le> length (po_output_data p)"

text \<open>The loop of a kernel with one input and one output, both of number 1.\<close>

definition one_to_one :: "bool \<Rightarrow> instr list" where
  "one_to_one sig =
     (let body = [Handler_Body, Clear_Results, Write_Output 1] in
      (if sig then [Poll_Signal] else []) @ [Read_Input 1, Clear_Outputs]
      @ (if sig then [If_Signal [Signal_Body, Send_Response] body] else body))"

lemma PORT_BIT_1 [simp]: "PORT_BIT 1 = 2" "PORT_BIT (Suc 0) = 2"
  by (simp_all add: PORT_BIT_def)

text \<open>
  The interface of an element with one input and one output: a relation between its state, the flits it
  has dealt with and the flits it has put out. The flits read are those dealt with and the one in the
  input variable.
\<close>

definition taken :: "('st \<Rightarrow> flit list \<Rightarrow> flit list \<Rightarrow> bool) \<Rightarrow> 'st locals \<Rightarrow> (nat \<Rightarrow> flit list) \<Rightarrow> flit list \<Rightarrow> bool" where
  "taken R lc got out \<longleftrightarrow> ports_fit (lc_ports lc) \<and>
     (\<exists>seen. got 1 = seen @ buffered (lc_ports lc) \<and> R (lc_state lc) seen out)"

lemma taken_view: "taken R lc got out \<Longrightarrow> same_view lc lc' \<Longrightarrow> taken R lc' got out"
  by (clarsimp simp: taken_def same_view_def ports_fit_def held_at_def)

lemma taken_arrive:
  assumes "taken R lc got out" "wants_input 1 lc"
  shows "taken R (map_ports (buffer_input 1 f) lc) (got(1 := got 1 @ [f])) out"
proof -
  have "buffered (lc_ports lc) = []" "buffered (buffer_input 1 f (lc_ports lc)) = [f]"
    "ports_fit (buffer_input 1 f (lc_ports lc))"
    using assms by (simp_all add: wants_input_def held_at_def buffer_input_def taken_def ports_fit_def or_and_self)
  with assms show ?thesis by (simp add: taken_def)
qed

locale element =
  fixes handler :: "'st body" and signal :: "'st body" and R :: "'st \<Rightarrow> flit list \<Rightarrow> flit list \<Rightarrow> bool"
  assumes handler_deals: "R (lc_state lc) seen out \<Longrightarrow> ports_fit (lc_ports lc) \<Longrightarrow> po_output_port (lc_ports lc) = 0 \<Longrightarrow>
      R (lc_state (handler lc)) (seen @ buffered (lc_ports lc)) (out @ pending_out (lc_ports (handler lc)))
      \<and> buffered (lc_ports (handler lc)) = [] \<and> ports_fit (lc_ports (handler lc))"
    and signal_ports: "lc_ports (signal lc) = lc_ports lc"
    and signal_keeps: "R (lc_state lc) seen out \<Longrightarrow> R (lc_state (signal lc)) seen out"

sublocale element \<subseteq> stream_kernel handler signal "{1}" 1 "taken R"
proof
  fix lc :: "'st locals" and got :: "nat \<Rightarrow> flit list" and out :: "flit list"
  assume t: "taken R lc got out"
  then obtain seen where g: "got 1 = seen @ buffered (lc_ports lc)" and r: "R (lc_state lc) seen out" and fit: "ports_fit (lc_ports lc)"
    unfolding taken_def by blast
  show "taken R (signal lc) got out" using t signal_keeps by (auto simp: taken_def signal_ports)
  show "taken R lc' got out" if "same_view lc lc'" for lc' by (rule taken_view [OF t that])
  show "taken R (map_ports (buffer_input i x) lc) (got(i := got i @ [x])) out"
    if "i \<in> {1}" "wants_input i lc" for i x using that taken_arrive [OF t] by (simp del: One_nat_def)
  assume "po_output_port (lc_ports lc) = 0"
  from handler_deals [OF r fit this] show "taken R (handler lc) got (out @ pending_out (lc_ports (handler lc)))"
    unfolding taken_def using g by auto
qed

context element
begin

lemma element_result:
  assumes "follows cap (t, sh)" "kn_in (th_kernel t) 1 = vin" "kn_out (th_kernel t) 1 = vout"
  obtains seen rest out where "R (lc_state (th_locals t)) seen out" "sh_got sh vin = seen @ rest" "length rest \<le> 1"
    "subseq (sh_sent sh vout) out"
    "int (length out) \<le> cap \<Longrightarrow> prefix (sh_sent sh vout) out \<and> length out \<le> length (sh_sent sh vout) + 1"
proof -
  from follows_result [OF assms(1)] obtain out where i: "taken R (th_locals t) (got_on {1} (th_kernel t) sh) out"
    and sub: "subseq (sh_sent sh vout) out"
    and eq: "int (length out) \<le> cap \<Longrightarrow> prefix (sh_sent sh vout) out \<and> length out \<le> length (sh_sent sh vout) + 1"
    unfolding assms(3) by metis
  from i obtain seen where "sh_got sh vin = seen @ buffered (lc_ports (th_locals t))" "R (lc_state (th_locals t)) seen out"
    using assms(2) by (auto simp: taken_def got_on_def)
  moreover have "length (buffered (lc_ports (th_locals t))) \<le> 1" by (simp add: held_at_def)
  ultimately show thesis using sub eq that by blast
qed

end

text \<open>An element that passes on the flits it keeps.\<close>

locale forwarder =
  fixes handler :: "'st body" and signal :: "'st body" and keep :: "flit \<Rightarrow> bool"
  assumes handler_moves: "ports_fit (lc_ports lc) \<Longrightarrow> po_output_port (lc_ports lc) = 0 \<Longrightarrow>
      buffered (lc_ports (handler lc)) = [] \<and>
      pending_out (lc_ports (handler lc)) = filter keep (buffered (lc_ports lc)) \<and> ports_fit (lc_ports (handler lc))"
    and signal_moves: "lc_ports (signal lc) = lc_ports lc"

sublocale forwarder \<subseteq> element handler signal "\<lambda>_ seen out. out = filter keep seen"
  by unfold_locales (use handler_moves signal_moves in auto)

context forwarder
begin

lemma forwards_result:
  assumes "follows cap (t, sh)" "kn_in (th_kernel t) 1 = vin" "kn_out (th_kernel t) 1 = vout"
  shows "subseq (sh_sent sh vout) (filter keep (sh_got sh vin))"
    and "int (length (sh_got sh vin)) \<le> cap \<Longrightarrow> prefix (sh_sent sh vout) (filter keep (sh_got sh vin))
      \<and> length (filter keep (sh_got sh vin)) \<le> length (sh_sent sh vout) + 2"
proof -
  from element_result [OF assms] obtain seen rest out where out: "out = filter keep seen"
    and got: "sh_got sh vin = seen @ rest" and one: "length rest \<le> 1" and sub: "subseq (sh_sent sh vout) out"
    and eq: "int (length out) \<le> cap \<Longrightarrow> prefix (sh_sent sh vout) out \<and> length out \<le> length (sh_sent sh vout) + 1" by metis
  show "subseq (sh_sent sh vout) (filter keep (sh_got sh vin))"
    using list_emb_append_mono [OF sub list_emb_Nil] by (simp add: got out)
  have one': "length (filter keep rest) \<le> 1" using one le_trans [OF length_filter_le] by blast
  assume "int (length (sh_got sh vin)) \<le> cap"
  moreover have "length out \<le> length (sh_got sh vin)" by (simp add: got out le_add1 order.trans [OF length_filter_le])
  ultimately have "int (length out) \<le> cap" by linarith
  from eq [OF this] one' show "prefix (sh_sent sh vout) (filter keep (sh_got sh vin))
      \<and> length (filter keep (sh_got sh vin)) \<le> length (sh_sent sh vout) + 2"
    by (auto simp: got out prefix_def)
qed

end

subsection \<open>One iteration of the loop on its own, while no other thread runs\<close>

function run_code :: "'st kernel_fn \<Rightarrow> instr list \<Rightarrow> 'st locals \<times> shared \<Rightarrow> 'st locals \<times> shared" where
  "run_code kn [] x = x"
| "run_code kn (c # cs) x = (case exec kn c x of (br, y) \<Rightarrow> run_code kn (br @ cs) y)"
  by pat_completeness auto

termination
proof (relation "measure (\<lambda>(kn, cs, x). code_steps cs)", goal_cases)
  case (2 kn c cs x br y)
  obtain lc sh lc' sh' where "x = (lc, sh)" "y = (lc', sh')" by (metis prod.exhaust)
  with 2 exec_progress [of kn c lc sh br lc' sh'] show ?case by simp
qed simp

lemma run_code_net:
  assumes "i < length (nt_threads n)" "nt_threads n ! i = t" "th_cont t = Some cs"
  shows "\<exists>k. run_net (replicate k (Run i)) n =
    (case run_code (th_kernel t) cs (th_locals t, nt_shared n) of (lc, sh) \<Rightarrow>
       n\<lparr>nt_threads := (nt_threads n)[i := t\<lparr>th_cont := Some [], th_locals := lc\<rparr>], nt_shared := sh\<rparr>)"
  using assms
proof (induction "th_kernel t" cs "(th_locals t, nt_shared n)" arbitrary: n t rule: run_code.induct)
  case 1
  have "run_net (replicate 0 (Run i)) n = n\<lparr>nt_threads := (nt_threads n)[i := t\<lparr>th_cont := Some [], th_locals := th_locals t\<rparr>], nt_shared := nt_shared n\<rparr>"
  proof -
    have "t\<lparr>th_cont := Some [], th_locals := th_locals t\<rparr> = t" using 1(3) by (intro thread.equality) simp_all
    then show ?thesis using 1(2) by (auto simp: run_net_def)
  qed
  then show ?case unfolding run_code.simps(1) prod.case by (rule exI [where x = 0])
next
  case (2 c cs)
  obtain br lc sh where ex: "exec (th_kernel t) c (th_locals t, nt_shared n) = (br, lc, sh)" by (metis prod.exhaust)
  define t' where "t' = t\<lparr>th_cont := Some (br @ cs), th_locals := lc\<rparr>"
  define n' where "n' = n\<lparr>nt_threads := (nt_threads n)[i := t'], nt_shared := sh\<rparr>"
  have act: "act (Run i) n = n'"
    using 2(2-4) by (simp add: run_thread_def thread_step_def ex n'_def t'_def)
  have "\<exists>k. run_net (replicate k (Run i)) n' =
    (case run_code (th_kernel t') (br @ cs) (th_locals t', nt_shared n') of (lc, sh) \<Rightarrow>
       n'\<lparr>nt_threads := (nt_threads n')[i := t'\<lparr>th_cont := Some [], th_locals := lc\<rparr>], nt_shared := sh\<rparr>)"
    by (rule 2(1)) (use ex 2(2) in \<open>simp_all add: n'_def t'_def\<close>)
  then obtain k where "run_net (replicate k (Run i)) n' =
    (case run_code (th_kernel t') (br @ cs) (th_locals t', nt_shared n') of (lc, sh) \<Rightarrow>
       n'\<lparr>nt_threads := (nt_threads n')[i := t'\<lparr>th_cont := Some [], th_locals := lc\<rparr>], nt_shared := sh\<rparr>)" ..
  then have "run_net (replicate (Suc k) (Run i)) n =
    (case run_code (th_kernel t) (c # cs) (th_locals t, nt_shared n) of (lc, sh) \<Rightarrow>
       n\<lparr>nt_threads := (nt_threads n)[i := t\<lparr>th_cont := Some [], th_locals := lc\<rparr>], nt_shared := sh\<rparr>)"
    using act by (simp add: run_net_def ex n'_def t'_def split: prod.splits)
  then show ?case by blast
qed

context forwarder
begin

text \<open>When the output stream is full, a flit that the element keeps is read and is gone.\<close>

lemma full_stream_drops:
  assumes kn: "kn_handler kn = handler" "kn_in kn 1 = vin" "kn_out kn 1 = vout" "vin \<noteq> vout"
    and lc: "wants_input 1 lc" "ports_fit (lc_ports lc)"
    and sh: "sw_q (sh_streams sh vin) = f # fs" "sw_capacity (sh_streams sh vout) \<le> int (length (sw_q (sh_streams sh vout)))"
    and f: "keep f"
    and run: "run_code kn (one_to_one False) (lc, sh) = (lc', sh')"
  shows "sw_q (sh_streams sh' vin) = fs \<and> sh_streams sh' vout = sh_streams sh vout \<and> buffered (lc_ports lc') = []
     \<and> last_output_failed (PORT_BIT 1) (lc_ports lc')"
proof -
  obtain sh1 where r: "net_read vin sh = (Some f, sh1)" "sw_q (sh_streams sh1 vin) = fs"
    "sh_streams sh1 vout = sh_streams sh vout"
    using sh(1) kn(4) by (auto simp: net_read_def sw_read_nb_def)
  define lc1 where "lc1 = map_ports (buffer_input 1 f) lc"
  define lc2 where "lc2 = (map_ports (\<lambda>p. p\<lparr>po_output_port := 0\<rparr>) lc1)\<lparr>lc_last_rport := lc_ret lc1\<rparr>"
  have b: "buffered (lc_ports lc2) = [f]" "ports_fit (lc_ports lc2)" "po_output_port (lc_ports lc2) = 0"
    using lc by (simp_all add: lc2_def lc1_def held_at_def buffer_input_def ports_fit_def or_and_self)
  from handler_moves [OF b(2,3)] b(1) f have h: "buffered (lc_ports (handler lc2)) = []" "pending_out (lc_ports (handler lc2)) = [f]"
    by simp_all
  have w: "net_write vout x sh1 = (False, sh1)" for x
    using sh(2) r(3) by (simp add: net_write_def sw_write_nb_def fun_upd_idem)
  have read: "read_input kn 1 (lc, sh) = (lc1, sh1)" using lc(1) by (simp add: read_input_def kn r lc1_def del: One_nat_def)
  let ?lc3 = "map_ports (\<lambda>p. p\<lparr>po_output_failed := 0, po_output_success := 0\<rparr>) (handler lc2)"
  have "(lc', sh') = write_output kn 1 (?lc3, sh1)"
    using run read by (simp add: one_to_one_def lc2_def [symmetric] kn)
  also have "\<dots> = (map_ports (record_result 1 False) ?lc3, sh1)"
    using h(2) w by (simp add: write_output_def kn pending_at_def kn(3) [unfolded One_nat_def] split: if_splits)
  finally show ?thesis using h(1) r
    by (simp add: held_at_def record_result_def last_output_failed_def split: if_splits)
qed

end

lemma and_not_self: "(x AND NOT m) AND m = 0" for x m :: u32
  by (simp add: bit_eq_iff bit_simps)

lemma take_port_1: "builtin_ctz 2 = Suc 0" "(x AND - 3) AND 2 = 0" for x :: u32
  using and_not_self [of x 2] by (simp_all, code_simp)

text \<open>The ports after taking the flit of input 1 and after putting one out.\<close>

lemma buffered_clear [simp]: "held_at 1 (clear_input_ready 2 p) = []" "held_at (Suc 0) (clear_input_ready 2 p) = []"
  by (simp_all add: held_at_def clear_input_ready_def take_port_1)

lemma read_port_1: "read_input_port PORT_1 p = (po_input_data p ! 1, clear_input_ready 2 p)"
  by (simp add: read_input_port_def PORT_1_def take_port_1)

lemma clear_input_frame [simp]:
  "po_output_port (clear_input_ready m p) = po_output_port p" "po_output_data (clear_input_ready m p) = po_output_data p"
  "po_input_data (clear_input_ready m p) = po_input_data p"
  by (simp_all add: clear_input_ready_def)

lemma ports_fit_frame [simp]:
  "ports_fit (clear_input_ready m p) = ports_fit p" "ports_fit (set_output_port i f p) = ports_fit p"
  by (simp_all add: ports_fit_def set_output_port_def)

lemma held_set_output [simp]: "held_at i (set_output_port j f p) = held_at i p"
  by (simp add: held_at_def set_output_port_def)

lemma emitted_one:
  "po_output_port p = 0 \<Longrightarrow> ports_fit p \<Longrightarrow> pending_out (set_output_port 1 f p) = [f]"
  "po_output_port p = 0 \<Longrightarrow> pending_out p = []"
  by (simp_all add: pending_at_def set_output_port_def ports_fit_def)

interpretation pass: forwarder pass_handler pass_signal "\<lambda>f. \<not> flit_error f \<and> \<not> fcs_error f"
  by unfold_locales
    (auto simp: pass_handler_def pass_signal_def held_at_def pending_at_def ports_fit_def input_ready_def Let_def PORT_1_def
      read_input_port_def clear_input_ready_def set_output_port_def take_port_1)

interpretation pass_through: forwarder pass_through_handler "\<lambda>lc. lc" "\<lambda>_. True"
  by unfold_locales
    (auto simp: pass_through_handler_def held_at_def pending_at_def ports_fit_def input_ready_def Let_def PORT_1_def
      read_input_port_def clear_input_ready_def set_output_port_def take_port_1)

subsection \<open>Counting and taking turns\<close>

text \<open>The two halves of the counter of Pass are one 64-bit counter.\<close>

lemma split_count_value: "split_count st = ucast (ps_flits_lo st) + 2 ^ 32 * ucast (ps_flits_hi st)"
proof -
  have "push_bit 32 (ucast (ps_flits_hi st)) AND (ucast (ps_flits_lo st) :: u64) = 0"
    by (auto simp: bit_eq_iff bit_simps dest: bit_imp_le_length)
  then show ?thesis by (simp add: split_count_def disjunctive_add_eq_or [symmetric] push_bit_eq_mult add.commute)
qed

lemma ucast_Suc: "x + 1 \<noteq> 0 \<Longrightarrow> (ucast (x + 1) :: u64) = ucast x + 1" for x :: u32
proof -
  assume "x + 1 \<noteq> 0"
  then have "unat (x + 1) = unat x + 1" by (metis Suc_eq_plus1 add.commute unatSuc)
  then show ?thesis by (metis of_nat_1 of_nat_add of_nat_unat)
qed

lemma pass_count_split: "split_count (pass_count f st) = split_count st + 1"
proof (cases "ps_flits_lo st + 1 = 0")
  case True
  then have lo: "ps_flits_lo st = - 1" by (simp add: eq_neg_iff_add_eq_0)
  have full: "(ucast (- 1 :: u32) :: u64) + 1 = 2 ^ 32" by code_simp
  show ?thesis
  proof (cases "ps_flits_hi st + 1 = 0")
    case hi: True
    then have "ps_flits_hi st = - 1" by (simp add: eq_neg_iff_add_eq_0)
    moreover have "(ucast (- 1 :: u32) :: u64) = 4294967295" by code_simp
    ultimately show ?thesis by (simp add: split_count_value pass_count_def Let_def lo)
  next
    case False
    have "split_count st + 1 = (ucast (- 1 :: u32) + 1) + 2 ^ 32 * ucast (ps_flits_hi st)"
      by (simp add: split_count_value lo algebra_simps)
    also have "\<dots> = split_count (pass_count f st)"
      unfolding full by (simp add: split_count_value pass_count_def Let_def lo ucast_Suc [OF False] distrib_left)
    finally show ?thesis by simp
  qed
next
  case False
  then show ?thesis by (simp add: split_count_value pass_count_def Let_def ucast_Suc [OF False])
qed

lemma counted_bytes_bounds: "0 \<le> counted_bytes f \<and> counted_bytes f \<le> 32"
  by (simp add: counted_bytes_def OPENCLICKNP_PAYLOAD_BYTES_def Let_def)

text \<open>One round of a Mux: the outputs are cleared and the handler runs.\<close>

definition mux_round :: "mux_state body" where
  "mux_round lc = mux_handler (map_ports (\<lambda>p. p\<lparr>po_output_port := 0\<rparr>) lc)"

definition mux_turn :: "mux_state locals \<Rightarrow> nat" where
  "mux_turn lc = unat (mx_rr (lc_state lc)) mod 8"

lemma mux_port: "unat (mx_rr (lc_state lc) mod 8 + 1) = mux_turn lc + 1"
proof -
  have "unat (mx_rr (lc_state lc) mod 8 + 1) = (mux_turn lc + 1) mod 256"
    by (simp add: mux_turn_def unat_word_ariths unat_mod)
  moreover have "mux_turn lc < 8" by (simp add: mux_turn_def)
  ultimately show ?thesis by simp
qed

lemma mux_round_turn: "mux_turn (mux_round lc) = (mux_turn lc + 1) mod 8"
proof -
  have "mx_rr (lc_state (mux_round lc)) = mx_rr (lc_state lc) mod 8 + 1"
    by (simp add: mux_round_def mux_handler_def Let_def)
  then show ?thesis using mux_port [of lc] by (simp add: mux_turn_def)
qed

text \<open>A port whose turn it is not keeps its flit; a port whose turn it is sends it.\<close>

lemma mux_round_keeps:
  assumes "mux_turn lc + 1 \<noteq> p"
  shows "po_input_port (lc_ports (mux_round lc)) AND PORT_BIT p = po_input_port (lc_ports lc) AND PORT_BIT p"
    and "po_input_data (lc_ports (mux_round lc)) = po_input_data (lc_ports lc)"
    and "length (po_output_data (lc_ports (mux_round lc))) = length (po_output_data (lc_ports lc))"
  using assms port_bit_and_not
  by (auto simp: mux_round_def mux_handler_def Let_def set_output_port_def clear_input_ready_def mux_port)

lemma mux_round_sends:
  assumes "mux_turn lc + 1 = p" "po_input_port (lc_ports lc) AND PORT_BIT p \<noteq> 0"
    "2 \<le> length (po_output_data (lc_ports lc))"
  shows "pending_out (lc_ports (mux_round lc)) = [po_input_data (lc_ports lc) ! p]"
    and "po_input_port (lc_ports (mux_round lc)) AND PORT_BIT p = 0"
  using assms port_bit_and_not [of "po_input_port (lc_ports lc)" p p]
  by (auto simp: mux_round_def mux_handler_def Let_def set_output_port_def clear_input_ready_def mux_port
      get_input_data_def pending_at_def)

lemma mux_serves:
  assumes "(mux_turn lc + k) mod 8 + 1 = p" "k < 8" "po_input_port (lc_ports lc) AND PORT_BIT p \<noteq> 0"
    "2 \<le> length (po_output_data (lc_ports lc))"
  shows "pending_out (lc_ports ((mux_round ^^ Suc k) lc)) = [po_input_data (lc_ports lc) ! p]
    \<and> po_input_port (lc_ports ((mux_round ^^ Suc k) lc)) AND PORT_BIT p = 0"
  using assms
proof (induction k arbitrary: lc)
  case 0
  have "mux_turn lc < 8" by (simp add: mux_turn_def)
  then have "mux_turn lc + 1 = p" using 0(1) by simp
  from mux_round_sends [OF this 0(3,4)] show ?case by simp
next
  case (Suc k)
  have t: "mux_turn lc < 8" by (simp add: mux_turn_def)
  have ne: "mux_turn lc + 1 \<noteq> p"
  proof
    assume "mux_turn lc + 1 = p"
    then have "(mux_turn lc + Suc k) mod 8 = mux_turn lc" using Suc.prems(1) by simp
    then show False using t Suc.prems(2) by (cases "mux_turn lc + Suc k < 8") (simp_all add: le_mod_geq)
  qed
  note keep = mux_round_keeps [OF ne]
  have "(mux_turn (mux_round lc) + k) mod 8 + 1 = p"
    using Suc.prems(1) by (simp add: mux_round_turn mod_simps)
  moreover have "po_input_port (lc_ports (mux_round lc)) AND PORT_BIT p \<noteq> 0" using keep(1) Suc.prems(3) by simp
  moreover have "2 \<le> length (po_output_data (lc_ports (mux_round lc)))" using keep(3) Suc.prems(4) by simp
  ultimately have "pending_out (lc_ports ((mux_round ^^ Suc k) (mux_round lc))) = [po_input_data (lc_ports (mux_round lc)) ! p]
      \<and> po_input_port (lc_ports ((mux_round ^^ Suc k) (mux_round lc))) AND PORT_BIT p = 0"
    using Suc.IH [of "mux_round lc"] Suc.prems(2) by simp
  then show ?case unfolding keep(2) funpow_Suc_right [of "Suc k"] o_apply .
qed

end
