(* ===== verification/Network.thy ===== *)
theory Network
  imports Elements EmitFacts
begin

text \<open>
  The emulator of a plan with elements of the library in it. The wiring gives every stream at most one
  kernel that writes it and one that reads it, so what a forwarding element promises holds in the whole
  network, and the promises of a chain of them compose along the streams. Then what happens when a
  stream is full, and what unconnected ports and the shared signal channel do.
\<close>

subsection \<open>One writer and one reader for every stream\<close>

definition conn_end_key :: "stream_conn \<Rightarrow> bool \<Rightarrow> port_key" where
  "conn_end_key sc out =
     (if out then (sc_src_kernel sc, True, sc_src_port sc) else (sc_dst_kernel sc, False, sc_dst_port sc))"

lemma conn_end_key_direction [simp]: "fst (snd (conn_end_key sc out)) = out"
  by (simp add: conn_end_key_def)

lemma stream_attachment:
  assumes "(key, v) \<in> set (concat (map (stream_attach base skip) (enumerate 0 cs)))"
  shows "\<exists>i out. v = stream_var base i \<and> key = conn_end_key (cs ! i) out"
  using assms by (auto 0 3 simp: stream_attach_def conn_end_key_def in_set_enumerate_eq Let_def split: if_splits)

lemma host_attachment:
  assumes "(key, v) \<in> set (concat (map host_attach (enumerate 0 hs)))"
  shows "\<exists>i. v = stream_var ''host_stream_'' i \<and>
    key = (hc_kernel (hs ! i), hc_kernel_to_host (hs ! i), hc_port (hs ! i))"
  using assms by (auto simp: host_attach_def in_set_enumerate_eq)

lemma attachment_cases:
  assumes "(key, v) \<in> set (attachments b)"
  obtains (internal) i out where "v = stream_var ''stream_'' i" "key = conn_end_key (b_stream_conns b ! i) out"
    | (tor) i out where "v = stream_var ''tor_stream_'' i" "key = conn_end_key (b_tor_conns b ! i) out"
    | (nic) i out where "v = stream_var ''nic_stream_'' i" "key = conn_end_key (b_nic_conns b ! i) out"
    | (host) i where "v = stream_var ''host_stream_'' i"
        "key = (hc_kernel (b_host_streams b ! i), hc_kernel_to_host (b_host_streams b ! i), hc_port (b_host_streams b ! i))"
  using assms unfolding attachments_def set_append Un_iff
  by (elim disjE) (blast dest: stream_attachment host_attachment)+

lemma bases_differ:
  "stream_var ''stream_'' i \<noteq> stream_var ''tor_stream_'' j" "stream_var ''stream_'' i \<noteq> stream_var ''nic_stream_'' j"
  "stream_var ''stream_'' i \<noteq> stream_var ''host_stream_'' j" "stream_var ''tor_stream_'' i \<noteq> stream_var ''nic_stream_'' j"
  "stream_var ''tor_stream_'' i \<noteq> stream_var ''host_stream_'' j" "stream_var ''nic_stream_'' i \<noteq> stream_var ''host_stream_'' j"
  "stream_var ''stream_'' i \<noteq> null_var" "stream_var ''tor_stream_'' i \<noteq> null_var"
  "stream_var ''nic_stream_'' i \<noteq> null_var" "stream_var ''host_stream_'' i \<noteq> null_var"
  by (simp_all add: stream_var_def null_var_def)

lemma attachment_unique:
  assumes "(k1, v) \<in> set (attachments b)" "(k2, v) \<in> set (attachments b)" "fst (snd k1) = fst (snd k2)"
  shows "k1 = k2"
  using assms(1)
proof (cases rule: attachment_cases)
  case (internal i out)
  from assms(2) show ?thesis
    by (cases rule: attachment_cases)
      (use internal assms(3) in \<open>simp_all add: stream_var_inject bases_differ bases_differ [symmetric]\<close>)
next
  case (tor i out)
  from assms(2) show ?thesis
    by (cases rule: attachment_cases)
      (use tor assms(3) in \<open>simp_all add: stream_var_inject bases_differ bases_differ [symmetric]\<close>)
next
  case (nic i out)
  from assms(2) show ?thesis
    by (cases rule: attachment_cases)
      (use nic assms(3) in \<open>simp_all add: stream_var_inject bases_differ bases_differ [symmetric]\<close>)
next
  case (host i)
  from assms(2) show ?thesis
    by (cases rule: attachment_cases)
      (use host assms(3) in \<open>simp_all add: stream_var_inject bases_differ bases_differ [symmetric]\<close>)
qed

lemma port_stream_attached:
  "port_stream (wire_all b) key = v \<Longrightarrow> v \<noteq> null_var \<Longrightarrow> (key, v) \<in> set (attachments b)"
  by (auto simp: port_stream_def wire_all_map dest!: map_of_SomeD split: option.splits)

lemma one_port_for_stream:
  assumes "port_stream (wire_all b) (k1, out, p1) = port_stream (wire_all b) (k2, out, p2)"
    and "port_stream (wire_all b) (k1, out, p1) \<noteq> null_var"
  shows "k1 = k2 \<and> p1 = p2"
  using attachment_unique [OF port_stream_attached [OF refl assms(2)] port_stream_attached [OF assms(1) [symmetric] assms(2)]]
  by simp

subsection \<open>Forwarding elements in the emulator of a plan\<close>

abbreviation in_stream :: "build \<Rightarrow> nat \<Rightarrow> string" where
  "in_stream b i \<equiv> port_stream (wire_all b) (kh_name (b_kernels b ! i), False, 1)"

abbreviation out_stream :: "build \<Rightarrow> nat \<Rightarrow> string" where
  "out_stream b i \<equiv> port_stream (wire_all b) (kh_name (b_kernels b ! i), True, 1)"

abbreviation stream_capacity :: "build \<Rightarrow> string \<Rightarrow> int" where
  "stream_capacity b v \<equiv> sw_capacity (initial_stream (wire_all b) v)"

text \<open>
  Kernel number i of the plan has the given bodies, reads the inputs \<open>ins\<close> and writes the output \<open>q\<close>;
  these ports are connected, and the code around the emulator leaves the kernel's ends of the streams
  alone.
\<close>

abbreviation port_in :: "build \<Rightarrow> nat \<Rightarrow> nat \<Rightarrow> string" where
  "port_in b i p \<equiv> port_stream (wire_all b) (kh_name (b_kernels b ! i), False, int p)"

abbreviation port_out :: "build \<Rightarrow> nat \<Rightarrow> nat \<Rightarrow> string" where
  "port_out b i p \<equiv> port_stream (wire_all b) (kh_name (b_kernels b ! i), True, int p)"

definition kernel_at ::
  "string set \<Rightarrow> string set \<Rightarrow> (kernel_hls \<Rightarrow> 'st body \<times> 'st body \<times> 'st) \<Rightarrow> 'st body \<Rightarrow> 'st body \<Rightarrow> build \<Rightarrow> nat \<Rightarrow>
     nat set \<Rightarrow> nat \<Rightarrow> bool" where
  "kernel_at ws rs bodies h s b i ins q \<longleftrightarrow>
     i < length (b_kernels b) \<and> fst (bodies (b_kernels b ! i)) = h \<and> fst (snd (bodies (b_kernels b ! i))) = s \<and>
     set (map port_no (kh_in_ports (b_kernels b ! i))) = ins \<and>
     distinct (map port_no (kh_out_ports (b_kernels b ! i))) \<and> q \<in> set (map port_no (kh_out_ports (b_kernels b ! i))) \<and>
     port_out b i q \<noteq> null_var \<and> port_out b i q \<notin> ws \<and> (\<forall>p\<in>ins. port_in b i p \<noteq> null_var \<and> port_in b i p \<notin> rs)"

text \<open>One input and one output.\<close>

definition element_at ::
  "string set \<Rightarrow> string set \<Rightarrow> (kernel_hls \<Rightarrow> 'st body \<times> 'st body \<times> 'st) \<Rightarrow> 'st body \<Rightarrow> 'st body \<Rightarrow> build \<Rightarrow> nat \<Rightarrow> bool" where
  "element_at ins outs bodies h s b i \<longleftrightarrow>
     i < length (b_kernels b) \<and> fst (bodies (b_kernels b ! i)) = h \<and> fst (snd (bodies (b_kernels b ! i))) = s \<and>
     map port_no (kh_in_ports (b_kernels b ! i)) = [1] \<and> map port_no (kh_out_ports (b_kernels b ! i)) = [1] \<and>
     in_stream b i \<noteq> null_var \<and> out_stream b i \<noteq> null_var \<and> out_stream b i \<notin> ins \<and> in_stream b i \<notin> outs"

lemma element_at_kernel:
  assumes "element_at ws rs bodies h s b i"
  shows "kernel_at ws rs bodies h s b i {1} 1"
proof -
  have "set (map port_no (kh_in_ports (b_kernels b ! i))) = {1}"
    "set (map port_no (kh_out_ports (b_kernels b ! i))) = {1}" "distinct (map port_no (kh_out_ports (b_kernels b ! i)))"
    using assms by (simp_all only: element_at_def list.set distinct.simps simp_thms empty_iff)
  with assms show ?thesis by (simp add: element_at_def kernel_at_def)
qed

lemma emulator_threads:
  "i < length (b_kernels b) \<Longrightarrow> nt_threads (emulator bodies b) ! i =
     (case bodies (b_kernels b ! i) of (h, s, st) \<Rightarrow>
        \<lparr>th_kernel = kernel_fn_of (wire_all b) h s (b_kernels b ! i), th_cont = Some [],
         th_locals = kernel_locals (b_kernels b ! i) st\<rparr>)"
  "length (nt_threads (emulator bodies b)) = length (b_kernels b)"
  by (simp_all add: emulator_def Let_def)

lemma emulator_kernel:
  "i < length (b_kernels b) \<Longrightarrow> th_kernel (nt_threads (emulator bodies b) ! i) =
     kernel_fn_of (wire_all b) (fst (bodies (b_kernels b ! i))) (fst (snd (bodies (b_kernels b ! i)))) (b_kernels b ! i)"
  by (simp add: emulator_threads split: prod.split)

lemma kernel_fn_streams [simp]:
  "kn_in (kernel_fn_of w h s k) p = port_stream w (kh_name k, False, int p)"
  "kn_out (kernel_fn_of w h s k) p = port_stream w (kh_name k, True, int p)"
  by (simp_all add: kernel_fn_of_def)

lemma emulator_owns:
  assumes names: "distinct (map kh_name (b_kernels b))" and at: "kernel_at ws rs bodies h s b i ins q"
  shows "owns ws rs (map th_kernel (nt_threads (emulator bodies b))) i ins q"
    and "own_ports ins q (kernel_fn_of (wire_all b) h s (b_kernels b ! i))"
proof -
  have i: "i < length (b_kernels b)" using at by (simp add: kernel_at_def)
  have same: "j = i \<and> p = r" if "j < length (b_kernels b)"
    "port_stream (wire_all b) (kh_name (b_kernels b ! j), out, int p)
       = port_stream (wire_all b) (kh_name (b_kernels b ! i), out, int r)"
    "port_stream (wire_all b) (kh_name (b_kernels b ! i), out, int r) \<noteq> null_var" for j out p r
    using one_port_for_stream [of b _ out "int p" _ "int r"] that i nth_eq_iff_index_eq [OF names, of j i] by simp
  show "owns ws rs (map th_kernel (nt_threads (emulator bodies b))) i ins q"
    using at i same by (fastforce simp: owns_def emulator_kernel emulator_threads(2) kernel_at_def)
  show "own_ports ins q (kernel_fn_of (wire_all b) h s (b_kernels b ! i))"
    using at same [OF i] by (auto simp: own_ports_def kernel_at_def)
qed

context stream_kernel
begin

lemma emulator_follows:
  assumes names: "distinct (map kh_name (b_kernels b))" and at: "kernel_at ws rs bodies handler signal b i ins q"
    and reach: "(net_step ws rs)\<^sup>*\<^sup>* (emulator bodies b) n"
    and start: "I (kernel_locals (b_kernels b ! i) (snd (snd (bodies (b_kernels b ! i))))) (\<lambda>_. []) []"
  shows "follows (stream_capacity b (port_out b i q)) (nt_threads n ! i, nt_shared n)"
    and "th_kernel (nt_threads n ! i) = kernel_fn_of (wire_all b) handler signal (b_kernels b ! i)"
proof -
  let ?k = "b_kernels b ! i" let ?n = "emulator bodies b"
  from at have i: "i < length (b_kernels b)" and st: "bodies ?k = (handler, signal, snd (snd (bodies ?k)))"
    by (auto simp: kernel_at_def prod_eq_iff)
  note t = emulator_threads(1) [OF i, of bodies]
  have kn: "th_kernel (nt_threads ?n ! i) = kernel_fn_of (wire_all b) handler signal ?k"
    using at by (simp add: emulator_kernel i kernel_at_def)
  have empty: "sh_sent (nt_shared ?n) v = []" "got_on ins kn (nt_shared ?n) = (\<lambda>_. [])" for v and kn :: "'st kernel_fn"
    by (simp_all add: emulator_def Let_def got_on_def fun_eq_iff)
  have init: "follows (stream_capacity b (port_out b i q)) (nt_threads ?n ! i, nt_shared ?n)"
    using start empty by (auto simp: t follows_def stage_ok_def unwritten_def split: prod.split)
  have code: "arriving ins q (kn_code (kernel_fn_of (wire_all b) handler signal ?k))"
    using at loop_code_stages [of ?k q] by (simp add: kernel_fn_of_def kernel_at_def)
  show "follows (stream_capacity b (port_out b i q)) (nt_threads n ! i, nt_shared n)"
    by (rule reachable_follows [OF reach _ kn _ _ emulator_owns(2) [OF names at] code emulator_owns(1) [OF names at]
          emulator_histories _ init]) (simp_all add: i emulator_threads(2) kernel_fn_of_def)
  have "map th_kernel (nt_threads n) = map th_kernel (nt_threads ?n)" by (rule reachable_kernels [OF reach])
  then show "th_kernel (nt_threads n ! i) = kernel_fn_of (wire_all b) handler signal ?k"
    using i kn by (metis emulator_threads(2) length_map nth_map)
qed

end

context element
begin

lemma emulator_element:
  assumes names: "distinct (map kh_name (b_kernels b))" and at: "element_at ws rs bodies handler signal b i"
    and reach: "(net_step ws rs)\<^sup>*\<^sup>* (emulator bodies b) n" and start: "R (snd (snd (bodies (b_kernels b ! i)))) [] []"
  shows "follows (stream_capacity b (out_stream b i)) (nt_threads n ! i, nt_shared n)"
    and "kn_in (th_kernel (nt_threads n ! i)) 1 = in_stream b i" and "kn_out (th_kernel (nt_threads n ! i)) 1 = out_stream b i"
proof -
  have "taken R (kernel_locals (b_kernels b ! i) (snd (snd (bodies (b_kernels b ! i))))) (\<lambda>_. []) []"
    using start by (simp add: taken_def kernel_locals_def ports_fit_def held_at_def array_slots_def)
  note f = emulator_follows [OF names element_at_kernel [OF at] reach this]
  show "follows (stream_capacity b (out_stream b i)) (nt_threads n ! i, nt_shared n)" using f(1) by simp
  show "kn_in (th_kernel (nt_threads n ! i)) 1 = in_stream b i" "kn_out (th_kernel (nt_threads n ! i)) 1 = out_stream b i"
    by (simp_all add: f(2))
qed

lemma emulator_result:
  assumes "distinct (map kh_name (b_kernels b))" and "element_at ws rs bodies handler signal b i"
    and "(net_step ws rs)\<^sup>*\<^sup>* (emulator bodies b) n" and "R (snd (snd (bodies (b_kernels b ! i)))) [] []"
  obtains seen rest out where "R (lc_state (th_locals (nt_threads n ! i))) seen out"
    "sh_got (nt_shared n) (in_stream b i) = seen @ rest" "length rest \<le> 1"
    "subseq (sh_sent (nt_shared n) (out_stream b i)) out"
    "int (length out) \<le> stream_capacity b (out_stream b i) \<Longrightarrow>
       prefix (sh_sent (nt_shared n) (out_stream b i)) out \<and> length out \<le> length (sh_sent (nt_shared n) (out_stream b i)) + 1"
  using element_result [OF emulator_element [OF assms]] by blast

end

context forwarder
begin

lemma emulator_in_order:
  assumes "distinct (map kh_name (b_kernels b))" and "element_at ins outs bodies handler signal b i"
    and "(net_step ins outs)\<^sup>*\<^sup>* (emulator bodies b) n"
  shows "subseq (sh_sent (nt_shared n) (out_stream b i)) (filter keep (sh_got (nt_shared n) (in_stream b i)))"
  using forwards_result(1) [OF emulator_element [OF assms]] by simp

lemma emulator_lossless:
  assumes "distinct (map kh_name (b_kernels b))" and "element_at ins outs bodies handler signal b i"
    and "(net_step ins outs)\<^sup>*\<^sup>* (emulator bodies b) n"
    and "int (length (sh_got (nt_shared n) (in_stream b i))) \<le> stream_capacity b (out_stream b i)"
  shows "prefix (sh_sent (nt_shared n) (out_stream b i)) (filter keep (sh_got (nt_shared n) (in_stream b i)))
    \<and> length (filter keep (sh_got (nt_shared n) (in_stream b i))) \<le> length (sh_sent (nt_shared n) (out_stream b i)) + 2"
  using forwards_result(2) [OF emulator_element [OF assms(1-3)]] assms(4) by simp

end

text \<open>A chain of one element: the output stream of each kernel is the input stream of the next.\<close>

fun chain_between ::
  "string set \<Rightarrow> string set \<Rightarrow> (kernel_hls \<Rightarrow> 'st body \<times> 'st body \<times> 'st) \<Rightarrow> 'st body \<Rightarrow> 'st body \<Rightarrow> build \<Rightarrow>
     nat list \<Rightarrow> string \<Rightarrow> string \<Rightarrow> bool" where
  "chain_between ins outs bodies h s b [] u v \<longleftrightarrow> u = v"
| "chain_between ins outs bodies h s b (i # is) u v \<longleftrightarrow>
     element_at ins outs bodies h s b i \<and> u = in_stream b i \<and>
     chain_between ins outs bodies h s b is (out_stream b i) v"

lemma run_net_reachable:
  "list_all (permitted ins outs) as \<Longrightarrow> (net_step ins outs)\<^sup>*\<^sup>* n (run_net as n)"
  by (induction as arbitrary: n) (auto simp: run_net_def intro: converse_rtranclp_into_rtranclp net_step.step)

lemma reachable_stream:
  assumes "(net_step ins outs)\<^sup>*\<^sup>* (emulator bodies b) n"
  shows "sw_inv (stream_capacity b v) (stream_history (nt_shared n) v)"
  using reachable_histories [OF assms emulator_histories] by (simp add: histories_ok_def)

lemma got_is_sent:
  assumes "(net_step ins outs)\<^sup>*\<^sup>* (emulator bodies b) n"
  shows "prefix (sh_got (nt_shared n) v) (sh_sent (nt_shared n) v)"
  using reachable_stream [OF assms, of v] by (simp add: sw_inv_def stream_history_def prefix_def)

context forwarder
begin

lemma chain_in_order:
  assumes "distinct (map kh_name (b_kernels b))" and "(net_step ins outs)\<^sup>*\<^sup>* (emulator bodies b) n"
    and "chain_between ins outs bodies handler signal b is u v"
  shows "subseq (sh_got (nt_shared n) v) (if is = [] then sh_got (nt_shared n) u else filter keep (sh_got (nt_shared n) u))"
  using assms(3)
proof (induction "is" arbitrary: u)
  case (Cons i "is")
  let ?w = "out_stream b i"
  from Cons.prems have at: "element_at ins outs bodies handler signal b i" and u: "u = in_stream b i"
    and rest: "chain_between ins outs bodies handler signal b is ?w v" by simp_all
  have w: "subseq (sh_got (nt_shared n) ?w) (filter keep (sh_got (nt_shared n) u))"
    unfolding u by (rule subseq_order.trans [OF prefix_imp_subseq [OF got_is_sent [OF assms(2)]]
      emulator_in_order [OF assms(1) at assms(2)]])
  have "subseq (sh_got (nt_shared n) v) (sh_got (nt_shared n) ?w)"
  proof (cases "is = []")
    case False
    with Cons.IH [OF rest] have "subseq (sh_got (nt_shared n) v) (filter keep (sh_got (nt_shared n) ?w))" by simp
    then show ?thesis by (rule subseq_order.trans [OF _ subseq_filter_left])
  qed (use rest in simp)
  then have "subseq (sh_got (nt_shared n) v) (filter keep (sh_got (nt_shared n) u))" by (rule subseq_order.trans [OF _ w])
  then show ?case by simp
qed simp

end

subsection \<open>Every kernel stops\<close>

lemma emulator_in_loop: "in_loop (emulator bodies b)"
  by (auto simp: in_loop_def emulator_def Let_def steps_left_def split: prod.splits)

lemma emulator_code:
  assumes "(net_step ins outs)\<^sup>*\<^sup>* (emulator bodies b) n" "i < length (b_kernels b)"
  shows "kn_code (th_kernel (nt_threads n ! i)) = loop_code (b_kernels b ! i)" and "i < length (nt_threads n)"
proof -
  note ks = reachable_kernels [OF assms(1)]
  have len: "length (nt_threads n) = length (b_kernels b)"
    using arg_cong [OF ks, of length] by (simp add: emulator_threads)
  show "i < length (nt_threads n)" using len assms(2) by simp
  then have "th_kernel (nt_threads n ! i) = th_kernel (nt_threads (emulator bodies b) ! i)"
    using ks assms(2) len by (metis emulator_threads(2) nth_map)
  then show "kn_code (th_kernel (nt_threads n ! i)) = loop_code (b_kernels b ! i)"
    using assms(2) by (simp add: emulator_threads kernel_fn_of_def split: prod.splits)
qed

lemma emulator_steps_left:
  assumes "(net_step ins outs)\<^sup>*\<^sup>* (emulator bodies b) n" "i < length (b_kernels b)"
  shows "steps_left (nt_threads n ! i) \<le> length (kh_in_ports (b_kernels b ! i)) + length (kh_out_ports (b_kernels b ! i)) + 6"
proof -
  have "nt_threads n ! i \<in> set (nt_threads n)" using emulator_code(2) [OF assms] by simp
  then have "steps_left (nt_threads n ! i) \<le> Suc (code_steps (loop_code (b_kernels b ! i)))"
    using reachable_in_loop [OF assms(1) emulator_in_loop] by (simp add: in_loop_def emulator_code(1) [OF assms, symmetric])
  with loop_code_steps [of "b_kernels b ! i"] show ?thesis by simp
qed

subsection \<open>Unconnected ports\<close>

lemma port_bits_differ: "i < 32 \<Longrightarrow> i \<noteq> j \<Longrightarrow> PORT_BIT i AND PORT_BIT j = 0"
  by (auto simp: PORT_BIT_def bit_eq_iff bit_simps)

text \<open>An output with no connection and an input with none have the same stream.\<close>

lemma null_stream_joins:
  assumes "port_stream (wire_all b) (ka, True, int p) = null_var" "port_stream (wire_all b) (kb, False, int q) = null_var"
    and kns: "kna = kernel_fn_of (wire_all b) ha sa k1" "kh_name k1 = ka" "knb = kernel_fn_of (wire_all b) hb sb k2" "kh_name k2 = kb"
    and empty: "sw_q (sh_streams sh null_var) = []" "0 < sw_capacity (sh_streams sh null_var)"
    and ready: "po_output_port (lc_ports la) AND PORT_BIT p \<noteq> 0" "wants_input q lb"
    and q: "q < length (po_input_data (lc_ports lb))"
    and steps: "write_output kna p (la, sh) = (la', sh1)" "read_input knb q (lb, sh1) = (lb', sh2)"
  shows "po_input_data (lc_ports lb') ! q = po_output_data (lc_ports la) ! p
    \<and> po_input_port (lc_ports lb') AND PORT_BIT q = PORT_BIT q"
proof -
  have o: "kn_out kna p = null_var" "kn_in knb q = null_var" using assms(1,2) kns by (simp_all add: kernel_fn_of_def)
  let ?f = "po_output_data (lc_ports la) ! p"
  have "sw_q (sh_streams sh1 null_var) = [?f]"
    using steps(1) ready(1) empty by (auto simp: write_output_def o net_write_def sw_write_nb_def)
  then have "lb' = map_ports (buffer_input q ?f) lb"
    using steps(2) ready(2) by (auto simp: read_input_def o net_read_def sw_read_nb_def)
  then show ?thesis using q by (simp add: buffer_input_def or_and_self)
qed

subsection \<open>Elements with several outputs\<close>

definition tee_code :: "instr list" where
  "tee_code = [Read_Input 1, Clear_Outputs, Handler_Body, Clear_Results, Write_Output 1, Write_Output 2]"

lemma PORT_BIT_2 [simp]: "PORT_BIT 2 = 4"
  by (simp add: PORT_BIT_def push_bit_eq_mult)

lemma tee_handler_flit:
  assumes "po_output_port (lc_ports lc) = 0" "po_input_port (lc_ports lc) AND PORT_BIT 1 \<noteq> 0"
    "3 \<le> length (po_output_data (lc_ports lc))"
  shows "po_output_port (lc_ports (tee_handler lc)) = 6" "buffered (lc_ports (tee_handler lc)) = []"
    "po_output_data (lc_ports (tee_handler lc)) ! 1 = po_input_data (lc_ports lc) ! 1"
    "po_output_data (lc_ports (tee_handler lc)) ! 2 = po_input_data (lc_ports lc) ! 1"
  using assms by (simp_all add: tee_handler_def input_ready_def PORT_1_def read_input_port_def clear_input_ready_def
      set_output_port_def take_port_1 held_at_def)

lemma tee_loses:
  assumes kn: "kn_handler kn = tee_handler" "kn_in kn 1 = vin" "kn_out kn 1 = v1" "kn_out kn 2 = v2" "distinct [vin, v1, v2]"
    and lc: "wants_input 1 lc" "2 \<le> length (po_input_data (lc_ports lc))" "3 \<le> length (po_output_data (lc_ports lc))"
    and sh: "sw_q (sh_streams sh vin) = f # fs" "int (length (sw_q (sh_streams sh v1))) < sw_capacity (sh_streams sh v1)"
      "sw_capacity (sh_streams sh v2) \<le> int (length (sw_q (sh_streams sh v2)))"
    and run: "run_code kn tee_code (lc, sh) = (lc', sh')"
  shows "sw_q (sh_streams sh' vin) = fs \<and> sw_q (sh_streams sh' v1) = sw_q (sh_streams sh v1) @ [f]
     \<and> sh_streams sh' v2 = sh_streams sh v2 \<and> buffered (lc_ports lc') = []"
proof -
  define lc2 where "lc2 = (map_ports (\<lambda>p. (buffer_input 1 f p)\<lparr>po_output_port := 0\<rparr>) lc)\<lparr>lc_last_rport := lc_ret lc\<rparr>"
  have in2: "po_output_port (lc_ports lc2) = 0" "po_input_port (lc_ports lc2) AND PORT_BIT 1 \<noteq> 0"
    "3 \<le> length (po_output_data (lc_ports lc2))" "po_input_data (lc_ports lc2) ! 1 = f"
    using lc by (simp_all add: lc2_def buffer_input_def or_and_self)
  note h = tee_handler_flit [OF in2(1-3), unfolded in2(4)]
  obtain sh1 where r: "net_read vin sh = (Some f, sh1)" "sh_streams sh1 = (sh_streams sh)(vin := (sh_streams sh vin)\<lparr>sw_q := fs\<rparr>)"
    using sh(1) by (auto simp: net_read_def sw_read_nb_def)
  obtain sh2 where w1: "net_write v1 f sh1 = (True, sh2)"
    "sh_streams sh2 = (sh_streams sh1)(v1 := (sh_streams sh v1)\<lparr>sw_q := sw_q (sh_streams sh v1) @ [f]\<rparr>)"
    using sh(2) kn(5) by (auto simp: net_write_def sw_write_nb_def r(2))
  have w2: "net_write v2 f sh2 = (False, sh2)"
    using sh(3) kn(5) by (auto simp: net_write_def sw_write_nb_def r(2) w1(2) fun_upd_idem_iff)
  have "read_input kn 1 (lc, sh) = (map_ports (buffer_input 1 f) lc, sh1)" using lc(1) by (simp add: read_input_def kn r del: One_nat_def)
  then have "(lc', sh') = write_output kn 2 (write_output kn 1
      (map_ports (\<lambda>p. p\<lparr>po_output_failed := 0, po_output_success := 0\<rparr>) (tee_handler lc2), sh1))"
    using run by (simp add: tee_code_def lc2_def kn)
  then show ?thesis using h r w1 w2 kn(5)
    by (auto simp: write_output_def kn kn(3) [unfolded One_nat_def] record_result_def held_at_def split: if_splits)
qed

lemma demux_handler_flit:
  assumes "input_ready PORT_1 (lc_ports lc)" "po_output_port (lc_ports lc) = 0" "unat (dm_rr (lc_state lc)) = c mod 8 + 1"
  shows "po_output_port (lc_ports (demux_handler lc)) = PORT_BIT (c mod 8 + 1)"
    "unat (dm_rr (lc_state (demux_handler lc))) = Suc c mod 8 + 1" "buffered (lc_ports (demux_handler lc)) = []"
proof -
  have "unat (dm_rr (lc_state lc) mod 8 + 1) = (c mod 8 + 1) mod 8 + 1"
    using assms(3) by (simp add: unat_word_ariths unat_mod) 
  also have "\<dots> = Suc c mod 8 + 1" by (simp add: mod_Suc)
  finally show "unat (dm_rr (lc_state (demux_handler lc))) = Suc c mod 8 + 1"
    using assms(1) by (simp add: demux_handler_def Let_def read_input_port_def)
  show "po_output_port (lc_ports (demux_handler lc)) = PORT_BIT (c mod 8 + 1)" "buffered (lc_ports (demux_handler lc)) = []"
    using assms by (simp_all add: demux_handler_def Let_def read_input_port_def clear_input_ready_def set_output_port_def
        held_at_def take_port_1 PORT_1_def)
qed

subsection \<open>The lossy flag\<close>

text \<open>The plan with another choice of arrow, lossless or lossy, for every connection.\<close>

definition with_arrows :: "(stream_conn \<Rightarrow> bool) \<Rightarrow> build \<Rightarrow> build" where
  "with_arrows c b =
     b\<lparr>b_stream_conns := map (\<lambda>sc. sc\<lparr>sc_lossy := c sc\<rparr>) (b_stream_conns b),
       b_tor_conns := map (\<lambda>sc. sc\<lparr>sc_lossy := c sc\<rparr>) (b_tor_conns b),
       b_nic_conns := map (\<lambda>sc. sc\<lparr>sc_lossy := c sc\<rparr>) (b_nic_conns b)\<rparr>"

lemma enumerate_map: "enumerate n (map f xs) = map (\<lambda>(i, x). (i, f x)) (enumerate n xs)"
  by (induction xs arbitrary: n) simp_all

lemma fold_wire_arrows:
  "fold (wire_stream base skip) (enumerate n (map (\<lambda>sc. sc\<lparr>sc_lossy := c sc\<rparr>) scs)) w =
   fold (wire_stream base skip) (enumerate n scs) w"
  by (induction scs arbitrary: n w) (simp_all add: wire_stream_def Let_def)

lemma wire_all_arrows: "wire_all (with_arrows c b) = wire_all b"
  by (simp add: wire_all_def wire_hosts_def wire_nic_def wire_tor_def wire_internal_def with_arrows_def fold_wire_arrows)

lemma link_arrows:
  "link_stream (sc\<lparr>sc_lossy := x\<rparr>) = link_stream sc" "link_boundary side (i, sc\<lparr>sc_lossy := x\<rparr>) = link_boundary side (i, sc)"
  by (simp_all add: link_stream_def link_boundary_def Let_def)

lemma with_arrows_others [simp]:
  "b_kernels (with_arrows c b) = b_kernels b" "b_source_path (with_arrows c b) = b_source_path b"
  "b_platform (with_arrows c b) = b_platform b" "b_user_clock_hz (with_arrows c b) = b_user_clock_hz b"
  "b_host_streams (with_arrows c b) = b_host_streams b" "b_signal_table (with_arrows c b) = b_signal_table b"
  "length (b_stream_conns (with_arrows c b)) = length (b_stream_conns b)"
  by (simp_all add: with_arrows_def)

lemma emitters_arrows:
  "emitSwEmu sys (with_arrows c b) = emitSwEmu sys b" "emitHlsCpp sys (with_arrows c b) = emitHlsCpp sys b"
  "emitSystemC sys (with_arrows c b) = emitSystemC sys b" "emitVerilator sys (with_arrows c b) = emitVerilator sys b"
  "emitVppLink sys (with_arrows c b) = emitVppLink sys b" "emitXrtHost sys (with_arrows c b) = emitXrtHost sys b"
proof -
  have "emitMain (with_arrows c b) = emitMain b" by (simp add: emitMain_def wire_all_arrows)
  then show "emitSwEmu sys (with_arrows c b) = emitSwEmu sys b"
    by (intro ext) (simp add: emitSwEmu_def sw_emu_topology_def emitTopologyHeader_def Let_def)
  have "emitKernel (with_arrows c b) = emitKernel b" by (intro ext) (simp add: emitKernel_def emitPrologueComment_def)
  then have "hls_kernel_files sys (with_arrows c b) = hls_kernel_files sys b" by (intro ext) (simp add: hls_kernel_files_def Let_def split_beta)
  then show "emitHlsCpp sys (with_arrows c b) = emitHlsCpp sys b"
    by (intro ext) (simp add: emitHlsCpp_def kernel_manifest_def Let_def split_beta cong: if_cong)
  have "sc_main (with_arrows c b) = sc_main b"
    by (simp add: sc_main_def with_arrows_def enumerate_map o_def case_prod_unfold)
  then show "emitSystemC sys (with_arrows c b) = emitSystemC sys b"
    by (intro ext) (simp add: emitSystemC_def sc_header_def)
  show "emitVerilator sys (with_arrows c b) = emitVerilator sys b"
    by (intro ext) (simp add: emitVerilator_def emitTopVerilog_def)
  have "emitConnectivity (with_arrows c b) = emitConnectivity b"
    by (simp add: emitConnectivity_def with_arrows_def enumerate_map o_def case_prod_unfold link_arrows)
  then show "emitVppLink sys (with_arrows c b) = emitVppLink sys b"
    by (intro ext) (simp add: emitVppLink_def emitClocks_def)
  show "emitXrtHost sys (with_arrows c b) = emitXrtHost sys b"
    by (intro ext) (simp add: emitXrtHost_def emitKernelTable_def element_types_def)
qed

text \<open>One loop of a Pass kernel whose output stream is full: the flit it reads is gone.\<close>

lemma full_stream_loses_flit:
  assumes "i < length (nt_threads n)" and "th_cont (nt_threads n ! i) = Some (one_to_one False)"
    and "th_kernel (nt_threads n ! i) = kn" and "kn_handler kn = pass_handler" and "kn_in kn 1 \<noteq> kn_out kn 1"
    and "wants_input 1 (th_locals (nt_threads n ! i))" and "ports_fit (lc_ports (th_locals (nt_threads n ! i)))"
    and "sw_q (sh_streams (nt_shared n) (kn_in kn 1)) = f # fs" and "\<not> flit_error f \<and> \<not> fcs_error f"
    and "sw_capacity (sh_streams (nt_shared n) (kn_out kn 1)) \<le> int (length (sw_q (sh_streams (nt_shared n) (kn_out kn 1))))"
  shows "\<exists>k n'. n' = run_net (replicate k (Run i)) n
    \<and> sw_q (sh_streams (nt_shared n') (kn_in kn 1)) = fs
    \<and> sh_streams (nt_shared n') (kn_out kn 1) = sh_streams (nt_shared n) (kn_out kn 1)
    \<and> th_cont (nt_threads n' ! i) = Some [] \<and> buffered (lc_ports (th_locals (nt_threads n' ! i))) = []"
proof -
  let ?t = "nt_threads n ! i"
  obtain lc sh where run: "run_code kn (one_to_one False) (th_locals ?t, nt_shared n) = (lc, sh)" by fastforce
  from run_code_net [OF assms(1) refl assms(2)] obtain k where
    k: "run_net (replicate k (Run i)) n =
      n\<lparr>nt_threads := (nt_threads n)[i := ?t\<lparr>th_cont := Some [], th_locals := lc\<rparr>], nt_shared := sh\<rparr>"
    by (auto simp: assms(3) run)
  from pass.full_stream_drops [OF assms(4) refl refl assms(5-8,10,9) run] show ?thesis
    by (intro exI [where x = k] exI [where x = "run_net (replicate k (Run i)) n"]) (simp add: k assms(1))
qed

text \<open>An output and an input that no connection uses are joined through the null stream.\<close>

lemma unconnected_ports_meet:
  assumes "(ka, True, int p) \<notin> fst ` set (attachments b)" and "(kb, False, int q) \<notin> fst ` set (attachments b)"
    and "kna = kernel_fn_of (wire_all b) ha sa k1" and "kh_name k1 = ka"
    and "knb = kernel_fn_of (wire_all b) hb sb k2" and "kh_name k2 = kb"
    and "sw_q (sh_streams sh null_var) = []" and "0 < sw_capacity (sh_streams sh null_var)"
    and "po_output_port (lc_ports la) AND PORT_BIT p \<noteq> 0" and "wants_input q lb"
    and "q < length (po_input_data (lc_ports lb))"
    and "write_output kna p (la, sh) = (la', sh1)" and "read_input knb q (lb, sh1) = (lb', sh2)"
  shows "po_input_data (lc_ports lb') ! q = po_output_data (lc_ports la) ! p
    \<and> po_input_port (lc_ports lb') AND PORT_BIT q = PORT_BIT q"
proof -
  have null: "port_stream (wire_all b) key = null_var" if "key \<notin> fst ` set (attachments b)" for key
  proof -
    have "map_of (rev (attachments b)) key = None" using that by (simp add: map_of_eq_None_iff)
    then show ?thesis by (simp add: port_stream_def wire_all_map)
  qed
  show ?thesis by (rule null_stream_joins [OF null [OF assms(1)] null [OF assms(2)] assms(3-13)])
qed

end
