(* ===== verification/Sha1.thy ===== *)
theory Sha1
  imports Prelude
begin

text \<open>
  SHA-1 (\<open>runtime/include/openclicknp/sha1.hpp\<close>). The context is a record, \<open>buf\<close> the 64-byte array
  of which the first \<open>buf_len\<close> bytes are in use. The two loops that depend on \<open>buf_len\<close> may run
  forever on a context that \<open>init\<close> did not set up, so they are partial: None is a loop that does not
  return. From \<open>init\<close> on they return, the result does not depend on how the data is cut into calls
  of \<open>update\<close>, and it is the chaining of the compression function over the padded message.
\<close>

subsection \<open>Compression\<close>

definition rotl32 :: "u32 \<Rightarrow> nat \<Rightarrow> u32" where
  "rotl32 x n = push_bit n x OR drop_bit (32 - n) x"

definition word_at :: "u8 list \<Rightarrow> nat \<Rightarrow> u32" where
  "word_at block i =
     push_bit 24 (ucast (block ! (i * 4))) OR push_bit 16 (ucast (block ! (i * 4 + 1)))
     OR push_bit 8 (ucast (block ! (i * 4 + 2))) OR push_bit 0 (ucast (block ! (i * 4 + 3)))"

definition schedule_step :: "nat \<Rightarrow> u32 list \<Rightarrow> u32 list" where
  "schedule_step i w = w[i := rotl32 (w ! (i - 3) XOR w ! (i - 8) XOR w ! (i - 14) XOR w ! (i - 16)) 1]"

definition schedule :: "u8 list \<Rightarrow> u32 list" where
  "schedule block = fold schedule_step [16..<80] (map (word_at block) [0..<16] @ replicate 64 0)"

type_synonym chaining = "u32 \<times> u32 \<times> u32 \<times> u32 \<times> u32"

definition round_fk :: "nat \<Rightarrow> u32 \<Rightarrow> u32 \<Rightarrow> u32 \<Rightarrow> u32 \<times> u32" where
  "round_fk i b c d =
     (if i < 20 then ((b AND c) OR (NOT b AND d), 0x5A827999)
      else if i < 40 then (b XOR c XOR d, 0x6ED9EBA1)
      else if i < 60 then ((b AND c) OR (b AND d) OR (c AND d), 0x8F1BBCDC)
      else (b XOR c XOR d, 0xCA62C1D6))"

definition round_step :: "u32 list \<Rightarrow> nat \<Rightarrow> chaining \<Rightarrow> chaining" where
  "round_step w i s =
     (case s of (a, b, c, d, e) \<Rightarrow>
        let (f, k) = round_fk i b c d; t = rotl32 a 5 + f + e + k + w ! i
        in (t, a, rotl32 b 30, c, d))"

definition compress :: "u8 list \<Rightarrow> chaining \<Rightarrow> chaining" where
  "compress block h =
     (case (h, fold (round_step (schedule block)) [0..<80] h) of
        ((h0, h1, h2, h3, h4), (a, b, c, d, e)) \<Rightarrow> (h0 + a, h1 + b, h2 + c, h3 + d, h4 + e))"

subsection \<open>The incremental context\<close>

record sha1_ctx =
  ctx_h :: chaining
  ctx_total_bytes :: u64
  ctx_buf :: "u8 list"
  ctx_buf_len :: nat

definition init_h :: chaining where
  "init_h = (0x67452301, 0xEFCDAB89, 0x98BADCFE, 0x10325476, 0xC3D2E1F0)"

definition sha1_init :: "u8 list \<Rightarrow> sha1_ctx" where
  "sha1_init buf = \<lparr>ctx_h = init_h, ctx_total_bytes = 0, ctx_buf = buf, ctx_buf_len = 0\<rparr>"

text \<open>The bytes written at the end of the used part, then the block if it is full.\<close>

definition buf_put :: "u8 list \<Rightarrow> u8 list \<Rightarrow> nat \<Rightarrow> u8 list" where
  "buf_put buf xs k = take k buf @ xs @ drop (k + length xs) buf"

definition absorb :: "u8 list \<Rightarrow> sha1_ctx \<Rightarrow> sha1_ctx" where
  "absorb xs s =
     (let s1 = s\<lparr>ctx_buf := buf_put (ctx_buf s) xs (ctx_buf_len s), ctx_buf_len := ctx_buf_len s + length xs\<rparr>
      in if ctx_buf_len s1 = 64 then s1\<lparr>ctx_h := compress (ctx_buf s1) (ctx_h s1), ctx_buf_len := 0\<rparr> else s1)"

partial_function (option) update_loop :: "u8 list \<Rightarrow> sha1_ctx \<Rightarrow> sha1_ctx option" where
  "update_loop data s =
     (if data = [] then Some s
      else let n = (if length data < 64 - ctx_buf_len s then length data else 64 - ctx_buf_len s)
           in update_loop (drop n data) (absorb (take n data) s))"

definition sha1_update :: "u8 list \<Rightarrow> sha1_ctx \<Rightarrow> sha1_ctx option" where
  "sha1_update data s = update_loop data (s\<lparr>ctx_total_bytes := ctx_total_bytes s + of_nat (length data)\<rparr>)"

partial_function (option) pad_zeros :: "sha1_ctx \<Rightarrow> sha1_ctx option" where
  "pad_zeros s =
     (if ctx_buf_len s = 56 then Some s
      else case sha1_update [0] s of None \<Rightarrow> None | Some s1 \<Rightarrow> pad_zeros s1)"

definition length_be :: "u64 \<Rightarrow> u8 list" where
  "length_be total_bits = map (\<lambda>i. ucast (drop_bit (56 - 8 * i) total_bits)) [0..<8]"

definition word_be :: "u32 \<Rightarrow> u8 list" where
  "word_be h = [ucast (drop_bit 24 h), ucast (drop_bit 16 h), ucast (drop_bit 8 h), ucast (drop_bit 0 h)]"

definition digest_bytes :: "chaining \<Rightarrow> u8 list" where
  "digest_bytes h = (case h of (h0, h1, h2, h3, h4) \<Rightarrow> concat (map word_be [h0, h1, h2, h3, h4]))"

text \<open>\<open>final_digest\<close> pads through the context, so the caller's context is no longer the one of the message.\<close>

definition final_context :: "sha1_ctx \<Rightarrow> sha1_ctx option" where
  "final_context s =
     (let total_bits = ctx_total_bytes s * 8
      in case sha1_update [0x80] s of
           None \<Rightarrow> None
         | Some s1 \<Rightarrow> (case pad_zeros s1 of
             None \<Rightarrow> None
           | Some s2 \<Rightarrow> sha1_update (length_be total_bits) s2))"

definition final_digest :: "sha1_ctx \<Rightarrow> u8 list option" where
  "final_digest s = (case final_context s of None \<Rightarrow> None | Some s3 \<Rightarrow> Some (digest_bytes (ctx_h s3)))"

definition sha1_hash :: "u8 list \<Rightarrow> u8 list \<Rightarrow> u8 list option" where
  "sha1_hash buf data =
     (case sha1_update data (sha1_init buf) of None \<Rightarrow> None | Some s \<Rightarrow> final_digest s)"

declare update_loop.simps [code]
declare pad_zeros.simps [code]

subsection \<open>What a context stands for\<close>

text \<open>The chaining of the whole blocks of a message, and the bytes after them.\<close>

function chain_blocks :: "u8 list \<Rightarrow> chaining \<Rightarrow> chaining" where
  "chain_blocks m h = (if length m < 64 then h else chain_blocks (drop 64 m) (compress (take 64 m) h))"
  by auto
termination by (relation "measure (\<lambda>(m, _). length m)") auto

declare chain_blocks.simps [simp del]

definition rest_bytes :: "u8 list \<Rightarrow> u8 list" where
  "rest_bytes m = drop (length m div 64 * 64) m"

definition ctx_ok :: "sha1_ctx \<Rightarrow> bool" where
  "ctx_ok s \<longleftrightarrow> length (ctx_buf s) = 64 \<and> ctx_buf_len s < 64"

text \<open>The context after the message \<open>m\<close>.\<close>

definition ctx_of :: "u8 list \<Rightarrow> sha1_ctx \<Rightarrow> bool" where
  "ctx_of m s \<longleftrightarrow> ctx_ok s \<and> ctx_h s = chain_blocks m init_h \<and> take (ctx_buf_len s) (ctx_buf s) = rest_bytes m
     \<and> ctx_total_bytes s = of_nat (length m)"

lemma length_rest: "length (rest_bytes m) = length m mod 64"
  by (simp add: rest_bytes_def minus_div_mult_eq_mod)

lemma rest_short: "length m < 64 \<Longrightarrow> rest_bytes m = m"
  by (simp add: rest_bytes_def)

lemma rest_block: "length b = 64 \<Longrightarrow> rest_bytes (b @ m) = rest_bytes m"
proof -
  assume b: "length b = 64"
  have "(64 + length m) div 64 = Suc (length m div 64)" by simp
  with b show ?thesis by (simp add: rest_bytes_def)
qed

lemma chain_short: "length m < 64 \<Longrightarrow> chain_blocks m h = h"
  by (subst chain_blocks.simps) simp

lemma chain_block: "length b = 64 \<Longrightarrow> chain_blocks (b @ m) h = chain_blocks m (compress b h)"
  by (subst chain_blocks.simps) simp

text \<open>More bytes, seen from the bytes left over.\<close>

lemma append_rest: "chain_blocks (m @ xs) h = chain_blocks (rest_bytes m @ xs) (chain_blocks m h)
    \<and> rest_bytes (m @ xs) = rest_bytes (rest_bytes m @ xs)"
proof (induction m h rule: chain_blocks.induct)
  case (1 m h)
  show ?case
  proof (cases "length m < 64")
    case True
    then show ?thesis by (simp add: rest_short chain_short)
  next
    case False
    define b r where "b = take 64 m" and "r = drop 64 m"
    have m: "m = b @ r" and b: "length b = 64" using False by (simp_all add: b_def r_def)
    from 1 [OF False] show ?thesis
      by (simp add: b_def [symmetric] r_def [symmetric]) (simp add: m chain_block [OF b] rest_block [OF b])
  qed
qed

lemma absorb_ctx:
  assumes "ctx_ok s" "length xs \<le> 64 - ctx_buf_len s"
  defines "p \<equiv> take (ctx_buf_len s) (ctx_buf s) @ xs"
  shows "ctx_ok (absorb xs s)" "ctx_h (absorb xs s) = chain_blocks p (ctx_h s)"
    and "take (ctx_buf_len (absorb xs s)) (ctx_buf (absorb xs s)) = rest_bytes p"
    and "ctx_total_bytes (absorb xs s) = ctx_total_bytes s"
    and "ctx_buf_len (absorb xs s) = (ctx_buf_len s + length xs) mod 64"
proof -
  let ?k = "ctx_buf_len s + length xs"
  let ?b = "buf_put (ctx_buf s) xs (ctx_buf_len s)"
  have k: "?k \<le> 64" "length (ctx_buf s) = 64" using assms by (auto simp: ctx_ok_def)
  have b: "length ?b = 64" using k by (simp add: buf_put_def)
  have p: "length p = ?k" "take ?k ?b = p" using k by (simp_all add: p_def buf_put_def)
  have full: "p = ?b" if "?k = 64" using p b that by simp
  show "ctx_ok (absorb xs s)" "ctx_h (absorb xs s) = chain_blocks p (ctx_h s)"
    "take (ctx_buf_len (absorb xs s)) (ctx_buf (absorb xs s)) = rest_bytes p"
    "ctx_total_bytes (absorb xs s) = ctx_total_bytes s"
    "ctx_buf_len (absorb xs s) = (ctx_buf_len s + length xs) mod 64"
  proof -
    consider "?k = 64" | "?k < 64" using k by linarith
    then have "ctx_ok (absorb xs s) \<and> ctx_h (absorb xs s) = chain_blocks p (ctx_h s)
      \<and> take (ctx_buf_len (absorb xs s)) (ctx_buf (absorb xs s)) = rest_bytes p
      \<and> ctx_buf_len (absorb xs s) = (ctx_buf_len s + length xs) mod 64"
    proof cases
      case 1
      have "chain_blocks (?b @ []) (ctx_h s) = compress ?b (ctx_h s)"
        using chain_block [OF b, of "[]"] by (simp add: chain_short)
      moreover have "rest_bytes (?b @ []) = []" using rest_block [OF b, of "[]"] by (simp add: rest_short)
      ultimately show ?thesis using b full [OF 1] 1 by (simp add: absorb_def Let_def ctx_ok_def)
    next
      case 2
      then show ?thesis using b p by (simp add: absorb_def Let_def ctx_ok_def chain_short rest_short)
    qed
    then show "ctx_ok (absorb xs s)" "ctx_h (absorb xs s) = chain_blocks p (ctx_h s)"
      "take (ctx_buf_len (absorb xs s)) (ctx_buf (absorb xs s)) = rest_bytes p"
      "ctx_buf_len (absorb xs s) = (ctx_buf_len s + length xs) mod 64" by blast+
    show "ctx_total_bytes (absorb xs s) = ctx_total_bytes s" by (simp add: absorb_def Let_def)
  qed
qed

text \<open>The loop returns on every context with room in its buffer.\<close>

lemma update_loop_ctx:
  assumes "ctx_ok s"
  shows "\<exists>s'. update_loop data s = Some s' \<and> ctx_ok s'
    \<and> ctx_h s' = chain_blocks (take (ctx_buf_len s) (ctx_buf s) @ data) (ctx_h s)
    \<and> take (ctx_buf_len s') (ctx_buf s') = rest_bytes (take (ctx_buf_len s) (ctx_buf s) @ data)
    \<and> ctx_total_bytes s' = ctx_total_bytes s \<and> ctx_buf_len s' = (ctx_buf_len s + length data) mod 64"
  using assms
proof (induction "length data" arbitrary: data s rule: less_induct)
  case less
  show ?case
  proof (cases "data = []")
    case True
    then have "update_loop data s = Some s" by (simp add: update_loop.simps)
    with less.prems show ?thesis by (auto simp: True ctx_ok_def chain_short rest_short)
  next
    case False
    define n where "n = (if length data < 64 - ctx_buf_len s then length data else 64 - ctx_buf_len s)"
    let ?xs = "take n data" and ?p = "take (ctx_buf_len s) (ctx_buf s)"
    have n: "0 < n" "n \<le> length data" "length ?xs \<le> 64 - ctx_buf_len s"
      using False less.prems by (auto simp: ctx_ok_def n_def)
    note a = absorb_ctx [OF less.prems n(3)]
    have "length (drop n data) < length data" using n(1) False by simp
    from less.hyps [OF this a(1)]
    obtain s' where s': "update_loop (drop n data) (absorb ?xs s) = Some s'" "ctx_ok s'"
      "ctx_h s' = chain_blocks (rest_bytes (?p @ ?xs) @ drop n data) (chain_blocks (?p @ ?xs) (ctx_h s))"
      "take (ctx_buf_len s') (ctx_buf s') = rest_bytes (rest_bytes (?p @ ?xs) @ drop n data)"
      "ctx_total_bytes s' = ctx_total_bytes s"
      "ctx_buf_len s' = ((ctx_buf_len s + length ?xs) mod 64 + length (drop n data)) mod 64"
      unfolding a(2-4) unfolding a(5) by blast
    have "update_loop data s = update_loop (drop n data) (absorb ?xs s)"
      using False update_loop.simps [of data s] unfolding n_def [symmetric] Let_def by simp
    with s'(1) have "update_loop data s = Some s'" by simp
    moreover have "ctx_buf_len s' = (ctx_buf_len s + length data) mod 64"
      unfolding s'(6) mod_add_left_eq using n(2) by simp
    moreover have "(?p @ ?xs) @ drop n data = ?p @ data" by simp
    then have "chain_blocks (?p @ data) (ctx_h s) = ctx_h s'" "rest_bytes (?p @ data) = take (ctx_buf_len s') (ctx_buf s')"
      using append_rest [of "?p @ ?xs" "drop n data" "ctx_h s"] s'(3,4) by simp_all
    ultimately show ?thesis using s'(2,5) by simp
  qed
qed

lemma update_ctx:
  assumes "ctx_of m s"
  shows "\<exists>s'. sha1_update data s = Some s' \<and> ctx_of (m @ data) s' \<and> ctx_buf_len s' = (ctx_buf_len s + length data) mod 64"
proof -
  let ?s = "s\<lparr>ctx_total_bytes := ctx_total_bytes s + of_nat (length data)\<rparr>"
  from assms have m: "ctx_ok ?s" "ctx_h s = chain_blocks m init_h" "take (ctx_buf_len s) (ctx_buf s) = rest_bytes m"
    "ctx_total_bytes s = of_nat (length m)" by (simp_all add: ctx_of_def ctx_ok_def)
  from update_loop_ctx [OF m(1), of data] m append_rest [of m data init_h]
  show ?thesis by (auto simp: sha1_update_def ctx_of_def)
qed

lemma init_ctx: "length buf = 64 \<Longrightarrow> ctx_of [] (sha1_init buf)"
  by (simp add: ctx_of_def sha1_init_def ctx_ok_def chain_short rest_short)

lemma ctx_of_len: "ctx_of m s \<Longrightarrow> ctx_buf_len s = length m mod 64"
  using length_rest [of m] by (auto simp: ctx_of_def ctx_ok_def min_def dest!: arg_cong [where f = length])

subsection \<open>Padding and the digest\<close>

text \<open>The number of zeros after the byte 0x80.\<close>

definition zeros_needed :: "nat \<Rightarrow> nat" where
  "zeros_needed k = (if k \<le> 56 then 56 - k else 120 - k)"

lemma pad_zeros_ctx:
  assumes "ctx_of m s"
  shows "\<exists>s'. pad_zeros s = Some s' \<and> ctx_of (m @ replicate (zeros_needed (ctx_buf_len s)) 0) s'"
  using assms
proof (induction "zeros_needed (ctx_buf_len s)" arbitrary: m s)
  case 0
  from 0(2) have "ctx_buf_len s < 64" by (simp add: ctx_of_def ctx_ok_def)
  with 0(1) have "ctx_buf_len s = 56" by (simp add: zeros_needed_def split: if_splits)
  with 0(2) show ?case by (subst pad_zeros.simps) (simp add: zeros_needed_def)
next
  case (Suc k)
  from Suc.prems have less: "ctx_buf_len s < 64" by (simp add: ctx_of_def ctx_ok_def)
  from Suc.hyps(2) have ne: "ctx_buf_len s \<noteq> 56" by (auto simp: zeros_needed_def)
  from update_ctx [OF Suc.prems, of "[0]"]
  obtain s1 where s1: "sha1_update [0] s = Some s1" "ctx_of (m @ [0]) s1" "ctx_buf_len s1 = (ctx_buf_len s + 1) mod 64"
    by auto
  have k: "k = zeros_needed (ctx_buf_len s1)"
  proof (cases "ctx_buf_len s = 63")
    case True
    with Suc.hyps(2) s1(3) show ?thesis by (simp add: zeros_needed_def)
  next
    case False
    with less have "ctx_buf_len s1 = ctx_buf_len s + 1" using s1(3) by simp
    with Suc.hyps(2) ne less show ?thesis by (auto simp: zeros_needed_def split: if_splits)
  qed
  from Suc.hyps(1) [OF k s1(2)]
  obtain s' where "pad_zeros s1 = Some s'" "ctx_of ((m @ [0]) @ replicate k 0) s'" unfolding k by blast
  moreover have "pad_zeros s = pad_zeros s1" using ne s1(1) by (subst pad_zeros.simps) simp
  moreover have "(m @ [0]) @ replicate k 0 = m @ replicate (Suc k) 0" by simp
  ultimately show ?case unfolding Suc.hyps(2) [symmetric] by metis
qed

text \<open>The padded message, and the digest of its blocks.\<close>

definition padded :: "u8 list \<Rightarrow> u8 list" where
  "padded m = m @ [0x80] @ replicate (zeros_needed ((length m + 1) mod 64)) 0 @ length_be (of_nat (length m) * 8)"

definition sha1_spec :: "u8 list \<Rightarrow> u8 list" where
  "sha1_spec m = digest_bytes (chain_blocks (padded m) init_h)"

lemma length_padded: "length (padded m) mod 64 = 0"
proof -
  let ?k = "(length m + 1) mod 64"
  have full: "(n + 8) mod 64 = 0" if "n mod 64 = 56" for n :: nat using that by presburger
  have sum: "(k + zeros_needed k) mod 64 = 56" if "k < 64" for k
    using that by (simp add: zeros_needed_def)
  have "(?k + zeros_needed ?k) mod 64 = 56" by (rule sum) simp
  then have "(length m + 1 + zeros_needed ?k) mod 64 = 56" by (simp only: mod_add_left_eq)
  note this [THEN full]
  then show ?thesis by (simp add: padded_def length_be_def ac_simps)
qed

lemma final_context_padded:
  assumes "ctx_of m s"
  shows "\<exists>s3. final_context s = Some s3 \<and> ctx_of (padded m) s3"
proof -
  from update_ctx [OF assms, of "[0x80]"] ctx_of_len [OF assms]
  obtain s1 where s1: "sha1_update [0x80] s = Some s1" "ctx_of (m @ [0x80]) s1"
    "ctx_buf_len s1 = (length m + 1) mod 64" by (auto simp: mod_simps)
  from pad_zeros_ctx [OF s1(2)]
  obtain s2 where s2: "pad_zeros s1 = Some s2"
    "ctx_of ((m @ [0x80]) @ replicate (zeros_needed ((length m + 1) mod 64)) 0) s2"
    unfolding s1(3) by blast
  from update_ctx [OF s2(2), of "length_be (of_nat (length m) * 8)"]
  obtain s3 where s3: "sha1_update (length_be (of_nat (length m) * 8)) s2 = Some s3" "ctx_of (padded m) s3"
    by (auto simp: padded_def)
  from assms have "ctx_total_bytes s = of_nat (length m)" by (simp add: ctx_of_def)
  then have "final_context s = Some s3" by (simp add: final_context_def s1(1) s2(1) s3(1) Let_def)
  with s3(2) show ?thesis by blast
qed

lemma final_ctx:
  assumes "ctx_of m s"
  shows "final_digest s = Some (sha1_spec m)"
  using final_context_padded [OF assms] by (auto simp: final_digest_def sha1_spec_def ctx_of_def)

lemma sha1_hash_spec:
  assumes "length buf = 64"
  shows "sha1_hash buf m = Some (sha1_spec m)"
proof -
  from update_ctx [OF init_ctx [OF assms], of m]
  obtain s where "sha1_update m (sha1_init buf) = Some s" "ctx_of m s" by auto
  then show ?thesis by (simp add: sha1_hash_def final_ctx)
qed

text \<open>A message in pieces.\<close>

fun update_all :: "u8 list list \<Rightarrow> sha1_ctx \<Rightarrow> sha1_ctx option" where
  "update_all [] s = Some s"
| "update_all (p # ps) s = (case sha1_update p s of None \<Rightarrow> None | Some s1 \<Rightarrow> update_all ps s1)"

lemma update_all_ctx: "ctx_of m s \<Longrightarrow> \<exists>s'. update_all ps s = Some s' \<and> ctx_of (m @ concat ps) s'"
proof (induction ps arbitrary: m s)
  case (Cons p ps)
  from update_ctx [OF Cons.prems, of p] obtain s1 where s1: "sha1_update p s = Some s1" "ctx_of (m @ p) s1" by blast
  from Cons.IH [OF s1(2)] show ?case by (simp add: s1(1))
qed simp

lemma length_sha1_spec: "length (sha1_spec m) = 20"
  by (simp add: sha1_spec_def digest_bytes_def word_be_def split: prod.split)

text \<open>Feeding a message in any pieces, empty ones included, gives the digest of the whole.\<close>

lemma sha1_cuts_do_not_matter:
  assumes "length buf = 64"
  shows "(case update_all ps (sha1_init buf) of None \<Rightarrow> None | Some s \<Rightarrow> final_digest s) = sha1_hash buf (concat ps)"
proof -
  obtain s where "update_all ps (sha1_init buf) = Some s" "ctx_of (concat ps) s"
    using update_all_ctx [OF init_ctx [OF assms], of ps] by auto
  then show ?thesis by (simp add: final_ctx sha1_hash_spec [OF assms])
qed

end
