(* ===== verification/Aes.thy ===== *)
theory Aes
  imports Prelude
begin

text \<open>
  AES-128 (\<open>runtime/include/openclicknp/aes128.hpp\<close>): the key schedule, the two block ciphers round
  by round and counter mode. A block is the list of its 16 bytes, column by column, and the round
  keys are one array of 176 bytes. Decryption inverts encryption under every key schedule, counter
  mode is its own inverse, and its counter is the low half of the block, read big-endian.
\<close>

definition sbox :: "u8 list" where
  "sbox = [
    0x63, 0x7c, 0x77, 0x7b, 0xf2, 0x6b, 0x6f, 0xc5, 0x30, 0x01, 0x67, 0x2b, 0xfe, 0xd7, 0xab, 0x76,
    0xca, 0x82, 0xc9, 0x7d, 0xfa, 0x59, 0x47, 0xf0, 0xad, 0xd4, 0xa2, 0xaf, 0x9c, 0xa4, 0x72, 0xc0,
    0xb7, 0xfd, 0x93, 0x26, 0x36, 0x3f, 0xf7, 0xcc, 0x34, 0xa5, 0xe5, 0xf1, 0x71, 0xd8, 0x31, 0x15,
    0x04, 0xc7, 0x23, 0xc3, 0x18, 0x96, 0x05, 0x9a, 0x07, 0x12, 0x80, 0xe2, 0xeb, 0x27, 0xb2, 0x75,
    0x09, 0x83, 0x2c, 0x1a, 0x1b, 0x6e, 0x5a, 0xa0, 0x52, 0x3b, 0xd6, 0xb3, 0x29, 0xe3, 0x2f, 0x84,
    0x53, 0xd1, 0x00, 0xed, 0x20, 0xfc, 0xb1, 0x5b, 0x6a, 0xcb, 0xbe, 0x39, 0x4a, 0x4c, 0x58, 0xcf,
    0xd0, 0xef, 0xaa, 0xfb, 0x43, 0x4d, 0x33, 0x85, 0x45, 0xf9, 0x02, 0x7f, 0x50, 0x3c, 0x9f, 0xa8,
    0x51, 0xa3, 0x40, 0x8f, 0x92, 0x9d, 0x38, 0xf5, 0xbc, 0xb6, 0xda, 0x21, 0x10, 0xff, 0xf3, 0xd2,
    0xcd, 0x0c, 0x13, 0xec, 0x5f, 0x97, 0x44, 0x17, 0xc4, 0xa7, 0x7e, 0x3d, 0x64, 0x5d, 0x19, 0x73,
    0x60, 0x81, 0x4f, 0xdc, 0x22, 0x2a, 0x90, 0x88, 0x46, 0xee, 0xb8, 0x14, 0xde, 0x5e, 0x0b, 0xdb,
    0xe0, 0x32, 0x3a, 0x0a, 0x49, 0x06, 0x24, 0x5c, 0xc2, 0xd3, 0xac, 0x62, 0x91, 0x95, 0xe4, 0x79,
    0xe7, 0xc8, 0x37, 0x6d, 0x8d, 0xd5, 0x4e, 0xa9, 0x6c, 0x56, 0xf4, 0xea, 0x65, 0x7a, 0xae, 0x08,
    0xba, 0x78, 0x25, 0x2e, 0x1c, 0xa6, 0xb4, 0xc6, 0xe8, 0xdd, 0x74, 0x1f, 0x4b, 0xbd, 0x8b, 0x8a,
    0x70, 0x3e, 0xb5, 0x66, 0x48, 0x03, 0xf6, 0x0e, 0x61, 0x35, 0x57, 0xb9, 0x86, 0xc1, 0x1d, 0x9e,
    0xe1, 0xf8, 0x98, 0x11, 0x69, 0xd9, 0x8e, 0x94, 0x9b, 0x1e, 0x87, 0xe9, 0xce, 0x55, 0x28, 0xdf,
    0x8c, 0xa1, 0x89, 0x0d, 0xbf, 0xe6, 0x42, 0x68, 0x41, 0x99, 0x2d, 0x0f, 0xb0, 0x54, 0xbb, 0x16]"

definition inv_sbox :: "u8 list" where
  "inv_sbox = [
    0x52, 0x09, 0x6a, 0xd5, 0x30, 0x36, 0xa5, 0x38, 0xbf, 0x40, 0xa3, 0x9e, 0x81, 0xf3, 0xd7, 0xfb,
    0x7c, 0xe3, 0x39, 0x82, 0x9b, 0x2f, 0xff, 0x87, 0x34, 0x8e, 0x43, 0x44, 0xc4, 0xde, 0xe9, 0xcb,
    0x54, 0x7b, 0x94, 0x32, 0xa6, 0xc2, 0x23, 0x3d, 0xee, 0x4c, 0x95, 0x0b, 0x42, 0xfa, 0xc3, 0x4e,
    0x08, 0x2e, 0xa1, 0x66, 0x28, 0xd9, 0x24, 0xb2, 0x76, 0x5b, 0xa2, 0x49, 0x6d, 0x8b, 0xd1, 0x25,
    0x72, 0xf8, 0xf6, 0x64, 0x86, 0x68, 0x98, 0x16, 0xd4, 0xa4, 0x5c, 0xcc, 0x5d, 0x65, 0xb6, 0x92,
    0x6c, 0x70, 0x48, 0x50, 0xfd, 0xed, 0xb9, 0xda, 0x5e, 0x15, 0x46, 0x57, 0xa7, 0x8d, 0x9d, 0x84,
    0x90, 0xd8, 0xab, 0x00, 0x8c, 0xbc, 0xd3, 0x0a, 0xf7, 0xe4, 0x58, 0x05, 0xb8, 0xb3, 0x45, 0x06,
    0xd0, 0x2c, 0x1e, 0x8f, 0xca, 0x3f, 0x0f, 0x02, 0xc1, 0xaf, 0xbd, 0x03, 0x01, 0x13, 0x8a, 0x6b,
    0x3a, 0x91, 0x11, 0x41, 0x4f, 0x67, 0xdc, 0xea, 0x97, 0xf2, 0xcf, 0xce, 0xf0, 0xb4, 0xe6, 0x73,
    0x96, 0xac, 0x74, 0x22, 0xe7, 0xad, 0x35, 0x85, 0xe2, 0xf9, 0x37, 0xe8, 0x1c, 0x75, 0xdf, 0x6e,
    0x47, 0xf1, 0x1a, 0x71, 0x1d, 0x29, 0xc5, 0x89, 0x6f, 0xb7, 0x62, 0x0e, 0xaa, 0x18, 0xbe, 0x1b,
    0xfc, 0x56, 0x3e, 0x4b, 0xc6, 0xd2, 0x79, 0x20, 0x9a, 0xdb, 0xc0, 0xfe, 0x78, 0xcd, 0x5a, 0xf4,
    0x1f, 0xdd, 0xa8, 0x33, 0x88, 0x07, 0xc7, 0x31, 0xb1, 0x12, 0x10, 0x59, 0x27, 0x80, 0xec, 0x5f,
    0x60, 0x51, 0x7f, 0xa9, 0x19, 0xb5, 0x4a, 0x0d, 0x2d, 0xe5, 0x7a, 0x9f, 0x93, 0xc9, 0x9c, 0xef,
    0xa0, 0xe0, 0x3b, 0x4d, 0xae, 0x2a, 0xf5, 0xb0, 0xc8, 0xeb, 0xbb, 0x3c, 0x83, 0x53, 0x99, 0x61,
    0x17, 0x2b, 0x04, 0x7e, 0xba, 0x77, 0xd6, 0x26, 0xe1, 0x69, 0x14, 0x63, 0x55, 0x21, 0x0c, 0x7d]"

definition rcon :: "u8 list" where
  "rcon = [0x00, 0x01, 0x02, 0x04, 0x08, 0x10, 0x20, 0x40, 0x80, 0x1b, 0x36]"

definition xtime :: "u8 \<Rightarrow> u8" where
  "xtime x = push_bit 1 x XOR (if drop_bit 7 x \<noteq> 0 then 0x1b else 0x00)"

type_synonym block = "u8 list"

subsection \<open>The key schedule\<close>

definition aes128_expand_word :: "nat \<Rightarrow> u8 list \<Rightarrow> u8 list" where
  "aes128_expand_word i rk =
     (let t0 = rk ! (i - 4); t1 = rk ! (i - 3); t2 = rk ! (i - 2); t3 = rk ! (i - 1);
          (t0, t1, t2, t3) =
            if i mod 16 = 0
            then (sbox ! unat t1 XOR rcon ! (i div 16), sbox ! unat t2, sbox ! unat t3, sbox ! unat t0)
            else (t0, t1, t2, t3);
          rk = rk[i := rk ! (i - 16) XOR t0];
          rk = rk[i + 1 := rk ! (i - 16 + 1) XOR t1];
          rk = rk[i + 2 := rk ! (i - 16 + 2) XOR t2]
      in rk[i + 3 := rk ! (i - 16 + 3) XOR t3])"

definition aes128_key_expand :: "u8 list \<Rightarrow> u8 list" where
  "aes128_key_expand key =
     fold aes128_expand_word (map (\<lambda>j. 16 + 4 * j) [0..<40]) (take 16 key @ replicate 160 0)"

definition round_key :: "u8 list \<Rightarrow> nat \<Rightarrow> block" where
  "round_key rk r = map (\<lambda>i. rk ! (r * 16 + i)) [0..<16]"

subsection \<open>The forward cipher\<close>

definition add_round_key :: "u8 list \<Rightarrow> nat \<Rightarrow> block \<Rightarrow> block" where
  "add_round_key rk r s = map2 (XOR) s (round_key rk r)"

definition sub_bytes :: "block \<Rightarrow> block" where
  "sub_bytes s = map (\<lambda>x. sbox ! unat x) s"

definition shift_rows :: "block \<Rightarrow> block" where
  "shift_rows t =
     [t ! 0, t ! 5, t ! 10, t ! 15, t ! 4, t ! 9, t ! 14, t ! 3,
      t ! 8, t ! 13, t ! 2, t ! 7, t ! 12, t ! 1, t ! 6, t ! 11]"

definition mix_column :: "u8 \<Rightarrow> u8 \<Rightarrow> u8 \<Rightarrow> u8 \<Rightarrow> u8 list" where
  "mix_column a0 a1 a2 a3 =
     (let x0 = a0 XOR a1 XOR a2 XOR a3
      in [a0 XOR x0 XOR xtime (a0 XOR a1), a1 XOR x0 XOR xtime (a1 XOR a2),
          a2 XOR x0 XOR xtime (a2 XOR a3), a3 XOR x0 XOR xtime (a3 XOR a0)])"

definition on_columns :: "(u8 \<Rightarrow> u8 \<Rightarrow> u8 \<Rightarrow> u8 \<Rightarrow> u8 list) \<Rightarrow> block \<Rightarrow> block" where
  "on_columns f s = concat (map (\<lambda>b. f (s ! b) (s ! (b + 1)) (s ! (b + 2)) (s ! (b + 3))) [0, 4, 8, 12])"

definition mix_columns :: "block \<Rightarrow> block" where
  "mix_columns s = on_columns mix_column s"

definition enc_round :: "u8 list \<Rightarrow> nat \<Rightarrow> block \<Rightarrow> block" where
  "enc_round rk r s = add_round_key rk r (mix_columns (shift_rows (sub_bytes s)))"

definition aes128_encrypt_block :: "u8 list \<Rightarrow> block \<Rightarrow> block" where
  "aes128_encrypt_block rk s =
     add_round_key rk 10 (shift_rows (sub_bytes (fold (enc_round rk) [1..<10] (add_round_key rk 0 s))))"

subsection \<open>The inverse cipher\<close>

definition gmul2 :: "u8 \<Rightarrow> u8" where "gmul2 x = xtime x"
definition gmul4 :: "u8 \<Rightarrow> u8" where "gmul4 x = xtime (xtime x)"
definition gmul8 :: "u8 \<Rightarrow> u8" where "gmul8 x = xtime (xtime (xtime x))"
definition gmul9 :: "u8 \<Rightarrow> u8" where "gmul9 x = gmul8 x XOR x"
definition gmul11 :: "u8 \<Rightarrow> u8" where "gmul11 x = gmul8 x XOR gmul2 x XOR x"
definition gmul13 :: "u8 \<Rightarrow> u8" where "gmul13 x = gmul8 x XOR gmul4 x XOR x"
definition gmul14 :: "u8 \<Rightarrow> u8" where "gmul14 x = gmul8 x XOR gmul4 x XOR gmul2 x"

definition inv_shift_rows :: "block \<Rightarrow> block" where
  "inv_shift_rows s =
     [s ! 0, s ! 13, s ! 10, s ! 7, s ! 4, s ! 1, s ! 14, s ! 11,
      s ! 8, s ! 5, s ! 2, s ! 15, s ! 12, s ! 9, s ! 6, s ! 3]"

definition inv_sub_bytes :: "block \<Rightarrow> block" where
  "inv_sub_bytes t = map (\<lambda>x. inv_sbox ! unat x) t"

definition inv_mix_column :: "u8 \<Rightarrow> u8 \<Rightarrow> u8 \<Rightarrow> u8 \<Rightarrow> u8 list" where
  "inv_mix_column a0 a1 a2 a3 =
     [gmul14 a0 XOR gmul11 a1 XOR gmul13 a2 XOR gmul9 a3,
      gmul9 a0 XOR gmul14 a1 XOR gmul11 a2 XOR gmul13 a3,
      gmul13 a0 XOR gmul9 a1 XOR gmul14 a2 XOR gmul11 a3,
      gmul11 a0 XOR gmul13 a1 XOR gmul9 a2 XOR gmul14 a3]"

definition inv_mix_columns :: "block \<Rightarrow> block" where
  "inv_mix_columns s = on_columns inv_mix_column s"

definition dec_round :: "u8 list \<Rightarrow> nat \<Rightarrow> block \<Rightarrow> block" where
  "dec_round rk r s = inv_mix_columns (add_round_key rk r (inv_sub_bytes (inv_shift_rows s)))"

definition aes128_decrypt_block :: "u8 list \<Rightarrow> block \<Rightarrow> block" where
  "aes128_decrypt_block rk s =
     add_round_key rk 0 (inv_sub_bytes (inv_shift_rows (fold (dec_round rk) (rev [1..<10]) (add_round_key rk 10 s))))"

subsection \<open>Counter mode\<close>

text \<open>The carry runs from byte 15 down to byte 8 and stops at the first byte that did not wrap.\<close>

fun inc_bytes :: "nat \<Rightarrow> block \<Rightarrow> block" where
  "inc_bytes i ctr =
     (if i < 8 then ctr
      else let ctr' = ctr[i := ctr ! i + 1] in if ctr' ! i \<noteq> 0 then ctr' else inc_bytes (i - 1) ctr')"

definition inc_counter :: "block \<Rightarrow> block" where
  "inc_counter ctr = inc_bytes 15 ctr"

function aes128_ctr_xcrypt :: "u8 list \<Rightarrow> block \<Rightarrow> u8 list \<Rightarrow> u8 list" where
  "aes128_ctr_xcrypt rk ctr inp =
     (if inp = [] then []
      else let ks = aes128_encrypt_block rk ctr
           in map2 (XOR) (take 16 inp) ks @ aes128_ctr_xcrypt rk (inc_counter ctr) (drop 16 inp))"
  by auto
termination by (relation "measure (\<lambda>(_, _, inp). length inp)") auto

declare inc_bytes.simps [simp del]
declare aes128_ctr_xcrypt.simps [simp del]

subsection \<open>The steps and their inverses\<close>

lemma sbox_lengths [simp]: "length sbox = 256" "length inv_sbox = 256"
  by (simp_all add: sbox_def inv_sbox_def)

lemma inverse_tables:
  "map (\<lambda>x. inv_sbox ! unat x) sbox = map of_nat [0..<256]"
  "map (\<lambda>x. sbox ! unat x) inv_sbox = map of_nat [0..<256]"
  by code_simp+

lemma u8_less: "unat (x :: u8) < 256"
  using unsigned_less [where 'a = nat, of x] by simp

lemma table_inverse:
  assumes "map f t = map of_nat [0..<256]" "length t = 256"
  shows "f (t ! unat x) = (x :: u8)"
proof -
  have "f (t ! unat x) = map f t ! unat x" using assms(2) u8_less [of x] by simp
  also have "\<dots> = of_nat (unat x)" unfolding assms(1) using u8_less [of x] by simp
  finally show ?thesis by simp
qed

lemma sbox_inverse: "inv_sbox ! unat (sbox ! unat x) = x" "sbox ! unat (inv_sbox ! unat x) = x"
  using table_inverse [OF inverse_tables(1)] table_inverse [OF inverse_tables(2)] by simp_all

lemma sub_bytes_inverse [simp]: "inv_sub_bytes (sub_bytes s) = s" "sub_bytes (inv_sub_bytes s) = s"
  by (simp_all add: sub_bytes_def inv_sub_bytes_def sbox_inverse o_def)

lemma xor_cancel: "x XOR (x XOR y) = y" for x y :: u8
  by (simp flip: xor.assoc)

lemma xtime_xor: "xtime (x XOR y) = xtime x XOR xtime y"
proof -
  have bit7: "drop_bit 7 x \<noteq> 0 \<longleftrightarrow> bit x 7" for x :: u8
  proof -
    have "drop_bit 7 x = of_bool (bit x 7)"
    proof (rule bit_word_eqI)
      fix n
      assume "n < LENGTH(8)"
      show "bit (drop_bit 7 x) n = bit (of_bool (bit x 7) :: u8) n"
        by (cases n) (auto simp: bit_drop_bit_eq bit_simps dest: bit_imp_le_length)
    qed
    then show ?thesis by simp
  qed
  have "push_bit 1 (x XOR y) = push_bit 1 x XOR push_bit 1 y"
    by (rule push_bit_xor)
  then show ?thesis unfolding xtime_def bit7 bit_xor_iff
    by (auto simp: ac_simps xor_cancel)
qed

text \<open>
  Both matrices over the field, multiplied out: every power of \<open>xtime\<close> of every byte occurs an even
  number of times, except the byte itself.
\<close>

lemma mix_column_inverse:
  "mix_column a0 a1 a2 a3 = [b0, b1, b2, b3] \<Longrightarrow> inv_mix_column b0 b1 b2 b3 = [a0, a1, a2, a3]"
  unfolding mix_column_def Let_def list.inject
  by (elim conjE; hypsubst) (simp add: inv_mix_column_def gmul9_def gmul11_def gmul13_def gmul14_def
      gmul8_def gmul4_def gmul2_def xtime_xor ac_simps xor_cancel)

lemma inv_mix_column_inverse:
  "inv_mix_column a0 a1 a2 a3 = [b0, b1, b2, b3] \<Longrightarrow> mix_column b0 b1 b2 b3 = [a0, a1, a2, a3]"
  unfolding inv_mix_column_def list.inject
  by (elim conjE; hypsubst) (simp add: mix_column_def Let_def gmul9_def gmul11_def gmul13_def gmul14_def
      gmul8_def gmul4_def gmul2_def xtime_xor ac_simps xor_cancel)

lemma length_columns: "length (mix_column a b c d) = 4" "length (inv_mix_column a b c d) = 4"
  by (simp_all add: mix_column_def inv_mix_column_def Let_def)

lemma list4: "length xs = 4 \<longleftrightarrow> (\<exists>a b c d. xs = [a, b, c, d])"
  by (auto simp: eval_nat_numeral length_Suc_conv)

lemma list16:
  assumes "length s = 16"
  obtains x0 x1 x2 x3 x4 x5 x6 x7 x8 x9 x10 x11 x12 x13 x14 x15 where
    "s = [x0, x1, x2, x3, x4, x5, x6, x7, x8, x9, x10, x11, x12, x13, x14, x15]"
  using assms by (auto simp: eval_nat_numeral length_Suc_conv)

lemma on_columns_list:
  "on_columns f [x0, x1, x2, x3, x4, x5, x6, x7, x8, x9, x10, x11, x12, x13, x14, x15] =
     f x0 x1 x2 x3 @ f x4 x5 x6 x7 @ f x8 x9 x10 x11 @ f x12 x13 x14 x15"
  by (simp add: on_columns_def)

lemma on_columns_inverse:
  assumes "length s = 16" "\<And>a0 a1 a2 a3. length (f a0 a1 a2 a3) = 4"
    and inv: "\<And>a0 a1 a2 a3 b0 b1 b2 b3. f a0 a1 a2 a3 = [b0, b1, b2, b3] \<Longrightarrow> g b0 b1 b2 b3 = [a0, a1, a2, a3]"
  shows "on_columns g (on_columns f s) = s"
proof -
  have col: "\<exists>b0 b1 b2 b3. f a0 a1 a2 a3 = [b0, b1, b2, b3]" for a0 a1 a2 a3
    using assms(2) [of a0 a1 a2 a3] unfolding list4 .
  obtain x0 x1 x2 x3 x4 x5 x6 x7 x8 x9 x10 x11 x12 x13 x14 x15 where
    s: "s = [x0, x1, x2, x3, x4, x5, x6, x7, x8, x9, x10, x11, x12, x13, x14, x15]"
    using assms(1) by (rule list16)
  obtain c0 c1 c2 c3 where c: "f x0 x1 x2 x3 = [c0, c1, c2, c3]" using col by blast
  obtain d0 d1 d2 d3 where d: "f x4 x5 x6 x7 = [d0, d1, d2, d3]" using col by blast
  obtain e0 e1 e2 e3 where e: "f x8 x9 x10 x11 = [e0, e1, e2, e3]" using col by blast
  obtain h0 h1 h2 h3 where h: "f x12 x13 x14 x15 = [h0, h1, h2, h3]" using col by blast
  show ?thesis
    by (simp add: s on_columns_list c d e h inv [OF c] inv [OF d] inv [OF e] inv [OF h])
qed

lemma mix_columns_inverse:
  assumes "length s = 16"
  shows "inv_mix_columns (mix_columns s) = s" "mix_columns (inv_mix_columns s) = s"
  unfolding mix_columns_def inv_mix_columns_def
  by (rule on_columns_inverse [OF assms]; fact length_columns mix_column_inverse inv_mix_column_inverse)+

lemma shift_rows_inverse:
  assumes "length s = 16"
  shows "inv_shift_rows (shift_rows s) = s" "shift_rows (inv_shift_rows s) = s"
  using assms by (rule list16; simp add: shift_rows_def inv_shift_rows_def)+

lemma add_round_key_inverse:
  assumes "length s = 16"
  shows "add_round_key rk r (add_round_key rk r s) = s"
  using assms by (auto simp: add_round_key_def round_key_def list_eq_iff_nth_eq xor.assoc)

lemma block_lengths [simp]:
  "length (shift_rows s) = 16" "length (inv_shift_rows s) = 16"
  "length (mix_columns s) = 16" "length (inv_mix_columns s) = 16"
  "length (sub_bytes s) = length s" "length (inv_sub_bytes s) = length s"
  "length (add_round_key rk r s) = min (length s) 16"
  by (simp_all add: shift_rows_def inv_shift_rows_def mix_columns_def inv_mix_columns_def on_columns_def
      length_columns sub_bytes_def inv_sub_bytes_def add_round_key_def round_key_def)

subsection \<open>Decryption inverts encryption\<close>

text \<open>Each inverse round undoes one forward round up to the substitution and shift it starts with.\<close>

definition enc_tail :: "block \<Rightarrow> block" where
  "enc_tail s = shift_rows (sub_bytes s)"

definition dec_tail :: "block \<Rightarrow> block" where
  "dec_tail s = inv_sub_bytes (inv_shift_rows s)"

lemma tail_lengths [simp]: "length (enc_tail s) = 16" "length (dec_tail s) = 16"
  by (simp_all add: enc_tail_def dec_tail_def)

lemma round_lengths [simp]: "length (enc_round rk r s) = 16" "length (dec_round rk r s) = 16"
  by (simp_all add: enc_round_def dec_round_def)

lemma tail_inverse:
  "length s = 16 \<Longrightarrow> dec_tail (enc_tail s) = s" "length s = 16 \<Longrightarrow> enc_tail (dec_tail s) = s"
  by (simp_all add: enc_tail_def dec_tail_def shift_rows_inverse)

lemma enc_round_tail: "enc_round rk r s = add_round_key rk r (mix_columns (enc_tail s))"
  by (simp add: enc_round_def enc_tail_def)

lemma dec_round_tail: "dec_round rk r s = inv_mix_columns (add_round_key rk r (dec_tail s))"
  by (simp add: dec_round_def dec_tail_def)

lemma length_fold_round [simp]:
  "length s = 16 \<Longrightarrow> length (fold (enc_round rk) rs s) = 16"
  "length s = 16 \<Longrightarrow> length (fold (dec_round rk) rs s) = 16"
  by (induction rs arbitrary: s) simp_all

lemma dec_enc_rounds:
  "length s = 16 \<Longrightarrow> fold (dec_round rk) (rev rs) (enc_tail (fold (enc_round rk) rs s)) = enc_tail s"
proof (induction rs arbitrary: s)
  case (Cons r rs)
  have "fold (dec_round rk) (rev rs) (enc_tail (fold (enc_round rk) rs (enc_round rk r s)))
      = enc_tail (enc_round rk r s)" by (rule Cons.IH) simp
  moreover have "dec_round rk r (enc_tail (enc_round rk r s)) = enc_tail s"
    by (simp add: dec_round_tail tail_inverse) (simp add: enc_round_tail add_round_key_inverse mix_columns_inverse)
  ultimately show ?case by (simp add: fold_append)
qed simp

lemma enc_dec_rounds:
  "length s = 16 \<Longrightarrow> fold (enc_round rk) rs (dec_tail (fold (dec_round rk) (rev rs) s)) = dec_tail s"
proof (induction rs arbitrary: s)
  case (Cons r rs)
  let ?u = "fold (dec_round rk) (rev rs) s"
  have u: "length ?u = 16" using Cons.prems by simp
  have "enc_round rk r (dec_tail (dec_round rk r ?u)) = dec_tail ?u"
    by (simp add: enc_round_tail tail_inverse) (simp add: dec_round_tail add_round_key_inverse mix_columns_inverse)
  then show ?case using Cons.IH [OF Cons.prems] by (simp add: fold_append)
qed simp

lemma encrypt_tail:
  "aes128_encrypt_block rk s = add_round_key rk 10 (enc_tail (fold (enc_round rk) [1..<10] (add_round_key rk 0 s)))"
  by (simp add: aes128_encrypt_block_def enc_tail_def)

lemma decrypt_tail:
  "aes128_decrypt_block rk s =
     add_round_key rk 0 (dec_tail (fold (dec_round rk) (rev [1..<10]) (add_round_key rk 10 s)))"
  by (simp add: aes128_decrypt_block_def dec_tail_def)

lemma decrypt_encrypt:
  assumes "length s = 16"
  shows "aes128_decrypt_block rk (aes128_encrypt_block rk s) = s"
  unfolding encrypt_tail decrypt_tail using assms
  by (simp only: add_round_key_inverse dec_enc_rounds tail_inverse tail_lengths block_lengths min.idem)

lemma encrypt_decrypt:
  assumes "length s = 16"
  shows "aes128_encrypt_block rk (aes128_decrypt_block rk s) = s"
  unfolding encrypt_tail decrypt_tail using assms
  by (simp only: add_round_key_inverse enc_dec_rounds tail_inverse tail_lengths block_lengths min.idem)

lemma length_encrypt [simp]: "length (aes128_encrypt_block rk s) = 16"
  by (simp add: encrypt_tail)

subsection \<open>Counter mode\<close>

lemma ctr_empty [simp]: "aes128_ctr_xcrypt rk ctr [] = []"
  by (simp add: aes128_ctr_xcrypt.simps)

lemma length_ctr [simp]: "length (aes128_ctr_xcrypt rk ctr inp) = length inp"
proof (induction rk ctr inp rule: aes128_ctr_xcrypt.induct)
  case (1 rk ctr inp)
  then show ?case by (subst aes128_ctr_xcrypt.simps) (auto simp: Let_def)
qed

lemma ctr_step:
  "inp \<noteq> [] \<Longrightarrow> aes128_ctr_xcrypt rk ctr inp =
     map2 (XOR) (take 16 inp) (aes128_encrypt_block rk ctr)
     @ aes128_ctr_xcrypt rk (inc_counter ctr) (drop 16 inp)"
  by (subst aes128_ctr_xcrypt.simps) (simp add: Let_def)

lemma ctr_involution: "aes128_ctr_xcrypt rk ctr (aes128_ctr_xcrypt rk ctr inp) = inp"
proof (induction rk ctr inp rule: aes128_ctr_xcrypt.induct)
  case (1 rk ctr inp)
  show ?case
  proof (cases "inp = []")
    case False
    let ?ks = "aes128_encrypt_block rk ctr"
    let ?x = "map2 (XOR) (take 16 inp) ?ks"
    let ?rest = "aes128_ctr_xcrypt rk (inc_counter ctr) (drop 16 inp)"
    have out: "aes128_ctr_xcrypt rk ctr inp = ?x @ ?rest"
      using False by (subst aes128_ctr_xcrypt.simps) (simp add: Let_def)
    have x: "length ?x = min 16 (length inp)" by simp
    have "take 16 (?x @ ?rest) = ?x \<and> drop 16 (?x @ ?rest) = ?rest"
      using x by (cases "length inp \<le> 16") simp_all
    then have td: "take 16 (?x @ ?rest) = ?x" "drop 16 (?x @ ?rest) = ?rest" by blast+
    have x2: "map2 (XOR) ?x ?ks = take 16 inp"
      by (auto simp: list_eq_iff_nth_eq xor.assoc)
    have ne: "?x @ ?rest \<noteq> []"
      unfolding out [symmetric] using False length_ctr [of rk ctr inp] by (metis length_0_conv)
    have rest: "aes128_ctr_xcrypt rk (inc_counter ctr) ?rest = drop 16 inp"
      using 1 False by simp
    show ?thesis
      unfolding out ctr_step [OF ne] td x2 rest by (rule append_take_drop_id)
  qed simp
qed

text \<open>The counter: the low eight bytes are one big-endian number that counts up modulo 2 to the 64.\<close>

fun be_val :: "u8 list \<Rightarrow> nat" where
  "be_val [] = 0"
| "be_val (x # xs) = unat x * 256 ^ length xs + be_val xs"

lemma be_val_less: "be_val xs < 256 ^ length xs"
proof (induction xs)
  case (Cons x xs)
  have "unat x * 256 ^ length xs + be_val xs < Suc (unat x) * 256 ^ length xs" using Cons by simp
  also have "\<dots> \<le> 256 * 256 ^ length xs"
    using u8_less [of x] by (intro mult_le_mono1) simp
  finally show ?case by simp
qed simp

lemma be_val_append: "be_val (xs @ ys) = be_val xs * 256 ^ length ys + be_val ys"
  by (induction xs) (simp_all add: power_add algebra_simps)

lemma u8_inc: "unat (x + 1 :: u8) = (if x + 1 = 0 then 0 else unat x + 1)" "x + 1 = 0 \<longleftrightarrow> unat x = 255"
proof -
  have mod: "unat (x + 1) = (unat x + 1) mod 256" by (simp add: unat_word_ariths)
  have "x + 1 = 0 \<longleftrightarrow> (unat x + 1) mod 256 = 0" unfolding mod [symmetric] by (rule unat_eq_0 [symmetric])
  also have "\<dots> \<longleftrightarrow> unat x = 255" using u8_less [of x] by presburger
  finally show iff: "x + 1 = 0 \<longleftrightarrow> unat x = 255" .
  show "unat (x + 1 :: u8) = (if x + 1 = 0 then 0 else unat x + 1)"
  proof (cases "x + 1 = 0")
    case False
    with iff u8_less [of x] have "unat x + 1 < 256" by auto
    with mod False show ?thesis by simp
  qed simp
qed

lemma drop_eq_nth: "drop k xs = drop k ys \<Longrightarrow> k < length xs \<Longrightarrow> k < length ys \<Longrightarrow> xs ! k = ys ! k"
  by (metis hd_drop_conv_nth)

text \<open>From byte \<open>i\<close> down, the bytes 8 to \<open>i\<close> count up and the rest stays.\<close>

lemma inc_bytes_val:
  assumes "length ctr = 16" "i < 16" "7 \<le> i"
  shows "length (inc_bytes i ctr) = 16 \<and> take 8 (inc_bytes i ctr) = take 8 ctr
    \<and> drop (i + 1) (inc_bytes i ctr) = drop (i + 1) ctr
    \<and> be_val (take (i - 7) (drop 8 (inc_bytes i ctr)))
        = (be_val (take (i - 7) (drop 8 ctr)) + 1) mod 256 ^ (i - 7)"
  using assms
proof (induction i arbitrary: ctr)
  case (Suc i)
  show ?case
  proof (cases "Suc i = 7")
    case True
    with Suc.prems show ?thesis by (simp add: inc_bytes.simps)
  next
    case False
    then have i: "7 \<le> i" "i < 16" using Suc.prems by simp_all
    let ?x = "ctr ! Suc i"
    let ?ctr = "ctr[Suc i := ?x + 1]"
    have l: "length ?ctr = 16" using Suc.prems by simp
    have split: "take (Suc i - 7) (drop 8 c) = take (i - 7) (drop 8 c) @ [c ! Suc i]"
      if "length c = 16" for c :: block
    proof -
      have "Suc i - 7 = Suc (i - 7)" "i - 7 < length (drop 8 c)" "drop 8 c ! (i - 7) = c ! Suc i"
        using that Suc.prems i by (simp_all add: Suc_diff_le)
      then show ?thesis by (simp add: take_Suc_conv_app_nth)
    qed
    have same: "take (i - 7) (drop 8 ?ctr) = take (i - 7) (drop 8 ctr)" "take 8 ?ctr = take 8 ctr"
      "drop (Suc i + 1) ?ctr = drop (Suc i + 1) ctr"
      using i by (simp_all add: drop_update_swap take_update_cancel)
    have "Suc i - 7 = Suc (i - 7)" using i by simp
    then have pow: "256 ^ (Suc i - 7) = 256 * (256 :: nat) ^ (i - 7)" by simp
    have bound: "be_val (take (i - 7) (drop 8 ctr)) < 256 ^ (i - 7)"
    proof -
      have "length (take (i - 7) (drop 8 ctr)) = i - 7" using Suc.prems i by auto
      then show ?thesis using be_val_less [of "take (i - 7) (drop 8 ctr)"] by simp
    qed
    show ?thesis
    proof (cases "?x + 1 = 0")
      case True
      then have step: "inc_bytes (Suc i) ctr = inc_bytes i ?ctr"
        using i Suc.prems by (subst inc_bytes.simps) (simp add: Let_def)
      note IH = Suc.IH [OF l i(2,1)]
      have top: "inc_bytes i ?ctr ! Suc i = 0"
      proof -
        from IH have d: "drop (i + 1) (inc_bytes i ?ctr) = drop (i + 1) ?ctr" and "length (inc_bytes i ?ctr) = 16"
          by blast+
        then have "inc_bytes i ?ctr ! (i + 1) = ?ctr ! (i + 1)"
          using l Suc.prems by (intro drop_eq_nth [OF d]) simp_all
        then show ?thesis using True Suc.prems by simp
      qed
      have low: "drop (Suc i + 1) (inc_bytes i ?ctr) = drop (Suc i + 1) ctr"
      proof -
        have "drop 1 (drop (i + 1) (inc_bytes i ?ctr)) = drop 1 (drop (i + 1) ?ctr)" using IH by simp
        with same(3) show ?thesis by simp
      qed
      have "unat ?x = 255" using True u8_inc(2) by simp
      moreover have "be_val (take (i - 7) (drop 8 (inc_bytes i ?ctr)))
          = (be_val (take (i - 7) (drop 8 ctr)) + 1) mod 256 ^ (i - 7)" using IH same(1) by simp
      moreover have "length (inc_bytes i ?ctr) = 16" using IH by blast
      ultimately have "be_val (take (Suc i - 7) (drop 8 (inc_bytes i ?ctr)))
          = 256 * ((be_val (take (i - 7) (drop 8 ctr)) + 1) mod 256 ^ (i - 7))"
        by (simp only: split be_val_append top) simp
      also have "\<dots> = (be_val (take (Suc i - 7) (drop 8 ctr)) + 1) mod 256 ^ (Suc i - 7)"
        unfolding pow mult_mod_right split [OF Suc.prems(1)] be_val_append using \<open>unat ?x = 255\<close> by (simp add: mult.commute)
      finally have "be_val (take (Suc i - 7) (drop 8 (inc_bytes i ?ctr)))
          = (be_val (take (Suc i - 7) (drop 8 ctr)) + 1) mod 256 ^ (Suc i - 7)" .
      with IH low same(2) show ?thesis unfolding step by simp
    next
      case False
      then have step: "inc_bytes (Suc i) ctr = ?ctr"
        using i Suc.prems by (subst inc_bytes.simps) (simp add: Let_def)
      have "be_val (take (Suc i - 7) (drop 8 ?ctr)) = be_val (take (i - 7) (drop 8 ctr)) * 256 + (unat ?x + 1)"
        unfolding split [OF l] be_val_append same(1) using Suc.prems False u8_inc(1) [of ?x] by simp
      moreover have "be_val (take (i - 7) (drop 8 ctr)) * 256 + (unat ?x + 1) < 256 ^ (Suc i - 7)"
      proof -
        have "unat ?x + 1 < 256" using False u8_inc(2) [of ?x] u8_less [of ?x] by auto
        moreover have "Suc (be_val (take (i - 7) (drop 8 ctr))) * 256 \<le> 256 ^ (i - 7) * 256"
          using bound by (intro mult_le_mono1) simp
        ultimately show ?thesis unfolding pow by simp
      qed
      ultimately have "be_val (take (Suc i - 7) (drop 8 ?ctr))
          = (be_val (take (Suc i - 7) (drop 8 ctr)) + 1) mod 256 ^ (Suc i - 7)"
        unfolding split [OF Suc.prems(1)] be_val_append by simp
      with same(2,3) l show ?thesis unfolding step by simp
    qed
  qed
qed simp

lemma inc_counter_val:
  assumes "length ctr = 16"
  shows "length (inc_counter ctr) = 16 \<and> take 8 (inc_counter ctr) = take 8 ctr
    \<and> be_val (drop 8 (inc_counter ctr)) = (be_val (drop 8 ctr) + 1) mod 2 ^ 64"
proof -
  have "(15 :: nat) < 16" "(7 :: nat) \<le> 15" by simp_all
  note v = inc_bytes_val [OF assms this]
  from v have l: "length (inc_bytes 15 ctr) = 16" and p: "take 8 (inc_bytes 15 ctr) = take 8 ctr"
    and b: "be_val (take (15 - 7) (drop 8 (inc_bytes 15 ctr))) = (be_val (take (15 - 7) (drop 8 ctr)) + 1) mod 256 ^ (15 - 7)"
    by blast+
  have "take (15 - 7) (drop 8 c) = drop 8 c" if "length c = 16" for c :: block
    using that by (intro take_all) simp
  from b [unfolded this [OF l] this [OF assms]] l p show ?thesis by (simp add: inc_counter_def)
qed

end
