(* ===== verification/Pcap.thy ===== *)
theory Pcap
  imports Flit
begin

text \<open>
  The pcap reader and writer and the conversion between packets and flits
  (\<open>runtime/src/pcap.cpp\<close>). A file is the list of its bytes; the input stream is the unread rest
  and its fail bit, and a short read delivers what there is and sets the bit, after which every read
  delivers nothing. Integers are in the little-endian order of the host.
\<close>

definition kMagicLE :: u32 where "kMagicLE = 0xa1b2c3d4"
definition kMagicBE :: u32 where "kMagicBE = 0xd4c3b2a1"
definition kMagicLENano :: u32 where "kMagicLENano = 0xa1b23c4d"
definition kMagicBENano :: u32 where "kMagicBENano = 0x4d3cb2a1"

definition bswap32 :: "u32 \<Rightarrow> u32" where
  "bswap32 v = push_bit 24 (v AND 0x000000FF) OR push_bit 8 (v AND 0x0000FF00)
     OR drop_bit 8 (v AND 0x00FF0000) OR drop_bit 24 (v AND 0xFF000000)"

definition u32_bytes :: "u32 \<Rightarrow> u8 list" where
  "u32_bytes v = [ucast v, ucast (drop_bit 8 v), ucast (drop_bit 16 v), ucast (drop_bit 24 v)]"

text \<open>Four bytes read into a word that was zero.\<close>

fun word_of_bytes :: "u8 list \<Rightarrow> u32" where
  "word_of_bytes [] = 0"
| "word_of_bytes (b # bs) = ucast b OR push_bit 8 (word_of_bytes bs)"

record pcap_packet =
  pk_ts_sec :: u32
  pk_ts_usec :: u32
  pk_bytes :: "u8 list"

subsection \<open>Streams\<close>

record in_stream =
  is_rest :: "u8 list"
  is_fail :: bool

definition stream_read :: "nat \<Rightarrow> in_stream \<Rightarrow> u8 list \<times> in_stream" where
  "stream_read n f =
     (if is_fail f then ([], f)
      else if length (is_rest f) < n then (is_rest f, f\<lparr>is_rest := [], is_fail := True\<rparr>)
      else (take n (is_rest f), f\<lparr>is_rest := drop n (is_rest f)\<rparr>))"

record pcap_reader =
  rd_f :: in_stream
  rd_swap :: bool
  rd_nano :: bool

text \<open>The file is None when it cannot be opened; the reader is the one the constructor leaves.\<close>

definition reader_open :: "u8 list option \<Rightarrow> bool \<times> pcap_reader" where
  "reader_open content =
     (case content of
        None \<Rightarrow> (False, \<lparr>rd_f = \<lparr>is_rest = [], is_fail = True\<rparr>, rd_swap = False, rd_nano = False\<rparr>)
      | Some bytes \<Rightarrow>
          let (mb, f) = stream_read 4 \<lparr>is_rest = bytes, is_fail = False\<rparr>; magic = word_of_bytes mb;
              known = (\<lambda>sw na. let (_, f1) = stream_read 20 f
                               in (\<not> is_fail f1, \<lparr>rd_f = f1, rd_swap = sw, rd_nano = na\<rparr>))
          in if magic = kMagicLE then known False False
             else if magic = kMagicBE then known True False
             else if magic = kMagicLENano then known False True
             else if magic = kMagicBENano then known True True
             else (False, \<lparr>rd_f = f, rd_swap = False, rd_nano = False\<rparr>))"

text \<open>Word \<open>i\<close> of the record header, swapped when the file has the other byte order.\<close>

definition hdr_word :: "bool \<Rightarrow> u8 list \<Rightarrow> nat \<Rightarrow> u32" where
  "hdr_word sw hdr i = (let w = word_of_bytes (take 4 (drop (4 * i) hdr)) in if sw then bswap32 w else w)"

text \<open>None is the result false; the packet is then not used.\<close>

definition reader_next :: "pcap_reader \<Rightarrow> pcap_packet option \<times> pcap_reader" where
  "reader_next r =
     (let (hdr, f) = stream_read 16 (rd_f r); r1 = r\<lparr>rd_f := f\<rparr>
      in if length hdr \<noteq> 16 then (None, r1)
         else let incl_len = hdr_word (rd_swap r) hdr 2
              in if 65535 < incl_len then (None, r1)
                 else let (bytes, f2) = stream_read (unat incl_len) f; r2 = r\<lparr>rd_f := f2\<rparr>
                      in if length bytes = unat incl_len
                         then (Some \<lparr>pk_ts_sec = hdr_word (rd_swap r) hdr 0,
                                     pk_ts_usec = hdr_word (rd_swap r) hdr 1, pk_bytes = bytes\<rparr>, r2)
                         else (None, r2))"

text \<open>The bytes the writer has put into the file.\<close>

definition writer_open :: "u32 \<Rightarrow> u8 list" where
  "writer_open link_type = concat (map u32_bytes [kMagicLE, push_bit 16 2 OR 4, 0, 0, 65535, link_type])"

definition writer_write :: "pcap_packet \<Rightarrow> u8 list \<Rightarrow> u8 list" where
  "writer_write p out =
     out @ concat (map u32_bytes [pk_ts_sec p, pk_ts_usec p, of_nat (length (pk_bytes p)), of_nat (length (pk_bytes p))])
     @ pk_bytes p"

text \<open>A loop over \<open>next\<close> until it returns false, as the test benches have it; the fuel is a bound on the packets.\<close>

fun read_packets :: "nat \<Rightarrow> pcap_reader \<Rightarrow> pcap_packet list" where
  "read_packets 0 r = []"
| "read_packets (Suc n) r =
     (case reader_next r of (None, _) \<Rightarrow> [] | (Some p, r1) \<Rightarrow> p # read_packets n r1)"

subsection \<open>Packets and flits\<close>

definition packet_flit :: "u8 list \<Rightarrow> nat \<Rightarrow> flit" where
  "packet_flit bytes off =
     (let n = min OPENCLICKNP_PAYLOAD_BYTES (length bytes - off);
          f = set_data (drop off bytes) n flit_zero;
          f = set_sop (off = 0) f;
          last = (off + n = length bytes);
          f = set_eop last f
      in if last \<and> n < OPENCLICKNP_PAYLOAD_BYTES
         then set_padbytes (of_nat (OPENCLICKNP_PAYLOAD_BYTES - n)) f else f)"

function flits_from :: "u8 list \<Rightarrow> nat \<Rightarrow> flit list" where
  "flits_from bytes off =
     (if off < length bytes
      then packet_flit bytes off # flits_from bytes (off + min OPENCLICKNP_PAYLOAD_BYTES (length bytes - off))
      else [])"
  by auto
termination by (relation "measure (\<lambda>(bytes, off). length bytes - off)") (auto simp: OPENCLICKNP_PAYLOAD_BYTES_def)

declare flits_from.simps [simp del]

definition packetToFlits :: "pcap_packet \<Rightarrow> flit list" where
  "packetToFlits p = (if pk_bytes p = [] then [] else flits_from (pk_bytes p) 0)"

definition valid_bytes :: "bool \<Rightarrow> flit \<Rightarrow> nat" where
  "valid_bytes is_last f =
     (let valid = int OPENCLICKNP_PAYLOAD_BYTES
      in nat (if is_last \<and> eop f then (let valid = valid - uint (padbytes f) in if valid < 0 then 0 else valid)
              else valid))"

fun flits_bytes :: "flit list \<Rightarrow> u8 list" where
  "flits_bytes [] = []"
| "flits_bytes (f # fs) = get_data (valid_bytes (fs = []) f) f @ flits_bytes fs"

definition flitsToPacket :: "flit list \<Rightarrow> u8 list" where
  "flitsToPacket fs = (if fs = [] then [] else flits_bytes fs)"

subsection \<open>Byte order\<close>

lemma word_of_u32_bytes: "word_of_bytes (u32_bytes v) = v"
proof (rule bit_word_eqI)
  fix n
  assume n: "n < LENGTH(32)"
  consider "n < 8" | "8 \<le> n" "n < 16" | "16 \<le> n" "n < 24" | "24 \<le> n" by linarith
  then show "bit (word_of_bytes (u32_bytes v)) n = bit v n"
    using n by cases (auto simp: u32_bytes_def bit_simps)
qed

lemma bswap32_involution: "bswap32 (bswap32 v) = v"
proof (rule bit_word_eqI)
  fix n
  assume n: "n < LENGTH(32)"
  have m: "(0x000000FF :: u32) = push_bit 0 (mask 8)" "(0x0000FF00 :: u32) = push_bit 8 (mask 8)"
    "(0x00FF0000 :: u32) = push_bit 16 (mask 8)" "(0xFF000000 :: u32) = push_bit 24 (mask 8)"
    by (simp_all add: mask_eq_exp_minus_1 push_bit_eq_mult)
  consider "n < 8" | "8 \<le> n" "n < 16" | "16 \<le> n" "n < 24" | "24 \<le> n" by linarith
  then show "bit (bswap32 (bswap32 v)) n = bit v n"
    using n unfolding bswap32_def m by cases (auto simp: bit_simps)
qed

lemma length_u32_bytes [simp]: "length (u32_bytes v) = 4"
  by (simp add: u32_bytes_def)

subsection \<open>Reading back a written file\<close>

lemma stream_read_ok:
  "\<not> is_fail f \<Longrightarrow> is_rest f = xs @ ys \<Longrightarrow> length xs = n \<Longrightarrow> stream_read n f = (xs, f\<lparr>is_rest := ys\<rparr>)"
  by (simp add: stream_read_def)

definition record_bytes :: "pcap_packet \<Rightarrow> u8 list" where
  "record_bytes p =
     concat (map u32_bytes [pk_ts_sec p, pk_ts_usec p, of_nat (length (pk_bytes p)), of_nat (length (pk_bytes p))])
     @ pk_bytes p"

lemma writer_write_record: "writer_write p out = out @ record_bytes p"
  by (simp add: writer_write_def record_bytes_def)

lemma next_record:
  assumes "\<not> is_fail (rd_f r)" "\<not> rd_swap r" "is_rest (rd_f r) = record_bytes p @ rest" "length (pk_bytes p) \<le> 65535"
  shows "reader_next r = (Some p, r\<lparr>rd_f := (rd_f r)\<lparr>is_rest := rest\<rparr>\<rparr>)"
proof -
  let ?l = "of_nat (length (pk_bytes p)) :: u32"
  let ?h = "concat (map u32_bytes [pk_ts_sec p, pk_ts_usec p, ?l, ?l])"
  have l: "unat ?l = length (pk_bytes p)"
    using assms(4) by (simp add: unsigned_of_nat take_bit_nat_eq_self)
  then have le: "\<not> 65535 < ?l" using assms(4) by (simp add: word_less_nat_alt)
  have h: "length ?h = 16" by simp
  have words: "hdr_word False ?h 0 = pk_ts_sec p" "hdr_word False ?h (Suc 0) = pk_ts_usec p" "hdr_word False ?h 2 = ?l"
    by (simp_all add: hdr_word_def word_of_u32_bytes)
  have s1: "stream_read 16 (rd_f r) = (?h, (rd_f r)\<lparr>is_rest := pk_bytes p @ rest\<rparr>)"
    using assms(1,3) h by (intro stream_read_ok) (simp_all add: record_bytes_def)
  have s2: "stream_read (length (pk_bytes p)) ((rd_f r)\<lparr>is_rest := pk_bytes p @ rest\<rparr>)
      = (pk_bytes p, (rd_f r)\<lparr>is_rest := rest\<rparr>)"
    using assms(1) by (subst stream_read_ok) simp_all
  show ?thesis
    unfolding reader_next_def s1 Let_def prod.case words h
    using assms(2) le by (simp add: words l s2 del: concat.simps list.map)
qed

lemma next_at_end:
  assumes "is_rest (rd_f r) = []"
  shows "fst (reader_next r) = None"
  using assms by (simp add: reader_next_def stream_read_def Let_def)

lemma read_records:
  assumes "\<not> is_fail (rd_f r)" "\<not> rd_swap r" "is_rest (rd_f r) = concat (map record_bytes ps)"
    and "\<forall>p\<in>set ps. length (pk_bytes p) \<le> 65535" "length ps \<le> n"
  shows "read_packets n r = ps"
  using assms
proof (induction ps arbitrary: n r)
  case Nil
  then show ?case
  proof (cases n)
    case (Suc k)
    with Nil next_at_end [of r] show ?thesis by (cases "reader_next r") simp
  qed simp
next
  case (Cons p ps)
  then obtain k where n: "n = Suc k" by (cases n) simp_all
  have "reader_next r = (Some p, r\<lparr>rd_f := (rd_f r)\<lparr>is_rest := concat (map record_bytes ps)\<rparr>\<rparr>)"
    using Cons.prems by (intro next_record) simp_all
  moreover have "read_packets k (r\<lparr>rd_f := (rd_f r)\<lparr>is_rest := concat (map record_bytes ps)\<rparr>\<rparr>) = ps"
    using Cons.prems n by (intro Cons.IH) simp_all
  ultimately show ?case by (simp add: n)
qed

lemma open_written:
  "reader_open (Some (writer_open lt @ rest))
     = (True, \<lparr>rd_f = \<lparr>is_rest = rest, is_fail = False\<rparr>, rd_swap = False, rd_nano = False\<rparr>)"
proof -
  let ?h = "concat (map u32_bytes [push_bit 16 2 OR 4, 0, 0, 65535, lt])"
  have w: "writer_open lt = u32_bytes kMagicLE @ ?h" by (simp add: writer_open_def)
  have l: "length ?h = 20" by simp
  have "stream_read 4 \<lparr>is_rest = writer_open lt @ rest, is_fail = False\<rparr>
      = (u32_bytes kMagicLE, \<lparr>is_rest = ?h @ rest, is_fail = False\<rparr>)"
    unfolding w by (subst stream_read_ok) simp_all
  moreover have "stream_read 20 \<lparr>is_rest = ?h @ rest, is_fail = False\<rparr> = (?h, \<lparr>is_rest = rest, is_fail = False\<rparr>)"
    using l by (subst stream_read_ok) simp_all
  ultimately show ?thesis
    unfolding reader_open_def by (simp add: word_of_u32_bytes del: concat.simps list.map)
qed

lemma fold_writer_write: "fold writer_write ps out = out @ concat (map record_bytes ps)"
  by (induction ps arbitrary: out) (simp_all add: writer_write_record)

lemma pcap_roundtrip:
  assumes "\<forall>p\<in>set ps. length (pk_bytes p) \<le> 65535" "length ps \<le> n"
  shows "fst (reader_open (Some (fold writer_write ps (writer_open lt))))
    \<and> read_packets n (snd (reader_open (Some (fold writer_write ps (writer_open lt))))) = ps"
  using assms by (simp add: fold_writer_write open_written read_records)

text \<open>A longer packet is written, and the reader stops there: it and all that follow are lost.\<close>

lemma pcap_long_packet:
  assumes "\<forall>p\<in>set ps. length (pk_bytes p) \<le> 65535" "65535 < length (pk_bytes p)" "length (pk_bytes p) < 2 ^ 32"
  shows "read_packets n (snd (reader_open (Some (fold writer_write (ps @ p # qs) (writer_open lt))))) = take n ps"
proof -
  let ?l = "of_nat (length (pk_bytes p)) :: u32"
  have l: "unat ?l = length (pk_bytes p)"
    using assms(3) by (simp add: unsigned_of_nat take_bit_nat_eq_self)
  then have gt: "65535 < ?l" using assms(2) by (simp add: word_less_nat_alt)
  let ?h = "concat (map u32_bytes [pk_ts_sec p, pk_ts_usec p, ?l, ?l])"
  have stop: "fst (reader_next r) = None"
    if "\<not> is_fail (rd_f r)" "\<not> rd_swap r" "is_rest (rd_f r) = record_bytes p @ rest" for r rest
  proof -
    have "stream_read 16 (rd_f r) = (?h, (rd_f r)\<lparr>is_rest := pk_bytes p @ rest\<rparr>)"
      using that(1,3) by (intro stream_read_ok) (simp_all add: record_bytes_def)
    moreover have "hdr_word False ?h 2 = ?l" by (simp add: hdr_word_def word_of_u32_bytes)
    moreover have "length ?h = 16" by simp
    ultimately show ?thesis
      unfolding reader_next_def using that(2) gt by (simp add: Let_def del: concat.simps list.map)
  qed
  have "read_packets n r = take n ps"
    if "\<not> is_fail (rd_f r)" "\<not> rd_swap r" "is_rest (rd_f r) = concat (map record_bytes ps) @ record_bytes p @ rest"
    for r rest
    using that assms(1)
  proof (induction ps arbitrary: n r)
    case Nil
    with stop [of r rest] show ?case by (cases n; cases "reader_next r") simp_all
  next
    case (Cons x xs)
    show ?case
    proof (cases n)
      case (Suc k)
      let ?rest = "concat (map record_bytes xs) @ record_bytes p @ rest"
      have "reader_next r = (Some x, r\<lparr>rd_f := (rd_f r)\<lparr>is_rest := ?rest\<rparr>\<rparr>)"
        using Cons.prems by (intro next_record) simp_all
      moreover have "read_packets k (r\<lparr>rd_f := (rd_f r)\<lparr>is_rest := ?rest\<rparr>\<rparr>) = take k xs"
        using Cons.prems by (intro Cons.IH) simp_all
      ultimately show ?thesis by (simp add: Suc)
    qed simp
  qed
  then show ?thesis unfolding fold_writer_write by (simp add: open_written)
qed

subsection \<open>Packets survive the conversion to flits\<close>

lemma get_data_keeps:
  "get_data n (set_flag m b f) = get_data n f" "get_data n (set_padbytes pb f) = get_data n f"
  by (simp_all add: get_data_def set_flag_def set_padbytes_def OPENCLICKNP_PAYLOAD_BYTES_def)

lemma padbytes_keeps [simp]: "padbytes (set_flag m b f) = padbytes f"
  by (simp add: padbytes_def set_flag_def)

lemma padbytes_set: "flit_ok f \<Longrightarrow> padbytes (set_padbytes pb f) = pb" "flag m (set_padbytes pb f) = flag m f"
  by (simp_all add: padbytes_def set_padbytes_def flag_def flit_ok_def)

lemma padbytes_zero [simp]: "padbytes (set_data src n flit_zero) = 0"
  by (simp add: padbytes_def set_data_def flit_zero_def write_at_nth Let_def OPENCLICKNP_PAYLOAD_BYTES_def)

text \<open>The flit at an offset: its flags, and its valid bytes, which are that chunk of the packet.\<close>

lemma packet_flit_flags:
  assumes "off < length bytes"
  defines "n \<equiv> min 32 (length bytes - off)"
  shows "flit_ok (packet_flit bytes off)" and "sop (packet_flit bytes off) = (off = 0)"
    and "eop (packet_flit bytes off) = (off + n = length bytes)"
    and "get_data k (packet_flit bytes off) = get_data k (set_data (drop off bytes) n flit_zero)"
    and "off + n = length bytes \<Longrightarrow> padbytes (packet_flit bytes off) = of_nat (32 - n)"
proof -
  let ?f = "set_data (drop off bytes) n flit_zero"
  let ?g = "set_eop (off + n = length bytes) (set_sop (off = 0) ?f)"
  have eq: "packet_flit bytes off = (if off + n = length bytes \<and> n < 32 then set_padbytes (of_nat (32 - n)) ?g else ?g)"
    unfolding packet_flit_def Let_def n_def OPENCLICKNP_PAYLOAD_BYTES_def by (rule refl)
  have ok: "flit_ok ?f" "flit_ok ?g" by (simp_all add: set_eop_def set_sop_def)
  have n: "n \<le> 32" by (simp add: n_def)
  have ok': "flit_ok (set_sop (off = 0) ?f)" using ok(1) by (simp add: set_sop_def)
  have dis: "(2 :: u8) AND 1 = 0" by simp
  have flags: "flag 2 (set_flag 2 b (set_sop (off = 0) ?f)) = b"
    "flag 1 (set_flag 2 b (set_sop (off = 0) ?f)) = (off = 0)" for b
    using flag_set_flag(1) [OF ok', of 2 b] flag_set_flag(2) [OF ok' _ dis, of b]
      flag_set_flag(1) [OF ok(1), of 1 "off = 0"] by (simp_all add: set_sop_def)
  show "flit_ok (packet_flit bytes off)" by (simp add: eq set_eop_def set_sop_def)
  show "sop (packet_flit bytes off) = (off = 0)"
    by (simp add: eq sop_def padbytes_set set_eop_def flags)
  show "eop (packet_flit bytes off) = (off + n = length bytes)"
    by (simp add: eq eop_def padbytes_set set_eop_def flags)
  show "get_data k (packet_flit bytes off) = get_data k ?f"
    by (simp add: eq get_data_keeps set_eop_def set_sop_def)
  assume "off + n = length bytes"
  then show "padbytes (packet_flit bytes off) = of_nat (32 - n)"
    using n by (simp add: eq padbytes_set set_eop_def set_sop_def)
qed

lemma packet_flit_data:
  assumes "off < length bytes"
  defines "n \<equiv> min 32 (length bytes - off)"
  shows "get_data (valid_bytes (off + n = length bytes) (packet_flit bytes off)) (packet_flit bytes off)
    = take n (drop off bytes)"
proof -
  note f = packet_flit_flags [OF assms(1)]
  have n: "0 < n" "n \<le> 32" "n \<le> length (drop off bytes)" using assms(1) by (auto simp: n_def)
  have "valid_bytes (off + n = length bytes) (packet_flit bytes off) = n"
  proof (cases "off + n = length bytes")
    case True
    have "unat (of_nat (32 - n) :: u8) = 32 - n"
      by (simp add: unsigned_of_nat take_bit_nat_eq_self)
    then have "uint (of_nat (32 - n) :: u8) = int (32 - n)" by (simp only: uint_nat)
    moreover have "padbytes (packet_flit bytes off) = of_nat (32 - n)" "eop (packet_flit bytes off)"
      using f(3,5) True unfolding n_def by simp_all
    ultimately show ?thesis using n True
      by (simp add: valid_bytes_def Let_def OPENCLICKNP_PAYLOAD_BYTES_def)
  next
    case False
    then have "n = 32" using assms(1) by (simp add: n_def)
    then show ?thesis using False by (simp add: valid_bytes_def OPENCLICKNP_PAYLOAD_BYTES_def)
  qed
  then show ?thesis using get_set_data [OF flit_zero_ok n(2,3)] f(4) [of n] unfolding n_def by simp
qed

lemma flits_from_empty: "flits_from bytes off = [] \<longleftrightarrow> length bytes \<le> off"
  by (subst flits_from.simps) simp

lemma flits_bytes_from:
  "off \<le> length bytes \<Longrightarrow> flits_bytes (flits_from bytes off) = drop off bytes"
proof (induction bytes off rule: flits_from.induct)
  case (1 bytes off)
  show ?case
  proof (cases "off < length bytes")
    case True
    let ?n = "min 32 (length bytes - off)"
    have "flits_bytes (flits_from bytes (off + ?n)) = drop (off + ?n) bytes"
      using 1 True by (simp add: OPENCLICKNP_PAYLOAD_BYTES_def)
    moreover have "flits_from bytes (off + ?n) = [] \<longleftrightarrow> off + ?n = length bytes"
      using True by (auto simp: flits_from_empty min_def)
    moreover have "take ?n (drop off bytes) @ drop (off + ?n) bytes = drop off bytes"
      by (metis add.commute append_take_drop_id drop_drop)
    ultimately show ?thesis
      using True packet_flit_data [OF True]
      by (subst flits_from.simps) (simp add: OPENCLICKNP_PAYLOAD_BYTES_def)
  next
    case False
    with 1 show ?thesis by (subst flits_from.simps) simp
  qed
qed

lemma flits_roundtrip: "flitsToPacket (packetToFlits p) = pk_bytes p"
  using flits_bytes_from [of 0 "pk_bytes p"]
  by (simp add: flitsToPacket_def packetToFlits_def flits_from_empty)

text \<open>A train of flits: the start flag on the first only, the end flag on the last only.\<close>

lemma flits_from_flags:
  "off \<le> length bytes \<Longrightarrow> k < length (flits_from bytes off) \<Longrightarrow>
     sop (flits_from bytes off ! k) = (off = 0 \<and> k = 0)
     \<and> eop (flits_from bytes off ! k) = (k + 1 = length (flits_from bytes off))
     \<and> flit_ok (flits_from bytes off ! k)"
proof (induction bytes off arbitrary: k rule: flits_from.induct)
  case (1 bytes off)
  then have off: "off < length bytes"
    by (metis flits_from_empty leI length_0_conv not_less0)
  let ?n = "min 32 (length bytes - off)"
  have step: "flits_from bytes off = packet_flit bytes off # flits_from bytes (off + ?n)"
    using off by (subst flits_from.simps) (simp add: OPENCLICKNP_PAYLOAD_BYTES_def)
  note f = packet_flit_flags [OF off]
  show ?case
  proof (cases k)
    case 0
    have "flits_from bytes (off + ?n) = [] \<longleftrightarrow> off + ?n = length bytes"
      using off by (auto simp: flits_from_empty min_def)
    with f 0 show ?thesis unfolding step by simp
  next
    case (Suc j)
    define m where "m = off + ?n"
    have m: "m \<le> length bytes" "m \<noteq> 0" using off by (auto simp: m_def)
    from 1(3) Suc have j: "j < length (flits_from bytes m)" unfolding step m_def by simp
    from 1(1) [OF off, unfolded OPENCLICKNP_PAYLOAD_BYTES_def, folded m_def, OF m(1) j] m(2)
    show ?thesis unfolding step m_def [symmetric] by (simp add: Suc)
  qed
qed

end
