(* ===== verification/CryptoElements.thy ===== *)
theory CryptoElements
  imports Network Sha1 Aes Pcap
begin

text \<open>
  The elements of \<open>elements/crypto\<close> that use the routines of the runtime on the flits of a stream: SHA1,
  AES_ECB and AES_CTR. SHA1 is proved to compute, packet by packet, the digests of the padded payloads;
  the cipher elements to compute what the routines compute on the payloads in a row.
\<close>

subsection \<open>SHA1\<close>

record sha1_element =
  se_ctx :: sha1_ctx
  se_started :: bool

definition sha1_start :: sha1_element where
  "sha1_start = \<lparr>se_ctx = sha1_init (replicate 64 0), se_started = False\<rparr>"

text \<open>Updating and finishing a context always return (\<open>update_ctx\<close>, \<open>final_context_padded\<close>).\<close>

definition digest_flit :: "u8 list \<Rightarrow> flit" where
  "digest_flit digest = set_eop True (set_sop True (set_data (take 20 digest @ replicate 12 0) 32 flit_zero))"

definition sha1_handler :: "sha1_element body" where
  "sha1_handler lc =
     (if input_ready PORT_1 (lc_ports lc)
      then (let (f, p) = read_input_port PORT_1 (lc_ports lc); st = lc_state lc;
                c0 = (if \<not> se_started st \<or> sop f then sha1_init (ctx_buf (se_ctx st)) else se_ctx st);
                c1 = the (sha1_update (get_data 32 f) c0)
            in if eop f
               then lc\<lparr>lc_ports := set_output_port 1 (digest_flit (the (final_digest c1))) p,
                       lc_state := \<lparr>se_ctx = the (final_context c1), se_started = False\<rparr>, lc_ret := PORT_1\<rparr>
               else lc\<lparr>lc_ports := p, lc_state := \<lparr>se_ctx = c1, se_started = True\<rparr>, lc_ret := PORT_1\<rparr>)
      else lc\<lparr>lc_ret := PORT_1\<rparr>)"

text \<open>The specification, on flits: whether a packet has begun, its bytes so far, and the digests put out.\<close>

definition sha1_step :: "flit \<Rightarrow> bool \<times> u8 list \<times> flit list \<Rightarrow> bool \<times> u8 list \<times> flit list" where
  "sha1_step f x = (case x of (b, m, out) \<Rightarrow>
     let m1 = (if \<not> b \<or> sop f then [] else m) @ get_data 32 f
     in if eop f then (False, m1, out @ [digest_flit (sha1_spec m1)]) else (True, m1, out))"

definition sha1_trace :: "flit list \<Rightarrow> bool \<times> u8 list \<times> flit list" where
  "sha1_trace fs = fold sha1_step fs (False, [], [])"

definition sha1_follows :: "sha1_element \<Rightarrow> flit list \<Rightarrow> flit list \<Rightarrow> bool" where
  "sha1_follows st seen out \<longleftrightarrow> length (ctx_buf (se_ctx st)) = 64 \<and>
     (\<exists>m. sha1_trace seen = (se_started st, m, out) \<and> (se_started st \<longrightarrow> ctx_of m (se_ctx st)))"

lemma ctx_of_buf: "ctx_of m s \<Longrightarrow> length (ctx_buf s) = 64"
  by (simp add: ctx_of_def ctx_ok_def)

lemma sha1_step_follows:
  fixes f :: flit
  assumes "sha1_follows st seen out"
  defines "c0 \<equiv> if \<not> se_started st \<or> sop f then sha1_init (ctx_buf (se_ctx st)) else se_ctx st"
  defines "c1 \<equiv> the (sha1_update (get_data 32 f) c0)"
  shows "eop f \<Longrightarrow> sha1_follows \<lparr>se_ctx = the (final_context c1), se_started = False\<rparr> (seen @ [f])
      (out @ [digest_flit (the (final_digest c1))])"
    and "\<not> eop f \<Longrightarrow> sha1_follows \<lparr>se_ctx = c1, se_started = True\<rparr> (seen @ [f]) out"
proof -
  from assms(1) obtain m where m: "sha1_trace seen = (se_started st, m, out)" "se_started st \<longrightarrow> ctx_of m (se_ctx st)"
    "length (ctx_buf (se_ctx st)) = 64" by (auto simp: sha1_follows_def)
  let ?m = "if \<not> se_started st \<or> sop f then [] else m"
  have "ctx_of ?m c0" using m init_ctx by (simp add: c0_def)
  from update_ctx [OF this, of "get_data 32 f"] have c1: "ctx_of (?m @ get_data 32 f) c1" by (auto simp: c1_def)
  from final_context_padded [OF c1] obtain c2 where c2: "final_context c1 = Some c2" "ctx_of (padded (?m @ get_data 32 f)) c2" by blast
  have trace: "sha1_trace (seen @ [f]) = sha1_step f (se_started st, m, out)" using m(1) by (simp add: sha1_trace_def)
  show "eop f \<Longrightarrow> sha1_follows \<lparr>se_ctx = the (final_context c1), se_started = False\<rparr> (seen @ [f])
      (out @ [digest_flit (the (final_digest c1))])"
    by (simp add: sha1_follows_def trace sha1_step_def Let_def final_ctx [OF c1] c2(1) ctx_of_buf [OF c2(2)])
  show "\<not> eop f \<Longrightarrow> sha1_follows \<lparr>se_ctx = c1, se_started = True\<rparr> (seen @ [f]) out"
    using c1 by (simp add: sha1_follows_def trace sha1_step_def Let_def ctx_of_buf [OF c1])
qed

interpretation sha1: element sha1_handler "\<lambda>lc. lc" sha1_follows
proof
  fix lc :: "sha1_element locals" and seen out :: "flit list"
  let ?p = "lc_ports lc" let ?f = "po_input_data ?p ! 1"
  assume f: "sha1_follows (lc_state lc) seen out" and fit: "ports_fit ?p" and zero: "po_output_port ?p = 0"
  show "sha1_follows (lc_state (sha1_handler lc)) (seen @ buffered ?p) (out @ pending_out (lc_ports (sha1_handler lc)))
      \<and> buffered (lc_ports (sha1_handler lc)) = [] \<and> ports_fit (lc_ports (sha1_handler lc))"
  proof (cases "input_ready PORT_1 ?p")
    case True
    then have "buffered ?p = [?f]" by (simp add: input_ready_def PORT_1_def held_at_def)
    with True fit zero sha1_step_follows [OF f, of ?f] show ?thesis
      by (cases "eop ?f") (simp_all add: sha1_handler_def read_port_1 Let_def emitted_one del: One_nat_def)
  next
    case False
    then have "buffered ?p = []" by (simp add: input_ready_def PORT_1_def held_at_def)
    with False f fit zero show ?thesis by (simp add: sha1_handler_def pending_at_def)
  qed
qed simp_all

text \<open>The payloads of the flits of a packet are its bytes with zeros up to a whole flit.\<close>

definition zero_padded :: "u8 list \<Rightarrow> u8 list" where
  "zero_padded xs = xs @ replicate ((32 - length xs mod 32) mod 32) 0"

lemma zero_padded_last: "0 < length xs \<Longrightarrow> length xs \<le> 32 \<Longrightarrow> zero_padded xs = xs @ replicate (32 - length xs) 0"
  by (cases "length xs = 32") (simp_all add: zero_padded_def)

lemma zero_padded_more: "32 < length xs \<Longrightarrow> zero_padded xs = take 32 xs @ zero_padded (drop 32 xs)"
  by (simp add: zero_padded_def le_mod_geq)

lemma get_set_data_all:
  assumes "n \<le> 32" "n \<le> length src"
  shows "get_data 32 (set_data src n flit_zero) = take n src @ replicate (32 - n) 0"
  using assms by (simp add: get_data_def set_data_def write_at_def OPENCLICKNP_PAYLOAD_BYTES_def flit_zero_def min_def)

lemma packet_flit_payload:
  assumes "off < length bytes"
  defines "n \<equiv> min 32 (length bytes - off)"
  shows "get_data 32 (packet_flit bytes off) = take n (drop off bytes) @ replicate (32 - n) 0"
proof -
  have "n \<le> 32" "n \<le> length (drop off bytes)" by (simp_all add: n_def)
  from get_set_data_all [OF this] show ?thesis using packet_flit_flags(4) [OF assms(1), of 32] by (simp add: n_def)
qed

lemma sha1_trace_flits:
  "off < length bytes \<Longrightarrow> off = 0 \<or> b \<Longrightarrow> m1 = (if off = 0 then [] else m) @ zero_padded (drop off bytes) \<Longrightarrow>
     fold sha1_step (flits_from bytes off) (b, m, out) = (False, m1, out @ [digest_flit (sha1_spec m1)])"
proof (induction bytes off arbitrary: b m rule: flits_from.induct)
  case (1 bytes off)
  let ?n = "min 32 (length bytes - off)"
  note f = packet_flit_flags [OF 1(2)]
  have step: "flits_from bytes off = packet_flit bytes off # flits_from bytes (off + ?n)"
    using 1(2) by (subst flits_from.simps) (simp add: OPENCLICKNP_PAYLOAD_BYTES_def)
  let ?m = "if off = 0 then [] else m"
  have start: "(if \<not> b \<or> sop (packet_flit bytes off) then [] else m) = ?m" using 1(3) f(2) by auto
  let ?pay = "take ?n (drop off bytes) @ replicate (32 - ?n) 0"
  have st: "sha1_step (packet_flit bytes off) (b, m, out) = (if eop (packet_flit bytes off)
      then (False, ?m @ ?pay, out @ [digest_flit (sha1_spec (?m @ ?pay))]) else (True, ?m @ ?pay, out))"
    unfolding sha1_step_def prod.case Let_def start packet_flit_payload [OF 1(2)] by (rule refl)
  show ?case
  proof (cases "length bytes - off \<le> 32")
    case True
    then have "?n = length bytes - off" "flits_from bytes (off + ?n) = []" using 1(2) by (simp_all add: flits_from_empty)
    moreover have "zero_padded (drop off bytes) = drop off bytes @ replicate (32 - (length bytes - off)) 0"
      using zero_padded_last [of "drop off bytes"] 1(2) True by simp
    ultimately show ?thesis using 1(2,4) f(3) unfolding step fold_Cons o_apply st by simp
  next
    case False
    then have n: "?n = 32" "off + 32 < length bytes" by auto
    have "drop off bytes \<noteq> []" "zero_padded (drop off bytes) = take 32 (drop off bytes) @ zero_padded (drop (off + 32) bytes)"
      using zero_padded_more [of "drop off bytes"] n(2) by (simp_all add: add.commute)
    then have m1: "m1 = (?m @ take 32 (drop off bytes)) @ zero_padded (drop (off + 32) bytes)" using 1(4) by simp
    have "sha1_step (packet_flit bytes off) (b, m, out) = (True, ?m @ take 32 (drop off bytes), out)"
      using f(3) n unfolding st by simp
    moreover have "fold sha1_step (flits_from bytes (off + 32)) (True, ?m @ take 32 (drop off bytes), out)
        = (False, m1, out @ [digest_flit (sha1_spec m1)])"
      using 1(1) [OF 1(2), of True "?m @ take 32 (drop off bytes)"] n m1
      by (simp add: OPENCLICKNP_PAYLOAD_BYTES_def)
    ultimately show ?thesis unfolding step n(1) by simp
  qed
qed

lemma sha1_trace_packets:
  assumes "list_all (\<lambda>p. pk_bytes p \<noteq> []) ps"
  shows "snd (snd (sha1_trace (concat (map packetToFlits ps)))) = map (\<lambda>p. digest_flit (sha1_spec (zero_padded (pk_bytes p)))) ps"
proof -
  have "fst (fold sha1_step (concat (map packetToFlits ps)) (False, m, out)) = False
      \<and> snd (snd (fold sha1_step (concat (map packetToFlits ps)) (False, m, out)))
        = out @ map (\<lambda>p. digest_flit (sha1_spec (zero_padded (pk_bytes p)))) ps" for m out
    using assms
  proof (induction ps arbitrary: m out)
    case (Cons p ps)
    then have "fold sha1_step (packetToFlits p) (False, m, out)
        = (False, zero_padded (pk_bytes p), out @ [digest_flit (sha1_spec (zero_padded (pk_bytes p)))])"
      using sha1_trace_flits [of 0 "pk_bytes p" False _ m out] by (simp add: packetToFlits_def)
    with Cons show ?case by simp
  qed simp
  then show ?thesis by (simp add: sha1_trace_def)
qed

text \<open>The digests come as the packets do, and a packet has to be complete.\<close>

lemma sha1_trace_prefix: "prefix fs gs \<Longrightarrow> prefix (snd (snd (sha1_trace fs))) (snd (snd (sha1_trace gs)))"
proof -
  have more: "prefix (snd (snd x)) (snd (snd (fold sha1_step hs x)))" for hs x
  proof (induction hs arbitrary: x)
    case (Cons h hs)
    have "prefix (snd (snd x)) (snd (snd (sha1_step h x)))" by (cases x) (simp add: sha1_step_def Let_def)
    with Cons [of "sha1_step h x"] show ?case by auto
  qed simp
  assume "prefix fs gs"
  then obtain hs where "gs = fs @ hs" by (auto simp: prefix_def)
  then show ?thesis by (simp add: sha1_trace_def more)
qed

lemma sha1_kernel_digests:
  assumes "distinct (map kh_name (b_kernels b))" and "element_at ws rs bodies sha1_handler (\<lambda>lc. lc) b i"
    and "(net_step ws rs)\<^sup>*\<^sup>* (emulator bodies b) n" and "snd (snd (bodies (b_kernels b ! i))) = sha1_start"
    and "prefix (sh_got (nt_shared n) (in_stream b i)) (concat (map packetToFlits ps))" "list_all (\<lambda>p. pk_bytes p \<noteq> []) ps"
  shows "subseq (sh_sent (nt_shared n) (out_stream b i)) (map (\<lambda>p. digest_flit (sha1_spec (zero_padded (pk_bytes p)))) ps)"
    and "int (length ps) \<le> stream_capacity b (out_stream b i) \<Longrightarrow>
      prefix (sh_sent (nt_shared n) (out_stream b i)) (map (\<lambda>p. digest_flit (sha1_spec (zero_padded (pk_bytes p)))) ps)"
proof -
  let ?ds = "map (\<lambda>p. digest_flit (sha1_spec (zero_padded (pk_bytes p)))) ps"
  have start: "sha1_follows (snd (snd (bodies (b_kernels b ! i)))) [] []"
    by (simp add: assms(4) sha1_follows_def sha1_start_def sha1_trace_def sha1_init_def)
  from sha1.emulator_result [OF assms(1-3) start] obtain seen rest out
    where o: "sha1_follows (lc_state (th_locals (nt_threads n ! i))) seen out"
      "sh_got (nt_shared n) (in_stream b i) = seen @ rest" "subseq (sh_sent (nt_shared n) (out_stream b i)) out"
      "int (length out) \<le> stream_capacity b (out_stream b i) \<Longrightarrow> prefix (sh_sent (nt_shared n) (out_stream b i)) out" by metis
  from o(1) have "out = snd (snd (sha1_trace seen))" by (auto simp: sha1_follows_def)
  moreover have "prefix seen (concat (map packetToFlits ps))" using assms(5) o(2) by (auto simp: prefix_def)
  ultimately have out: "prefix out ?ds" using sha1_trace_prefix sha1_trace_packets [OF assms(6)] by metis
  show "subseq (sh_sent (nt_shared n) (out_stream b i)) ?ds"
    by (rule subseq_order.trans [OF o(3) prefix_imp_subseq [OF out]])
  assume "int (length ps) \<le> stream_capacity b (out_stream b i)"
  then have "int (length out) \<le> stream_capacity b (out_stream b i)" using prefix_length_le [OF out] by simp
  from prefix_order.trans [OF o(4) [OF this] out] show "prefix (sh_sent (nt_shared n) (out_stream b i)) ?ds" .
qed

subsection \<open>AES\_ECB and AES\_CTR\<close>

record aes_element =
  ae_key_bytes :: "u8 list"
  ae_counter :: "u8 list"
  ae_round_keys :: "u8 list"

definition aes_start :: aes_element where
  "aes_start = \<lparr>ae_key_bytes = replicate 16 0, ae_counter = replicate 16 0,
     ae_round_keys = aes128_key_expand (replicate 16 0)\<rparr>"

text \<open>The flit put out is a new one: the flags of the packet's ends are copied, nothing else.\<close>

definition cipher_flit :: "u8 list \<Rightarrow> flit \<Rightarrow> flit" where
  "cipher_flit ct f = set_eop (eop f) (set_sop (sop f) (set_data ct 32 flit_zero))"

definition ecb_payload :: "u8 list \<Rightarrow> u8 list \<Rightarrow> u8 list" where
  "ecb_payload rk pt = aes128_encrypt_block rk (take 16 pt) @ aes128_encrypt_block rk (drop 16 pt)"

definition ecb_handler :: "aes_element body" where
  "ecb_handler lc =
     (if input_ready PORT_1 (lc_ports lc)
      then (let (f, p) = read_input_port PORT_1 (lc_ports lc)
            in lc\<lparr>lc_ports := set_output_port 1 (cipher_flit (ecb_payload (ae_round_keys (lc_state lc)) (get_data 32 f)) f) p,
                  lc_ret := PORT_1\<rparr>)
      else lc\<lparr>lc_ret := PORT_1\<rparr>)"

definition ctr_handler :: "aes_element body" where
  "ctr_handler lc =
     (if input_ready PORT_1 (lc_ports lc)
      then (let (f, p) = read_input_port PORT_1 (lc_ports lc); st = lc_state lc;
                ct = aes128_ctr_xcrypt (ae_round_keys st) (ae_counter st) (get_data 32 f)
            in lc\<lparr>lc_ports := set_output_port 1 (cipher_flit ct f) p,
                  lc_state := st\<lparr>ae_counter := (inc_counter ^^ 2) (ae_counter st)\<rparr>, lc_ret := PORT_1\<rparr>)
      else lc\<lparr>lc_ret := PORT_1\<rparr>)"

text \<open>Command 1 sets the key, command 2, which only AES\_CTR has, the counter.\<close>

definition param_bytes :: "cl_signal \<Rightarrow> u8 list" where
  "param_bytes s = le_bytes 8 (cs_lparam s ! 0) @ le_bytes 8 (cs_lparam s ! 1)"

definition ecb_signal :: "aes_element body" where
  "ecb_signal lc =
     (if cs_cmd (lc_event lc) = 1
      then lc\<lparr>lc_state := (lc_state lc)\<lparr>ae_key_bytes := param_bytes (lc_event lc),
             ae_round_keys := aes128_key_expand (param_bytes (lc_event lc))\<rparr>\<rparr>
      else lc)"

definition ctr_signal :: "aes_element body" where
  "ctr_signal lc =
     (if cs_cmd (lc_event lc) = 1
      then lc\<lparr>lc_state := (lc_state lc)\<lparr>ae_key_bytes := param_bytes (lc_event lc),
             ae_round_keys := aes128_key_expand (param_bytes (lc_event lc))\<rparr>\<rparr>
      else if cs_cmd (lc_event lc) = 2
      then lc\<lparr>lc_state := (lc_state lc)\<lparr>ae_counter := param_bytes (lc_event lc)\<rparr>\<rparr>
      else lc)"

text \<open>Whatever keys and counters are set on the way: one flit for each, framed as it was, without a pad count.\<close>

definition framing :: "flit \<Rightarrow> bool \<times> bool" where
  "framing f = (sop f, eop f)"

definition reframes :: "'st \<Rightarrow> flit list \<Rightarrow> flit list \<Rightarrow> bool" where
  "reframes st seen out \<longleftrightarrow> map framing out = map framing seen \<and> list_all (\<lambda>f. padbytes f = 0) out"

lemma cipher_flit_frame:
  "framing (cipher_flit ct f) = framing f" "padbytes (cipher_flit ct f) = 0"
  "get_data 32 (cipher_flit ct f) = take 32 (take 32 ct @ replicate (32 - length ct) 0)"
proof -
  have ok: "flit_ok (set_data ct 32 flit_zero)" "flit_ok (set_flag 1 b (set_data ct 32 flit_zero))" for b by simp_all
  have dis: "(2 :: u8) AND 1 = 0" by simp
  show "framing (cipher_flit ct f) = framing f"
    using flag_set_flag(1) [OF ok(2), of 2] flag_set_flag(2) [OF ok(2) _ dis] flag_set_flag(1) [OF ok(1), of 1]
    by (simp add: framing_def cipher_flit_def sop_def eop_def set_sop_def set_eop_def)
  show "padbytes (cipher_flit ct f) = 0"
    by (simp add: padbytes_def cipher_flit_def set_eop_def set_sop_def set_flag_def set_data_def write_at_def flit_zero_def
        OPENCLICKNP_PAYLOAD_BYTES_def nth_append)
  show "get_data 32 (cipher_flit ct f) = take 32 (take 32 ct @ replicate (32 - length ct) 0)"
    by (simp add: cipher_flit_def get_data_keeps set_eop_def set_sop_def)
      (simp add: get_data_def set_data_def write_at_def OPENCLICKNP_PAYLOAD_BYTES_def flit_zero_def)
qed

lemma reframes_flit: "reframes st seen out \<Longrightarrow> reframes st' (seen @ [f]) (out @ [cipher_flit ct f])"
  by (simp add: reframes_def cipher_flit_frame)

text \<open>The case split that both elements share.\<close>

lemma cipher_element:
  fixes handler signal :: "'st body"
  assumes "\<And>lc. handler lc = (if input_ready PORT_1 (lc_ports lc)
      then (let (f, p) = read_input_port PORT_1 (lc_ports lc)
            in lc\<lparr>lc_ports := set_output_port 1 (cipher_flit (ct (lc_state lc) f) f) p,
                  lc_state := upd (lc_state lc), lc_ret := PORT_1\<rparr>)
      else lc\<lparr>lc_ret := PORT_1\<rparr>)"
    and "\<And>lc. lc_ports (signal lc) = lc_ports lc"
  shows "element handler signal reframes"
proof
  fix lc :: "'st locals" and seen out :: "flit list"
  let ?p = "lc_ports lc"
  assume r: "reframes (lc_state lc) seen out" and fit: "ports_fit ?p" and zero: "po_output_port ?p = 0"
  show "reframes (lc_state (handler lc)) (seen @ buffered ?p) (out @ pending_out (lc_ports (handler lc)))
      \<and> buffered (lc_ports (handler lc)) = [] \<and> ports_fit (lc_ports (handler lc))"
  proof (cases "input_ready PORT_1 ?p")
    case True
    then have "buffered ?p = [po_input_data ?p ! 1]" by (simp add: input_ready_def PORT_1_def held_at_def)
    with True fit zero reframes_flit [OF r] show ?thesis
      by (simp add: assms(1) read_port_1 Let_def emitted_one del: One_nat_def)
  next
    case False
    then have "buffered ?p = []" by (simp add: input_ready_def PORT_1_def held_at_def)
    with False r fit zero show ?thesis by (simp add: assms(1) pending_at_def)
  qed
qed (simp_all add: assms(2) reframes_def)

interpretation ecb: element ecb_handler ecb_signal reframes
  by (rule cipher_element [where upd = "\<lambda>st. st" and ct = "\<lambda>st f. ecb_payload (ae_round_keys st) (get_data 32 f)"])
    (simp_all add: ecb_handler_def ecb_signal_def Let_def split_beta)

interpretation ctr: element ctr_handler ctr_signal reframes
  by (rule cipher_element [where upd = "\<lambda>st. st\<lparr>ae_counter := (inc_counter ^^ 2) (ae_counter st)\<rparr>"
        and ct = "\<lambda>st f. aes128_ctr_xcrypt (ae_round_keys st) (ae_counter st) (get_data 32 f)"])
    (simp_all add: ctr_handler_def ctr_signal_def Let_def split_beta)

text \<open>Calls of a handler on flits that arrive one by one.\<close>

abbreviation feed :: "'st body \<Rightarrow> flit list \<Rightarrow> 'st locals \<Rightarrow> flit list \<times> 'st locals" where
  "feed h fs \<equiv> handler_calls 1 h (map (\<lambda>f. [(1, f)]) fs)"

definition payloads :: "flit list \<Rightarrow> u8 list" where
  "payloads fs = concat (map (get_data 32) fs)"

lemma length_payload: "flit_ok f \<Longrightarrow> length (get_data 32 f) = 32"
  by (simp add: get_data_def flit_ok_def OPENCLICKNP_PAYLOAD_BYTES_def)

lemma ctr_two_blocks:
  assumes "length x = 32"
  shows "aes128_ctr_xcrypt rk ctr (x @ y) = aes128_ctr_xcrypt rk ctr x @ aes128_ctr_xcrypt rk ((inc_counter ^^ 2) ctr) y"
proof -
  have ne: "x @ y \<noteq> []" "drop 16 x @ y \<noteq> []" "x \<noteq> []" "drop 16 x \<noteq> []" using assms by auto
  have d: "drop 16 (x @ y) = drop 16 x @ y" "take 16 (x @ y) = take 16 x" "drop 16 (drop 16 x @ y) = y"
    "take 16 (drop 16 x @ y) = drop 16 x" "drop 16 (drop 16 x) = []" "take 16 (drop 16 x) = drop 16 x" using assms by simp_all
  have "(inc_counter ^^ 2) ctr = inc_counter (inc_counter ctr)" by (simp add: numeral_2_eq_2)
  then show ?thesis
    unfolding ctr_step [OF ne(1)] ctr_step [OF ne(3)] d ctr_step [OF ne(2)] ctr_step [OF ne(4)] by simp
qed

lemma ctr_feed:
  assumes "list_all flit_ok fs" "ports_fit (lc_ports lc)"
  shows "payloads (fst (feed ctr_handler fs lc)) = aes128_ctr_xcrypt (ae_round_keys (lc_state lc)) (ae_counter (lc_state lc)) (payloads fs)
    \<and> list_all flit_ok (fst (feed ctr_handler fs lc)) \<and> map framing (fst (feed ctr_handler fs lc)) = map framing fs
    \<and> list_all (\<lambda>f. padbytes f = 0) (fst (feed ctr_handler fs lc))"
  using assms
proof (induction fs arbitrary: lc)
  case (Cons f fs)
  let ?lc = "map_ports (\<lambda>p. (buffer_input 1 f p)\<lparr>po_output_port := 0\<rparr>) lc" let ?st = "lc_state lc"
  let ?ct = "aes128_ctr_xcrypt (ae_round_keys ?st) (ae_counter ?st) (get_data 32 f)"
  let ?lc1 = "ctr_handler ?lc"
  have in1: "input_ready PORT_1 (lc_ports ?lc)" "po_input_data (lc_ports ?lc) ! 1 = f" "ports_fit (lc_ports ?lc)"
    "po_output_port (lc_ports ?lc) = 0"
    using Cons.prems(2) by (simp_all add: input_ready_def PORT_1_def buffer_input_def or_and_self ports_fit_def)
  then have h: "pending_out (lc_ports ?lc1) = [cipher_flit ?ct f]" "ports_fit (lc_ports ?lc1)"
    "lc_state ?lc1 = ?st\<lparr>ae_counter := (inc_counter ^^ 2) (ae_counter ?st)\<rparr>"
    by (simp_all add: ctr_handler_def read_port_1 Let_def emitted_one del: One_nat_def)
  have len: "length (get_data 32 f) = 32" using Cons.prems(1) by (simp add: length_payload)
  then have "get_data 32 (cipher_flit ?ct f) = ?ct" by (simp add: cipher_flit_frame(3))
  moreover have "flit_ok (cipher_flit ?ct f)" by (simp add: cipher_flit_def set_eop_def set_sop_def)
  ultimately show ?case using Cons.IH [of ?lc1] Cons.prems(1) h
    by (simp add: Let_def split_beta handler_call_def payloads_def ctr_two_blocks [OF len] cipher_flit_frame del: One_nat_def)
qed (simp add: payloads_def)

text \<open>
  Two elements with the same key and counter: what the second puts out are the flits that the first was
  given, up to the pad count and the other bytes outside the payload.
\<close>

lemma ctr_roundtrip:
  assumes fs: "list_all flit_ok fs" and fit: "ports_fit (lc_ports lc1)" "ports_fit (lc_ports lc2)"
    and same: "ae_round_keys (lc_state lc1) = ae_round_keys (lc_state lc2)" "ae_counter (lc_state lc1) = ae_counter (lc_state lc2)"
  shows "payloads (fst (feed ctr_handler (fst (feed ctr_handler fs lc1)) lc2)) = payloads fs"
    "map framing (fst (feed ctr_handler (fst (feed ctr_handler fs lc1)) lc2)) = map framing fs"
    "list_all (\<lambda>f. padbytes f = 0) (fst (feed ctr_handler (fst (feed ctr_handler fs lc1)) lc2))"
  using ctr_feed [OF fs fit(1)] ctr_feed [OF _ fit(2), of "fst (feed ctr_handler fs lc1)"]
  by (simp_all add: same ctr_involution)

end
