(* ===== verification/Host.thy ===== *)
theory Host
  imports Streams
begin

text \<open>
  The host side: the slot bridges (\<open>runtime/src/slot_bridge_xdma.cpp\<close>, \<open>slot_bridge_qdma.cpp\<close>), the
  platform and its registry (\<open>platform.cpp\<close>, \<open>lookups.cpp\<close>), the element handles (\<open>element.cpp\<close>),
  the parameter helpers (\<open>signal_rpc.cpp\<close>, \<open>counters.cpp\<close>) and the kernel side of the signal
  registers (\<open>hls_runtime.hpp\<close>). XRT is a parameter: how a device, a kernel or an IP block opens, and
  how a register is written and read.
\<close>

subsection \<open>Slot bridges\<close>

record slots =
  sl_queues :: "flit list list"
  sl_stopped :: bool

definition slots_init :: slots where
  "slots_init = \<lparr>sl_queues = replicate 64 [], sl_stopped = False\<rparr>"

text \<open>XDMA stamps the slot number into the copy it queues; QDMA queues the flit as it is.\<close>

definition xdma_send :: "u16 \<Rightarrow> flit \<Rightarrow> slots \<Rightarrow> bool \<times> slots" where
  "xdma_send slot f b =
     (if length (sl_queues b) \<le> unat slot then (False, b)
      else (True, b\<lparr>sl_queues := (sl_queues b)[unat slot := sl_queues b ! unat slot @ [set_slot_id slot f]]\<rparr>))"

definition qdma_send :: "u16 \<Rightarrow> flit \<Rightarrow> slots \<Rightarrow> bool \<times> slots" where
  "qdma_send slot f b =
     (if length (sl_queues b) \<le> unat slot then (False, b)
      else (True, b\<lparr>sl_queues := (sl_queues b)[unat slot := sl_queues b ! unat slot @ [f]]\<rparr>))"

text \<open>
  The step that takes the flit, at the end of the wait of a blocking call (50 ms, or earlier when a
  flit arrives or the bridge is stopped) or at once: the two kinds of call differ only in when.
\<close>

definition slot_recv :: "u16 \<Rightarrow> bool \<Rightarrow> slots \<Rightarrow> flit option \<times> slots" where
  "slot_recv slot blocking b =
     (if length (sl_queues b) \<le> unat slot then (None, b)
      else case sl_queues b ! unat slot of
             [] \<Rightarrow> (None, b)
           | f # fs \<Rightarrow> (Some f, b\<lparr>sl_queues := (sl_queues b)[unat slot := fs]\<rparr>))"

definition slots_shutdown :: "slots \<Rightarrow> slots" where
  "slots_shutdown b = b\<lparr>sl_stopped := True\<rparr>"

definition slot_items :: "u16 \<Rightarrow> slots \<Rightarrow> flit list" where
  "slot_items slot b = (if unat slot < length (sl_queues b) then sl_queues b ! unat slot else [])"

datatype bridge = XdmaBridge slots | QdmaBridge slots | StubBridge

definition makeXdmaBridge :: bridge where "makeXdmaBridge = XdmaBridge slots_init"
definition makeQdmaBridge :: bridge where "makeQdmaBridge = QdmaBridge slots_init"
definition makeStubBridge :: bridge where "makeStubBridge = StubBridge"

fun bridge_send :: "u16 \<Rightarrow> flit \<Rightarrow> bridge \<Rightarrow> bool \<times> bridge" where
  "bridge_send slot f (XdmaBridge b) = (let (ok, b') = xdma_send slot f b in (ok, XdmaBridge b'))"
| "bridge_send slot f (QdmaBridge b) = (let (ok, b') = qdma_send slot f b in (ok, QdmaBridge b'))"
| "bridge_send slot f StubBridge = (False, StubBridge)"

fun bridge_recv :: "u16 \<Rightarrow> bool \<Rightarrow> bridge \<Rightarrow> flit option \<times> bridge" where
  "bridge_recv slot blocking (XdmaBridge b) = (let (r, b') = slot_recv slot blocking b in (r, XdmaBridge b'))"
| "bridge_recv slot blocking (QdmaBridge b) = (let (r, b') = slot_recv slot blocking b in (r, QdmaBridge b'))"
| "bridge_recv slot blocking StubBridge = (None, StubBridge)"

fun bridge_shutdown :: "bridge \<Rightarrow> bridge" where
  "bridge_shutdown (XdmaBridge b) = XdmaBridge (slots_shutdown b)"
| "bridge_shutdown (QdmaBridge b) = QdmaBridge (slots_shutdown b)"
| "bridge_shutdown StubBridge = StubBridge"

fun bridge_items :: "u16 \<Rightarrow> bridge \<Rightarrow> flit list" where
  "bridge_items slot (XdmaBridge b) = slot_items slot b"
| "bridge_items slot (QdmaBridge b) = slot_items slot b"
| "bridge_items slot StubBridge = []"

interpretation xdma: fifo "slot_items slot" "xdma_send slot" "slot_recv slot blocking" "set_slot_id slot" for slot blocking
  by unfold_locales (auto simp: slot_items_def xdma_send_def slot_recv_def split: list.splits if_splits)

interpretation qdma: fifo "slot_items slot" "qdma_send slot" "slot_recv slot blocking" "\<lambda>f. f" for slot blocking
  by unfold_locales (auto simp: slot_items_def qdma_send_def slot_recv_def split: list.splits if_splits)

text \<open>A slot does not see the traffic of another.\<close>

lemma slot_isolation:
  assumes "s \<noteq> s'"
  shows "bridge_items s' (snd (bridge_send s f b)) = bridge_items s' b"
    and "bridge_items s' (snd (bridge_recv s w b)) = bridge_items s' b"
proof -
  have "unat s \<noteq> unat s'" using assms by (simp add: word_unat_eq_iff)
  then show "bridge_items s' (snd (bridge_send s f b)) = bridge_items s' b"
    "bridge_items s' (snd (bridge_recv s w b)) = bridge_items s' b"
    by (cases b; auto simp: xdma_send_def qdma_send_def slot_recv_def slot_items_def split: list.splits)+
qed

subsection \<open>The registry of generated tables\<close>

record kernel_info =
  ki_name :: string
  ki_element_type :: string
  ki_has_signal :: bool
  ki_is_autorun :: bool
  ki_axilite_base :: int

record sig_entry =
  sn_gid :: int
  sn_kernel :: string
  sn_axilite_base :: int

record host_stream_entry =
  hs_kernel :: string
  hs_port :: int
  hs_kernel_to_host :: bool
  hs_slot_id :: int

text \<open>The registry of \<open>platform.cpp\<close> and the side table of \<open>lookups.cpp\<close>.\<close>

record registry =
  rg_kernels :: "kernel_info list"
  rg_signals :: "sig_entry list"
  rg_streams :: "host_stream_entry list"
  rg_side :: "sig_entry list"

definition registry_init :: registry where
  "registry_init = \<lparr>rg_kernels = [], rg_signals = [], rg_streams = [], rg_side = []\<rparr>"

definition recordSignals :: "sig_entry list \<Rightarrow> registry \<Rightarrow> registry" where
  "recordSignals s r = r\<lparr>rg_side := s\<rparr>"

definition registerGenerated ::
  "kernel_info list \<Rightarrow> sig_entry list \<Rightarrow> host_stream_entry list \<Rightarrow> registry \<Rightarrow> registry" where
  "registerGenerated k s h r = recordSignals s (r\<lparr>rg_kernels := k, rg_signals := s, rg_streams := h\<rparr>)"

fun find_gid :: "string \<Rightarrow> sig_entry list \<Rightarrow> int" where
  "find_gid n [] = -1"
| "find_gid n (s # ss) = (if n = sn_kernel s then sn_gid s else find_gid n ss)"

definition findSignalGid :: "string \<Rightarrow> registry \<Rightarrow> int" where
  "findSignalGid n r = find_gid n (rg_side r)"

subsection \<open>The platform\<close>

datatype transport_kind = XDMA | QDMA | Stub

record network_counters =
  nc_tor_tx :: u64
  nc_tor_rx :: u64
  nc_nic_tx :: u64
  nc_nic_rx :: u64
  nc_tor_link_up :: bool
  nc_nic_link_up :: bool

record signal_msg =
  sp_cmd :: u16
  sp_sparam :: u32
  sp_lparam :: "u64 list"

definition signal_msg_zero :: signal_msg where
  "signal_msg_zero = \<lparr>sp_cmd = 0, sp_sparam = 0, sp_lparam = replicate 7 0\<rparr>"

text \<open>What the host code uses of XRT; None and False stand for an exception.\<close>

record 'd xrt =
  xr_device :: "string \<Rightarrow> string \<Rightarrow> bool"
  xr_kernel :: "string \<Rightarrow> bool"
  xr_ip :: "string \<Rightarrow> 'd option"
  xr_write :: "'d \<Rightarrow> nat \<Rightarrow> u32 \<Rightarrow> 'd"
  xr_read :: "'d \<Rightarrow> nat \<Rightarrow> u32 \<times> 'd"

text \<open>
  The handle of an element is its name; the platform it refers to is the state it is used in. A callback
  is known by a number: elements store it and no code calls it.
\<close>

record host_element =
  he_name :: string
  he_callback :: "nat option"

definition Element :: "string \<Rightarrow> host_element" where
  "Element n = \<lparr>he_name = n, he_callback = None\<rparr>"

record 'd host_platform =
  pf_is_open :: bool
  pf_transport :: transport_kind
  pf_xclbin_path :: string
  pf_bdf :: string
  pf_elements :: "string \<Rightarrow> host_element option"
  pf_bridge :: "bridge option"
  pf_cycles :: u64
  pf_axilite_blocks :: "int \<Rightarrow> 'd option"

definition Platform :: "'d host_platform" where
  "Platform = \<lparr>pf_is_open = False, pf_transport = Stub, pf_xclbin_path = [], pf_bdf = [],
     pf_elements = (\<lambda>_. None), pf_bridge = None, pf_cycles = 0, pf_axilite_blocks = (\<lambda>_. None)\<rparr>"

text \<open>\<open>emplace\<close> keeps an entry that is there; the first exception ends the loop.\<close>

fun open_ips :: "(string \<Rightarrow> 'd option) \<Rightarrow> sig_entry list \<Rightarrow> (int \<Rightarrow> 'd option) \<Rightarrow> bool \<times> (int \<Rightarrow> 'd option)" where
  "open_ips ip [] m = (True, m)"
| "open_ips ip (s # ss) m =
     (case ip (sn_kernel s) of
        None \<Rightarrow> (False, m)
      | Some d \<Rightarrow> open_ips ip ss (if m (sn_gid s) = None then m(sn_gid s \<mapsto> d) else m))"

definition load_xclbin :: "'d xrt \<Rightarrow> registry \<Rightarrow> string \<Rightarrow> string \<Rightarrow> (int \<Rightarrow> 'd option) \<Rightarrow> bool \<times> (int \<Rightarrow> 'd option)" where
  "load_xclbin x r path bdf m =
     (if \<not> xr_device x path bdf then (False, m)
      else if \<not> list_all (\<lambda>k. xr_kernel x (ki_name k)) (rg_kernels r) then (False, m)
      else open_ips (xr_ip x) (rg_signals r) m)"

definition bridge_for :: "transport_kind \<Rightarrow> bridge" where
  "bridge_for t = (case t of XDMA \<Rightarrow> makeXdmaBridge | QDMA \<Rightarrow> makeQdmaBridge | Stub \<Rightarrow> makeStubBridge)"

text \<open>\<open>x\<close> is None in a build without XRT.\<close>

definition platform_open ::
  "'d xrt option \<Rightarrow> registry \<Rightarrow> string \<Rightarrow> string \<Rightarrow> transport_kind \<Rightarrow> 'd host_platform \<Rightarrow> bool \<times> 'd host_platform" where
  "platform_open x r path bdf t p =
     (let p1 = p\<lparr>pf_xclbin_path := path, pf_bdf := bdf, pf_transport := t\<rparr>;
          (ok, m) = (case x of
                       None \<Rightarrow> (True, pf_axilite_blocks p1)
                     | Some xr \<Rightarrow> if path = [] then (True, pf_axilite_blocks p1)
                                  else load_xclbin xr r path bdf (pf_axilite_blocks p1));
          p2 = p1\<lparr>pf_axilite_blocks := m\<rparr>
      in if \<not> ok then (False, p2)
         else (True, p2\<lparr>pf_bridge := Some (bridge_for t), pf_is_open := True\<rparr>))"

definition platform_close :: "'d host_platform \<Rightarrow> 'd host_platform" where
  "platform_close p =
     p\<lparr>pf_bridge := map_option bridge_shutdown (pf_bridge p), pf_elements := (\<lambda>_. None), pf_is_open := False\<rparr>"

definition launchAll :: "'d host_platform \<Rightarrow> 'd host_platform" where "launchAll p = p"

definition platform_element :: "string \<Rightarrow> 'd host_platform \<Rightarrow> string \<times> 'd host_platform" where
  "platform_element n p =
     (case pf_elements p n of
        Some e \<Rightarrow> (he_name e, p)
      | None \<Rightarrow> (n, p\<lparr>pf_elements := (pf_elements p)(n \<mapsto> Element n)\<rparr>))"

definition isOpen :: "'d host_platform \<Rightarrow> bool" where "isOpen p = pf_is_open p"
definition transport :: "'d host_platform \<Rightarrow> transport_kind" where "transport p = pf_transport p"

definition cycleCounter :: "'d host_platform \<Rightarrow> u64" where "cycleCounter p = pf_cycles p"

definition networkCounters :: "'d host_platform \<Rightarrow> network_counters" where
  "networkCounters p = \<lparr>nc_tor_tx = 0, nc_tor_rx = 0, nc_nic_tx = 0, nc_nic_rx = 0,
     nc_tor_link_up = False, nc_nic_link_up = False\<rparr>"

definition cycleCounterOf :: "'d host_platform \<Rightarrow> u64" where "cycleCounterOf p = cycleCounter p"
definition networkCountersOf :: "'d host_platform \<Rightarrow> network_counters" where "networkCountersOf p = networkCounters p"

definition sendSlot :: "u16 \<Rightarrow> flit \<Rightarrow> 'd host_platform \<Rightarrow> bool \<times> 'd host_platform" where
  "sendSlot slot f p =
     (case pf_bridge p of
        None \<Rightarrow> (False, p)
      | Some b \<Rightarrow> let (ok, b') = bridge_send slot f b in (ok, p\<lparr>pf_bridge := Some b'\<rparr>))"

definition recvSlot :: "u16 \<Rightarrow> bool \<Rightarrow> 'd host_platform \<Rightarrow> flit option \<times> 'd host_platform" where
  "recvSlot slot blocking p =
     (case pf_bridge p of
        None \<Rightarrow> (None, p)
      | Some b \<Rightarrow> let (r, b') = bridge_recv slot blocking b in (r, p\<lparr>pf_bridge := Some b'\<rparr>))"

subsection \<open>Signal dispatch over the registers\<close>

definition write_lparam :: "('d \<Rightarrow> nat \<Rightarrow> u32 \<Rightarrow> 'd) \<Rightarrow> u64 list \<Rightarrow> nat \<Rightarrow> 'd \<Rightarrow> 'd" where
  "write_lparam wr lparam i d =
     (let v = lparam ! i; d = wr d (0x10 + i * 8) (ucast (v AND 0xFFFFFFFF))
      in wr d (0x10 + i * 8 + 4) (ucast (drop_bit 32 v)))"

definition read_lparam :: "('d \<Rightarrow> nat \<Rightarrow> u32 \<times> 'd) \<Rightarrow> nat \<Rightarrow> u64 list \<times> 'd \<Rightarrow> u64 list \<times> 'd" where
  "read_lparam rd i acc =
     (let (lo, d) = rd (snd acc) (0x50 + i * 8); (hi, d) = rd d (0x50 + i * 8 + 4)
      in (fst acc @ [push_bit 32 (ucast hi) OR ucast lo], d))"

fun poll_status :: "('d \<Rightarrow> nat \<Rightarrow> u32 \<times> 'd) \<Rightarrow> nat \<Rightarrow> 'd \<Rightarrow> 'd" where
  "poll_status rd 0 d = d"
| "poll_status rd (Suc n) d = (let (st, d) = rd d 0x00 in if st AND 0x2 \<noteq> 0 then d else poll_status rd n d)"

definition dispatch_regs :: "'d xrt \<Rightarrow> signal_msg \<Rightarrow> 'd \<Rightarrow> signal_msg \<times> 'd" where
  "dispatch_regs x req d =
     (let wr = xr_write x; rd = xr_read x;
          d = wr d 0x04 (ucast (sp_cmd req)); d = wr d 0x08 (sp_sparam req);
          d = fold (write_lparam wr (sp_lparam req)) [0..<7] d;
          d = wr d 0x00 0x1;
          d = poll_status rd 10000 d;
          (c, d) = rd d 0x44; (sp, d) = rd d 0x48;
          (lp, d) = fold (read_lparam rd) [0..<7] ([], d)
      in (\<lparr>sp_cmd = ucast c, sp_sparam = sp, sp_lparam = lp\<rparr>, d))"

text \<open>The result false leaves the response as it was: None.\<close>

definition dispatchSignal ::
  "'d xrt option \<Rightarrow> int \<Rightarrow> signal_msg \<Rightarrow> 'd host_platform \<Rightarrow> signal_msg option \<times> 'd host_platform" where
  "dispatchSignal x gid req p =
     (case x of
        None \<Rightarrow> (Some signal_msg_zero, p)
      | Some xr \<Rightarrow> (case pf_axilite_blocks p gid of
          None \<Rightarrow> (None, p)
        | Some d \<Rightarrow> let (rsp, d') = dispatch_regs xr req d
                    in (Some rsp, p\<lparr>pf_axilite_blocks := (pf_axilite_blocks p)(gid \<mapsto> d')\<rparr>)))"

subsection \<open>Elements\<close>

definition element_signal ::
  "'d xrt option \<Rightarrow> registry \<Rightarrow> string \<Rightarrow> signal_msg \<Rightarrow> 'd host_platform \<Rightarrow> signal_msg option \<times> 'd host_platform" where
  "element_signal x r name req p =
     (let gid = findSignalGid name r in if gid < 0 then (None, p) else dispatchSignal x gid req p)"

text \<open>The variant that returns the response: zeros when the call fails.\<close>

definition element_signal_value ::
  "'d xrt option \<Rightarrow> registry \<Rightarrow> string \<Rightarrow> signal_msg \<Rightarrow> 'd host_platform \<Rightarrow> signal_msg \<times> 'd host_platform" where
  "element_signal_value x r name req p =
     (let (rsp, p') = element_signal x r name req p in (case rsp of None \<Rightarrow> signal_msg_zero | Some m \<Rightarrow> m, p'))"

definition element_launch :: "string \<Rightarrow> 'd host_platform \<Rightarrow> 'd host_platform" where "element_launch name p = p"

definition setCallback :: "string \<Rightarrow> nat option \<Rightarrow> 'd host_platform \<Rightarrow> 'd host_platform" where
  "setCallback name cb p =
     p\<lparr>pf_elements := (pf_elements p)(name := map_option (\<lambda>e. e\<lparr>he_callback := cb\<rparr>) (pf_elements p name))\<rparr>"

record host_message =
  hm_flit :: flit
  hm_slot_id :: u16

definition element_send :: "host_message \<Rightarrow> 'd host_platform \<Rightarrow> 'd host_platform" where
  "element_send msg p = snd (sendSlot (hm_slot_id msg) (hm_flit msg) p)"

definition element_receive :: "host_message \<Rightarrow> bool \<Rightarrow> 'd host_platform \<Rightarrow> bool \<times> host_message \<times> 'd host_platform" where
  "element_receive msg blocking p =
     (case recvSlot (hm_slot_id msg) blocking p of
        (None, p') \<Rightarrow> (False, msg, p')
      | (Some f, p') \<Rightarrow> (True, msg\<lparr>hm_flit := f\<rparr>, p'))"

definition packSignalParam :: "int \<Rightarrow> u64 \<Rightarrow> signal_msg \<Rightarrow> signal_msg" where
  "packSignalParam slot v req =
     (if 0 \<le> slot \<and> slot < 7 then req\<lparr>sp_lparam := (sp_lparam req)[nat slot := v]\<rparr> else req)"

definition unpackSignalParam :: "int \<Rightarrow> signal_msg \<Rightarrow> u64" where
  "unpackSignalParam slot rsp = (if slot < 0 \<or> 7 \<le> slot then 0 else sp_lparam rsp ! nat slot)"

subsection \<open>The kernel side of the signal registers\<close>

record signal_io =
  io_status :: u32
  io_cmd :: u16
  io_sparam :: u32
  io_lparam :: "u64 list"
  io_rsp_lparam :: "u64 list"
  io_rsp_cmd :: u16
  io_rsp_sparam :: u32

definition poll_signal :: "signal_io \<Rightarrow> cl_signal \<Rightarrow> bool \<times> cl_signal \<times> signal_io" where
  "poll_signal io out =
     (if io_status io AND 0x1 = 0 then (False, out, io)
      else (True, out\<lparr>cs_cmd := io_cmd io, cs_sparam := io_sparam io, cs_lparam := io_lparam io\<rparr>,
            io\<lparr>io_status := 0\<rparr>))"

definition respond_signal :: "cl_signal \<Rightarrow> signal_io \<Rightarrow> signal_io" where
  "respond_signal s io =
     io\<lparr>io_rsp_cmd := cs_cmd s, io_rsp_sparam := cs_sparam s, io_rsp_lparam := cs_lparam s, io_status := 0x2\<rparr>"

subsection \<open>Elements of a platform\<close>

text \<open>The table has every element under its own name, so a handle is the name that was asked for.\<close>

definition handles_ok :: "'d host_platform \<Rightarrow> bool" where
  "handles_ok p \<longleftrightarrow> (\<forall>n e. pf_elements p n = Some e \<longrightarrow> he_name e = n)"

lemma handles_start [simp]: "handles_ok Platform" "handles_ok (platform_close p)"
  by (simp_all add: handles_ok_def Platform_def platform_close_def)

lemma element_handle: "handles_ok p \<Longrightarrow> fst (platform_element n p) = n \<and> handles_ok (snd (platform_element n p))"
  by (auto simp: platform_element_def handles_ok_def Element_def split: option.split)

lemma element_again: "platform_element n (snd (platform_element n p)) = platform_element n p"
  by (simp add: platform_element_def Element_def split: option.split)

lemma callback_handles: "handles_ok p \<Longrightarrow> handles_ok (setCallback n cb p)"
  by (auto simp: handles_ok_def setCallback_def)

text \<open>A callback changes nothing that any operation returns, and is gone when the platform is closed.\<close>

lemma callback_is_idle:
  "platform_close (setCallback n cb p) = platform_close p"
  "element_signal x r name req (setCallback n cb p) = apsnd (setCallback n cb) (element_signal x r name req p)"
  "element_send msg (setCallback n cb p) = setCallback n cb (element_send msg p)"
  "element_receive msg blk (setCallback n cb p) = apsnd (apsnd (setCallback n cb)) (element_receive msg blk p)"
  by (cases p; simp add: platform_close_def setCallback_def element_signal_def dispatchSignal_def element_send_def
      sendSlot_def element_receive_def recvSlot_def Let_def split: option.splits prod.splits)+

subsection \<open>Sending and receiving\<close>

lemma open_without_xrt:
  "platform_open None r path bdf t p =
     (True, p\<lparr>pf_xclbin_path := path, pf_bdf := bdf, pf_transport := t,
              pf_bridge := Some (bridge_for t), pf_is_open := True\<rparr>)"
  by (simp add: platform_open_def Let_def)

text \<open>What a transport keeps of a flit, and what a slot holds.\<close>

definition stamped :: "transport_kind \<Rightarrow> u16 \<Rightarrow> flit \<Rightarrow> flit" where
  "stamped t slot f = (if t = XDMA then set_slot_id slot f else f)"

definition pf_items :: "u16 \<Rightarrow> 'd host_platform \<Rightarrow> flit list" where
  "pf_items slot p = (case pf_bridge p of None \<Rightarrow> [] | Some b \<Rightarrow> bridge_items slot b)"

definition bridge_ok :: "'d host_platform \<Rightarrow> bool" where
  "bridge_ok p \<longleftrightarrow> (case pf_bridge p of
     Some (XdmaBridge b) \<Rightarrow> pf_transport p = XDMA \<and> length (sl_queues b) = 64
   | Some (QdmaBridge b) \<Rightarrow> pf_transport p = QDMA \<and> length (sl_queues b) = 64
   | Some StubBridge \<Rightarrow> pf_transport p = Stub
   | None \<Rightarrow> False)"

lemma open_bridge_ok: "platform_open x r path bdf t p = (True, p') \<Longrightarrow> bridge_ok p' \<and> (\<forall>s. pf_items s p' = [])"
  by (cases t)
    (auto simp: platform_open_def Let_def bridge_ok_def pf_items_def bridge_for_def makeXdmaBridge_def
      makeQdmaBridge_def makeStubBridge_def slots_init_def slot_items_def split: prod.splits if_splits)

lemma bridge_ok_cases:
  assumes "bridge_ok p"
  obtains (xdma) b where "pf_bridge p = Some (XdmaBridge b)" "pf_transport p = XDMA" "length (sl_queues b) = 64"
    | (qdma) b where "pf_bridge p = Some (QdmaBridge b)" "pf_transport p = QDMA" "length (sl_queues b) = 64"
    | (stub) "pf_bridge p = Some StubBridge" "pf_transport p = Stub"
  using assms by (auto simp: bridge_ok_def split: option.splits bridge.splits)

lemma sendSlot_items:
  assumes "bridge_ok p"
  shows "bridge_ok (snd (sendSlot slot f p)) \<and> pf_transport (snd (sendSlot slot f p)) = pf_transport p
    \<and> (fst (sendSlot slot f p) \<longleftrightarrow> pf_transport p \<noteq> Stub \<and> unat slot < 64)
    \<and> pf_items s (snd (sendSlot slot f p)) =
      (if pf_transport p \<noteq> Stub \<and> unat slot < 64 \<and> s = slot
       then pf_items s p @ [stamped (pf_transport p) slot f] else pf_items s p)"
  using assms
proof (cases rule: bridge_ok_cases)
  case (xdma b)
  then show ?thesis
    by (auto simp: bridge_ok_def sendSlot_def pf_items_def stamped_def xdma_send_def slot_items_def word_unat_eq_iff)
next
  case (qdma b)
  then show ?thesis
    by (auto simp: bridge_ok_def sendSlot_def pf_items_def stamped_def qdma_send_def slot_items_def word_unat_eq_iff)
next
  case stub
  then show ?thesis by (auto simp: bridge_ok_def sendSlot_def pf_items_def)
qed

lemma recvSlot_items:
  assumes "bridge_ok p"
  shows "bridge_ok (snd (recvSlot slot w p)) \<and> pf_transport (snd (recvSlot slot w p)) = pf_transport p
    \<and> fst (recvSlot slot w p) = (case pf_items slot p of [] \<Rightarrow> None | f # fs \<Rightarrow> Some f)
    \<and> pf_items s (snd (recvSlot slot w p)) = (if s = slot then tl (pf_items s p) else pf_items s p)"
  using assms
proof (cases rule: bridge_ok_cases)
  case (xdma b)
  then show ?thesis
    by (auto simp: bridge_ok_def recvSlot_def pf_items_def slot_recv_def slot_items_def word_unat_eq_iff split: list.splits)
next
  case (qdma b)
  then show ?thesis
    by (auto simp: bridge_ok_def recvSlot_def pf_items_def slot_recv_def slot_items_def word_unat_eq_iff split: list.splits)
next
  case stub
  then show ?thesis by (auto simp: bridge_ok_def recvSlot_def pf_items_def)
qed

subsection \<open>Finding the signal of an element\<close>

lemma find_gid_entry:
  assumes "distinct (map sn_kernel ss)" "s \<in> set ss"
  shows "find_gid (sn_kernel s) ss = sn_gid s"
  using assms
proof (induction ss)
  case (Cons a ss)
  have "sn_kernel s \<noteq> sn_kernel a" if "s \<in> set ss"
    using imageI [OF that, of sn_kernel] Cons.prems(1)
    by (metis distinct.simps(2) list.map(2) list.set_map)
  with Cons show ?case by auto
qed simp

lemma find_gid_missing: "n \<notin> sn_kernel ` set ss \<Longrightarrow> find_gid n ss = -1"
  by (induction ss) auto

lemma registered_gid:
  "findSignalGid n (registerGenerated k ss h r) = find_gid n ss"
  by (simp add: findSignalGid_def registerGenerated_def recordSignals_def)

subsection \<open>The register protocol\<close>

text \<open>The call gives up waiting after 10000 reads and answers all the same.\<close>

lemma dispatch_answers:
  "fst (dispatchSignal x gid req p) = None \<longleftrightarrow> x \<noteq> None \<and> pf_axilite_blocks p gid = None"
  by (auto simp: dispatchSignal_def split_beta split: option.splits)

text \<open>A register block that only remembers what is written to it.\<close>

definition mem_xrt :: "(nat \<Rightarrow> u32) xrt" where
  "mem_xrt = \<lparr>xr_device = (\<lambda>_ _. True), xr_kernel = (\<lambda>_. True), xr_ip = (\<lambda>_. Some (\<lambda>_. 0)),
     xr_write = (\<lambda>d a v. d(a := v)), xr_read = (\<lambda>d a. (d a, d))\<rparr>"

lemma poll_mem: "poll_status (\<lambda>d a. (d a, d)) n d = d"
  by (induction n) (simp_all add: Let_def)

lemma read_lparam_mem: "snd (fold (read_lparam (\<lambda>d a. (d a, d))) is acc) = snd acc"
  by (induction "is" arbitrary: acc) (simp_all add: read_lparam_def)

lemma write_lparam_above:
  "a < 0x10 \<or> 0x10 + n * 8 \<le> a \<Longrightarrow> fold (write_lparam (\<lambda>d a v. d(a := v)) lp) [0..<n] d a = d a"
  by (induction n) (auto simp: write_lparam_def Let_def)

text \<open>Register 0x44 is both the high half of the last request parameter and the response command.\<close>

lemma dispatch_overlap:
  "sp_cmd (fst (dispatch_regs mem_xrt req d)) = ucast (ucast (drop_bit 32 (sp_lparam req ! 6)) :: u32)"
proof -
  let ?wr = "\<lambda>d a v. d(a := v) :: nat \<Rightarrow> u32"
  have upt: "[0..<7] = [0..<6] @ [6 :: nat]" by (simp add: upt_rec)
  have "fold (write_lparam ?wr (sp_lparam req)) [0..<7] d' 0x44 = ucast (drop_bit 32 (sp_lparam req ! 6))" for d'
    unfolding upt fold_append o_apply by (simp add: write_lparam_def Let_def)
  then show ?thesis
    by (simp add: dispatch_regs_def mem_xrt_def Let_def split_beta poll_mem)
qed

text \<open>One request is delivered once, and the answer is what stops the host's poll.\<close>

lemma poll_once:
  assumes "poll_signal io out = (True, s, io')"
  shows "cs_cmd s = io_cmd io \<and> cs_sparam s = io_sparam io \<and> cs_lparam s = io_lparam io
    \<and> fst (poll_signal io' out') = False"
  using assms by (auto simp: poll_signal_def split: if_splits)

lemma respond_ready: "io_status (respond_signal s io) AND 0x2 \<noteq> 0 \<and> fst (poll_signal (respond_signal s io) out) = False"
  by (simp add: respond_signal_def poll_signal_def)

lemma pack_unpack:
  assumes "length (sp_lparam req) = 7" "0 \<le> slot" "slot < 7"
  shows "unpackSignalParam slot (packSignalParam slot v req) = v"
  using assms by (simp add: unpackSignalParam_def packSignalParam_def)

end
