(* ===== verification/Bigint.thy ===== *)
theory Bigint
  imports Prelude
begin

text \<open>
  Multi-precision arithmetic (\<open>runtime/include/openclicknp/bigint.hpp\<close>). \<open>U<N>\<close> is the list of its
  N limbs, least significant first; a template parameter is the length of the lists. The inner
  loops run limb by limb with a carry; \<open>mac_row\<close> is the multiply-accumulate row that the
  schoolbook and the Montgomery product share. The 128-bit intermediates are words, so a product
  that would not fit them would wrap here as it does there.
\<close>

type_synonym big = "u64 list"

subsection \<open>Limbs\<close>

definition lo64 :: "u128 \<Rightarrow> u64" where
  "lo64 s = ucast s"

definition hi64 :: "u128 \<Rightarrow> u64" where
  "hi64 s = ucast (drop_bit 64 s)"

definition big_zero :: "nat \<Rightarrow> big" where
  "big_zero n = replicate n 0"

definition big_one :: "nat \<Rightarrow> big" where
  "big_one n = (big_zero n)[0 := 1]"

fun is_zero :: "big \<Rightarrow> bool" where
  "is_zero [] = True"
| "is_zero (x # xs) = (if x \<noteq> 0 then False else is_zero xs)"

definition is_odd :: "big \<Rightarrow> bool" where
  "is_odd a \<longleftrightarrow> a ! 0 AND 1 \<noteq> 0"

text \<open>Bit \<open>i\<close> of a limb array; an index outside the array is false.\<close>

definition limb_bit :: "big \<Rightarrow> nat \<Rightarrow> u64" where
  "limb_bit a i = drop_bit (i mod 64) (a ! (i div 64)) AND 1"

definition big_bit :: "big \<Rightarrow> nat \<Rightarrow> bool" where
  "big_bit a i \<longleftrightarrow> (if length a * 64 \<le> i then False else limb_bit a i \<noteq> 0)"

text \<open>The two loops of \<open>bitlen\<close>: the first set bit from the top of a limb, of the array.\<close>

fun top_bit :: "u64 \<Rightarrow> nat \<Rightarrow> nat option" where
  "top_bit x 0 = None"
| "top_bit x (Suc b) = (if drop_bit b x AND 1 \<noteq> 0 then Some b else top_bit x b)"

fun bitlen_from :: "big \<Rightarrow> nat \<Rightarrow> nat" where
  "bitlen_from a 0 = 0"
| "bitlen_from a (Suc i) =
     (if a ! i = 0 then bitlen_from a i
      else case top_bit (a ! i) 64 of Some b \<Rightarrow> i * 64 + b + 1 | None \<Rightarrow> bitlen_from a i)"

definition bitlen :: "big \<Rightarrow> nat" where
  "bitlen a = bitlen_from a (length a)"

subsection \<open>Comparison, addition, subtraction, multiplication\<close>

fun cmp_from :: "big \<Rightarrow> big \<Rightarrow> nat \<Rightarrow> int" where
  "cmp_from a b 0 = 0"
| "cmp_from a b (Suc i) = (if a ! i \<noteq> b ! i then (if a ! i < b ! i then -1 else 1) else cmp_from a b i)"

definition big_cmp :: "big \<Rightarrow> big \<Rightarrow> int" where
  "big_cmp a b = cmp_from a b (length a)"

fun add_loop :: "u64 \<Rightarrow> big \<Rightarrow> big \<Rightarrow> big \<times> u64" where
  "add_loop c (x # xs) (y # ys) =
     (let s = (ucast x :: u128) + ucast y + ucast c; (r, c') = add_loop (hi64 s) xs ys in (lo64 s # r, c'))"
| "add_loop c _ _ = ([], c)"

definition big_add :: "big \<Rightarrow> big \<Rightarrow> big \<times> u64" where
  "big_add a b = add_loop 0 a b"

fun sub_loop :: "u64 \<Rightarrow> big \<Rightarrow> big \<Rightarrow> big \<times> u64" where
  "sub_loop w (x # xs) (y # ys) =
     (let d = (ucast x :: u128) - ucast y - ucast w;
          (r, w') = sub_loop (if drop_bit 64 d \<noteq> 0 then 1 else 0) xs ys
      in (lo64 d # r, w'))"
| "sub_loop w _ _ = ([], w)"

definition big_sub :: "big \<Rightarrow> big \<Rightarrow> big \<times> u64" where
  "big_sub a b = sub_loop 0 a b"

text \<open>One row: \<open>t += x * ys\<close> from a carry, limb by limb.\<close>

fun mac_row :: "u64 \<Rightarrow> u64 \<Rightarrow> big \<Rightarrow> big \<Rightarrow> big \<times> u64" where
  "mac_row c x (y # ys) (t # ts) =
     (let s = (ucast x :: u128) * ucast y + ucast t + ucast c; (r, c') = mac_row (hi64 s) x ys ts
      in (lo64 s # r, c'))"
| "mac_row c x _ _ = ([], c)"

text \<open>Row \<open>i\<close> of the schoolbook product works on the limbs from \<open>i\<close> on and stores its carry.\<close>

definition mul_row :: "big \<Rightarrow> u64 \<Rightarrow> nat \<Rightarrow> big \<Rightarrow> big" where
  "mul_row b x i out =
     (let n = length b; (r, c) = mac_row 0 x b (take n (drop i out))
      in take i out @ r @ [c] @ drop (i + n + 1) out)"

fun mul_loop :: "big \<Rightarrow> big \<Rightarrow> nat \<Rightarrow> big \<Rightarrow> big" where
  "mul_loop b [] i out = out"
| "mul_loop b (x # xs) i out = mul_loop b xs (Suc i) (mul_row b x i out)"

definition big_mul :: "big \<Rightarrow> big \<Rightarrow> big" where
  "big_mul a b = mul_loop b a 0 (big_zero (2 * length a))"

subsection \<open>Montgomery multiplication\<close>

text \<open>A row on the accumulator of N + 2 limbs: the N lower limbs, then the two top ones.\<close>

definition acc_row :: "u64 \<Rightarrow> big \<Rightarrow> big \<Rightarrow> big" where
  "acc_row x ys t =
     (let n = length ys; (r, c) = mac_row 0 x ys (take n t); s = (ucast (t ! n) :: u128) + ucast c
      in r @ [lo64 s, t ! (n + 1) + hi64 s])"

definition mont_step :: "big \<Rightarrow> big \<Rightarrow> u64 \<Rightarrow> u64 \<Rightarrow> big \<Rightarrow> big" where
  "mont_step b n n_inv x t =
     (let t1 = acc_row x b t; m = t1 ! 0 * n_inv; t2 = acc_row m n t1 in tl t2 @ [0])"

definition cond_sub :: "bool \<Rightarrow> big \<Rightarrow> big \<Rightarrow> big" where
  "cond_sub high x n = (if high \<or> 0 \<le> big_cmp x n then fst (big_sub x n) else x)"

definition mont_mul :: "big \<Rightarrow> big \<Rightarrow> big \<Rightarrow> u64 \<Rightarrow> big" where
  "mont_mul a b n n_inv =
     (let t = fold (mont_step b n n_inv) a (replicate (length n + 2) 0)
      in cond_sub (t ! length n \<noteq> 0) (take (length n) t) n)"

definition newton_step :: "u64 \<Rightarrow> u64 \<Rightarrow> u64" where
  "newton_step n0 x = x * (2 - n0 * x)"

definition compute_n_inv :: "big \<Rightarrow> u64" where
  "compute_n_inv n = 0 - (newton_step (n ! 0) ^^ 6) 1"

subsection \<open>Powers of two modulo n\<close>

fun shl1_loop :: "u64 \<Rightarrow> big \<Rightarrow> big \<times> u64" where
  "shl1_loop c [] = ([], c)"
| "shl1_loop c (x # xs) =
     (let (r, c') = shl1_loop (drop_bit 63 x) xs in ((push_bit 1 x OR c) # r, c'))"

definition double_mod :: "big \<Rightarrow> big \<Rightarrow> big" where
  "double_mod n x =
     (let (r, c) = shl1_loop 0 x in cond_sub False (cond_sub (c \<noteq> 0) r n) n)"

definition compute_R_mod_n :: "big \<Rightarrow> big" where
  "compute_R_mod_n n = (double_mod n ^^ (length n * 64)) (big_one (length n))"

definition compute_R2_mod_n :: "big \<Rightarrow> big" where
  "compute_R2_mod_n n = (double_mod n ^^ (2 * length n * 64)) (big_one (length n))"

subsection \<open>Constant-time selection\<close>

definition ct_mask :: "u64 \<Rightarrow> u64" where
  "ct_mask cond = NOT (cond - 1)"

definition const_time_select :: "big \<Rightarrow> big \<Rightarrow> u64 \<Rightarrow> big" where
  "const_time_select dst src cond =
     map2 (\<lambda>d s. (d AND NOT (ct_mask cond)) OR (s AND ct_mask cond)) dst src"

definition const_time_swap :: "big \<Rightarrow> big \<Rightarrow> u64 \<Rightarrow> big \<times> big" where
  "const_time_swap a b cond =
     (map2 (\<lambda>x y. x XOR ((x XOR y) AND ct_mask cond)) a b,
      map2 (\<lambda>x y. y XOR ((x XOR y) AND ct_mask cond)) a b)"

subsection \<open>Modular exponentiation\<close>

text \<open>The ladder, from bit \<open>i - 1\<close> down to bit 0.\<close>

definition ladder_step :: "big \<Rightarrow> u64 \<Rightarrow> u64 \<Rightarrow> big \<times> big \<Rightarrow> big \<times> big" where
  "ladder_step n n_inv sel r =
     (let (r0, r1) = const_time_swap (fst r) (snd r) sel;
          prod = mont_mul r0 r1 n n_inv; sq = mont_mul r0 r0 n n_inv
      in const_time_swap sq prod sel)"

fun ladder :: "big \<Rightarrow> u64 \<Rightarrow> big \<Rightarrow> nat \<Rightarrow> big \<times> big \<Rightarrow> big \<times> big" where
  "ladder n n_inv e 0 r = r"
| "ladder n n_inv e (Suc i) r = ladder n n_inv e i (ladder_step n n_inv (limb_bit e i) r)"

definition modexp_consttime :: "big \<Rightarrow> big \<Rightarrow> big \<Rightarrow> big" where
  "modexp_consttime m e n =
     (let n_inv = compute_n_inv n; R2 = compute_R2_mod_n n; m_mont = mont_mul m R2 n n_inv;
          R0 = compute_R_mod_n n; r = ladder n n_inv e (length n * 64) (R0, m_mont)
      in mont_mul (fst r) (big_one (length n)) n n_inv)"

fun square_multiply :: "big \<Rightarrow> u64 \<Rightarrow> big \<Rightarrow> big \<Rightarrow> nat \<Rightarrow> big \<Rightarrow> big" where
  "square_multiply n n_inv m_mont e 0 r = r"
| "square_multiply n n_inv m_mont e (Suc i) r =
     (let sq = mont_mul r r n n_inv
      in square_multiply n n_inv m_mont e i (if big_bit e i then mont_mul sq m_mont n n_inv else sq))"

definition modexp :: "big \<Rightarrow> big \<Rightarrow> big \<Rightarrow> big" where
  "modexp m e n =
     (let n_inv = compute_n_inv n; R2 = compute_R2_mod_n n; m_mont = mont_mul m R2 n n_inv;
          r = square_multiply n n_inv m_mont e (bitlen e) (compute_R_mod_n n)
      in mont_mul r (big_one (length n)) n n_inv)"

subsection \<open>RSA with the Chinese remainder theorem\<close>

text \<open>
  The lambda \<open>reduce_to_M\<close>: the remainder is an accumulator of M limbs and a bit above them. The
  shift of the accumulator runs from the top limb down, which is the same as \<open>shl1_loop\<close> from a
  zero carry.
\<close>

definition reduce_step :: "big \<Rightarrow> u64 \<Rightarrow> big \<times> u64 \<Rightarrow> big \<times> u64" where
  "reduce_step md b r =
     (let (lo, c) = shl1_loop 0 (fst r); new_high = push_bit 1 (snd r) OR c;
          lo1 = lo[0 := lo ! 0 OR b]
      in if new_high \<noteq> 0 \<or> 0 \<le> big_cmp lo1 md then (fst (big_sub lo1 md), 0) else (lo1, new_high))"

fun reduce_loop :: "big \<Rightarrow> big \<Rightarrow> nat \<Rightarrow> big \<times> u64 \<Rightarrow> big \<times> u64" where
  "reduce_loop src md 0 r = r"
| "reduce_loop src md (Suc i) r = reduce_loop src md i (reduce_step md (limb_bit src i) r)"

definition reduce_to_M :: "big \<Rightarrow> big \<Rightarrow> big" where
  "reduce_to_M src md = fst (reduce_loop src md (length src * 64) (big_zero (length md), 0))"

text \<open>The truncated product; \<open>i + M < N\<close> always holds as M * 2 = N, so the carry is added.\<close>

definition crt_row :: "big \<Rightarrow> u64 \<Rightarrow> nat \<Rightarrow> big \<Rightarrow> big" where
  "crt_row q x i hq =
     (let k = length q; (r, c) = mac_row 0 x q (take k (drop i hq));
          hq1 = take i hq @ r @ drop (i + k) hq
      in if i + k < length hq then hq1[i + k := hq1 ! (i + k) + c] else hq1)"

fun crt_mul :: "big \<Rightarrow> big \<Rightarrow> nat \<Rightarrow> big \<Rightarrow> big" where
  "crt_mul q [] i hq = hq"
| "crt_mul q (x # xs) i hq = crt_mul q xs (Suc i) (crt_row q x i hq)"

definition crt_diff :: "big \<Rightarrow> big \<Rightarrow> big \<Rightarrow> big" where
  "crt_diff p m1 m2 =
     (if 0 \<le> big_cmp m1 m2 then fst (big_sub m1 m2)
      else fst (big_sub p (fst (big_sub m2 m1))))"

definition crt_h :: "big \<Rightarrow> big \<Rightarrow> big \<Rightarrow> big" where
  "crt_h p qInv diff =
     (let p_inv = compute_n_inv p; R2_p = compute_R2_mod_n p;
          diff_mont = mont_mul diff R2_p p p_inv; qInv_mont = mont_mul qInv R2_p p p_inv;
          h_mont = mont_mul diff_mont qInv_mont p p_inv
      in mont_mul h_mont (big_one (length p)) p p_inv)"

definition rsa_crt_decrypt :: "big \<Rightarrow> big \<Rightarrow> big \<Rightarrow> big \<Rightarrow> big \<Rightarrow> big \<Rightarrow> big" where
  "rsa_crt_decrypt c p q dp dq qInv =
     (let m1 = modexp_consttime (reduce_to_M c p) dp p;
          m2 = modexp_consttime (reduce_to_M c q) dq q;
          h = crt_h p qInv (crt_diff p m1 m2);
          hq = crt_mul q h 0 (big_zero (length c))
      in fst (big_add (m2 @ big_zero (length c - length m2)) hq))"

end
