(* ===== verification/BigintFacts.thy ===== *)
theory BigintFacts
  imports Bigint
begin

text \<open>
  The limb routines of \<open>Bigint\<close> against the natural number a limb array stands for: each routine
  is its arithmetic counterpart, and Montgomery multiplication is multiplication of residues
  scaled by R.
\<close>

definition limb_base :: nat where
  "limb_base = 2 ^ 64"

fun big_val :: "big \<Rightarrow> nat" where
  "big_val [] = 0"
| "big_val (x # xs) = unat x + limb_base * big_val xs"

abbreviation radix :: "big \<Rightarrow> nat" where
  "radix n \<equiv> limb_base ^ length n"

subsection \<open>Single limbs\<close>

lemma limb_base_pos [simp]: "0 < limb_base" "limb_base \<noteq> 0"
  by (simp_all add: limb_base_def)

lemma limb_base_power: "limb_base ^ k = 2 ^ (k * 64)"
  unfolding limb_base_def by (metis mult.commute power_mult)

lemma unat_u64_less: "unat (x :: u64) < 2 ^ 64"
  using unsigned_less [where 'a = nat, of x] by simp

lemma and_1_bit: "w AND 1 \<noteq> 0 \<longleftrightarrow> odd (unat (w :: u64))"
proof -
  have "even w \<longleftrightarrow> even (unat w)"
    using bit_unsigned_iff [where 'a = nat, of w 0] by (simp add: bit_0)
  then show ?thesis by (simp add: and_one_eq mod_2_eq_odd)
qed

lemma limb_less [simp]: "unat (x :: u64) < limb_base"
  unfolding limb_base_def by (rule unat_u64_less)

lemma limb_le: "unat (x :: u64) \<le> limb_base - 1"
  using limb_less [of x] by linarith

lemma split_limbs: "unat (lo64 s) + limb_base * unat (hi64 s) = unat s"
proof -
  have s: "take_bit 128 (unat s) = unat s"
    using unsigned_less [where 'a = nat, of s] by (simp add: take_bit_nat_eq_self)
  have "unat s < 2 ^ 64 * 2 ^ 64"
    using unsigned_less [of s, where 'a = nat] by simp
  then have "unat s div 2 ^ 64 < 2 ^ 64" by (rule less_mult_imp_div_less)
  then have "take_bit 64 (unat s div 2 ^ 64) = unat s div 2 ^ 64" by (rule take_bit_nat_eq_self)
  moreover have "unat (hi64 s) = take_bit 64 (unat s div 2 ^ 64)"
    unfolding hi64_def unsigned_ucast_eq unsigned_drop_bit_eq by (simp add: drop_bit_eq_div s)
  ultimately have hi: "unat (hi64 s) = unat s div 2 ^ 64" by (rule trans [rotated])
  have "unat (lo64 s) = unat s mod 2 ^ 64"
    by (simp add: lo64_def unsigned_ucast_eq take_bit_eq_mod)
  then show ?thesis
    unfolding hi limb_base_def by (metis add.commute mult_div_mod_eq)
qed

lemma wide_mac:
  "unat ((ucast x :: u128) * ucast y + ucast t + ucast c) = unat (x :: u64) * unat (y :: u64) + unat (t :: u64) + unat (c :: u64)"
proof -
  have "unat x \<le> 2 ^ 64 - 1" "unat y \<le> 2 ^ 64 - 1" "unat t \<le> 2 ^ 64 - 1" "unat c \<le> 2 ^ 64 - 1"
    using unat_u64_less [of x] unat_u64_less [of y] unat_u64_less [of t] unat_u64_less [of c]
    by simp_all
  moreover from this have "unat x * unat y \<le> (2 ^ 64 - 1) * (2 ^ 64 - 1)" by (intro mult_le_mono)
  ultimately have "unat x * unat y + unat t + unat c < 2 ^ 128" by simp
  moreover have "(ucast x :: u128) * ucast y + ucast t + ucast c
      = of_nat (unat x * unat y + unat t + unat c)" by simp
  ultimately show ?thesis
    by (simp only: unsigned_of_nat) (simp add: take_bit_nat_eq_self)
qed

lemma wide_add: "unat ((ucast x :: u128) + ucast y + ucast c) = unat (x :: u64) + unat (y :: u64) + unat (c :: u64)"
  using wide_mac [of x 1 y c] by simp

lemma wide_add2: "unat ((ucast x :: u128) + ucast y) = unat (x :: u64) + unat (y :: u64)"
  using wide_add [of x y 0] by simp

subsection \<open>Values of limb arrays\<close>

lemma big_val_less: "big_val xs < radix xs"
proof (induction xs)
  case (Cons x xs)
  have "unat x + limb_base * big_val xs < limb_base + limb_base * big_val xs" by simp
  also have "\<dots> = limb_base * Suc (big_val xs)" by simp
  also have "\<dots> \<le> limb_base * radix xs" using Cons by (intro mult_le_mono) auto
  finally show ?case by simp
qed simp

lemma big_val_less_radix: "length a = length n \<Longrightarrow> big_val a < radix n"
  using big_val_less [of a] by simp

lemma big_val_append: "big_val (xs @ ys) = big_val xs + radix xs * big_val ys"
  by (induction xs) (simp_all add: algebra_simps)

lemma big_val_zeros [simp]: "big_val (replicate k 0) = 0"
  by (induction k) simp_all

lemma big_val_zero [simp]: "big_val (big_zero k) = 0"
  by (simp add: big_zero_def)

lemma big_val_one: "0 < k \<Longrightarrow> big_val (big_one k) = 1"
  by (cases k) (simp_all add: big_one_def big_zero_def)

lemma length_zero_one [simp]: "length (big_zero k) = k" "length (big_one k) = k"
  by (simp_all add: big_one_def big_zero_def)

lemma big_val_take_Suc: "i < length a \<Longrightarrow> big_val (take (Suc i) a) = big_val (take i a) + limb_base ^ i * unat (a ! i)"
  by (simp add: take_Suc_conv_app_nth big_val_append)

lemma big_val_inject: "length a = length b \<Longrightarrow> big_val a = big_val b \<longleftrightarrow> a = b"
proof (induction a b rule: list_induct2)
  case (Cons x xs y ys)
  have "unat x = unat y \<and> big_val xs = big_val ys"
    if "unat x + limb_base * big_val xs = unat y + limb_base * big_val ys"
  proof -
    have "unat x = (unat x + limb_base * big_val xs) mod limb_base" by simp
    also have "\<dots> = unat y" unfolding that by simp
    finally show ?thesis using that by simp
  qed
  with Cons.IH show ?case by (auto simp: word_unat_eq_iff)
qed simp

lemma is_zero_val: "is_zero a \<longleftrightarrow> big_val a = 0"
  by (induction a) (simp_all add: unsigned_eq_0_iff)

lemma big_val_mod_base: "a \<noteq> [] \<Longrightarrow> big_val a mod limb_base = unat (a ! 0)"
  by (cases a) simp_all

lemma even_base: "even limb_base"
  by (simp add: limb_base_def)

lemma is_odd_val: "a \<noteq> [] \<Longrightarrow> is_odd a \<longleftrightarrow> odd (big_val a)"
proof (cases a)
  case (Cons x xs)
  show ?thesis by (simp add: Cons is_odd_def even_base and_1_bit)
qed simp

subsection \<open>Comparison, addition, subtraction, rows\<close>

lemma cmp_from_val:
  assumes "i \<le> length a" "i \<le> length b"
  shows "cmp_from a b i =
    (if big_val (take i a) < big_val (take i b) then -1 else if big_val (take i a) = big_val (take i b) then 0 else 1)"
  using assms
proof (induction i)
  case (Suc i)
  let ?l = "big_val (take i a)" and ?r = "big_val (take i b)" and ?p = "limb_base ^ i"
  have bounds: "?l < ?p" "?r < ?p"
    using big_val_less [of "take i a"] big_val_less [of "take i b"] Suc.prems by simp_all
  have high: "x + ?p * p < y + ?p * q" if "p < q" "x < ?p" for x y p q :: nat
  proof -
    have "x + ?p * p < ?p * Suc p" using that(2) by simp
    also have "\<dots> \<le> ?p * q" using that(1) by (intro mult_le_mono) auto
    finally show ?thesis by simp
  qed
  from Suc have IH: "cmp_from a b i = (if ?l < ?r then -1 else if ?l = ?r then 0 else 1)"
    and ia: "i < length a" and ib: "i < length b" by simp_all
  note vals = big_val_take_Suc [OF ia] big_val_take_Suc [OF ib]
  consider "a ! i = b ! i" | "a ! i < b ! i" | "b ! i < a ! i" by (rule linorder_cases)
  then show ?case
  proof cases
    case 1
    then show ?thesis by (simp add: vals IH)
  next
    case 2
    then have "unat (a ! i) < unat (b ! i)" by (simp add: word_less_nat_alt)
    from high [OF this bounds(1), of ?r] 2 less_imp_neq [OF 2] show ?thesis unfolding vals by simp
  next
    case 3
    then have "unat (b ! i) < unat (a ! i)" by (simp add: word_less_nat_alt)
    from high [OF this bounds(2), of ?l] 3 less_imp_neq [OF 3] show ?thesis
      unfolding vals by (simp add: not_less_iff_gr_or_eq)
  qed
qed simp

lemma big_cmp_val:
  "length a = length b \<Longrightarrow>
     big_cmp a b = (if big_val a < big_val b then -1 else if big_val a = big_val b then 0 else 1)"
  by (simp add: big_cmp_def cmp_from_val)

lemma big_cmp_ge: "length a = length b \<Longrightarrow> 0 \<le> big_cmp a b \<longleftrightarrow> big_val b \<le> big_val a"
  by (simp add: big_cmp_val)

lemma add_loop_val:
  assumes "length xs = length ys"
  shows "length (fst (add_loop c xs ys)) = length ys
    \<and> big_val (fst (add_loop c xs ys)) + radix ys * unat (snd (add_loop c xs ys))
        = big_val xs + big_val ys + unat c"
  using assms
proof (induction xs ys arbitrary: c rule: list_induct2)
  case (Cons x xs y ys)
  let ?s = "(ucast x :: u128) + ucast y + ucast c"
  let ?r = "add_loop (hi64 ?s) xs ys"
  have "unat (lo64 ?s) + limb_base * unat (hi64 ?s) = unat x + unat y + unat c"
    unfolding split_limbs by (rule wide_add)
  moreover from Cons.IH [of "hi64 ?s"]
  have "limb_base * (big_val (fst ?r) + radix ys * unat (snd ?r))
      = limb_base * (big_val xs + big_val ys + unat (hi64 ?s))" by simp
  ultimately have "unat (lo64 ?s) + limb_base * big_val (fst ?r) + limb_base * radix ys * unat (snd ?r)
      = unat x + limb_base * big_val xs + (unat y + limb_base * big_val ys) + unat c"
    by (simp add: algebra_simps)
  with Cons.IH [of "hi64 ?s"] show ?case by (simp add: Let_def split_beta)
qed simp

lemma big_add_val:
  assumes "length a = length b"
  shows "length (fst (big_add a b)) = length b"
    and "big_val (fst (big_add a b)) + radix b * unat (snd (big_add a b)) = big_val a + big_val b"
  using add_loop_val [OF assms, of 0] by (simp_all add: big_add_def)

lemma mac_row_val:
  assumes "length ys = length ts"
  shows "length (fst (mac_row c x ys ts)) = length ts
    \<and> big_val (fst (mac_row c x ys ts)) + radix ts * unat (snd (mac_row c x ys ts))
        = big_val ts + unat x * big_val ys + unat c"
  using assms
proof (induction ys ts arbitrary: c rule: list_induct2)
  case (Cons y ys t ts)
  let ?s = "(ucast x :: u128) * ucast y + ucast t + ucast c"
  let ?r = "mac_row (hi64 ?s) x ys ts"
  have "unat (lo64 ?s) + limb_base * unat (hi64 ?s) = unat x * unat y + unat t + unat c"
    unfolding split_limbs by (rule wide_mac)
  moreover from Cons.IH [of "hi64 ?s"]
  have "limb_base * (big_val (fst ?r) + radix ts * unat (snd ?r))
      = limb_base * (big_val ts + unat x * big_val ys + unat (hi64 ?s))" by simp
  ultimately have "unat (lo64 ?s) + limb_base * big_val (fst ?r) + limb_base * radix ts * unat (snd ?r)
      = unat t + limb_base * big_val ts + unat x * (unat y + limb_base * big_val ys) + unat c"
    by (simp add: algebra_simps)
  with Cons.IH [of "hi64 ?s"] show ?case by (simp add: Let_def split_beta)
qed simp

text \<open>The borrow: the 128-bit difference wraps below zero exactly when the limb is too small.\<close>

lemma borrow_limb:
  fixes x y w :: u64
  assumes "unat w \<le> 1"
  defines "d \<equiv> (ucast x :: u128) - ucast y - ucast w"
  defines "v \<equiv> (if drop_bit 64 d \<noteq> 0 then 1 else 0 :: u64)"
  shows "unat (lo64 d) + unat y + unat w = unat x + limb_base * unat v"
proof -
  have bounds: "unat x < 2 ^ 64" "unat y < 2 ^ 64" by (rule unat_u64_less)+
  have hi: "drop_bit 64 d = 0 \<longleftrightarrow> unat d < 2 ^ 64"
  proof -
    have "drop_bit 64 d = 0 \<longleftrightarrow> unat (drop_bit 64 d) = 0" by (rule unat_eq_0 [symmetric])
    also have "\<dots> \<longleftrightarrow> unat d < 2 ^ 64"
      using unsigned_less [where 'a = nat, of d] unfolding unsigned_drop_bit_eq
      by (simp add: drop_bit_eq_div take_bit_nat_eq_self div_eq_0_iff)
    finally show ?thesis .
  qed
  have lo: "unat (lo64 d) = unat d mod 2 ^ 64"
    by (simp add: lo64_def unsigned_ucast_eq take_bit_eq_mod)
  show ?thesis
  proof (cases "unat y + unat w \<le> unat x")
    case True
    then have "d = of_nat (unat x - (unat y + unat w))"
      by (simp add: d_def of_nat_diff)
    moreover have "unat x - (unat y + unat w) < 2 ^ 64" using bounds by simp
    ultimately have d: "unat d = unat x - (unat y + unat w)"
      by (simp add: unsigned_of_nat take_bit_nat_eq_self)
    with \<open>unat x - (unat y + unat w) < 2 ^ 64\<close> True hi lo show ?thesis by (simp add: v_def)
  next
    case False
    let ?k = "2 ^ 128 + unat x - (unat y + unat w)"
    have "(of_nat (2 ^ 128 + unat x) :: u128) = of_nat (unat x)" by simp
    moreover have "unat y + unat w \<le> 2 ^ 128 + unat x" using bounds assms(1) by simp
    ultimately have "(of_nat ?k :: u128) = of_nat (unat x) - of_nat (unat y + unat w)"
      by (subst of_nat_diff) simp_all
    then have "d = of_nat ?k" by (simp add: d_def)
    moreover have "?k < 2 ^ 128" using False bounds by simp
    ultimately have d: "unat d = ?k"
      by (simp only: unsigned_of_nat) (simp add: take_bit_nat_eq_self)
    have high: "\<not> unat d < 2 ^ 64" unfolding d using bounds assms(1) by simp
    have "?k = (2 ^ 64 + unat x - (unat y + unat w)) + (2 ^ 64 - 1) * 2 ^ 64"
      using bounds assms(1) by simp
    moreover have "2 ^ 64 + unat x - (unat y + unat w) < 2 ^ 64" using False by simp
    ultimately have "unat (lo64 d) = 2 ^ 64 + unat x - (unat y + unat w)"
      unfolding lo d by (metis mod_less mod_mult_self1)
    with high hi bounds assms(1) show ?thesis by (simp add: v_def limb_base_def)
  qed
qed

lemma sub_loop_val:
  assumes "length xs = length ys" and "unat w \<le> 1"
  shows "length (fst (sub_loop w xs ys)) = length ys \<and> unat (snd (sub_loop w xs ys)) \<le> 1
    \<and> big_val (fst (sub_loop w xs ys)) + big_val ys + unat w
        = big_val xs + radix ys * unat (snd (sub_loop w xs ys))"
  using assms
proof (induction xs ys arbitrary: w rule: list_induct2)
  case (Cons x xs y ys)
  let ?d = "(ucast x :: u128) - ucast y - ucast w"
  let ?v = "if drop_bit 64 ?d \<noteq> 0 then 1 else 0 :: u64"
  let ?r = "sub_loop ?v xs ys"
  have v: "unat ?v \<le> 1" by simp
  note IH = Cons.IH [OF v]
  from IH have "limb_base * (big_val (fst ?r) + big_val ys + unat ?v)
      = limb_base * (big_val xs + radix ys * unat (snd ?r))" by simp
  with borrow_limb [OF Cons.prems, of x y]
  have "unat (lo64 ?d) + limb_base * big_val (fst ?r) + (unat y + limb_base * big_val ys) + unat w
      = unat x + limb_base * big_val xs + limb_base * radix ys * unat (snd ?r)"
    by (simp only: distrib_left mult.assoc)
  with IH show ?case by (simp add: Let_def split_beta)
qed simp

lemma big_sub_val:
  assumes "length a = length b"
  shows "length (fst (big_sub a b)) = length b" and "unat (snd (big_sub a b)) \<le> 1"
    and "big_val (fst (big_sub a b)) + big_val b = big_val a + radix b * unat (snd (big_sub a b))"
  using sub_loop_val [OF assms, of 0] by (simp_all add: big_sub_def)

subsection \<open>The schoolbook product\<close>

lemma mul_row_val:
  assumes "length out = 2 * length b" and "i < length b"
    and "\<forall>j. i + length b \<le> j \<longrightarrow> j < length out \<longrightarrow> out ! j = 0"
  shows "length (mul_row b x i out) = length out
    \<and> big_val (mul_row b x i out) = big_val out + limb_base ^ i * (unat x * big_val b)
    \<and> (\<forall>j. i + length b < j \<longrightarrow> j < length out \<longrightarrow> mul_row b x i out ! j = 0)"
proof -
  let ?n = "length b"
  let ?ts = "take ?n (drop i out)"
  let ?r = "mac_row 0 x b ?ts"
  let ?rest = "drop (i + ?n + 1) out"
  have lt: "length b = length ?ts" using assms(1,2) by simp
  from mac_row_val [OF lt, of 0 x] lt
  have len: "length (fst ?r) = ?n"
    and val: "big_val (fst ?r) + radix b * unat (snd ?r) = big_val ?ts + unat x * big_val b"
    by simp_all
  have row: "mul_row b x i out = take i out @ fst ?r @ [snd ?r] @ ?rest"
    by (simp add: mul_row_def split_beta Let_def)
  have out: "out = take i out @ ?ts @ [0] @ ?rest"
  proof -
    have "drop (i + ?n) out = 0 # ?rest"
      using assms by (simp add: Cons_nth_drop_Suc [symmetric])
    then have "drop i out = ?ts @ [0] @ ?rest"
      by (metis add.commute append_Cons append_Nil append_take_drop_id drop_drop)
    then show ?thesis by (metis append_take_drop_id)
  qed
  have vout: "big_val out = big_val (take i out) + limb_base ^ i * (big_val ?ts + radix b * (limb_base * big_val ?rest))"
    using assms(1,2) lt by (subst out) (simp add: big_val_append)
  have "big_val (mul_row b x i out)
      = big_val (take i out) + limb_base ^ i * (big_val (fst ?r) + radix b * (unat (snd ?r) + limb_base * big_val ?rest))"
    unfolding row using assms(1,2) len by (simp add: big_val_append)
  also have "\<dots> = big_val (take i out)
      + limb_base ^ i * (big_val ?ts + unat x * big_val b + radix b * (limb_base * big_val ?rest))"
    by (simp only: val [symmetric] distrib_left [of "radix b"] add.assoc)
  also have "\<dots> = big_val out + limb_base ^ i * (unat x * big_val b)"
    unfolding vout by (simp add: algebra_simps)
  finally have "big_val (mul_row b x i out) = big_val out + limb_base ^ i * (unat x * big_val b)" .
  moreover have "mul_row b x i out ! j = 0" if "i + ?n < j" "j < length out" for j
  proof -
    have "\<not> j - i < ?n" using that by linarith
    with that assms len show ?thesis by (simp add: row nth_append)
  qed
  moreover have "length (mul_row b x i out) = length out"
    unfolding row using assms(1,2) len by simp
  ultimately show ?thesis by simp
qed

lemma mul_loop_val:
  assumes "length out = 2 * length b" and "i + length xs \<le> length b"
    and "\<forall>j. i + length b \<le> j \<longrightarrow> j < length out \<longrightarrow> out ! j = 0"
  shows "length (mul_loop b xs i out) = length out
    \<and> big_val (mul_loop b xs i out) = big_val out + limb_base ^ i * (big_val xs * big_val b)"
  using assms
proof (induction xs arbitrary: i out)
  case (Cons x xs)
  then have i: "i < length b" by simp
  from mul_row_val [OF Cons.prems(1) i Cons.prems(3), of x]
  have row: "length (mul_row b x i out) = length out"
    "big_val (mul_row b x i out) = big_val out + limb_base ^ i * (unat x * big_val b)"
    "\<forall>j. Suc i + length b \<le> j \<longrightarrow> j < length out \<longrightarrow> mul_row b x i out ! j = 0"
    by (simp_all add: Suc_le_eq)
  with Cons.IH [of "mul_row b x i out" "Suc i"] Cons.prems show ?case
    by (simp add: algebra_simps)
qed simp

lemma big_mul_val:
  assumes "length a = length b"
  shows "length (big_mul a b) = 2 * length b" "big_val (big_mul a b) = big_val a * big_val b"
  using mul_loop_val [of "big_zero (2 * length b)" b 0 a] assms
  by (simp_all add: big_mul_def big_zero_def)

subsection \<open>Doubling and conditional subtraction\<close>

lemma shl1_limb:
  fixes x c :: u64
  assumes "unat c \<le> 1"
  shows "unat (push_bit 1 x OR c) + limb_base * unat (drop_bit 63 x) = 2 * unat x + unat c"
    and "unat (drop_bit 63 x) \<le> 1"
proof -
  have "c = of_nat (unat c)" by simp
  then have "c = 0 \<or> c = 1" using assms by (cases "unat c") auto
  then have "push_bit 1 x OR c = 2 * x + c"
    by (auto simp: push_bit_eq_mult or_one_eq mult.commute)
  then have "push_bit 1 x OR c = of_nat (2 * unat x + unat c)" by simp
  then have lo: "unat (push_bit 1 x OR c) = (2 * unat x + unat c) mod 2 ^ 64"
    by (simp only: unsigned_of_nat) (simp add: take_bit_eq_mod)
  have hi: "unat (drop_bit 63 x) = unat x div 2 ^ 63"
    using unat_u64_less [of x] unfolding unsigned_drop_bit_eq
    by (simp add: drop_bit_eq_div take_bit_nat_eq_self)
  have "(2 * unat x + unat c) div 2 ^ 64 = (2 * unat x + unat c) div 2 div 2 ^ 63"
    by (simp flip: div_mult2_eq)
  also have "(2 * unat x + unat c) div 2 = unat x" using assms by simp
  finally show "unat (push_bit 1 x OR c) + limb_base * unat (drop_bit 63 x) = 2 * unat x + unat c"
    unfolding lo hi limb_base_def by (metis add.commute mult_div_mod_eq)
  have "unat x < 2 * 2 ^ 63" using unat_u64_less [of x] by simp
  then have "unat x div 2 ^ 63 < 2" by (rule less_mult_imp_div_less)
  with hi show "unat (drop_bit 63 x) \<le> 1" by simp
qed

lemma shl1_loop_val:
  assumes "unat c \<le> 1"
  shows "length (fst (shl1_loop c xs)) = length xs \<and> unat (snd (shl1_loop c xs)) \<le> 1
    \<and> big_val (fst (shl1_loop c xs)) + radix xs * unat (snd (shl1_loop c xs)) = 2 * big_val xs + unat c"
  using assms
proof (induction xs arbitrary: c)
  case (Cons x xs)
  let ?r = "shl1_loop (drop_bit 63 x) xs"
  note IH = Cons.IH [OF shl1_limb(2) [OF Cons.prems, of x]]
  then have "limb_base * (big_val (fst ?r) + radix xs * unat (snd ?r))
      = limb_base * (2 * big_val xs + unat (drop_bit 63 x))" by simp
  with shl1_limb(1) [OF Cons.prems, of x]
  have "unat (push_bit 1 x OR c) + limb_base * big_val (fst ?r) + limb_base * radix xs * unat (snd ?r)
      = 2 * (unat x + limb_base * big_val xs) + unat c"
    by (simp add: algebra_simps)
  with IH show ?case by (simp add: split_beta)
qed simp

lemma cond_sub_val:
  assumes "length x = length n" and "big_val x + (if high then radix n else 0) < big_val n + radix n"
  shows "length (cond_sub high x n) = length n"
    and "big_val (cond_sub high x n) =
      (if big_val n \<le> big_val x + (if high then radix n else 0)
       then big_val x + (if high then radix n else 0) - big_val n else big_val x)"
proof -
  let ?s = "big_sub x n"
  note s = big_sub_val [OF assms(1)]
  show "length (cond_sub high x n) = length n"
    using s(1) assms(1) by (simp add: cond_sub_def)
  have bx: "big_val x < radix n" using big_val_less [of x] assms(1) by simp
  have bn: "big_val n < radix n" by (rule big_val_less)
  have bs: "big_val (fst ?s) < radix n" using big_val_less [of "fst ?s"] s(1) by simp
  have w: "unat (snd ?s) = 0 \<or> unat (snd ?s) = 1" using s(2) by linarith
  have ge: "big_val (fst ?s) = big_val x - big_val n" if "big_val n \<le> big_val x"
    using w s(3) that bx bs bn by auto
  have wrap: "big_val (fst ?s) = big_val x + radix n - big_val n" if "high" "big_val x < big_val n"
    using w s(3) that bx bs bn by auto
  have no: "\<not> (high \<and> big_val n \<le> big_val x)" using assms(2) by auto
  show "big_val (cond_sub high x n) =
      (if big_val n \<le> big_val x + (if high then radix n else 0)
       then big_val x + (if high then radix n else 0) - big_val n else big_val x)"
    using bn ge wrap no by (auto simp: cond_sub_def big_cmp_ge [OF assms(1)] not_le)
qed

lemma double_mod_val:
  assumes "length x = length n" and "big_val x \<le> big_val n"
  shows "length (double_mod n x) = length n"
    and "0 < big_val n \<Longrightarrow> big_val (double_mod n x) = 2 * big_val x mod big_val n"
proof -
  let ?r = "shl1_loop 0 x"
  let ?h = "snd ?r \<noteq> 0"
  let ?y = "cond_sub ?h (fst ?r) n"
  from shl1_loop_val [of 0 x] assms(1)
  have len: "length (fst ?r) = length n" and c: "unat (snd ?r) \<le> 1"
    and val: "big_val (fst ?r) + radix n * unat (snd ?r) = 2 * big_val x" by simp_all
  have bn: "big_val n < radix n" by (rule big_val_less)
  have "unat (snd ?r) = (if ?h then 1 else 0)" using c
    by (cases "unat (snd ?r)") (auto simp: unat_eq_0)
  then have v: "big_val (fst ?r) + (if ?h then radix n else 0) = 2 * big_val x" using val by auto
  have b: "2 * big_val x < big_val n + radix n" using assms(2) bn by simp
  note y = cond_sub_val [OF len, of ?h, unfolded v, OF b]
  have yv: "big_val ?y = (if big_val n \<le> 2 * big_val x then 2 * big_val x - big_val n else 2 * big_val x)"
    using y(2) v bn by (auto split: if_splits)
  have ylt: "big_val ?y \<le> big_val n" using yv assms(2) by auto
  have eq: "double_mod n x = cond_sub False ?y n" by (simp add: double_mod_def split_beta)
  from cond_sub_val [OF y(1), of False] ylt bn
  have z: "length (cond_sub False ?y n) = length n"
    "big_val (cond_sub False ?y n) = (if big_val n \<le> big_val ?y then big_val ?y - big_val n else big_val ?y)"
    by auto
  show "length (double_mod n x) = length n" unfolding eq by (rule z(1))
  assume "0 < big_val n"
  then show "big_val (double_mod n x) = 2 * big_val x mod big_val n"
    unfolding eq z(2) using yv assms(2) by (auto simp: mod_if le_mod_geq)
qed

subsection \<open>Montgomery multiplication\<close>

text \<open>A row on the accumulator is exact as long as the sum fits the N + 2 limbs.\<close>

lemma acc_row_val:
  assumes "length t = length ys + 2" and "big_val t + unat x * big_val ys < radix t"
  shows "length (acc_row x ys t) = length t \<and> big_val (acc_row x ys t) = big_val t + unat x * big_val ys"
proof -
  let ?n = "length ys"
  let ?p = "limb_base ^ ?n"
  let ?lo = "take ?n t"
  let ?u = "unat (t ! ?n)" and ?v = "unat (t ! (?n + 1))"
  let ?r = "mac_row 0 x ys ?lo"
  let ?s = "(ucast (t ! ?n) :: u128) + ucast (snd ?r)"
  have "t = ?lo @ [t ! ?n, t ! (?n + 1)]"
    using assms(1) by (simp add: list_eq_iff_nth_eq nth_append less_Suc_eq nth_Cons' not_less)
  then have t: "big_val t = big_val ?lo + ?p * (?u + limb_base * ?v)"
    using assms(1) by (metis (no_types, lifting) add_diff_cancel_right' big_val.simps big_val_append
        length_take min_absorb2 le_add1 mult_0_right add_0_right)
  have ll: "length ys = length ?lo" using assms(1) by simp
  from mac_row_val [OF ll, of 0 x] ll
  have len: "length (fst ?r) = ?n"
    and val: "big_val (fst ?r) + ?p * unat (snd ?r) = big_val ?lo + unat x * big_val ys" by simp_all
  have s: "unat (lo64 ?s) + limb_base * unat (hi64 ?s) = ?u + unat (snd ?r)"
    unfolding split_limbs by (rule wide_add2)
  have total: "big_val (fst ?r) + ?p * (unat (lo64 ?s) + limb_base * (?v + unat (hi64 ?s)))
      = big_val t + unat x * big_val ys"
  proof -
    have "?p * (unat (lo64 ?s) + limb_base * (?v + unat (hi64 ?s)))
        = ?p * (?u + unat (snd ?r)) + ?p * (limb_base * ?v)"
      unfolding s [symmetric] by (simp add: algebra_simps)
    with val show ?thesis unfolding t by (simp add: algebra_simps)
  qed
  have "?p * limb_base * (?v + unat (hi64 ?s)) < ?p * limb_base * limb_base"
    using total assms by (simp add: algebra_simps)
  then have "?v + unat (hi64 ?s) < 2 ^ 64"
    using mult_less_cancel1 [of "?p * limb_base" "?v + unat (hi64 ?s)" limb_base]
    by (simp add: limb_base_def)
  then have v: "unat (t ! (?n + 1) + hi64 ?s) = ?v + unat (hi64 ?s)"
    by (simp add: unat_word_ariths)
  have "acc_row x ys t = fst ?r @ [lo64 ?s, t ! (?n + 1) + hi64 ?s]"
    by (simp add: acc_row_def split_beta Let_def)
  with total len v assms(1) show ?thesis by (simp add: big_val_append)
qed

definition mont_inverse :: "big \<Rightarrow> u64 \<Rightarrow> bool" where
  "mont_inverse n n_inv \<longleftrightarrow> n ! 0 * n_inv = -1"

lemma unat_mac: "unat (a + b * c :: u64) = (unat a + unat b * unat c) mod limb_base"
  by (simp add: unat_word_ariths limb_base_def mod_simps)

lemma mont_digit:
  assumes "t \<noteq> []" "n \<noteq> []" "mont_inverse n n_inv"
  shows "(big_val t + unat (t ! 0 * n_inv) * big_val n) mod limb_base = 0"
proof -
  have "(big_val t + unat (t ! 0 * n_inv) * big_val n) mod limb_base
      = (unat (t ! 0) + unat (t ! 0 * n_inv) * unat (n ! 0)) mod limb_base"
    by (intro mod_add_cong mod_mult_cong refl) (simp_all add: big_val_mod_base assms)
  also have "\<dots> = unat (t ! 0 + (t ! 0 * n_inv) * n ! 0)"
    by (rule unat_mac [symmetric])
  also have "t ! 0 + (t ! 0 * n_inv) * n ! 0 = t ! 0 + t ! 0 * (n ! 0 * n_inv)"
    by (simp add: ac_simps)
  also have "\<dots> = 0" using assms(3) by (simp add: mont_inverse_def)
  finally show ?thesis by simp
qed

lemma mont_step_val:
  assumes "length b = length n" "length t = length n + 2" "n \<noteq> []" "mont_inverse n n_inv"
    and "big_val t < big_val n + big_val b"
  shows "length (mont_step b n n_inv x t) = length t
    \<and> big_val (mont_step b n n_inv x t) < big_val n + big_val b
    \<and> (\<exists>m < limb_base. big_val (mont_step b n n_inv x t) * limb_base = big_val t + unat x * big_val b + m * big_val n)"
proof -
  let ?t1 = "acc_row x b t"
  let ?m = "?t1 ! 0 * n_inv"
  let ?t2 = "acc_row ?m n ?t1"
  have sum: "big_val t + unat x * big_val b + unat ?m * big_val n < limb_base * (big_val n + big_val b)"
  proof -
    have "unat x * big_val b \<le> (limb_base - 1) * big_val b" "unat ?m * big_val n \<le> (limb_base - 1) * big_val n"
      by (intro mult_le_mono1 limb_le)+
    then have "big_val t + unat x * big_val b + unat ?m * big_val n
        < big_val n + big_val b + (limb_base - 1) * big_val b + (limb_base - 1) * big_val n"
      using assms(5) by linarith
    also have "\<dots> = limb_base * (big_val n + big_val b)"
    proof -
      obtain l where l: "limb_base = Suc l" using gr0_implies_Suc [OF limb_base_pos(1)] by blast
      show ?thesis unfolding l by (simp add: distrib_left)
    qed
    finally show ?thesis .
  qed
  also have "limb_base * (big_val n + big_val b) \<le> limb_base * (2 * radix n)"
    using big_val_less [of n] big_val_less [of b] assms(1) by (intro mult_le_mono) auto
  also have "\<dots> \<le> limb_base * (limb_base * radix n)"
    by (intro mult_le_mono) (simp_all add: limb_base_def)
  also have "\<dots> = radix t" using assms(2) by simp
  finally have fits: "big_val t + unat x * big_val b + unat ?m * big_val n < radix t" .
  from assms(1,2) fits have t1: "length ?t1 = length t" "big_val ?t1 = big_val t + unat x * big_val b"
    using acc_row_val [of t b x] by simp_all
  from assms(2) t1 fits have t2: "length ?t2 = length t"
    "big_val ?t2 = big_val t + unat x * big_val b + unat ?m * big_val n"
    using acc_row_val [of ?t1 n ?m] by simp_all
  have ne: "?t1 \<noteq> []" "?t2 \<noteq> []" using t1(1) t2(1) assms(2) by auto
  have "big_val ?t2 mod limb_base = 0"
    using mont_digit [OF ne(1) assms(3,4)] by (simp add: t2(2) t1(2))
  with ne(2) have "unat (hd ?t2) = 0" by (simp add: big_val_mod_base hd_conv_nth)
  then have "big_val ?t2 = limb_base * big_val (tl ?t2)" using ne(2) by (cases ?t2) simp_all
  moreover have out: "mont_step b n n_inv x t = tl ?t2 @ [0]" by (simp add: mont_step_def Let_def)
  ultimately have eq: "big_val (mont_step b n n_inv x t) * limb_base
      = big_val t + unat x * big_val b + unat ?m * big_val n"
    using t2(2) by (simp add: big_val_append mult.commute)
  moreover from eq sum have "big_val (mont_step b n n_inv x t) < big_val n + big_val b"
    by (metis mult.commute mult_less_cancel1)
  moreover have "length (mont_step b n n_inv x t) = length t"
    unfolding out using t2(1) assms(2) by simp
  ultimately show ?thesis using limb_less [of ?m] by blast
qed

lemma mont_fold_val:
  assumes "length b = length n" "length t = length n + 2" "n \<noteq> []" "mont_inverse n n_inv"
    and "big_val t < big_val n + big_val b"
  shows "length (fold (mont_step b n n_inv) a t) = length t
    \<and> big_val (fold (mont_step b n n_inv) a t) < big_val n + big_val b
    \<and> (\<exists>m < radix a. big_val (fold (mont_step b n n_inv) a t) * radix a
          = big_val t + big_val a * big_val b + m * big_val n)"
  using assms(2,5)
proof (induction a arbitrary: t)
  case (Cons x xs)
  let ?t = "mont_step b n n_inv x t"
  let ?o = "fold (mont_step b n n_inv) xs ?t"
  from mont_step_val [OF assms(1) Cons.prems(1) assms(3,4) Cons.prems(2), of x]
  obtain m where step: "length ?t = length t" "big_val ?t < big_val n + big_val b" "m < limb_base"
    "big_val ?t * limb_base = big_val t + unat x * big_val b + m * big_val n" by blast
  from Cons.IH [of ?t] Cons.prems(1) step(1,2)
  obtain k where rest: "length ?o = length t" "big_val ?o < big_val n + big_val b" "k < radix xs"
    "big_val ?o * radix xs = big_val ?t + big_val xs * big_val b + k * big_val n" by auto
  have "big_val ?o * (limb_base * radix xs) = limb_base * (big_val ?o * radix xs)" by simp
  also have "\<dots> = big_val ?t * limb_base + limb_base * big_val xs * big_val b + limb_base * k * big_val n"
    unfolding rest(4) by (simp add: algebra_simps)
  also have "\<dots> = big_val t + big_val (x # xs) * big_val b + (m + limb_base * k) * big_val n"
    unfolding step(4) by (simp add: algebra_simps)
  finally have eq: "big_val ?o * radix (x # xs)
      = big_val t + big_val (x # xs) * big_val b + (m + limb_base * k) * big_val n" by simp
  have "m + limb_base * k < limb_base * Suc k" using step(3) by simp
  also have "\<dots> \<le> limb_base * radix xs" using rest(3) by (intro mult_le_mono) auto
  finally have "m + limb_base * k < radix (x # xs)" by simp
  with eq rest(1,2) show ?case unfolding fold_Cons o_apply by blast
qed simp

text \<open>
  The product of two residues, one of them smaller than R: below n, and n divides the difference
  of R times the result and the product.
\<close>

lemma mont_mul_val:
  assumes "length a = length n" "length b = length n" "n \<noteq> []" "mont_inverse n n_inv"
    and "big_val a * big_val b < big_val n * radix n"
  shows "length (mont_mul a b n n_inv) = length n"
    and "big_val (mont_mul a b n n_inv) < big_val n"
    and "(big_val (mont_mul a b n n_inv) * radix n) mod big_val n = (big_val a * big_val b) mod big_val n"
proof -
  let ?z = "replicate (length n + 2) (0 :: u64)"
  let ?t = "fold (mont_step b n n_inv) a ?z"
  let ?lo = "take (length n) ?t"
  let ?h = "?t ! length n \<noteq> 0"
  have npos: "0 < big_val n" using assms(5) by (cases "big_val n") auto
  from mont_fold_val [OF assms(2) _ assms(3,4), of ?z a] npos assms(1)
  obtain m where len: "length ?t = length n + 2" and m: "m < radix n"
    and val: "big_val ?t * radix n = big_val a * big_val b + m * big_val n"
    unfolding big_val_zeros by auto
  have "big_val ?t * radix n < big_val n * radix n + radix n * big_val n"
    unfolding val using assms(5) m npos by (intro add_strict_mono) simp_all
  then have t2: "big_val ?t < 2 * big_val n"
    by (metis (no_types) mult.commute mult_2 mult_less_cancel1 distrib_left)
  have bn: "big_val n < radix n" by (rule big_val_less)
  have "?t = ?lo @ [?t ! length n, ?t ! (length n + 1)]"
    using len by (simp add: list_eq_iff_nth_eq nth_append less_Suc_eq nth_Cons' not_less)
  then have tv: "big_val ?t = big_val ?lo + radix n * (unat (?t ! length n) + limb_base * unat (?t ! (length n + 1)))"
    using len big_val_append [of ?lo "[?t ! length n, ?t ! (length n + 1)]"] by simp
  have "unat (?t ! length n) + limb_base * unat (?t ! (length n + 1)) < 2"
  proof (rule ccontr)
    assume "\<not> ?thesis"
    then have "radix n * 2 \<le> radix n * (unat (?t ! length n) + limb_base * unat (?t ! (length n + 1)))"
      by (intro mult_le_mono) auto
    with tv t2 bn show False by linarith
  qed
  then have top1: "unat (?t ! length n) < 2" and "limb_base * unat (?t ! (length n + 1)) < 2" by simp_all
  then have top2: "unat (?t ! (length n + 1)) = 0"
    by (cases "unat (?t ! (length n + 1))") (simp_all add: limb_base_def)
  from top1 have "unat (?t ! length n) = (if ?h then 1 else 0)"
    by (cases "unat (?t ! length n)") (auto simp: unat_eq_0)
  then have v: "big_val ?lo + (if ?h then radix n else 0) = big_val ?t" using tv top2 by simp
  have ll: "length ?lo = length n" using len by simp
  have "big_val ?t < big_val n + radix n" using t2 bn by linarith
  note c = cond_sub_val [OF ll, of ?h, unfolded v, OF this]
  have eq: "mont_mul a b n n_inv = cond_sub ?h ?lo n" by (simp add: mont_mul_def Let_def)
  show "length (mont_mul a b n n_inv) = length n" unfolding eq by (rule c(1))
  have o: "big_val (cond_sub ?h ?lo n) = (if big_val n \<le> big_val ?t then big_val ?t - big_val n else big_val ?t)"
    using c(2) v bn by (auto split: if_splits)
  then show "big_val (mont_mul a b n n_inv) < big_val n" unfolding eq using t2 by auto
  have "big_val (cond_sub ?h ?lo n) mod big_val n = big_val ?t mod big_val n"
    unfolding o by (simp add: le_mod_geq)
  then have "(big_val (mont_mul a b n n_inv) * radix n) mod big_val n = (big_val ?t * radix n) mod big_val n"
    unfolding eq by (rule mod_mult_cong) simp
  also have "\<dots> = (big_val a * big_val b) mod big_val n" unfolding val by simp
  finally show "(big_val (mont_mul a b n n_inv) * radix n) mod big_val n = (big_val a * big_val b) mod big_val n" .
qed

end
