(* ===== verification/HostPrograms.thy ===== *)
theory HostPrograms
  imports Host BigintFacts
begin

text \<open>
  The host programs of the examples (\<open>examples/*/host.cpp\<close>) over the host runtime. A main function is
  its actions on a fresh platform and what it prints; the programs that report counters for ever are
  followed for a number of rounds, with the answers of the kernels to their requests as a parameter of
  the run (XRT). None of them calls \<open>registerGenerated\<close>, so they run on the empty registry.
\<close>

subsection \<open>RSA_Accelerator\<close>

definition hex_digit :: "char \<Rightarrow> u64 option" where
  "hex_digit c = (if c_isxdigit c then Some (of_nat (digit_val c)) else None)"

text \<open>From the last character to the first, while there is room; other characters are skipped.\<close>

fun from_hex_loop :: "string \<Rightarrow> nat \<Rightarrow> u64 list \<Rightarrow> u64 list" where
  "from_hex_loop [] pos limbs = limbs"
| "from_hex_loop (c # cs) pos limbs =
     (if pos < length limbs * 64 then
        (case hex_digit c of
           None \<Rightarrow> from_hex_loop cs pos limbs
         | Some v \<Rightarrow> from_hex_loop cs (pos + 4)
             (limbs[pos div 64 := limbs ! (pos div 64) OR push_bit (pos mod 64) (v AND 0xF)]))
      else limbs)"

definition from_hex :: "nat \<Rightarrow> string \<Rightarrow> u64 list" where
  "from_hex N hex = from_hex_loop (rev hex) 0 (replicate N 0)"

definition RSA_LIMBS :: nat where "RSA_LIMBS = 16"
definition RSA_FLITS :: nat where "RSA_FLITS = 4"

definition operand_flit :: "u64 list \<Rightarrow> nat \<Rightarrow> flit" where
  "operand_flit x i =
     set_eop (i = RSA_FLITS - 1) (set_sop (i = 0)
       (fold (\<lambda>j f. set_lane (int j) (x ! (i * 4 + j)) f) [0..<4] flit_zero))"

definition rsa_push :: "u16 \<Rightarrow> u64 list \<Rightarrow> 'd host_platform \<Rightarrow> 'd host_platform" where
  "rsa_push slot x p = fold (\<lambda>i p. snd (sendSlot slot (operand_flit x i) p)) [0..<RSA_FLITS] p"

definition flit_limbs :: "flit \<Rightarrow> u64 list" where
  "flit_limbs f = map (\<lambda>j. get_lane (int j) f) [0..<4]"

fun rsa_collect :: "u16 \<Rightarrow> nat \<Rightarrow> u64 list \<Rightarrow> 'd host_platform \<Rightarrow> u64 list option \<times> 'd host_platform" where
  "rsa_collect slot 0 got p = (Some got, p)"
| "rsa_collect slot (Suc n) got p =
     (case recvSlot slot True p of
        (None, p') \<Rightarrow> (None, p')
      | (Some f, p') \<Rightarrow> rsa_collect slot n (got @ flit_limbs f) p')"

definition nth_arg :: "string list \<Rightarrow> nat \<Rightarrow> string \<Rightarrow> string" where
  "nth_arg args i dflt = (if i < length args then args ! i else dflt)"

text \<open>The exit status and the line printed; the three constants are parameters of the run.\<close>

definition rsa_host :: "'d xrt option \<Rightarrow> registry \<Rightarrow> string list \<Rightarrow> u64 list \<Rightarrow> u64 list \<Rightarrow> u64 list \<Rightarrow> int \<times> string" where
  "rsa_host x r args m n want =
     (let (ok, p) = platform_open x r (nth_arg args 1 ''build/RSA_Accelerator/RSA_Accelerator.xclbin'') [] XDMA Platform;
          p = launchAll p;
          e = (replicate RSA_LIMBS 0)[0 := 65537];
          p = rsa_push 34 n (rsa_push 33 e (rsa_push 32 m p))
      in case rsa_collect 35 RSA_FLITS [] p of
           (None, p) \<Rightarrow> (1, ''RSA-1024 round-trip: timed out waiting for ciphertext flit'')
         | (Some got, p) \<Rightarrow>
             (if big_cmp got want = 0 then (0, ''RSA-1024 round-trip: OK'') else (1, ''RSA-1024 round-trip: MISMATCH'')))"

subsection \<open>ECMP_Router\<close>

definition ecmp_rule :: "nat \<Rightarrow> signal_msg" where
  "ecmp_rule i = signal_msg_zero\<lparr>sp_cmd := 1, sp_sparam := of_nat i,
     sp_lparam := (sp_lparam signal_msg_zero)[0 := 0x0a000001 + of_nat i]\<rparr>"

definition ecmp_update :: "nat \<Rightarrow> flit" where
  "ecmp_update i = set_eop True (set_sop True (set_lane 1 (0x0a010001 + of_nat i) (set_lane 0 (of_nat i) flit_zero)))"

definition ecmp_rules :: "'d xrt option \<Rightarrow> registry \<Rightarrow> string \<Rightarrow> 'd host_platform \<Rightarrow> 'd host_platform" where
  "ecmp_rules x r lookup p = fold (\<lambda>i p. snd (element_signal x r lookup (ecmp_rule i) p)) [0..<4] p"

definition ecmp_updates :: "'d host_platform \<Rightarrow> 'd host_platform" where
  "ecmp_updates p =
     fold (\<lambda>i p. element_send \<lparr>hm_flit = ecmp_update i, hm_slot_id = 32\<rparr> p) [0..<8] p"

text \<open>\<open>Platform::element\<close> always returns a handle. The value printed in a round is that of the response.\<close>

definition counter_round :: "'d xrt option \<Rightarrow> registry \<Rightarrow> string \<Rightarrow> 'd host_platform \<Rightarrow> u64 list \<times> 'd host_platform" where
  "counter_round x r name p =
     (case element_signal x r name signal_msg_zero p of
        (None, p') \<Rightarrow> (sp_lparam signal_msg_zero, p')
      | (Some rsp, p') \<Rightarrow> (sp_lparam rsp, p'))"

definition ecmp_setup :: "'d xrt option \<Rightarrow> registry \<Rightarrow> string list \<Rightarrow> 'd host_platform" where
  "ecmp_setup x r args =
     (let (ok, p) = platform_open x r (nth_arg args 1 ''build/ECMP_Router/ECMP_Router.xclbin'') [] XDMA Platform;
          p = launchAll p;
          (lookup, p) = platform_element ''lookup'' p; p = ecmp_rules x r lookup p;
          (wr, p) = platform_element ''wr'' p; p = ecmp_updates p
      in p)"

fun ecmp_rounds :: "'d xrt option \<Rightarrow> registry \<Rightarrow> nat \<Rightarrow> 'd host_platform \<Rightarrow> string list" where
  "ecmp_rounds x r 0 p = []"
| "ecmp_rounds x r (Suc n) p =
     (let (lp, p) = counter_round x r ''lb'' p
      in (''ECMP: balanced='' @ nat_str (unat (lp ! 0))) # ecmp_rounds x r n p)"

definition ecmp_host :: "'d xrt option \<Rightarrow> registry \<Rightarrow> string list \<Rightarrow> nat \<Rightarrow> string list" where
  "ecmp_host x r args n =
     [''ECMP: 4 flow rules installed via signal RPC'', ''ECMP: 8 nexthop updates streamed via host_in'']
     @ ecmp_rounds x r n (ecmp_setup x r args)"

subsection \<open>Firewall\<close>

definition install_rule ::
  "'d xrt option \<Rightarrow> registry \<Rightarrow> string \<Rightarrow> u32 \<Rightarrow> u64 \<Rightarrow> u64 \<Rightarrow> u64 \<Rightarrow> 'd host_platform \<Rightarrow> 'd host_platform" where
  "install_rule x r ht idx key0 key1 rule p =
     snd (element_signal x r ht (signal_msg_zero\<lparr>sp_cmd := 1, sp_sparam := idx,
       sp_lparam := (sp_lparam signal_msg_zero)[0 := key0, 1 := key1, 2 := rule]\<rparr>) p)"

definition firewall_key0 :: u64 where
  "firewall_key0 = push_bit 32 0x0A000001 OR 0x0A000002"

fun firewall_rounds :: "'d xrt option \<Rightarrow> registry \<Rightarrow> nat \<Rightarrow> 'd host_platform \<Rightarrow> string list" where
  "firewall_rounds x r 0 p = []"
| "firewall_rounds x r (Suc n) p =
     (let (lp, p) = counter_round x r ''act'' p
      in (''Firewall: '' @ nat_str (unat (lp ! 0)) @ '' passed, '' @ nat_str (unat (lp ! 1)) @ '' dropped'')
         # firewall_rounds x r n p)"

text \<open>Standard error first, then the lines of the rounds.\<close>

definition firewall_host :: "'d xrt option \<Rightarrow> registry \<Rightarrow> string list \<Rightarrow> nat \<Rightarrow> string list \<times> string list" where
  "firewall_host x r args n =
     (let (ok, p) = platform_open x r (nth_arg args 1 ''build/Firewall.xclbin'') [] XDMA Platform;
          p = launchAll p;
          (ht, p) = platform_element ''ht'' p; (a, p) = platform_element ''act'' p;
          p = install_rule x r ht 123 firewall_key0 6 1 p
      in (if ok then [] else [''open failed (running emulator-only mode)''], firewall_rounds x r n p))"

subsection \<open>PassTraffic\<close>

text \<open>The packets of the two counters, and the rates printed: the differences to the round before.\<close>

fun pass_rates :: "u64 \<Rightarrow> u64 \<Rightarrow> (u64 \<times> u64) list \<Rightarrow> (u64 \<times> u64 \<times> u64 \<times> u64) list" where
  "pass_rates lt ln [] = []"
| "pass_rates lt ln ((t, n) # rs) = (t, t - lt, n, n - ln) # pass_rates t n rs"

fun pass_rounds :: "'d xrt option \<Rightarrow> registry \<Rightarrow> nat \<Rightarrow> 'd host_platform \<Rightarrow> (u64 \<times> u64) list" where
  "pass_rounds x r 0 p = []"
| "pass_rounds x r (Suc k) p =
     (let (lt, p) = counter_round x r ''tor_rx_cnt'' p; (ln, p) = counter_round x r ''nic_rx_cnt'' p
      in (lt ! 1, ln ! 1) # pass_rounds x r k p)"

definition rate_line :: "u64 \<times> u64 \<times> u64 \<times> u64 \<Rightarrow> string" where
  "rate_line q = (case q of (t, dt, n, dn) \<Rightarrow>
     ''ToR rx: '' @ nat_str (unat t) @ '' pkts ('' @ nat_str (unat dt) @ '' pps)   NIC rx: ''
     @ nat_str (unat n) @ '' pkts ('' @ nat_str (unat dn) @ '' pps)'')"

definition pass_host :: "'d xrt option \<Rightarrow> registry \<Rightarrow> string list \<Rightarrow> nat \<Rightarrow> string list \<times> string list" where
  "pass_host x r args k =
     (let t = (if nth_arg args 3 ''xdma'' = ''qdma'' then QDMA else XDMA);
          (ok, p) = platform_open x r (nth_arg args 1 ''build/PassTraffic.xclbin'') (nth_arg args 2 []) t Platform;
          p = launchAll p;
          (a, p) = platform_element ''tor_rx_cnt'' p; (b, p) = platform_element ''nic_rx_cnt'' p
      in (if ok then [] else [''open failed (running emulator-only mode)''],
          map rate_line (pass_rates 0 0 (pass_rounds x r k p))))"

subsection \<open>Reading a constant\<close>

fun hex_rev :: "string \<Rightarrow> nat" where
  "hex_rev [] = 0"
| "hex_rev (c # cs) = (if c_isxdigit c then digit_val c + 16 * hex_rev cs else hex_rev cs)"

lemma hex_rev_digits: "hex_rev (rev s) = digits_val 16 0 (filter c_isxdigit s)"
proof -
  have rev: "hex_rev (rev s @ t) = digits_val 16 (hex_rev t) (filter c_isxdigit s)" for t
    by (induction s arbitrary: t) (simp_all add: mult.commute add.commute)
  show ?thesis using rev [of "[]"] by simp
qed

lemma digit_val_16: "c_isxdigit c \<Longrightarrow> digit_val c < 16"
  by (auto simp: cctype_defs digit_val_def)

lemma big_val_update:
  "k < length xs \<Longrightarrow> big_val (xs[k := y]) + limb_base ^ k * unat (xs ! k) = big_val xs + limb_base ^ k * unat y"
proof (induction xs arbitrary: k)
  case (Cons x xs)
  show ?case
  proof (cases k)
    case (Suc j)
    have "limb_base * (big_val (xs[j := y]) + limb_base ^ j * unat (xs ! j)) = limb_base * (big_val xs + limb_base ^ j * unat y)"
      using Cons Suc by simp
    then show ?thesis by (simp add: Suc algebra_simps)
  qed simp
qed simp

lemma limb_le_val: "k < length xs \<Longrightarrow> limb_base ^ k * unat (xs ! k) \<le> big_val xs"
proof (induction xs arbitrary: k)
  case (Cons x xs)
  show ?case
  proof (cases k)
    case (Suc j)
    have "limb_base * (limb_base ^ j * unat (xs ! j)) \<le> limb_base * big_val xs"
      using Cons Suc by (intro mult_le_mono2) auto
    then show ?thesis by (simp add: Suc mult.assoc trans_le_add2)
  qed simp
qed simp

lemma or_nibble:
  assumes "unat (x :: u64) < 2 ^ r" "r \<le> 60" "v < 16"
  shows "unat (x OR push_bit r (of_nat v AND 0xF)) = unat x + 2 ^ r * v"
proof -
  have v: "(of_nat v :: u64) AND 0xF = of_nat v"
  proof -
    have "(of_nat v :: u64) AND mask 4 = take_bit 4 (of_nat v)" by (simp add: take_bit_eq_mask)
    also have "\<dots> = of_nat (take_bit 4 v)" by (simp add: take_bit_of_nat)
    finally show ?thesis using assms(3) by (simp add: mask_eq_exp_minus_1 take_bit_nat_eq_self)
  qed
  have zero: "x AND push_bit r (of_nat v) = 0"
  proof (rule bit_word_eqI)
    fix n
    show "bit (x AND push_bit r (of_nat v)) n = bit 0 n"
    proof (cases "r \<le> n")
      case True
      have "unat x < 2 ^ n" using assms(1) True by (meson less_le_trans one_le_numeral power_increasing)
      then have "\<not> bit (unat x) n" by (simp add: bit_iff_odd)
      then have "\<not> bit x n" by (simp add: bit_unsigned_iff)
      then show ?thesis by (simp add: bit_simps)
    qed (simp add: bit_simps)
  qed
  have lt: "unat x + 2 ^ r * v < 2 ^ 64"
  proof -
    have "unat x + 2 ^ r * v < 2 ^ r + 2 ^ r * 15" using assms by (intro add_less_le_mono) auto
    also have "\<dots> = 2 ^ r * 16" by simp
    also have "\<dots> \<le> 2 ^ 60 * 16" using assms(2) by (intro mult_le_mono1 power_increasing) auto
    finally show ?thesis by simp
  qed
  have "x OR push_bit r (of_nat v) = x + push_bit r (of_nat v)"
    using disjunctive_add_eq_or [OF zero] by simp
  also have "\<dots> = of_nat (unat x + 2 ^ r * v)" by (simp add: push_bit_eq_mult mult.commute)
  finally show ?thesis unfolding v using lt by (simp only: unat_of_nat) (simp add: take_bit_nat_eq_self unsigned_of_nat)
qed

lemma from_hex_loop_val:
  assumes "pos mod 4 = 0" "pos \<le> length limbs * 64" "big_val limbs < 2 ^ pos"
  shows "big_val (from_hex_loop cs pos limbs) = (big_val limbs + 2 ^ pos * hex_rev cs) mod limb_base ^ length limbs"
  using assms
proof (induction cs pos limbs rule: from_hex_loop.induct)
  case (1 pos limbs)
  have "big_val limbs < limb_base ^ length limbs" using big_val_less [of limbs] by simp
  then show ?case by simp
next
  case (2 c cs pos limbs)
  let ?N = "length limbs"
  have lt: "big_val limbs < limb_base ^ ?N" using big_val_less [of limbs] by simp
  show ?case
  proof (cases "pos < ?N * 64")
    case False
    then have "2 ^ pos = limb_base ^ ?N" using 2(4) by (simp add: limb_base_power)
    then show ?thesis using False lt by (simp del: hex_rev.simps)
  next
    case True
    show ?thesis
    proof (cases "c_isxdigit c")
      case False
      then show ?thesis using 2 True by (simp add: hex_digit_def)
    next
      case digit: True
      define k where "k = pos div 64"
      define r where "r = pos mod 64"
      define v where "v = digit_val c"
      have v: "v < 16" using digit_val_16 [OF digit] by (simp add: v_def)
      have k: "k < ?N" using True by (simp add: k_def less_mult_imp_div_less)
      have pos: "2 ^ pos = limb_base ^ k * 2 ^ r" by (simp add: limb_base_power k_def r_def flip: power_add)
      have "r mod 4 = 0" using 2(3) by (simp add: r_def mod_mod_cancel)
      moreover have "r < 64" by (simp add: r_def)
      ultimately have r: "r \<le> 60" by presburger
      have "limb_base ^ k * unat (limbs ! k) < limb_base ^ k * 2 ^ r"
        using limb_le_val [OF k] 2(5) pos by linarith
      then have small: "unat (limbs ! k) < 2 ^ r" by simp
      define y where "y = limbs ! k OR push_bit r (of_nat v AND 0xF)"
      have y: "unat y = unat (limbs ! k) + 2 ^ r * v" using or_nibble [OF small r v] by (simp add: y_def)
      have val: "big_val (limbs[k := y]) = big_val limbs + 2 ^ pos * v"
        using big_val_update [OF k, of y] by (simp add: y pos algebra_simps)
      have "big_val limbs + 2 ^ pos * v < 2 ^ pos + 2 ^ pos * 15"
        using 2(5) v by (intro add_less_le_mono) auto
      then have bound: "big_val (limbs[k := y]) < 2 ^ (pos + 4)" by (simp add: val power_add)
      have room: "pos + 4 \<le> ?N * 64" using True 2(3) by presburger
      have "big_val (from_hex_loop cs (pos + 4) (limbs[k := y])) =
          (big_val (limbs[k := y]) + 2 ^ (pos + 4) * hex_rev cs) mod limb_base ^ ?N"
        using 2(2) [OF True, of "of_nat v"] 2(3) room bound digit
        by (simp add: hex_digit_def v_def y_def k_def r_def mod_add_eq)
      moreover have "from_hex_loop (c # cs) pos limbs = from_hex_loop cs (pos + 4) (limbs[k := y])"
        using True digit by (simp add: hex_digit_def v_def y_def k_def r_def)
      ultimately show ?thesis using digit by (simp add: val v_def power_add algebra_simps)
    qed
  qed
qed

lemma from_hex_val: "big_val (from_hex N s) = digits_val 16 0 (filter c_isxdigit s) mod limb_base ^ N"
  using from_hex_loop_val [of 0 "replicate N 0" "rev s"] by (simp add: from_hex_def hex_rev_digits)

subsection \<open>Operands survive the slot\<close>

lemma operand_flit_limbs:
  "flit_limbs (set_slot_id s (operand_flit x i)) = [x ! (i * 4), x ! (i * 4 + 1), x ! (i * 4 + 2), x ! (i * 4 + 3)]"
  by (simp add: flit_limbs_def operand_flit_def upt_rec lane_other lane_roundtrip numeral_3_eq_3)

lemma rsa_push_items:
  assumes "bridge_ok p" "pf_transport p = XDMA" "unat slot < 64"
  shows "bridge_ok (rsa_push slot x p) \<and> pf_transport (rsa_push slot x p) = XDMA \<and>
    pf_items s (rsa_push slot x p) =
      (if s = slot then pf_items s p @ map (\<lambda>i. set_slot_id slot (operand_flit x i)) [0..<4] else pf_items s p)"
proof -
  let ?push = "\<lambda>i p. snd (sendSlot slot (operand_flit x i) p)"
  have "bridge_ok (fold ?push is p) \<and> pf_transport (fold ?push is p) = XDMA \<and>
      pf_items s (fold ?push is p) =
        (if s = slot then pf_items s p @ map (\<lambda>i. set_slot_id slot (operand_flit x i)) is else pf_items s p)" for "is"
    using assms(1,2)
  proof (induction "is" arbitrary: p)
    case (Cons i "is")
    from sendSlot_items [OF Cons.prems(1), of slot "operand_flit x i" s] Cons.prems(2) assms(3)
    have step: "bridge_ok (?push i p)" "pf_transport (?push i p) = XDMA"
      "pf_items s (?push i p) = (if s = slot then pf_items s p @ [set_slot_id slot (operand_flit x i)] else pf_items s p)"
      by (simp_all add: stamped_def)
    from Cons.IH [OF step(1,2)] step(3) show ?case by (cases "s = slot") simp_all
  qed simp
  from this [of "[0..<4]"] show ?thesis by (simp add: rsa_push_def RSA_FLITS_def)
qed

lemma rsa_collect_items:
  assumes "bridge_ok p" "pf_items slot p = fs @ gs"
  shows "fst (rsa_collect slot (length fs) got p) = Some (got @ concat (map flit_limbs fs))"
  using assms
proof (induction fs arbitrary: got p)
  case (Cons f fs)
  from recvSlot_items [OF Cons.prems(1), of slot True slot] Cons.prems(2)
  have step: "bridge_ok (snd (recvSlot slot True p))" "fst (recvSlot slot True p) = Some f"
    "pf_items slot (snd (recvSlot slot True p)) = fs @ gs" by simp_all
  from Cons.IH [OF step(1,3), of "got @ flit_limbs f"] step(2) show ?case
    by (cases "recvSlot slot True p") simp
qed simp

lemma operand_roundtrip:
  assumes "bridge_ok p" "pf_transport p = XDMA" "unat slot < 64" "pf_items slot p = []" "length x = 16"
  shows "fst (rsa_collect slot RSA_FLITS [] (rsa_push slot x p)) = Some x"
proof -
  let ?fs = "map (\<lambda>i. set_slot_id slot (operand_flit x i)) [0..<4]"
  have "concat (map flit_limbs ?fs) = map (\<lambda>i. x ! i) [0..<16]"
    by (simp add: operand_flit_limbs upt_rec eval_nat_numeral)
  also have "\<dots> = x" using assms(5) by (metis map_nth)
  finally have "concat (map flit_limbs ?fs) = x" .
  with rsa_collect_items [of "rsa_push slot x p" slot ?fs "[]" "[]"] rsa_push_items [OF assms(1-3), of x slot] assms(4)
  show ?thesis by (simp add: RSA_FLITS_def)
qed

subsection \<open>What the programs do\<close>

lemma open_failed_bridge: "platform_open x r path bdf t Platform = (False, p) \<Longrightarrow> pf_bridge p = None"
  by (auto simp: platform_open_def Platform_def Let_def split: prod.splits if_splits)

lemma rsa_push_closed: "pf_bridge p = None \<Longrightarrow> rsa_push slot x p = p"
  by (simp add: rsa_push_def sendSlot_def fold_invariant [where Q = "\<lambda>_. True" and P = "\<lambda>q. q = p"])

text \<open>The bridge gives a slot back what was sent to it; nothing is sent to the slot of the answer.\<close>

lemma rsa_host_times_out:
  "rsa_host x r args m n want = (1, ''RSA-1024 round-trip: timed out waiting for ciphertext flit'')"
proof -
  let ?path = "nth_arg args 1 ''build/RSA_Accelerator/RSA_Accelerator.xclbin''"
  obtain ok p where o: "platform_open x r ?path [] XDMA Platform = (ok, p)" by fastforce
  let ?e = "(replicate RSA_LIMBS 0)[0 := 65537] :: u64 list"
  define q where "q = rsa_push 34 n (rsa_push 33 ?e (rsa_push 32 m p))"
  have "fst (recvSlot 35 True q) = None"
  proof (cases ok)
    case True
    have p: "bridge_ok p" "pf_items 35 p = []" using open_bridge_ok [OF o [unfolded eqTrueI [OF True]]] by simp_all
    have t: "pf_transport p = XDMA" using o True by (auto simp: platform_open_def Let_def split: prod.splits if_splits)
    note a = rsa_push_items [OF p(1) t, of 32 m 35]
    note b = rsa_push_items [of "rsa_push 32 m p" 33 ?e 35]
    note c = rsa_push_items [of "rsa_push 33 ?e (rsa_push 32 m p)" 34 n 35]
    have "bridge_ok q \<and> pf_items 35 q = []" using a b c p(2) by (simp add: q_def)
    then show ?thesis using recvSlot_items [of q 35 True 35] by simp
  next
    case False
    have "pf_bridge p = None" by (rule open_failed_bridge [OF o [unfolded Eq_FalseI [OF False]]])
    then show ?thesis by (simp add: q_def rsa_push_closed recvSlot_def)
  qed
  then have "rsa_collect 35 RSA_FLITS [] q = (None, snd (recvSlot 35 True q))"
    by (cases "recvSlot 35 True q") (simp add: RSA_FLITS_def eval_nat_numeral)
  then show ?thesis by (simp add: rsa_host_def o launchAll_def q_def del: One_nat_def)
qed

text \<open>No program registers its tables, so every signal is refused.\<close>

lemma unregistered_signal: "element_signal x registry_init name req p = (None, p)"
  by (simp add: element_signal_def findSignalGid_def registry_init_def)

lemma unregistered_round: "counter_round x registry_init name p = (replicate 7 0, p)"
  by (simp add: counter_round_def unregistered_signal signal_msg_zero_def)

lemma unregistered_firewall: "firewall_rounds x registry_init n p = replicate n ''Firewall: 0 passed, 0 dropped''"
proof (induction n)
  case (Suc n)
  have "''Firewall: '' @ nat_str 0 @ '' passed, '' @ nat_str 0 @ '' dropped'' = ''Firewall: 0 passed, 0 dropped''" by code_simp
  with Suc show ?case by (simp add: unregistered_round)
qed simp

lemma pass_rates_sum:
  "rs \<noteq> [] \<Longrightarrow> sum_list (map (\<lambda>(t, dt, n, dn). dt) (pass_rates lt ln rs)) = fst (last rs) - lt"
  "rs \<noteq> [] \<Longrightarrow> sum_list (map (\<lambda>(t, dt, n, dn). dn) (pass_rates lt ln rs)) = snd (last rs) - ln"
  by (induction rs arbitrary: lt ln) (auto split: if_splits)

end
