(* ===== verification/Modexp.thy ===== *)
theory Modexp
  imports BigintFacts
begin

text \<open>
  Modular exponentiation over Montgomery residues. The interface \<open>residue_mul\<close> is all that the two
  exponentiation loops need of a multiplication: the product of representations represents the
  product. \<open>mont_mul\<close> provides it with R-scaled residues, and both loops, the one that branches on
  the exponent and the ladder that does not, return m to the power e modulo n.
\<close>

subsection \<open>The constant and the powers of two\<close>

lemma newton_error: "1 - n0 * newton_step n0 x = (1 - n0 * x) ^ 2" for n0 x :: u64
  by (simp add: newton_step_def power2_eq_square algebra_simps)

lemma newton_iterate: "1 - n0 * (newton_step n0 ^^ k) x = (1 - n0 * x) ^ (2 ^ k)" for n0 x :: u64
proof (induction k)
  case (Suc k)
  then show ?case by (simp add: newton_error power_mult [symmetric] mult.commute)
qed simp

lemma compute_n_inv_inverse:
  assumes "odd (unat (n ! 0))"
  shows "mont_inverse n (compute_n_inv n)"
proof -
  let ?n0 = "n ! 0" and ?x = "(newton_step (n ! 0) ^^ 6) 1"
  obtain k where k: "unat ?n0 = 2 * k + 1" using assms by (rule oddE)
  have "?n0 = of_nat (unat ?n0)" by simp
  also have "\<dots> = 2 * of_nat k + 1" unfolding k by simp
  finally have "1 - ?n0 * 1 = 2 * (- of_nat k)" by simp
  then have "1 - ?n0 * ?x = (2 * (- of_nat k)) ^ (2 ^ 6)" unfolding newton_iterate by simp
  also have "\<dots> = 2 ^ 64 * (- of_nat k) ^ 64" by (simp only: power_mult_distrib) simp
  also have "(2 :: u64) ^ 64 = 0" by simp
  finally have "?n0 * ?x = 1" by simp
  then show ?thesis by (simp add: mont_inverse_def compute_n_inv_def)
qed

lemma double_iterate:
  assumes "length x = length n" "big_val x \<le> big_val n" "0 < big_val n" "0 < k"
  shows "length ((double_mod n ^^ k) x) = length n
    \<and> big_val ((double_mod n ^^ k) x) = (2 ^ k * big_val x) mod big_val n"
  using assms(4)
proof (induction k)
  case (Suc k)
  show ?case
  proof (cases "k = 0")
    case True
    with double_mod_val [OF assms(1,2)] assms(3) show ?thesis by simp
  next
    case False
    let ?y = "(double_mod n ^^ k) x"
    from Suc.IH False have y: "length ?y = length n" "big_val ?y = (2 ^ k * big_val x) mod big_val n" by auto
    then have "big_val ?y \<le> big_val n" using assms(3) by (simp add: less_imp_le)
    from double_mod_val [OF y(1) this] assms(3) show ?thesis
      by (simp add: y(2) mod_simps mult.assoc)
  qed
qed simp

lemma R_mod_n:
  assumes "n \<noteq> []" "0 < big_val n"
  shows "length (compute_R_mod_n n) = length n" "big_val (compute_R_mod_n n) = radix n mod big_val n"
    and "length (compute_R2_mod_n n) = length n"
    and "big_val (compute_R2_mod_n n) = (radix n * radix n) mod big_val n"
proof -
  have k: "0 < length n * 64" "0 < 2 * length n * 64" using assms(1) by simp_all
  have one: "length (big_one (length n)) = length n" "big_val (big_one (length n)) = 1"
    using assms(1) by (simp_all add: big_val_one)
  have R: "radix n = 2 ^ (length n * 64)" by (simp add: limb_base_power)
  then have R2: "radix n * radix n = 2 ^ (2 * length n * 64)" by (simp flip: power_add)
  have le: "big_val (big_one (length n)) \<le> big_val n" using one(2) assms(2) by simp
  from double_iterate [OF one(1) le assms(2) k(1)]
  show "length (compute_R_mod_n n) = length n" "big_val (compute_R_mod_n n) = radix n mod big_val n"
    by (simp_all add: compute_R_mod_n_def one R)
  from double_iterate [OF one(1) le assms(2) k(2)]
  show "length (compute_R2_mod_n n) = length n"
    "big_val (compute_R2_mod_n n) = (radix n * radix n) mod big_val n"
    by (simp_all add: compute_R2_mod_n_def one R2)
qed

subsection \<open>Selection\<close>

lemma ct_mask_bits: "c \<in> {0, 1} \<Longrightarrow> ct_mask c = (if c = 1 then - 1 else 0)"
  by (auto simp: ct_mask_def)

lemma const_time_select_eq:
  assumes "length dst = length src" "c \<in> {0, 1}"
  shows "const_time_select dst src c = (if c = 1 then src else dst)"
proof -
  have "const_time_select dst src c = map2 (\<lambda>d s. if c = 1 then s else d) dst src"
    unfolding const_time_select_def ct_mask_bits [OF assms(2)] by (cases "c = 1") simp_all
  then show ?thesis using assms(1)
    by (simp add: list_eq_iff_nth_eq)
qed

lemma const_time_swap_eq:
  assumes "length a = length b" "c \<in> {0, 1}"
  shows "const_time_swap a b c = (if c = 1 then (b, a) else (a, b))"
proof -
  have "x XOR (x XOR y) = y" "y XOR (x XOR y) = x" for x y :: u64
    by (simp_all add: bit_eq_iff bit_xor_iff) blast+
  then show ?thesis using assms
    unfolding const_time_swap_def ct_mask_bits [OF assms(2)]
    by (auto simp: list_eq_iff_nth_eq)
qed

subsection \<open>Bits of the exponent\<close>

lemma limb_bit_val:
  assumes "i < length a * 64"
  shows "limb_bit a i = of_bool (odd (big_val a div 2 ^ i))"
  using assms
proof (induction a arbitrary: i)
  case (Cons x xs)
  show ?case
  proof (cases "i < 64")
    case True
    have split: "limb_base = 2 ^ i * 2 ^ (64 - i)" using True by (simp add: limb_base_def flip: power_add)
    have "(unat x + limb_base * big_val xs) div 2 ^ i = (unat x + 2 ^ i * (2 ^ (64 - i) * big_val xs)) div 2 ^ i"
      unfolding split by (simp only: mult.assoc)
    also have "\<dots> = 2 ^ (64 - i) * big_val xs + unat x div 2 ^ i" by simp
    finally have "odd (big_val (x # xs) div 2 ^ i) \<longleftrightarrow> odd (unat x div 2 ^ i)"
      using True by simp
    also have "\<dots> \<longleftrightarrow> odd (drop_bit i x)"
      using bit_unsigned_iff [where 'a = nat, of x i] by (simp add: bit_iff_odd_drop_bit drop_bit_eq_div)
    finally show ?thesis using True by (simp add: limb_bit_def and_one_eq mod_2_eq_odd)
  next
    case False
    have p: "2 ^ i = limb_base * 2 ^ (i - 64)"
      unfolding limb_base_def power_add [symmetric] using False by simp
    have "(unat x + limb_base * big_val xs) div 2 ^ i = (unat x + limb_base * big_val xs) div limb_base div 2 ^ (i - 64)"
      unfolding p by (rule div_mult2_eq)
    also have "\<dots> = big_val xs div 2 ^ (i - 64)" by simp
    finally have "big_val (x # xs) div 2 ^ i = big_val xs div 2 ^ (i - 64)" by simp
    moreover have "limb_bit (x # xs) i = limb_bit xs (i - 64)"
    proof -
      have "i = (i - 64) + 64" using False by simp
      then have "i div 64 = Suc ((i - 64) div 64)" "i mod 64 = (i - 64) mod 64"
        by (metis div_add_self2 Suc_eq_plus1 zero_neq_numeral, metis mod_add_self2)
      then show ?thesis by (simp add: limb_bit_def)
    qed
    ultimately show ?thesis using Cons False by simp
  qed
qed simp

lemma big_val_div_zero: "length a * 64 \<le> i \<Longrightarrow> big_val a div 2 ^ i = 0"
proof -
  assume "length a * 64 \<le> i"
  then have "radix a \<le> 2 ^ i"
    by (simp add: limb_base_power)
  with big_val_less [of a] show ?thesis by simp
qed

lemma big_bit_val: "big_bit a i \<longleftrightarrow> odd (big_val a div 2 ^ i)"
  by (cases "length a * 64 \<le> i") (simp_all add: big_bit_def limb_bit_val big_val_div_zero not_le)

lemma limb_bit_set: "limb_bit a i \<in> {0, 1}"
  by (simp add: limb_bit_def and_one_eq mod_2_eq_odd)

lemma top_bit_some: "unat x < 2 ^ k \<Longrightarrow> x \<noteq> 0 \<Longrightarrow> \<exists>b. top_bit x k = Some b \<and> 2 ^ b \<le> unat x \<and> unat x < 2 ^ Suc b"
proof (induction k)
  case (Suc k)
  have odd: "drop_bit k x AND 1 \<noteq> 0 \<longleftrightarrow> odd (unat x div 2 ^ k)"
    using bit_unsigned_iff [where 'a = nat, of x k]
    by (simp add: and_one_eq mod_2_eq_odd bit_iff_odd_drop_bit drop_bit_eq_div)
  have "unat x div 2 ^ k < 2" using Suc.prems(1) by (simp add: less_mult_imp_div_less mult.commute)
  then consider "unat x div 2 ^ k = 0" | "unat x div 2 ^ k = 1" by linarith
  then show ?case
  proof cases
    case 1
    then have "unat x < 2 ^ k" by (simp add: div_eq_0_iff)
    with Suc odd 1 show ?thesis by simp
  next
    case 2
    then have "2 ^ k \<le> unat x" by (metis div_less leI zero_neq_one)
    with Suc.prems odd 2 show ?thesis by simp
  qed
qed (simp add: unat_eq_0)

lemma bitlen_from_val:
  assumes "i \<le> length a"
  shows "big_val (take i a) < 2 ^ bitlen_from a i
    \<and> (big_val (take i a) \<noteq> 0 \<longrightarrow> 2 ^ bitlen_from a i \<le> 2 * big_val (take i a))"
  using assms
proof (induction i)
  case (Suc i)
  then have i: "i < length a" and IH: "big_val (take i a) < 2 ^ bitlen_from a i"
    "big_val (take i a) \<noteq> 0 \<longrightarrow> 2 ^ bitlen_from a i \<le> 2 * big_val (take i a)" by simp_all
  show ?case
  proof (cases "a ! i = 0")
    case True
    with IH show ?thesis by (simp add: big_val_take_Suc [OF i])
  next
    case False
    from top_bit_some [OF unat_u64_less False]
    obtain b where b: "top_bit (a ! i) 64 = Some b" "2 ^ b \<le> unat (a ! i)" "unat (a ! i) < 2 ^ Suc b"
      by blast
    have base: "limb_base ^ i = 2 ^ (i * 64)" by (simp add: limb_base_power)
    have "big_val (take i a) + limb_base ^ i * unat (a ! i) < limb_base ^ i * Suc (unat (a ! i))"
      using big_val_less [of "take i a"] i by simp
    also have "\<dots> \<le> 2 ^ (i * 64) * 2 ^ Suc b" unfolding base using b(3) by (intro mult_le_mono2) simp
    finally have "big_val (take (Suc i) a) < 2 ^ (i * 64 + b + 1)"
      by (simp add: big_val_take_Suc [OF i] power_add mult.left_commute)
    moreover have "2 ^ (i * 64) * 2 ^ b \<le> limb_base ^ i * unat (a ! i)"
      unfolding base using b(2) by (intro mult_le_mono2)
    then have "2 ^ (i * 64 + b + 1) \<le> 2 * big_val (take (Suc i) a)"
      by (simp add: big_val_take_Suc [OF i] power_add)
    ultimately show ?thesis using False b(1) by simp
  qed
qed simp

lemma bitlen_val:
  "big_val a < 2 ^ bitlen a" "big_val a \<noteq> 0 \<Longrightarrow> 2 ^ bitlen a \<le> 2 * big_val a"
  using bitlen_from_val [of "length a" a] by (simp_all add: bitlen_def)

subsection \<open>Exponentiation over an abstract multiplication\<close>

locale residue_mul =
  fixes mul :: "'c \<Rightarrow> 'a \<Rightarrow> 'a \<Rightarrow> 'a" and rep :: "'c \<Rightarrow> 'a \<Rightarrow> nat \<Rightarrow> bool"
  assumes rep_mul: "rep c x v \<Longrightarrow> rep c y w \<Longrightarrow> rep c (mul c x y) (v * w)"
begin

lemma rep_square: "rep c x (v ^ k) \<Longrightarrow> rep c (mul c x x) (v ^ (2 * k))"
  using rep_mul [of c x "v ^ k" x "v ^ k"] by (simp add: mult_2 power_add)

text \<open>The step of square-and-multiply and of the ladder: the exponent read so far gains a bit.\<close>

lemma square_multiply_step:
  assumes "rep c x (v ^ k)" "rep c m v"
  shows "rep c (if b then mul c (mul c x x) m else mul c x x) (v ^ (2 * k + of_bool b))"
  using rep_square [OF assms(1)] rep_mul [OF rep_square [OF assms(1)] assms(2)]
  by (simp add: mult.commute)

lemma ladder_pair_step:
  assumes "rep c x (v ^ k)" "rep c y (v ^ Suc k)"
  shows "rep c (if b then mul c y x else mul c x x) (v ^ (2 * k + of_bool b))"
    and "rep c (if b then mul c y y else mul c x y) (v ^ Suc (2 * k + of_bool b))"
proof -
  have "v ^ k * v ^ Suc k = v ^ Suc (2 * k)" "v ^ Suc k * v ^ k = v ^ Suc (2 * k)"
    by (simp_all add: mult_2 power_add)
  with rep_mul [OF assms] rep_mul [OF assms(2,1)]
  have mixed: "rep c (mul c x y) (v ^ Suc (2 * k))" "rep c (mul c y x) (v ^ Suc (2 * k))"
    by (simp_all only:)
  have "rep c (mul c y y) (v ^ Suc (Suc (2 * k)))"
    using rep_square [OF assms(2)] by (simp only: mult_Suc_right add_2_eq_Suc)
  with mixed rep_square [OF assms(1)]
  show "rep c (if b then mul c y x else mul c x x) (v ^ (2 * k + of_bool b))"
    and "rep c (if b then mul c y y else mul c x y) (v ^ Suc (2 * k + of_bool b))"
    by (cases b; simp only: if_True if_False of_bool_eq add_0_right Suc_eq_plus1 [symmetric])+
qed

end

subsection \<open>Montgomery residues\<close>

lemma mod_cancel:
  fixes a b r n :: nat
  assumes "coprime r n" "(a * r) mod n = (b * r) mod n"
  shows "a mod n = b mod n"
proof -
  have le: "a mod n = b mod n" if "b \<le> a" "(a * r) mod n = (b * r) mod n" for a b
  proof -
    from that have "n dvd a * r - b * r" by (subst mod_eq_dvd_iff_nat [symmetric]) simp_all
    then have "n dvd (a - b) * r" by (simp add: diff_mult_distrib)
    with assms(1) have "n dvd a - b" by (simp add: coprime_dvd_mult_left_iff coprime_commute)
    with that(1) show ?thesis by (simp add: mod_eq_dvd_iff_nat)
  qed
  show ?thesis
  proof (cases "b \<le> a")
    case True
    then show ?thesis using assms(2) by (rule le)
  next
    case False
    then have "a \<le> b" by simp
    from le [OF this assms(2) [symmetric]] show ?thesis by simp
  qed
qed

definition odd_modulus :: "big \<Rightarrow> bool" where
  "odd_modulus n \<longleftrightarrow> n \<noteq> [] \<and> odd (big_val n)"

lemma odd_modulusD:
  assumes "odd_modulus n"
  shows "n \<noteq> []" "0 < big_val n" "mont_inverse n (compute_n_inv n)" "coprime (radix n) (big_val n)"
proof -
  show ne: "n \<noteq> []" and "0 < big_val n" using assms by (auto simp: odd_modulus_def intro: odd_pos)
  have "odd (unat (n ! 0))" using ne assms by (cases n) (simp_all add: odd_modulus_def even_base)
  then show "mont_inverse n (compute_n_inv n)" by (rule compute_n_inv_inverse)
  show "coprime (radix n) (big_val n)"
    using assms by (simp add: odd_modulus_def limb_base_power)
qed

text \<open>\<open>x\<close> is the residue of \<open>v\<close>: below n and congruent to v times R.\<close>

definition mont_rep :: "big \<Rightarrow> big \<Rightarrow> nat \<Rightarrow> bool" where
  "mont_rep n x v \<longleftrightarrow> odd_modulus n \<and> length x = length n \<and> big_val x < big_val n
     \<and> big_val x mod big_val n = (v * radix n) mod big_val n"

definition mont_times :: "big \<Rightarrow> big \<Rightarrow> big \<Rightarrow> big" where
  "mont_times n x y = mont_mul x y n (compute_n_inv n)"

lemma mont_times_result:
  assumes "odd_modulus n" "length x = length n" "length y = length n"
    and "big_val y < big_val n \<or> big_val x < big_val n"
  shows "length (mont_times n x y) = length n" "big_val (mont_times n x y) < big_val n"
    and "(big_val (mont_times n x y) * radix n) mod big_val n = (big_val x * big_val y) mod big_val n"
proof -
  note n = odd_modulusD [OF assms(1)]
  have "big_val x < radix n" "big_val y < radix n"
    using big_val_less [of x] big_val_less [of y] assms by simp_all
  with assms(4) have less: "big_val x * big_val y < big_val n * radix n"
    by (auto intro: mult_strict_mono simp: mult.commute [of "big_val x" "big_val y"])
      (metis mult.commute mult_strict_mono' zero_le)+
  from mont_mul_val [OF assms(2,3) n(1,3) less]
  show "length (mont_times n x y) = length n" "big_val (mont_times n x y) < big_val n"
    and "(big_val (mont_times n x y) * radix n) mod big_val n = (big_val x * big_val y) mod big_val n"
    by (simp_all add: mont_times_def)
qed

lemma mont_rep_mul:
  assumes "mont_rep n x v" "mont_rep n y w"
  shows "mont_rep n (mont_times n x y) (v * w)"
proof -
  from assms have n: "odd_modulus n" and l: "length x = length n" "length y = length n"
    and xy: "big_val x < big_val n" "big_val y < big_val n"
    and cx: "big_val x mod big_val n = (v * radix n) mod big_val n"
    and cy: "big_val y mod big_val n = (w * radix n) mod big_val n" by (auto simp: mont_rep_def)
  note t = mont_times_result [OF n l disjI1 [OF xy(2)]]
  have "(big_val (mont_times n x y) * radix n) mod big_val n = (v * radix n * (w * radix n)) mod big_val n"
    unfolding t(3) by (rule mod_mult_cong [OF cx cy])
  then have "(big_val (mont_times n x y) * radix n) mod big_val n = (v * w * radix n * radix n) mod big_val n"
    by (simp add: mult_ac)
  from mod_cancel [OF odd_modulusD(4) [OF n] this] show ?thesis
    using n t(1,2) by (simp add: mont_rep_def)
qed

interpretation mont: residue_mul mont_times mont_rep
  by unfold_locales (rule mont_rep_mul)

lemma mont_rep_one:
  assumes "odd_modulus n"
  shows "mont_rep n (compute_R_mod_n n) 1"
  using R_mod_n(1,2) [OF odd_modulusD(1,2) [OF assms]] odd_modulusD(2) [OF assms] assms
  by (simp add: mont_rep_def)

text \<open>Into the domain by R squared, for an operand that need not be reduced, and out by one.\<close>

lemma mont_rep_in:
  assumes "odd_modulus n" "length m = length n"
  shows "mont_rep n (mont_times n m (compute_R2_mod_n n)) (big_val m)"
proof -
  note n = odd_modulusD [OF assms(1)]
  note r2 = R_mod_n(3,4) [OF n(1,2)]
  have "big_val (compute_R2_mod_n n) < big_val n" using n(2) by (simp add: r2(2))
  note t = mont_times_result [OF assms r2(1) disjI1 [OF this]]
  have "(big_val (mont_times n m (compute_R2_mod_n n)) * radix n) mod big_val n
      = (big_val m * radix n * radix n) mod big_val n"
    unfolding t(3) r2(2) by (simp add: mod_simps mult.assoc)
  from mod_cancel [OF n(4) this] show ?thesis using assms(1) t(1,2) by (simp add: mont_rep_def)
qed

lemma mont_rep_out:
  assumes "mont_rep n x v"
  shows "length (mont_times n x (big_one (length n))) = length n"
    and "big_val (mont_times n x (big_one (length n))) = v mod big_val n"
proof -
  from assms have n: "odd_modulus n" and l: "length x = length n" "big_val x < big_val n"
    and c: "big_val x mod big_val n = (v * radix n) mod big_val n" by (auto simp: mont_rep_def)
  note d = odd_modulusD [OF n]
  have one: "length (big_one (length n)) = length n" "big_val (big_one (length n)) = 1"
    using d(1) by (simp_all add: big_val_one)
  note t = mont_times_result [OF n l(1) one(1) disjI2 [OF l(2)]]
  show "length (mont_times n x (big_one (length n))) = length n" by (rule t(1))
  have "(big_val (mont_times n x (big_one (length n))) * radix n) mod big_val n = (v * radix n) mod big_val n"
    using t(3) c by (simp add: one(2))
  from mod_cancel [OF d(4) this] t(2)
  show "big_val (mont_times n x (big_one (length n))) = v mod big_val n" by simp
qed

subsection \<open>The two loops\<close>

lemma exponent_bit:
  fixes v :: nat
  shows "2 * (v div 2 ^ Suc i) + of_bool (odd (v div 2 ^ i)) = v div 2 ^ i"
proof -
  have "v div 2 ^ Suc i = v div 2 ^ i div 2" unfolding power_Suc2 by (rule div_mult2_eq)
  then show ?thesis by (simp add: mod_2_eq_odd [symmetric])
qed

lemma square_multiply_rep:
  assumes "mont_rep n m v" "mont_rep n r (v ^ (big_val e div 2 ^ i))"
  shows "mont_rep n (square_multiply n (compute_n_inv n) m e i r) (v ^ big_val e)"
  using assms(2)
proof (induction i arbitrary: r)
  case (Suc i)
  from mont.square_multiply_step [OF Suc.prems assms(1), of "big_bit e i"]
  have "mont_rep n (if big_bit e i then mont_times n (mont_times n r r) m else mont_times n r r)
      (v ^ (big_val e div 2 ^ i))"
    unfolding big_bit_val exponent_bit .
  from Suc.IH [OF this] show ?case
    by (cases "big_bit e i") (simp_all add: mont_times_def Let_def)
qed simp

lemma ladder_step_eq:
  assumes "length x = length n" "length y = length n" "odd_modulus n" "b \<in> {0, 1}"
    and "big_val x < big_val n" "big_val y < big_val n"
  shows "ladder_step n (compute_n_inv n) b (x, y) =
    (if b = 1 then (mont_times n y x, mont_times n y y) else (mont_times n x x, mont_times n x y))"
proof -
  have l: "length (mont_times n u v) = length n" if "length u = length n" "length v = length n" "big_val u < big_val n" for u v
    using mont_times_result(1) [OF assms(3) that(1,2) disjI2 [OF that(3)]] .
  show ?thesis
  proof (cases "b = 1")
    case True
    with assms l [OF assms(2,1,6)] l [OF assms(2,2,6)] show ?thesis
      by (simp add: ladder_step_def const_time_swap_eq mont_times_def [symmetric])
  next
    case False
    with assms l [OF assms(1,2,5)] l [OF assms(1,1,5)] show ?thesis
      by (simp add: ladder_step_def const_time_swap_eq mont_times_def [symmetric])
  qed
qed

lemma ladder_rep:
  assumes "mont_rep n x (v ^ (big_val e div 2 ^ i))" "mont_rep n y (v ^ Suc (big_val e div 2 ^ i))"
    and "i \<le> length e * 64"
  shows "mont_rep n (fst (ladder n (compute_n_inv n) e i (x, y))) (v ^ big_val e)"
  using assms
proof (induction i arbitrary: x y)
  case (Suc i)
  have bit: "limb_bit e i = of_bool (odd (big_val e div 2 ^ i))" using Suc.prems(3) by (simp add: limb_bit_val)
  let ?b = "odd (big_val e div 2 ^ i)"
  let ?x = "if ?b then mont_times n y x else mont_times n x x"
  let ?y = "if ?b then mont_times n y y else mont_times n x y"
  from mont.ladder_pair_step [OF Suc.prems(1,2), of ?b]
  have reps: "mont_rep n ?x (v ^ (big_val e div 2 ^ i))" "mont_rep n ?y (v ^ Suc (big_val e div 2 ^ i))"
    unfolding exponent_bit by simp_all
  have "ladder_step n (compute_n_inv n) (limb_bit e i) (x, y) = (?x, ?y)"
    using Suc.prems(1,2) limb_bit_set [of e i] by (subst ladder_step_eq) (auto simp: mont_rep_def bit)
  with Suc.IH [OF reps] Suc.prems(3) show ?case by simp
qed simp

lemma modexp_val:
  assumes "odd_modulus n" "length m = length n"
  shows "length (modexp m e n) = length n"
    and "big_val (modexp m e n) = big_val m ^ big_val e mod big_val n"
proof -
  have "big_val e div 2 ^ bitlen e = 0" using bitlen_val(1) [of e] by simp
  with mont_rep_one [OF assms(1)]
  have "mont_rep n (compute_R_mod_n n) (big_val m ^ (big_val e div 2 ^ bitlen e))" by simp
  from mont_rep_out [OF square_multiply_rep [OF mont_rep_in [OF assms] this]]
  show "length (modexp m e n) = length n"
    and "big_val (modexp m e n) = big_val m ^ big_val e mod big_val n"
    by (simp_all add: modexp_def Let_def mont_times_def)
qed

lemma modexp_consttime_val:
  assumes "odd_modulus n" "length m = length n" "length e = length n"
  shows "length (modexp_consttime m e n) = length n"
    and "big_val (modexp_consttime m e n) = big_val m ^ big_val e mod big_val n"
proof -
  let ?i = "length n * 64"
  have "big_val e div 2 ^ ?i = 0" using assms(3) by (intro big_val_div_zero) simp
  with mont_rep_one [OF assms(1)] mont_rep_in [OF assms(1,2)]
  have "mont_rep n (compute_R_mod_n n) (big_val m ^ (big_val e div 2 ^ ?i))"
    "mont_rep n (mont_times n m (compute_R2_mod_n n)) (big_val m ^ Suc (big_val e div 2 ^ ?i))" by simp_all
  from mont_rep_out [OF ladder_rep [OF this]] assms(3)
  show "length (modexp_consttime m e n) = length n"
    and "big_val (modexp_consttime m e n) = big_val m ^ big_val e mod big_val n"
    by (simp_all add: modexp_consttime_def Let_def mont_times_def)
qed

end
