(* ===== verification/Accelerator.thy ===== *)
theory Accelerator
  imports Network HostPrograms Modexp
begin

text \<open>
  The RSA elements (\<open>elements/crypto/RSA_ModExp_1024.clnp\<close>, \<open>_2048\<close>, \<open>_4096\<close>), which differ in the
  number L of limbs only: a state machine that collects three operands of L / 4 flits each, computes the
  power one multiplication per call and puts the result out. The indices are at most L / 4 and the
  index of a bit is at least -1 and below 64 L, so they are numbers here.
\<close>

subsection \<open>The state machine\<close>

datatype rsa_phase =
  S_COLLECT | S_INIT | S_FIND_BIT | S_SQUARE | S_MAYBE_MUL | S_NEXT_BIT | S_FINAL | S_EMIT

record rsa_state =
  rs_phase :: rsa_phase
  rs_m_idx :: nat
  rs_e_idx :: nat
  rs_n_idx :: nat
  rs_out_idx :: nat
  rs_bit_idx :: int
  rs_m_buf :: big
  rs_e_buf :: big
  rs_n_buf :: big
  rs_c_buf :: big
  rs_m_mont :: big
  rs_r_mont :: big
  rs_R2_val :: big
  rs_n_inv :: u64

definition rsa_start :: "nat \<Rightarrow> rsa_state" where
  "rsa_start L =
     \<lparr>rs_phase = S_COLLECT, rs_m_idx = 0, rs_e_idx = 0, rs_n_idx = 0, rs_out_idx = 0, rs_bit_idx = 0,
      rs_m_buf = big_zero L, rs_e_buf = big_zero L, rs_n_buf = big_zero L, rs_c_buf = big_zero L,
      rs_m_mont = big_zero L, rs_r_mont = big_zero L, rs_R2_val = big_zero L, rs_n_inv = 0\<rparr>"

text \<open>One operand: the index and the buffer after a call in which the port may have a flit.\<close>

definition store_limbs :: "nat \<Rightarrow> flit \<Rightarrow> big \<Rightarrow> big" where
  "store_limbs idx f buf = fold (\<lambda>i b. b[idx * 4 + i := get_lane (int i) f]) [0..<4] buf"

definition take_operand :: "nat \<Rightarrow> nat \<Rightarrow> nat \<times> big \<times> ports \<Rightarrow> nat \<times> big \<times> ports" where
  "take_operand flits i x = (case x of (idx, buf, p) \<Rightarrow>
     if idx < flits \<and> input_ready (PORT_BIT i) p
     then (let (f, p') = read_input_port (PORT_BIT i) p in (idx + 1, store_limbs idx f buf, p'))
     else (idx, buf, p))"

definition rsa_collect_operands :: "nat \<Rightarrow> rsa_state body" where
  "rsa_collect_operands L lc =
     (let st = lc_state lc;
          (m_idx, m_buf, p1) = take_operand (L div 4) 1 (rs_m_idx st, rs_m_buf st, lc_ports lc);
          (e_idx, e_buf, p2) = take_operand (L div 4) 2 (rs_e_idx st, rs_e_buf st, p1);
          (n_idx, n_buf, p3) = take_operand (L div 4) 3 (rs_n_idx st, rs_n_buf st, p2)
      in lc\<lparr>lc_ports := p3, lc_state := st\<lparr>rs_m_idx := m_idx, rs_m_buf := m_buf, rs_e_idx := e_idx, rs_e_buf := e_buf,
            rs_n_idx := n_idx, rs_n_buf := n_buf,
            rs_phase := (if m_idx = L div 4 \<and> e_idx = L div 4 \<and> n_idx = L div 4 then S_INIT else rs_phase st)\<rparr>\<rparr>)"

text \<open>The steps that compute.\<close>

fun rsa_compute :: "nat \<Rightarrow> rsa_phase \<Rightarrow> rsa_state \<Rightarrow> rsa_state" where
  "rsa_compute L S_INIT st =
     (let n = rs_n_buf st; n_inv = compute_n_inv n; R2 = compute_R2_mod_n n
      in st\<lparr>rs_n_inv := n_inv, rs_R2_val := R2, rs_m_mont := mont_mul (rs_m_buf st) R2 n n_inv,
            rs_r_mont := compute_R_mod_n n, rs_phase := S_FIND_BIT\<rparr>)"
| "rsa_compute L S_FIND_BIT st =
     (let b = int (bitlen (rs_e_buf st)) - 1
      in st\<lparr>rs_bit_idx := b, rs_phase := (if b < 0 then S_FINAL else S_SQUARE)\<rparr>)"
| "rsa_compute L S_SQUARE st =
     st\<lparr>rs_r_mont := mont_mul (rs_r_mont st) (rs_r_mont st) (rs_n_buf st) (rs_n_inv st), rs_phase := S_MAYBE_MUL\<rparr>"
| "rsa_compute L S_MAYBE_MUL st =
     st\<lparr>rs_r_mont := (if 0 \<le> rs_bit_idx st \<and> big_bit (rs_e_buf st) (nat (rs_bit_idx st))
                      then mont_mul (rs_r_mont st) (rs_m_mont st) (rs_n_buf st) (rs_n_inv st) else rs_r_mont st),
        rs_phase := S_NEXT_BIT\<rparr>"
| "rsa_compute L S_NEXT_BIT st =
     (let b = rs_bit_idx st - 1
      in st\<lparr>rs_bit_idx := b, rs_phase := (if b < 0 then S_FINAL else S_SQUARE)\<rparr>)"
| "rsa_compute L S_FINAL st =
     st\<lparr>rs_c_buf := mont_mul (rs_r_mont st) (big_one L) (rs_n_buf st) (rs_n_inv st), rs_phase := S_EMIT\<rparr>"
| "rsa_compute L ph st = st"

definition result_flit :: "nat \<Rightarrow> big \<Rightarrow> nat \<Rightarrow> flit" where
  "result_flit flits c k =
     set_eop (k + 1 = flits) (set_sop (k = 0)
       (fold (\<lambda>i f. set_lane (int i) (c ! (k * 4 + i)) f) [0..<4] flit_zero))"

definition rsa_emit :: "nat \<Rightarrow> rsa_state body" where
  "rsa_emit L lc =
     (let st = lc_state lc; k = rs_out_idx st
      in lc\<lparr>lc_ports := set_output_port 1 (result_flit (L div 4) (rs_c_buf st) k) (lc_ports lc),
            lc_state :=
              (if k + 1 = L div 4
               then st\<lparr>rs_m_idx := 0, rs_e_idx := 0, rs_n_idx := 0, rs_out_idx := 0, rs_phase := S_COLLECT\<rparr>
               else st\<lparr>rs_out_idx := k + 1\<rparr>)\<rparr>)"

definition rsa_handler :: "nat \<Rightarrow> rsa_state body" where
  "rsa_handler L lc =
     (case rs_phase (lc_state lc) of
        S_COLLECT \<Rightarrow> rsa_collect_operands L lc
      | S_EMIT \<Rightarrow> (if rs_out_idx (lc_state lc) < L div 4 then rsa_emit L lc else lc)
      | ph \<Rightarrow> lc\<lparr>lc_state := rsa_compute L ph (lc_state lc)\<rparr>)\<lparr>lc_ret := PORT_ALL\<rparr>"

subsection \<open>What the element promises\<close>

text \<open>The limbs of an operand, and the flits of the result for the operands number \<open>j\<close>.\<close>

definition limbs_of :: "flit list \<Rightarrow> big" where
  "limbs_of fs = concat (map flit_limbs fs)"

definition nth_operand :: "nat \<Rightarrow> flit list \<Rightarrow> nat \<Rightarrow> big" where
  "nth_operand flits fs j = limbs_of (take flits (drop (flits * j) fs))"

definition result_flits :: "nat \<Rightarrow> big \<Rightarrow> flit list" where
  "result_flits flits c = map (result_flit flits c) [0..<flits]"

definition rsa_result :: "nat \<Rightarrow> (nat \<Rightarrow> flit list) \<Rightarrow> nat \<Rightarrow> big" where
  "rsa_result flits got j =
     modexp (nth_operand flits (got 1) j) (nth_operand flits (got 2) j) (nth_operand flits (got 3) j)"

definition rsa_results :: "nat \<Rightarrow> (nat \<Rightarrow> flit list) \<Rightarrow> nat \<Rightarrow> flit list" where
  "rsa_results flits got k = concat (map (\<lambda>j. result_flits flits (rsa_result flits got j)) [0..<k])"

text \<open>The complete triples of operands among what has been read.\<close>

definition triples :: "nat \<Rightarrow> (nat \<Rightarrow> flit list) \<Rightarrow> nat" where
  "triples flits got = min (length (got 1) div flits) (min (length (got 2) div flits) (length (got 3) div flits))"

subsection \<open>Collecting the operands\<close>

lemma length_store_limbs [simp]: "length (store_limbs idx f buf) = length buf"
  by (simp add: store_limbs_def upt_rec)

lemma store_limbs_take:
  assumes "idx * 4 + 4 \<le> length buf"
  shows "take (4 * Suc idx) (store_limbs idx f buf) = take (4 * idx) buf @ flit_limbs f"
proof -
  have "take (4 * Suc idx) (store_limbs idx f buf) ! j = (take (4 * idx) buf @ flit_limbs f) ! j" if "j < 4 * Suc idx" for j
  proof -
    have "j < idx * 4 \<or> j = idx * 4 \<or> j = idx * 4 + 1 \<or> j = idx * 4 + 2 \<or> j = idx * 4 + 3"
      using that by presburger
    then show ?thesis using assms
      by (elim disjE) (simp_all add: store_limbs_def flit_limbs_def upt_rec nth_append eval_nat_numeral)
  qed
  then show ?thesis using assms by (intro nth_equalityI) (simp_all add: flit_limbs_def)
qed

lemma limbs_of_simps [simp]: "limbs_of [] = []" "limbs_of (xs @ ys) = limbs_of xs @ limbs_of ys" "limbs_of [f] = flit_limbs f"
  by (simp_all add: limbs_of_def)

text \<open>The operand number \<open>k\<close> has been stored up to the flit \<open>idx\<close>.\<close>

definition filling :: "nat \<Rightarrow> nat \<Rightarrow> nat \<Rightarrow> big \<Rightarrow> flit list \<Rightarrow> bool" where
  "filling flits k idx buf seen \<longleftrightarrow> idx \<le> flits \<and> length seen = flits * k + idx \<and> length buf = 4 * flits
     \<and> take (4 * idx) buf = limbs_of (drop (flits * k) seen)"

lemma filling_step:
  assumes "filling flits k idx buf seen" "idx < flits"
  shows "filling flits k (Suc idx) (store_limbs idx f buf) (seen @ [f])"
  using assms store_limbs_take [of idx buf f] by (simp add: filling_def)

lemma filling_full: "filling flits k flits buf seen \<Longrightarrow> buf = nth_operand flits seen k"
  by (clarsimp simp: filling_def nth_operand_def mult.commute)

lemma filling_next: "filling flits k flits buf seen \<Longrightarrow> filling flits (Suc k) 0 buf seen"
  by (simp add: filling_def)

lemma port_numbers: "builtin_ctz (PORT_BIT 1) = 1" "builtin_ctz (PORT_BIT 2) = 2" "builtin_ctz (PORT_BIT 3) = 3"
  by code_simp+

lemma take_operand_step:
  assumes "take_operand flits i (idx, buf, p) = (idx', buf', p')" "filling flits k idx buf seen" "i \<in> {1, 2, 3}"
  obtains fs where "filling flits k idx' buf' (seen @ fs)" "held_at i p = fs @ held_at i p'"
    "\<And>j. j \<noteq> i \<Longrightarrow> held_at j p' = held_at j p" "po_input_data p' = po_input_data p"
    "po_output_port p' = po_output_port p" "po_output_data p' = po_output_data p"
proof (cases "idx < flits \<and> input_ready (PORT_BIT i) p")
  case True
  have ctz: "builtin_ctz (PORT_BIT i) = i"
    using assms(3) port_numbers by auto
  have "idx' = Suc idx" "buf' = store_limbs idx (po_input_data p ! i) buf" "p' = clear_input_ready (PORT_BIT i) p"
    using assms(1) True by (simp_all add: take_operand_def read_input_port_def ctz)
  then show ?thesis using True filling_step [OF assms(2), of "po_input_data p ! i"]
    by (intro that [of "[po_input_data p ! i]"])
      (simp_all add: held_at_def clear_input_ready_def input_ready_def port_bit_and_not)
next
  case False
  then show ?thesis using assms that [of "[]"] by (auto simp: take_operand_def)
qed

subsection \<open>The computation\<close>

text \<open>The value of square-and-multiply before the last multiplication, which leaves the Montgomery form.\<close>

definition mont_power :: "big \<Rightarrow> big \<Rightarrow> big \<Rightarrow> nat \<Rightarrow> big \<Rightarrow> big" where
  "mont_power m e n j r =
     square_multiply n (compute_n_inv n) (mont_mul m (compute_R2_mod_n n) n (compute_n_inv n)) e j r"

lemma modexp_mont_power:
  "modexp m e n = mont_mul (mont_power m e n (bitlen e) (compute_R_mod_n n)) (big_one (length n)) n (compute_n_inv n)"
  by (simp add: modexp_def mont_power_def Let_def)

lemma mont_power_simps [simp]:
  "mont_power m e n 0 r = r"
  "mont_power m e n (Suc j) r =
     (let sq = mont_mul r r n (compute_n_inv n)
      in mont_power m e n j (if big_bit e j
           then mont_mul sq (mont_mul m (compute_R2_mod_n n) n (compute_n_inv n)) n (compute_n_inv n) else sq))"
  by (simp_all add: mont_power_def Let_def)

text \<open>The steps lead to the result of \<open>modexp\<close>.\<close>

definition on_the_way :: "big \<Rightarrow> big \<Rightarrow> big \<Rightarrow> rsa_state \<Rightarrow> bool" where
  "on_the_way m e n st \<longleftrightarrow>
     (let final = mont_power m e n (bitlen e) (compute_R_mod_n n); r = rs_r_mont st; j = nat (rs_bit_idx st) in
      rs_m_buf st = m \<and> rs_e_buf st = e \<and> rs_n_buf st = n \<and>
      (rs_phase st \<notin> {S_INIT, S_EMIT} \<longrightarrow> rs_n_inv st = compute_n_inv n \<and>
         rs_m_mont st = mont_mul m (compute_R2_mod_n n) n (compute_n_inv n)) \<and>
      (rs_phase st \<in> {S_SQUARE, S_MAYBE_MUL, S_NEXT_BIT} \<longrightarrow> 0 \<le> rs_bit_idx st) \<and>
      (case rs_phase st of
         S_COLLECT \<Rightarrow> False
       | S_INIT \<Rightarrow> True
       | S_FIND_BIT \<Rightarrow> r = compute_R_mod_n n
       | S_SQUARE \<Rightarrow> mont_power m e n (Suc j) r = final
       | S_MAYBE_MUL \<Rightarrow> mont_power m e n j (if big_bit e j then mont_mul r (rs_m_mont st) n (rs_n_inv st) else r) = final
       | S_NEXT_BIT \<Rightarrow> mont_power m e n j r = final
       | S_FINAL \<Rightarrow> r = final
       | S_EMIT \<Rightarrow> rs_c_buf st = modexp m e n))"

definition computing :: "rsa_phase \<Rightarrow> bool" where
  "computing ph \<longleftrightarrow> ph \<noteq> S_COLLECT \<and> ph \<noteq> S_EMIT"

text \<open>The calls left until the result is there.\<close>

definition calls_left :: "rsa_state \<Rightarrow> nat" where
  "calls_left st =
     (case rs_phase st of
        S_COLLECT \<Rightarrow> 0
      | S_INIT \<Rightarrow> 3 * bitlen (rs_e_buf st) + 3
      | S_FIND_BIT \<Rightarrow> 3 * bitlen (rs_e_buf st) + 2
      | S_SQUARE \<Rightarrow> 3 * nat (rs_bit_idx st) + 4
      | S_MAYBE_MUL \<Rightarrow> 3 * nat (rs_bit_idx st) + 3
      | S_NEXT_BIT \<Rightarrow> 3 * nat (rs_bit_idx st) + 2
      | S_FINAL \<Rightarrow> 1
      | S_EMIT \<Rightarrow> 0)"

lemma rsa_compute_on_the_way:
  assumes "on_the_way m e n st" "computing (rs_phase st)" "length n = L"
  shows "on_the_way m e n (rsa_compute L (rs_phase st) st)"
    and "calls_left st = Suc (calls_left (rsa_compute L (rs_phase st) st))"
proof -
  have "on_the_way m e n (rsa_compute L (rs_phase st) st) \<and> calls_left st = Suc (calls_left (rsa_compute L (rs_phase st) st))"
  proof (cases "rs_phase st")
    case S_INIT
    then show ?thesis using assms by (simp add: on_the_way_def Let_def calls_left_def)
  next
    case S_FIND_BIT
    then show ?thesis using assms
      by (cases "bitlen e") (simp_all add: on_the_way_def Let_def calls_left_def)
  next
    case S_SQUARE
    then show ?thesis using assms by (auto simp: on_the_way_def Let_def calls_left_def)
  next
    case S_MAYBE_MUL
    then show ?thesis using assms by (auto simp: on_the_way_def Let_def calls_left_def)
  next
    case S_NEXT_BIT
    then have "0 \<le> rs_bit_idx st" using assms(1) by (simp add: on_the_way_def Let_def)
    then consider "rs_bit_idx st = 0" | i where "rs_bit_idx st - 1 = int i" "nat (rs_bit_idx st) = Suc i"
    proof (cases "nat (rs_bit_idx st)")
      case (Suc i)
      then have "rs_bit_idx st - 1 = int i" by linarith
      with that(2) Suc show thesis by blast
    qed simp
    then show ?thesis
    proof cases
      case 1
      then show ?thesis using assms S_NEXT_BIT by (simp add: on_the_way_def Let_def calls_left_def)
    next
      case (2 i)
      have eq: "rsa_compute L S_NEXT_BIT st = st\<lparr>rs_bit_idx := int i, rs_phase := S_SQUARE\<rparr>" by (simp add: 2)
      from assms 2(2) show ?thesis unfolding S_NEXT_BIT eq by (simp add: on_the_way_def Let_def calls_left_def S_NEXT_BIT)
    qed
  next
    case S_FINAL
    then show ?thesis using assms by (simp add: on_the_way_def Let_def calls_left_def modexp_mont_power)
  qed (use assms in \<open>simp_all add: computing_def\<close>)
  then show "on_the_way m e n (rsa_compute L (rs_phase st) st)"
    and "calls_left st = Suc (calls_left (rsa_compute L (rs_phase st) st))" by blast+
qed

lemma rsa_compute_frame:
  "rs_m_idx (rsa_compute L ph st) = rs_m_idx st" "rs_e_idx (rsa_compute L ph st) = rs_e_idx st"
  "rs_n_idx (rsa_compute L ph st) = rs_n_idx st" "rs_out_idx (rsa_compute L ph st) = rs_out_idx st"
  by (cases ph; simp add: Let_def)+

subsection \<open>The kernel in a network\<close>

lemma nth_operand_append: "flits * Suc j \<le> length xs \<Longrightarrow> nth_operand flits (xs @ ys) j = nth_operand flits xs j"
  by (simp add: nth_operand_def)

text \<open>Results are determined by the complete triples of operands.\<close>

definition extends :: "nat \<Rightarrow> nat \<Rightarrow> (nat \<Rightarrow> flit list) \<Rightarrow> (nat \<Rightarrow> flit list) \<Rightarrow> bool" where
  "extends flits k seen got \<longleftrightarrow> (\<forall>i\<in>{1, 2, 3}. flits * k \<le> length (seen i) \<and> prefix (seen i) (got i))"

lemma extends_result:
  assumes "extends flits k seen got" "j < k"
  shows "rsa_result flits got j = rsa_result flits seen j"
proof -
  have "nth_operand flits (got i) j = nth_operand flits (seen i) j" if "i \<in> {1, 2, 3}" for i
  proof -
    have "flits * Suc j \<le> flits * k" using assms(2) by (intro mult_le_mono2) simp
    moreover from assms(1) that obtain ys where "got i = seen i @ ys" "flits * k \<le> length (seen i)"
      by (auto simp: extends_def prefix_def)
    ultimately show ?thesis by (simp add: nth_operand_append)
  qed
  then show ?thesis by (simp add: rsa_result_def)
qed

lemma extends_results: "extends flits k seen got \<Longrightarrow> rsa_results flits got k = rsa_results flits seen k"
  unfolding rsa_results_def by (intro arg_cong [where f = concat] map_cong refl) (simp add: extends_result)

lemma extends_triples:
  assumes "extends flits k seen got" "0 < flits"
  shows "k \<le> triples flits got"
proof -
  have "k \<le> length (got i) div flits" if "i \<in> {1, 2, 3}" for i
  proof -
    have "k * flits \<le> length (got i)"
      using assms(1) that prefix_length_le [of "seen i" "got i"] by (fastforce simp: extends_def mult.commute)
    then show ?thesis using assms(2) by (simp add: less_eq_div_iff_mult_less_eq)
  qed
  then show ?thesis by (simp add: triples_def)
qed

lemma results_prefix: "k \<le> t \<Longrightarrow> prefix (rsa_results flits got k) (rsa_results flits got t)"
proof -
  assume "k \<le> t"
  then have "[0..<t] = [0..<k] @ [k..<t]" using upt_add_eq_append [of 0 k "t - k"] by simp
  then show ?thesis by (simp add: rsa_results_def)
qed

lemma results_Suc: "rsa_results flits got (Suc k) = rsa_results flits got k @ result_flits flits (rsa_result flits got k)"
  by (simp add: rsa_results_def)

definition operands_in :: "nat \<Rightarrow> nat \<Rightarrow> rsa_state \<Rightarrow> (nat \<Rightarrow> flit list) \<Rightarrow> bool" where
  "operands_in flits k st seen \<longleftrightarrow> filling flits k (rs_m_idx st) (rs_m_buf st) (seen 1)
     \<and> filling flits k (rs_e_idx st) (rs_e_buf st) (seen 2) \<and> filling flits k (rs_n_idx st) (rs_n_buf st) (seen 3)"

text \<open>\<open>seen\<close> is what the body has taken, \<open>k\<close> the number of triples it has answered.\<close>

definition rsa_progress :: "nat \<Rightarrow> rsa_state \<Rightarrow> (nat \<Rightarrow> flit list) \<Rightarrow> nat \<Rightarrow> flit list \<Rightarrow> bool" where
  "rsa_progress flits st seen k out \<longleftrightarrow> operands_in flits k st seen \<and>
     (if rs_phase st = S_COLLECT then rs_out_idx st = 0 \<and> out = rsa_results flits seen k
      else rs_m_idx st = flits \<and> rs_e_idx st = flits \<and> rs_n_idx st = flits \<and> rs_out_idx st < flits \<and>
        (computing (rs_phase st) \<longrightarrow> rs_out_idx st = 0) \<and>
        on_the_way (rs_m_buf st) (rs_e_buf st) (rs_n_buf st) st \<and>
        out = rsa_results flits seen k @ take (rs_out_idx st) (result_flits flits (rsa_result flits seen k)))"

definition rsa_inv :: "nat \<Rightarrow> rsa_state locals \<Rightarrow> (nat \<Rightarrow> flit list) \<Rightarrow> flit list \<Rightarrow> bool" where
  "rsa_inv L lc got out \<longleftrightarrow> 4 \<le> length (po_input_data (lc_ports lc)) \<and> 2 \<le> length (po_output_data (lc_ports lc)) \<and>
     (\<exists>seen k. (\<forall>i\<in>{1, 2, 3}. got i = seen i @ held_at i (lc_ports lc)) \<and> rsa_progress (L div 4) (lc_state lc) seen k out)"

lemma rsa_invI:
  assumes "4 \<le> length (po_input_data (lc_ports lc))" "2 \<le> length (po_output_data (lc_ports lc))"
    and "\<And>i. i \<in> {1, 2, 3} \<Longrightarrow> got i = seen i @ held_at i (lc_ports lc)" "rsa_progress (L div 4) (lc_state lc) seen k out"
  shows "rsa_inv L lc got out"
  using assms unfolding rsa_inv_def by blast

lemma operands_extend:
  "operands_in flits k st seen \<Longrightarrow> (\<And>i. i \<in> {1, 2, 3} \<Longrightarrow> prefix (seen i) (got i)) \<Longrightarrow> extends flits k seen got"
  by (simp add: operands_in_def extends_def filling_def)

lemma full_operands:
  assumes "operands_in flits k st seen" "rs_m_idx st = flits" "rs_e_idx st = flits" "rs_n_idx st = flits"
  shows "rsa_result flits seen k = modexp (rs_m_buf st) (rs_e_buf st) (rs_n_buf st)"
    and "length (rs_n_buf st) = 4 * flits" and "extends flits (Suc k) seen seen"
proof -
  have f: "filling flits k flits (rs_m_buf st) (seen 1)" "filling flits k flits (rs_e_buf st) (seen 2)"
    "filling flits k flits (rs_n_buf st) (seen 3)" using assms unfolding operands_in_def by simp_all
  show "rsa_result flits seen k = modexp (rs_m_buf st) (rs_e_buf st) (rs_n_buf st)"
    unfolding rsa_result_def f [THEN filling_full, symmetric] ..
  show "length (rs_n_buf st) = 4 * flits" "extends flits (Suc k) seen seen" using f by (auto simp: filling_def extends_def)
qed

lemma rsa_inv_prefix:
  assumes "rsa_inv L lc got out" "0 < L div 4"
  shows "prefix out (rsa_results (L div 4) got (triples (L div 4) got))"
proof -
  from assms(1) obtain seen k where seen: "\<And>i. i \<in> {1, 2, 3} \<Longrightarrow> got i = seen i @ held_at i (lc_ports lc)"
    and p: "rsa_progress (L div 4) (lc_state lc) seen k out" unfolding rsa_inv_def by blast
  from p have ops: "operands_in (L div 4) k (lc_state lc) seen" by (simp add: rsa_progress_def)
  have pre: "prefix (seen i) (got i)" if "i \<in> {1, 2, 3}" for i using seen [OF that] by simp
  have ex: "extends (L div 4) k seen got" by (rule operands_extend [OF ops pre])
  show ?thesis
  proof (cases "rs_phase (lc_state lc) = S_COLLECT")
    case True
    then have "out = rsa_results (L div 4) got k" using p extends_results [OF ex] by (simp add: rsa_progress_def)
    with results_prefix [OF extends_triples [OF ex assms(2)]] show ?thesis by simp
  next
    case False
    with p have "prefix out (rsa_results (L div 4) seen (Suc k))"
      by (auto simp: rsa_progress_def results_Suc take_is_prefix)
    moreover have ex': "extends (L div 4) (Suc k) seen got"
      using full_operands(3) [OF ops] p False pre by (auto simp: rsa_progress_def extends_def)
    ultimately have "prefix out (rsa_results (L div 4) got (Suc k))" by (simp add: extends_results)
    with results_prefix [OF extends_triples [OF ex' assms(2)]] show ?thesis using prefix_order.trans by blast
  qed
qed

lemma collect_operands_step:
  assumes ops: "operands_in (L div 4) k (lc_state lc) seen" and lc': "lc' = rsa_collect_operands L lc"
  obtains seen' where "operands_in (L div 4) k (lc_state lc') seen'"
    "\<And>i. i \<in> {1, 2, 3} \<Longrightarrow> seen' i @ held_at i (lc_ports lc') = seen i @ held_at i (lc_ports lc)"
    "po_input_data (lc_ports lc') = po_input_data (lc_ports lc)" "po_output_port (lc_ports lc') = po_output_port (lc_ports lc)"
    "po_output_data (lc_ports lc') = po_output_data (lc_ports lc)" "rs_out_idx (lc_state lc') = rs_out_idx (lc_state lc)"
    "rs_phase (lc_state lc') = (if rs_m_idx (lc_state lc') = L div 4 \<and> rs_e_idx (lc_state lc') = L div 4
       \<and> rs_n_idx (lc_state lc') = L div 4 then S_INIT else rs_phase (lc_state lc))"
proof -
  let ?st = "lc_state lc" let ?F = "L div 4"
  obtain i1 b1 p1 where s1: "take_operand ?F 1 (rs_m_idx ?st, rs_m_buf ?st, lc_ports lc) = (i1, b1, p1)" by (metis prod_cases3)
  obtain i2 b2 p2 where s2: "take_operand ?F 2 (rs_e_idx ?st, rs_e_buf ?st, p1) = (i2, b2, p2)" by (metis prod_cases3)
  obtain i3 b3 p3 where s3: "take_operand ?F 3 (rs_n_idx ?st, rs_n_buf ?st, p2) = (i3, b3, p3)" by (metis prod_cases3)
  from ops have f: "filling ?F k (rs_m_idx ?st) (rs_m_buf ?st) (seen 1)" "filling ?F k (rs_e_idx ?st) (rs_e_buf ?st) (seen 2)"
    "filling ?F k (rs_n_idx ?st) (rs_n_buf ?st) (seen 3)" by (simp_all add: operands_in_def)
  from take_operand_step [OF s1 f(1)] obtain f1 where 1: "filling ?F k i1 b1 (seen 1 @ f1)" "held_at 1 (lc_ports lc) = f1 @ held_at 1 p1"
    "\<And>j. j \<noteq> 1 \<Longrightarrow> held_at j p1 = held_at j (lc_ports lc)" "po_input_data p1 = po_input_data (lc_ports lc)"
    "po_output_port p1 = po_output_port (lc_ports lc)" "po_output_data p1 = po_output_data (lc_ports lc)" by blast
  from take_operand_step [OF s2 f(2)] obtain f2 where 2: "filling ?F k i2 b2 (seen 2 @ f2)" "held_at 2 p1 = f2 @ held_at 2 p2"
    "\<And>j. j \<noteq> 2 \<Longrightarrow> held_at j p2 = held_at j p1" "po_input_data p2 = po_input_data p1"
    "po_output_port p2 = po_output_port p1" "po_output_data p2 = po_output_data p1" by blast
  from take_operand_step [OF s3 f(3)] obtain f3 where 3: "filling ?F k i3 b3 (seen 3 @ f3)" "held_at 3 p2 = f3 @ held_at 3 p3"
    "\<And>j. j \<noteq> 3 \<Longrightarrow> held_at j p3 = held_at j p2" "po_input_data p3 = po_input_data p2"
    "po_output_port p3 = po_output_port p2" "po_output_data p3 = po_output_data p2" by blast
  have st: "lc_ports lc' = p3" "rs_m_idx (lc_state lc') = i1" "rs_m_buf (lc_state lc') = b1" "rs_e_idx (lc_state lc') = i2"
    "rs_e_buf (lc_state lc') = b2" "rs_n_idx (lc_state lc') = i3" "rs_n_buf (lc_state lc') = b3"
    "rs_out_idx (lc_state lc') = rs_out_idx ?st"
    "rs_phase (lc_state lc') = (if i1 = ?F \<and> i2 = ?F \<and> i3 = ?F then S_INIT else rs_phase ?st)"
    unfolding lc' rsa_collect_operands_def Let_def s1 s2 s3 prod.case by simp_all
  define seen' where "seen' = seen(1 := seen 1 @ f1, 2 := seen 2 @ f2, 3 := seen 3 @ f3)"
  show thesis
  proof (rule that [of seen'])
    show "operands_in ?F k (lc_state lc') seen'" using 1(1) 2(1) 3(1) by (simp add: operands_in_def st seen'_def)
    show "seen' i @ held_at i (lc_ports lc') = seen i @ held_at i (lc_ports lc)" if "i \<in> {1, 2, 3}" for i
      using that 1(2,3) 2(2,3) 3(2,3) by (auto simp: st(1) seen'_def simp del: One_nat_def)
  qed (use 1(4-6) 2(4-6) 3(4-6) in \<open>simp_all add: st\<close>)
qed

lemma emit_progress:
  assumes p: "rsa_progress flits st seen k out" and ph: "rs_phase st = S_EMIT" and L: "L div 4 = flits"
  shows "rsa_progress flits (lc_state (rsa_emit L (lc\<lparr>lc_state := st\<rparr>)))
    seen (if rs_out_idx st + 1 = flits then Suc k else k) (out @ [result_flit flits (rs_c_buf st) (rs_out_idx st)])"
proof -
  let ?j = "rs_out_idx st" let ?res = "result_flits flits (rsa_result flits seen k)"
  from p ph have ops: "operands_in flits k st seen" and full: "rs_m_idx st = flits" "rs_e_idx st = flits" "rs_n_idx st = flits"
    and j: "?j < flits" and c: "rs_c_buf st = modexp (rs_m_buf st) (rs_e_buf st) (rs_n_buf st)"
    and out: "out = rsa_results flits seen k @ take ?j ?res"
    by (simp_all add: rsa_progress_def on_the_way_def Let_def)
  have "?res ! ?j = result_flit flits (rs_c_buf st) ?j" "?j < length ?res"
    using j by (simp_all add: result_flits_def c full_operands(1) [OF ops full])
  then have out': "out @ [result_flit flits (rs_c_buf st) ?j] = rsa_results flits seen k @ take (Suc ?j) ?res"
    by (simp add: out take_Suc_conv_app_nth)
  show ?thesis
  proof (cases "?j + 1 = flits")
    case True
    then have "take (Suc ?j) ?res = ?res" by (simp add: result_flits_def)
    moreover have "operands_in flits (Suc k) (lc_state (rsa_emit L (lc\<lparr>lc_state := st\<rparr>))) seen"
      using ops full True by (auto simp: rsa_emit_def Let_def L operands_in_def intro: filling_next)
    ultimately show ?thesis using True out' by (simp add: rsa_progress_def rsa_emit_def Let_def L results_Suc)
  next
    case False
    have "operands_in flits k (lc_state (rsa_emit L (lc\<lparr>lc_state := st\<rparr>))) seen"
      using ops False by (simp add: rsa_emit_def Let_def L operands_in_def)
    then show ?thesis using False full c ph j out'
      by (simp add: rsa_progress_def rsa_emit_def Let_def L on_the_way_def computing_def)
  qed
qed

lemma compute_progress:
  assumes p: "rsa_progress flits st seen k out" and ph: "computing (rs_phase st)" and L: "4 * flits = L"
  shows "rsa_progress flits (rsa_compute L (rs_phase st) st) seen k out"
proof -
  let ?st = "rsa_compute L (rs_phase st) st"
  from p ph have ops: "operands_in flits k st seen" and full: "rs_m_idx st = flits" "rs_e_idx st = flits" "rs_n_idx st = flits"
    and way: "on_the_way (rs_m_buf st) (rs_e_buf st) (rs_n_buf st) st" and out: "rs_out_idx st = 0" "0 < flits" "out = rsa_results flits seen k"
    by (auto simp: rsa_progress_def computing_def)
  have n: "length (rs_n_buf st) = L" using full_operands(2) [OF ops full] L by simp
  from rsa_compute_on_the_way(1) [OF way ph n] have way': "on_the_way (rs_m_buf st) (rs_e_buf st) (rs_n_buf st) ?st" .
  then have bufs: "rs_m_buf ?st = rs_m_buf st" "rs_e_buf ?st = rs_e_buf st" "rs_n_buf ?st = rs_n_buf st" "rs_phase ?st \<noteq> S_COLLECT"
    by (auto simp: on_the_way_def Let_def)
  have "operands_in flits k ?st seen" using ops by (simp add: operands_in_def bufs rsa_compute_frame)
  with bufs way' full out show ?thesis by (simp add: rsa_progress_def rsa_compute_frame)
qed

locale rsa_element =
  fixes L :: nat
  assumes limbs: "0 < L" "L mod 4 = 0"
begin

lemma flits: "4 * (L div 4) = L" "0 < L div 4"
  using limbs by auto

lemma rsa_inv_handler:
  assumes i: "rsa_inv L lc got out" and zero: "po_output_port (lc_ports lc) = 0"
  shows "rsa_inv L (rsa_handler L lc) got (out @ pending_at 1 (lc_ports (rsa_handler L lc)))"
proof -
  let ?st = "lc_state lc" let ?p = "lc_ports lc"
  from i obtain seen k where len: "4 \<le> length (po_input_data ?p)" "2 \<le> length (po_output_data ?p)"
    and got: "\<And>i. i \<in> {1, 2, 3} \<Longrightarrow> got i = seen i @ held_at i ?p" and pr: "rsa_progress (L div 4) ?st seen k out"
    unfolding rsa_inv_def by blast
  consider (collect) "rs_phase ?st = S_COLLECT" | (emit) "rs_phase ?st = S_EMIT" | (compute) "computing (rs_phase ?st)"
    by (auto simp: computing_def)
  then show ?thesis
  proof cases
    case collect
    define lc' where "lc' = rsa_collect_operands L lc"
    from pr have ops: "operands_in (L div 4) k ?st seen" by (simp add: rsa_progress_def)
    from collect_operands_step [OF ops lc'_def] obtain seen' where s: "operands_in (L div 4) k (lc_state lc') seen'"
      "\<And>i. i \<in> {1, 2, 3} \<Longrightarrow> seen' i @ held_at i (lc_ports lc') = seen i @ held_at i ?p"
      "po_input_data (lc_ports lc') = po_input_data ?p" "po_output_port (lc_ports lc') = po_output_port ?p"
      "po_output_data (lc_ports lc') = po_output_data ?p" "rs_out_idx (lc_state lc') = rs_out_idx ?st"
      "rs_phase (lc_state lc') = (if rs_m_idx (lc_state lc') = L div 4 \<and> rs_e_idx (lc_state lc') = L div 4
         \<and> rs_n_idx (lc_state lc') = L div 4 then S_INIT else rs_phase ?st)" by blast
    have h: "rsa_handler L lc = lc'\<lparr>lc_ret := PORT_ALL\<rparr>" by (simp add: rsa_handler_def collect lc'_def)
    have same: "rsa_results (L div 4) seen' k = rsa_results (L div 4) seen k"
    proof -
      have "extends (L div 4) k seen got" "extends (L div 4) k seen' got"
        by (rule operands_extend [OF ops], simp add: got)
          (rule operands_extend [OF s(1)], metis got s(2) prefixI)
      from extends_results [OF this(1)] extends_results [OF this(2)] show ?thesis by simp
    qed
    have "rsa_progress (L div 4) (lc_state lc') seen' k out"
      using s(1,6,7) pr flits(2) collect by (auto simp: rsa_progress_def same computing_def on_the_way_def)
    then show ?thesis unfolding h
      by (intro rsa_invI [where seen = seen' and k = k])
        (use len got s(2-5) zero in \<open>simp_all add: pending_at_def del: One_nat_def\<close>)
  next
    case emit
    from emit have j: "rs_out_idx ?st < L div 4" using pr by (simp add: rsa_progress_def)
    have h: "rsa_handler L lc = (rsa_emit L lc)\<lparr>lc_ret := PORT_ALL\<rparr>" by (simp add: rsa_handler_def emit j)
    have ports: "lc_ports (rsa_emit L lc) = set_output_port 1 (result_flit (L div 4) (rs_c_buf ?st) (rs_out_idx ?st)) ?p"
      by (simp add: rsa_emit_def Let_def)
    let ?k = "if rs_out_idx ?st + 1 = L div 4 then Suc k else k"
    have "lc\<lparr>lc_state := ?st\<rparr> = lc" by simp
    from emit_progress [OF pr emit refl, of lc, unfolded this] have
      "rsa_progress (L div 4) (lc_state (rsa_emit L lc)) seen ?k (out @ [result_flit (L div 4) (rs_c_buf ?st) (rs_out_idx ?st)])" .
    then show ?thesis unfolding h
      by (intro rsa_invI [where seen = seen and k = ?k])
        (use len got zero in \<open>simp_all add: ports pending_set_output output_data_length del: One_nat_def\<close>)
  next
    case compute
    then have h: "rsa_handler L lc = lc\<lparr>lc_state := rsa_compute L (rs_phase ?st) ?st, lc_ret := PORT_ALL\<rparr>"
      by (cases "rs_phase ?st") (simp_all add: rsa_handler_def computing_def)
    from compute_progress [OF pr compute flits(1)] show ?thesis unfolding h
      by (intro rsa_invI [where seen = seen and k = k])
        (use len got zero in \<open>simp_all add: pending_at_def del: One_nat_def\<close>)
  qed
qed

end

sublocale rsa_element \<subseteq> stream_kernel "rsa_handler L" "\<lambda>lc. lc" "{1, 2, 3}" 1 "rsa_inv L"
proof
  fix lc lc' :: "rsa_state locals" and got :: "nat \<Rightarrow> flit list" and out :: "flit list"
  assume i: "rsa_inv L lc got out"
  show "rsa_inv L lc got out" by (rule i)
  show "rsa_inv L (rsa_handler L lc) got (out @ pending_at 1 (lc_ports (rsa_handler L lc)))"
    if "po_output_port (lc_ports lc) = 0" by (rule rsa_inv_handler [OF i that])
  from i obtain seen k where x: "4 \<le> length (po_input_data (lc_ports lc))" "2 \<le> length (po_output_data (lc_ports lc))"
    "\<And>i. i \<in> {1, 2, 3} \<Longrightarrow> got i = seen i @ held_at i (lc_ports lc)" "rsa_progress (L div 4) (lc_state lc) seen k out"
    unfolding rsa_inv_def by blast
  show "rsa_inv L lc' got out" if "same_view lc lc'"
    using that x by (intro rsa_invI [where seen = seen and k = k]) (simp_all add: same_view_def held_at_def)
  fix i f
  assume i: "i \<in> {1, 2, 3}" "wants_input i lc"
  then have "i < length (po_input_data (lc_ports lc))" "i < 32" using x(1) by auto
  note h = held_buffer_input [OF i(2) this]
  show "rsa_inv L (map_ports (buffer_input i f) lc) (got(i := got i @ [f])) out"
    using x i by (intro rsa_invI [where seen = seen and k = k]) (simp_all add: h buffer_input_frame)
qed

interpretation rsa1024: rsa_element 16 by unfold_locales simp_all
interpretation rsa2048: rsa_element 32 by unfold_locales simp_all
interpretation rsa4096: rsa_element 64 by unfold_locales simp_all

text \<open>In a network with other elements, whose states have other types.\<close>

locale rsa_in_network = rsa_element L
  for L :: nat +
  fixes get :: "'b \<Rightarrow> rsa_state" and put :: "rsa_state \<Rightarrow> 'b"
  assumes state_of: "get (put x) = x"

sublocale rsa_in_network \<subseteq> embedded_kernel "rsa_handler L" "\<lambda>lc. lc" "{1, 2, 3}" 1 "rsa_inv L" get put
  by unfold_locales (rule state_of)

context rsa_in_network
begin

lemma kernel_results:
  assumes names: "distinct (map kh_name (b_kernels b))"
    and at: "kernel_at ws rs bodies (embed get put (rsa_handler L)) (embed get put (\<lambda>lc. lc)) b i {1, 2, 3} 1"
    and st: "snd (snd (bodies (b_kernels b ! i))) = put (rsa_start L)"
    and reach: "(net_step ws rs)\<^sup>*\<^sup>* (emulator bodies b) n"
  obtains out where "prefix out (rsa_results (L div 4) (\<lambda>p. sh_got (nt_shared n) (port_in b i p))
      (triples (L div 4) (\<lambda>p. sh_got (nt_shared n) (port_in b i p))))"
    "subseq (sh_sent (nt_shared n) (port_out b i 1)) out"
    "int (length out) \<le> stream_capacity b (port_out b i 1) \<Longrightarrow> prefix (sh_sent (nt_shared n) (port_out b i 1)) out"
proof -
  let ?k = "b_kernels b ! i" let ?got = "\<lambda>p. sh_got (nt_shared n) (port_in b i p)"
  have start: "rsa_inv L (map_state get (kernel_locals ?k (snd (snd (bodies ?k))))) (\<lambda>_. []) []"
  proof -
    have "card (set (map port_no (kh_in_ports ?k))) \<le> length (map port_no (kh_in_ports ?k))" by (rule card_length)
    then have "3 \<le> length (kh_in_ports ?k)" using at by (simp add: kernel_at_def)
    then have len: "4 \<le> array_slots (kh_in_ports ?k)" "2 \<le> array_slots (kh_out_ports ?k)" by (simp_all add: array_slots_def)
    have pr: "rsa_progress (L div 4) (rsa_start L) (\<lambda>_. []) 0 []"
      using flits by (simp add: rsa_progress_def rsa_start_def operands_in_def filling_def rsa_results_def big_zero_def)
    show ?thesis unfolding st
      by (rule rsa_invI [where seen = "\<lambda>_. []" and k = 0]) (use len pr in \<open>simp_all add: kernel_locals_def map_state_def held_at_def get_put\<close>)
  qed
  note f = outer.emulator_follows [OF names at reach start]
  from outer.follows_result [OF f(1)] obtain out where
    o: "rsa_inv L (map_state get (th_locals (nt_threads n ! i))) (got_on {1, 2, 3} (th_kernel (nt_threads n ! i)) (nt_shared n)) out"
      "subseq (sh_sent (nt_shared n) (port_out b i 1)) out"
      "int (length out) \<le> stream_capacity b (port_out b i 1) \<Longrightarrow> prefix (sh_sent (nt_shared n) (port_out b i 1)) out"
    unfolding f(2) kernel_fn_streams by blast
  have same: "rsa_result F (got_on {1, 2, 3} (th_kernel (nt_threads n ! i)) (nt_shared n)) = rsa_result F ?got"
    "triples F (got_on {1, 2, 3} (th_kernel (nt_threads n ! i)) (nt_shared n)) = triples F ?got" for F
    by (simp_all add: rsa_result_def triples_def got_on_def f(2) fun_eq_iff)
  from rsa_inv_prefix [OF o(1) flits(2)] have "prefix out (rsa_results (L div 4) ?got (triples (L div 4) ?got))"
    unfolding rsa_results_def same .
  from that [OF this o(2,3)] show thesis .
qed

end

subsection \<open>The value, and how long it takes\<close>

lemma flit_limbs_length [simp]: "length (flit_limbs f) = 4"
  by (simp add: flit_limbs_def)

lemma limbs_of_length: "length (limbs_of fs) = 4 * length fs"
  by (induction fs) (simp_all add: limbs_of_def)

lemma nth_operand_length:
  assumes "flits * Suc j \<le> length fs"
  shows "length (nth_operand flits fs j) = 4 * flits"
proof -
  have "length (take flits (drop (flits * j) fs)) = flits" using assms by simp
  then show ?thesis by (simp add: nth_operand_def limbs_of_length)
qed

lemma complete_triple:
  assumes "j < triples flits got" "i \<in> {1, 2, 3}"
  shows "flits * Suc j \<le> length (got i)"
proof -
  have "Suc j \<le> length (got i) div flits" using assms by (auto simp: triples_def)
  then have "flits * Suc j \<le> flits * (length (got i) div flits)" by (rule mult_le_mono2)
  also have "\<dots> \<le> length (got i)" by simp
  finally show ?thesis .
qed

lemma rsa_result_value:
  assumes "j < triples flits got" "0 < flits" "odd (big_val (nth_operand flits (got 3) j))"
  shows "length (rsa_result flits got j) = 4 * flits"
    and "big_val (rsa_result flits got j) =
      big_val (nth_operand flits (got 1) j) ^ big_val (nth_operand flits (got 2) j) mod big_val (nth_operand flits (got 3) j)"
proof -
  have len: "length (nth_operand flits (got i) j) = 4 * flits" if "i \<in> {1, 2, 3}" for i
    by (rule nth_operand_length [OF complete_triple [OF assms(1) that]])
  have l: "length (nth_operand flits (got 1) j) = length (nth_operand flits (got 3) j)"
    "length (nth_operand flits (got 3) j) = 4 * flits" unfolding len [OF insertI1] by (simp_all only: len insert_iff simp_thms)
  from l(2) assms(2,3) have "odd_modulus (nth_operand flits (got 3) j)" by (cases "nth_operand flits (got 3) j") (simp_all add: odd_modulus_def)
  note v = modexp_val [OF this l(1)]
  show "length (rsa_result flits got j) = 4 * flits" unfolding rsa_result_def v(1) by (rule l(2))
  show "big_val (rsa_result flits got j) =
      big_val (nth_operand flits (got 1) j) ^ big_val (nth_operand flits (got 2) j) mod big_val (nth_operand flits (got 3) j)"
    unfolding rsa_result_def by (rule v(2))
qed

text \<open>The flits of a result carry its limbs, as the host program reads them.\<close>

lemma result_flit_limbs:
  "flit_limbs (result_flit flits c k) = [c ! (k * 4), c ! (k * 4 + 1), c ! (k * 4 + 2), c ! (k * 4 + 3)]"
  by (simp add: flit_limbs_def result_flit_def upt_rec lane_other lane_roundtrip numeral_3_eq_3)

lemma result_flits_limbs:
  assumes "length c = 4 * flits"
  shows "limbs_of (result_flits flits c) = c"
proof -
  have "limbs_of (map (result_flit flits' c) [0..<k]) = take (4 * k) c" if "k \<le> flits" for k flits'
    using that
  proof (induction k)
    case (Suc k)
    then have fit: "k * 4 + 4 \<le> length c" using assms by simp
    have "flit_limbs (result_flit flits' c k) = take 4 (drop (4 * k) c)"
      using fit by (intro nth_equalityI) (auto simp: result_flit_limbs less_Suc_eq numeral_eq_Suc mult.commute)
    moreover have "take (4 * Suc k) c = take (4 * k) c @ take 4 (drop (4 * k) c)" using take_add [of "4 * k" 4 c] by (simp add: add.commute)
    ultimately show ?case using Suc by simp
  qed simp
  from this [of flits flits] assms show ?thesis by (simp add: result_flits_def)
qed

text \<open>Calls of the handler, with whatever flits the loop reads before each of them.\<close>

abbreviation rsa_call :: "nat \<Rightarrow> (nat \<times> flit) list \<Rightarrow> rsa_state body" where
  "rsa_call L \<equiv> handler_call (rsa_handler L)"

abbreviation rsa_calls :: "nat \<Rightarrow> (nat \<times> flit) list list \<Rightarrow> rsa_state locals \<Rightarrow> flit list \<times> rsa_state locals" where
  "rsa_calls L \<equiv> handler_calls 1 (rsa_handler L)"

lemma fold_arrivals: "po_output_data (fold (\<lambda>(i, f). buffer_input i f) as p) = po_output_data p"
  by (induction as arbitrary: p) (auto simp: buffer_input_frame)

lemma rsa_call_compute:
  assumes "computing (rs_phase (lc_state lc))"
  shows "lc_state (rsa_call L a lc) = rsa_compute L (rs_phase (lc_state lc)) (lc_state lc)"
    "pending_at 1 (lc_ports (rsa_call L a lc)) = []"
    "po_output_data (lc_ports (rsa_call L a lc)) = po_output_data (lc_ports lc)"
  using assms by (cases "rs_phase (lc_state lc)";
      simp add: handler_call_def rsa_handler_def computing_def pending_at_def fold_arrivals)+

lemma computing_calls: "computing (rs_phase st) \<longleftrightarrow> calls_left st \<noteq> 0"
  by (simp add: computing_def calls_left_def split: rsa_phase.split)

lemma rsa_calls_compute:
  assumes "on_the_way m e n (lc_state lc)" "calls_left (lc_state lc) = length as" "length n = L"
  shows "fst (rsa_calls L as lc) = [] \<and> on_the_way m e n (lc_state (snd (rsa_calls L as lc)))
    \<and> rs_phase (lc_state (snd (rsa_calls L as lc))) = S_EMIT
    \<and> rs_out_idx (lc_state (snd (rsa_calls L as lc))) = rs_out_idx (lc_state lc)
    \<and> length (po_output_data (lc_ports (snd (rsa_calls L as lc)))) = length (po_output_data (lc_ports lc))"
  using assms(1,2)
proof (induction "as" arbitrary: lc)
  case Nil
  then have "\<not> computing (rs_phase (lc_state lc))" by (simp add: computing_calls)
  with Nil show ?case by (auto simp: computing_def on_the_way_def Let_def)
next
  case (Cons a "as")
  then have c: "computing (rs_phase (lc_state lc))" by (simp add: computing_calls)
  note s = rsa_call_compute [OF c, of L a]
  have "on_the_way m e n (lc_state (rsa_call L a lc))" "calls_left (lc_state (rsa_call L a lc)) = length as"
    using rsa_compute_on_the_way [OF Cons.prems(1) c assms(3)] Cons.prems(2) by (simp_all add: s)
  from Cons.IH [OF this] show ?case by (simp add: Let_def split_beta s [unfolded One_nat_def] rsa_compute_frame)
qed

lemma rsa_call_emit:
  assumes "rs_phase (lc_state lc) = S_EMIT" "rs_out_idx (lc_state lc) < L div 4" "2 \<le> length (po_output_data (lc_ports lc))"
  shows "lc_state (rsa_call L a lc) = lc_state (rsa_emit L lc)"
    "pending_at 1 (lc_ports (rsa_call L a lc)) = [result_flit (L div 4) (rs_c_buf (lc_state lc)) (rs_out_idx (lc_state lc))]"
    "length (po_output_data (lc_ports (rsa_call L a lc))) = length (po_output_data (lc_ports lc))"
  using assms by (simp_all add: handler_call_def rsa_handler_def rsa_emit_def Let_def pending_set_output [unfolded One_nat_def] fold_arrivals)

text \<open>Waiting for the first flits of the next operands.\<close>

definition collecting :: "rsa_state \<Rightarrow> bool" where
  "collecting st \<longleftrightarrow> rs_phase st = S_COLLECT \<and> rs_m_idx st = 0 \<and> rs_e_idx st = 0 \<and> rs_n_idx st = 0 \<and> rs_out_idx st = 0"

lemma rsa_calls_emit:
  assumes "rs_phase (lc_state lc) = S_EMIT" "rs_out_idx (lc_state lc) + length as = L div 4" "as \<noteq> []"
    "2 \<le> length (po_output_data (lc_ports lc))"
  shows "fst (rsa_calls L as lc) = map (result_flit (L div 4) (rs_c_buf (lc_state lc))) [rs_out_idx (lc_state lc)..<L div 4]
    \<and> collecting (lc_state (snd (rsa_calls L as lc)))"
  using assms
proof (induction "as" arbitrary: lc)
  case (Cons a "as")
  let ?j = "rs_out_idx (lc_state lc)"
  from Cons.prems have j: "?j < L div 4" by simp
  note s = rsa_call_emit [OF Cons.prems(1) j Cons.prems(4), of a]
  show ?case
  proof (cases "as = []")
    case True
    with Cons.prems(2) have "L div 4 = Suc ?j" by simp
    then show ?thesis by (simp add: True s [unfolded One_nat_def] rsa_emit_def Let_def collecting_def)
  next
    case False
    then have ne: "Suc ?j \<noteq> L div 4" using Cons.prems(2) by (cases "as") auto
    have st: "lc_state (rsa_call L a lc) = (lc_state lc)\<lparr>rs_out_idx := Suc ?j\<rparr>"
      using ne by (simp add: s(1) rsa_emit_def Let_def)
    have "fst (rsa_calls L as (rsa_call L a lc)) = map (result_flit (L div 4) (rs_c_buf (lc_state lc))) [Suc ?j..<L div 4]
        \<and> collecting (lc_state (snd (rsa_calls L as (rsa_call L a lc))))"
      using Cons.IH [of "rsa_call L a lc"] Cons.prems False s(3) by (simp add: st)
    then show ?thesis using j by (simp add: Let_def split_beta s [unfolded One_nat_def] upt_conv_Cons)
  qed
qed simp

text \<open>From the call after the last flit of the operands: the calls that compute, then one for each flit.\<close>

lemma rsa_answers:
  assumes inv: "rsa_inv L lc got out" and ph: "rs_phase (lc_state lc) = S_INIT" and L: "0 < L" "L mod 4 = 0"
    and n: "length calls = 3 * bitlen (rs_e_buf (lc_state lc)) + 3 + L div 4"
  shows "fst (rsa_calls L calls lc) =
      result_flits (L div 4) (modexp (rs_m_buf (lc_state lc)) (rs_e_buf (lc_state lc)) (rs_n_buf (lc_state lc)))"
    and "collecting (lc_state (snd (rsa_calls L calls lc)))"
proof -
  let ?st = "lc_state lc" let ?c = "3 * bitlen (rs_e_buf ?st) + 3"
  have F: "4 * (L div 4) = L" "0 < L div 4" using L by auto
  from inv obtain seen k where pr: "rsa_progress (L div 4) ?st seen k out" and data: "2 \<le> length (po_output_data (lc_ports lc))"
    unfolding rsa_inv_def by blast
  from pr ph have ops: "operands_in (L div 4) k ?st seen" "rs_m_idx ?st = L div 4" "rs_e_idx ?st = L div 4" "rs_n_idx ?st = L div 4"
    and way: "on_the_way (rs_m_buf ?st) (rs_e_buf ?st) (rs_n_buf ?st) ?st" and zero: "rs_out_idx ?st = 0"
    by (simp_all add: rsa_progress_def computing_def)
  have len: "length (rs_n_buf ?st) = L" using full_operands(2) [OF ops] F(1) by simp
  have "calls_left ?st = length (take ?c calls)" using n ph by (simp add: calls_left_def)
  note c = rsa_calls_compute [OF way this len]
  let ?lc = "snd (rsa_calls L (take ?c calls) lc)"
  have "rs_c_buf (lc_state ?lc) = modexp (rs_m_buf ?st) (rs_e_buf ?st) (rs_n_buf ?st)"
    using c by (auto simp: on_the_way_def Let_def)
  moreover have "drop ?c calls \<noteq> []" "rs_out_idx (lc_state ?lc) + length (drop ?c calls) = L div 4" using n F(2) c zero by simp_all
  moreover have "2 \<le> length (po_output_data (lc_ports ?lc))" using c data by simp
  ultimately have e: "fst (rsa_calls L (drop ?c calls) ?lc) = result_flits (L div 4) (modexp (rs_m_buf ?st) (rs_e_buf ?st) (rs_n_buf ?st))"
    "collecting (lc_state (snd (rsa_calls L (drop ?c calls) ?lc)))"
    using rsa_calls_emit [of ?lc "drop ?c calls" L] c zero by (simp_all add: result_flits_def)
  have "rsa_calls L calls lc = (fst (rsa_calls L (take ?c calls) lc) @ fst (rsa_calls L (drop ?c calls) ?lc),
      snd (rsa_calls L (drop ?c calls) ?lc))"
    using handler_calls_append [of 1 "rsa_handler L" "take ?c calls" "drop ?c calls" lc] by (simp add: Let_def split_beta)
  with c e show "fst (rsa_calls L calls lc) =
      result_flits (L div 4) (modexp (rs_m_buf ?st) (rs_e_buf ?st) (rs_n_buf ?st))"
    "collecting (lc_state (snd (rsa_calls L calls lc)))" by simp_all
qed

end
