(* ===== verification/RsaServes.thy ===== *)
theory RsaServes
  imports Accelerator
begin

text \<open>
  The RSA element at work: an operation takes it from rest to rest in a number of calls that the
  exponent determines, and its place in the emulator of \<open>examples/RSA_Accelerator\<close>, whose other kernel is
  a Pass: the states of the two are the cases of one type.
\<close>

subsection \<open>One operation from rest to rest\<close>

lemma take_operand_ready:
  assumes "idx < flits" "held_at i p = [f]" "i \<in> {1, 2, 3}"
  shows "take_operand flits i (idx, buf, p) = (Suc idx, store_limbs idx f buf, clear_input_ready (PORT_BIT i) p)"
proof -
  have "builtin_ctz (PORT_BIT i) = i" using assms(3) port_numbers by auto
  then show ?thesis using assms(1,2)
    by (auto simp: take_operand_def read_input_port_def input_ready_def held_at_def split: if_splits)
qed

text \<open>The operands as far as they have come, with nothing waiting at the ports.\<close>

definition collected :: "nat \<Rightarrow> flit list \<Rightarrow> flit list \<Rightarrow> flit list \<Rightarrow> rsa_state locals \<Rightarrow> bool" where
  "collected L ms es ns lc \<longleftrightarrow>
     (let F = L div 4; st = lc_state lc; p = lc_ports lc in
      filling F 0 (rs_m_idx st) (rs_m_buf st) ms \<and> filling F 0 (rs_e_idx st) (rs_e_buf st) es \<and>
      filling F 0 (rs_n_idx st) (rs_n_buf st) ns \<and> rs_out_idx st = 0 \<and>
      rs_phase st = (if length ms = F \<and> length es = F \<and> length ns = F then S_INIT else S_COLLECT) \<and>
      4 \<le> length (po_input_data p) \<and> 2 \<le> length (po_output_data p) \<and> (\<forall>i\<in>{1, 2, 3}. held_at i p = []))"

abbreviation at_rest :: "nat \<Rightarrow> rsa_state locals \<Rightarrow> bool" where
  "at_rest L \<equiv> collected L [] [] []"

lemma at_rest_start:
  assumes "0 < L" "L mod 4 = 0" "3 \<le> length (kh_in_ports k)"
  shows "at_rest L (kernel_locals k (rsa_start L))"
proof -
  have "4 * (L div 4) = L" "L div 4 \<noteq> 0" using assms by auto
  then show ?thesis using assms(3)
    by (simp add: collected_def Let_def filling_def rsa_start_def kernel_locals_def held_at_def array_slots_def big_zero_def)
qed

lemma collect_call:
  assumes c: "collected L ms es ns lc" and n: "length ms < L div 4" "length es = length ms" "length ns = length ms"
  shows "collected L (ms @ [a]) (es @ [b]) (ns @ [d]) (rsa_call L [(1, a), (2, b), (3, d)] lc)"
    and "pending_at 1 (lc_ports (rsa_call L [(1, a), (2, b), (3, d)] lc)) = []"
proof -
  let ?F = "L div 4" let ?st = "lc_state lc" let ?p = "lc_ports lc"
  define p0 where "p0 = (fold (\<lambda>(i, f). buffer_input i f) [(1, a), (2, b), (3, d)] ?p)\<lparr>po_output_port := 0\<rparr>"
  have idx: "rs_m_idx ?st = length ms" "rs_e_idx ?st = length ms" "rs_n_idx ?st = length ms"
    using c n by (auto simp: collected_def Let_def filling_def)
  have f: "filling ?F 0 (length ms) (rs_m_buf ?st) ms" "filling ?F 0 (length ms) (rs_e_buf ?st) es"
      "filling ?F 0 (length ms) (rs_n_buf ?st) ns"
    and ph: "rs_phase ?st = S_COLLECT" "rs_out_idx ?st = 0" and len: "4 \<le> length (po_input_data ?p)" "2 \<le> length (po_output_data ?p)"
    and held: "held_at 1 ?p = []" "held_at 2 ?p = []" "held_at 3 ?p = []"
    using c n unfolding collected_def Let_def idx by (simp_all del: One_nat_def)
  have h0: "held_at 1 p0 = [a]" "held_at 2 p0 = [b]" "held_at 3 p0 = [d]"
  proof -
    have "held_at j p0 = held_at j (fold (\<lambda>(i, f). buffer_input i f) [(1, a), (2, b), (3, d)] ?p)" for j
      by (simp add: p0_def held_at_def)
    then show "held_at 1 p0 = [a]" "held_at 2 p0 = [b]" "held_at 3 p0 = [d]"
      using held len by (simp_all add: held_buffer_empty buffer_input_frame del: One_nat_def)
  qed
  let ?p1 = "clear_input_ready (PORT_BIT 1) p0" let ?p2 = "clear_input_ready (PORT_BIT 2) ?p1"
  let ?p3 = "clear_input_ready (PORT_BIT 3) ?p2"
  have h2: "held_at 2 ?p1 = [b]" and h3: "held_at 3 ?p2 = [d]" using h0 unfolding held_clear by simp_all
  have t1: "take_operand ?F 1 (length ms, rs_m_buf ?st, p0) = (Suc (length ms), store_limbs (length ms) a (rs_m_buf ?st), ?p1)"
    by (rule take_operand_ready [OF n(1) h0(1)]) simp
  have t2: "take_operand ?F 2 (length ms, rs_e_buf ?st, ?p1) = (Suc (length ms), store_limbs (length ms) b (rs_e_buf ?st), ?p2)"
    by (rule take_operand_ready [OF n(1) h2]) simp
  have t3: "take_operand ?F 3 (length ms, rs_n_buf ?st, ?p2) = (Suc (length ms), store_limbs (length ms) d (rs_n_buf ?st), ?p3)"
    by (rule take_operand_ready [OF n(1) h3]) simp
  have call: "rsa_call L [(1, a), (2, b), (3, d)] lc = (rsa_collect_operands L (lc\<lparr>lc_ports := p0\<rparr>))\<lparr>lc_ret := PORT_ALL\<rparr>"
    using ph by (simp add: handler_call_def rsa_handler_def p0_def)
  have fields: "lc_state (lc\<lparr>lc_ports := p0\<rparr>) = ?st" "lc_ports (lc\<lparr>lc_ports := p0\<rparr>) = p0" by simp_all
  have eq: "rsa_call L [(1, a), (2, b), (3, d)] lc =
      lc\<lparr>lc_ports := ?p3, lc_ret := PORT_ALL, lc_state := ?st\<lparr>rs_m_idx := Suc (length ms), rs_m_buf := store_limbs (length ms) a (rs_m_buf ?st),
        rs_e_idx := Suc (length ms), rs_e_buf := store_limbs (length ms) b (rs_e_buf ?st),
        rs_n_idx := Suc (length ms), rs_n_buf := store_limbs (length ms) d (rs_n_buf ?st),
        rs_phase := (if Suc (length ms) = ?F then S_INIT else S_COLLECT)\<rparr>\<rparr>"
    unfolding call rsa_collect_operands_def Let_def fields idx t1 prod.case t2 t3 by (simp add: ph)
  note f' = filling_step [OF f(1) n(1)] filling_step [OF f(2) n(1)] filling_step [OF f(3) n(1)]
  have data: "po_input_data ?p3 = po_input_data p0" "po_output_data ?p3 = po_output_data ?p" "length (po_input_data p0) = length (po_input_data ?p)"
    "po_output_port ?p3 = 0"
    by (simp_all add: clear_input_ready_def p0_def buffer_input_frame)
  have held3: "\<forall>i\<in>{1, 2, 3}. held_at i ?p3 = []" unfolding held_clear using h0 by simp
  show "collected L (ms @ [a]) (es @ [b]) (ns @ [d]) (rsa_call L [(1, a), (2, b), (3, d)] lc)"
    unfolding eq collected_def Let_def using f' data len n(2,3) ph(2) held3 by (simp del: One_nat_def)
  show "pending_at 1 (lc_ports (rsa_call L [(1, a), (2, b), (3, d)] lc)) = []"
    unfolding eq using data by (simp add: pending_at_def)
qed

text \<open>The calls in which the operands arrive, one flit of each at a time.\<close>

definition operand_calls :: "flit list \<Rightarrow> flit list \<Rightarrow> flit list \<Rightarrow> (nat \<times> flit) list list" where
  "operand_calls ms es ns = map (\<lambda>(m, e, n). [(1, m), (2, e), (3, n)]) (zip ms (zip es ns))"

lemma operand_calls_simps [simp]:
  "operand_calls [] es ns = []"
  "operand_calls (m # ms) (e # es) (n # ns) = [(1, m), (2, e), (3, n)] # operand_calls ms es ns"
  by (simp_all add: operand_calls_def)

lemma collect_calls:
  assumes "collected L ms es ns lc" "length ms + length ms' = L div 4" "length es = length ms" "length ns = length ms"
    "length es' = length ms'" "length ns' = length ms'"
  shows "collected L (ms @ ms') (es @ es') (ns @ ns') (snd (rsa_calls L (operand_calls ms' es' ns') lc))
    \<and> fst (rsa_calls L (operand_calls ms' es' ns') lc) = []"
  using assms
proof (induction ms' arbitrary: ms es ns es' ns' lc)
  case (Cons m ms')
  from Cons.prems(5,6) obtain e es'' n ns'' where t: "es' = e # es''" "ns' = n # ns''" by (cases es'; cases ns') auto
  note s = collect_call [OF Cons.prems(1) _ Cons.prems(3,4), of m e n]
  have "length ms < L div 4" using Cons.prems(2) by simp
  note s = s [OF this]
  have "collected L ((ms @ [m]) @ ms') ((es @ [e]) @ es'') ((ns @ [n]) @ ns'')
      (snd (rsa_calls L (operand_calls ms' es'' ns'') (rsa_call L [(1, m), (2, e), (3, n)] lc)))
    \<and> fst (rsa_calls L (operand_calls ms' es'' ns'') (rsa_call L [(1, m), (2, e), (3, n)] lc)) = []"
    by (rule Cons.IH [OF s(1)]) (use Cons.prems t in simp_all)
  then show ?case using s(2) by (simp add: t Let_def split_beta)
qed auto

lemma filling_whole: "filling flits 0 flits buf seen \<Longrightarrow> buf = limbs_of seen"
  by (clarsimp simp: filling_def)

lemma collected_inv:
  assumes c: "collected L ms es ns lc" and n: "length ms = L div 4" "length es = L div 4" "length ns = L div 4" and L: "0 < L div 4"
  shows "rsa_inv L lc (\<lambda>i. if i = 1 then ms else if i = 2 then es else ns) []"
    and "rs_phase (lc_state lc) = S_INIT"
    and "rs_m_buf (lc_state lc) = limbs_of ms" "rs_e_buf (lc_state lc) = limbs_of es" "rs_n_buf (lc_state lc) = limbs_of ns"
proof -
  let ?seen = "\<lambda>i::nat. if i = 1 then ms else if i = 2 then es else ns"
  from c show ph: "rs_phase (lc_state lc) = S_INIT" using n by (simp add: collected_def Let_def)
  from c have idx: "rs_m_idx (lc_state lc) = L div 4" "rs_e_idx (lc_state lc) = L div 4" "rs_n_idx (lc_state lc) = L div 4"
    using n by (auto simp: collected_def Let_def filling_def)
  from c have f: "filling (L div 4) 0 (L div 4) (rs_m_buf (lc_state lc)) ms" "filling (L div 4) 0 (L div 4) (rs_e_buf (lc_state lc)) es"
    "filling (L div 4) 0 (L div 4) (rs_n_buf (lc_state lc)) ns"
    unfolding collected_def Let_def idx by simp_all
  then show "rs_m_buf (lc_state lc) = limbs_of ms" "rs_e_buf (lc_state lc) = limbs_of es" "rs_n_buf (lc_state lc) = limbs_of ns"
    by (simp_all only: filling_whole)
  have "rsa_progress (L div 4) (lc_state lc) ?seen 0 []"
    using c f idx ph L by (simp add: rsa_progress_def operands_in_def rsa_results_def computing_def on_the_way_def collected_def Let_def)
  then show "rsa_inv L lc ?seen []"
    using c by (intro rsa_invI [where seen = ?seen and k = 0]) (auto simp: collected_def Let_def simp del: One_nat_def)
qed

text \<open>A call in which nothing arrives.\<close>

definition undisturbed :: "nat \<Rightarrow> rsa_state locals \<Rightarrow> bool" where
  "undisturbed L lc \<longleftrightarrow>
     length (rs_m_buf (lc_state lc)) = L \<and> length (rs_e_buf (lc_state lc)) = L \<and> length (rs_n_buf (lc_state lc)) = L \<and>
     4 \<le> length (po_input_data (lc_ports lc)) \<and> 2 \<le> length (po_output_data (lc_ports lc)) \<and>
     (\<forall>i\<in>{1, 2, 3}. held_at i (lc_ports lc) = [])"

lemma rsa_compute_buffers:
  "rs_m_buf (rsa_compute L ph st) = rs_m_buf st" "rs_e_buf (rsa_compute L ph st) = rs_e_buf st"
  "rs_n_buf (rsa_compute L ph st) = rs_n_buf st"
  by (cases ph; simp add: Let_def)+

lemma take_operand_idle: "held_at i p = [] \<Longrightarrow> take_operand flits i (idx, buf, p) = (idx, buf, p)"
  by (simp add: take_operand_def input_ready_def held_at_def split: if_splits)

lemma undisturbed_call:
  assumes u: "undisturbed L lc"
  shows "undisturbed L (rsa_call L [] lc)"
proof -
  let ?lc = "map_ports (\<lambda>p. p\<lparr>po_output_port := 0\<rparr>) lc"
  have held: "held_at i (p\<lparr>po_output_port := 0\<rparr>) = held_at i p" for i p by (simp add: held_at_def)
  have call: "rsa_call L [] lc = rsa_handler L ?lc" by (simp add: handler_call_def)
  have st: "lc_state ?lc = lc_state lc" by simp
  show ?thesis
  proof (cases "rs_phase (lc_state lc)")
    case S_COLLECT
    with u show ?thesis
      by (simp add: call rsa_handler_def rsa_collect_operands_def undisturbed_def take_operand_idle held Let_def)
  next
    case S_EMIT
    with u show ?thesis
      by (simp add: call rsa_handler_def rsa_emit_def undisturbed_def held held_set_output_port Let_def)
  qed (use u in \<open>simp_all add: call rsa_handler_def undisturbed_def held Let_def\<close>)
qed

lemma undisturbed_calls: "undisturbed L lc \<Longrightarrow> undisturbed L (snd (rsa_calls L (replicate k []) lc))"
  by (induction k arbitrary: lc) (simp_all add: Let_def split_beta undisturbed_call)

lemma undisturbed_rest:
  assumes "undisturbed L lc" "collecting (lc_state lc)" "0 < L" "L mod 4 = 0"
  shows "at_rest L lc"
proof -
  have "4 * (L div 4) = L" "L div 4 \<noteq> 0" using assms(3,4) by auto
  then show ?thesis using assms(1,2) by (simp add: undisturbed_def collecting_def collected_def filling_def Let_def)
qed

lemma collected_undisturbed: "collected L ms es ns lc \<Longrightarrow> L mod 4 = 0 \<Longrightarrow> undisturbed L lc"
  by (auto simp: collected_def undisturbed_def filling_def Let_def)

text \<open>The cycle of one operation.\<close>

lemma rsa_serves:
  assumes rest: "at_rest L lc" and L: "0 < L" "L mod 4 = 0"
    and n: "length ms = L div 4" "length es = L div 4" "length ns = L div 4"
    and k: "k = 3 * bitlen (limbs_of es) + 3 + L div 4"
  shows "fst (rsa_calls L (operand_calls ms es ns @ replicate k []) lc) =
      result_flits (L div 4) (modexp (limbs_of ms) (limbs_of es) (limbs_of ns))"
    and "at_rest L (snd (rsa_calls L (operand_calls ms es ns @ replicate k []) lc))"
proof -
  let ?lc = "snd (rsa_calls L (operand_calls ms es ns) lc)"
  have c: "collected L ms es ns ?lc" "fst (rsa_calls L (operand_calls ms es ns) lc) = []"
    using collect_calls [OF rest, of ms es ns] n by simp_all
  have F: "0 < L div 4" using L by auto
  note i = collected_inv [OF c(1) n F]
  have len: "length (replicate k []) = 3 * bitlen (rs_e_buf (lc_state ?lc)) + 3 + L div 4" by (simp add: k i(4) del: One_nat_def)
  note a = rsa_answers [OF i(1,2) L len, unfolded i(3-5)]
  show "fst (rsa_calls L (operand_calls ms es ns @ replicate k []) lc) =
      result_flits (L div 4) (modexp (limbs_of ms) (limbs_of es) (limbs_of ns))"
    using a(1) c(2) by (simp add: handler_calls_append Let_def split_beta)
  have "at_rest L (snd (rsa_calls L (replicate k []) ?lc))"
    by (rule undisturbed_rest [OF undisturbed_calls [OF collected_undisturbed [OF c(1) L(2)]] a(2) L])
  then show "at_rest L (snd (rsa_calls L (operand_calls ms es ns @ replicate k []) lc))"
    by (simp add: handler_calls_append Let_def split_beta)
qed

subsection \<open>The example RSA\_Accelerator\<close>

datatype accel_state = Rsa_State rsa_state | Rev_State pass_state

fun rsa_part :: "accel_state \<Rightarrow> rsa_state" where
  "rsa_part (Rsa_State st) = st"
| "rsa_part (Rev_State st) = rsa_start 16"

fun rev_part :: "accel_state \<Rightarrow> pass_state" where
  "rev_part (Rev_State st) = st"
| "rev_part (Rsa_State st) = pass_init"

definition accel_bodies :: "kernel_hls \<Rightarrow> accel_state body \<times> accel_state body \<times> accel_state" where
  "accel_bodies k =
     (if kh_element_type k = ''RSA_ModExp_1024''
      then (embed rsa_part Rsa_State (rsa_handler 16), embed rsa_part Rsa_State (\<lambda>lc. lc), Rsa_State (rsa_start 16))
      else (embed rev_part Rev_State pass_handler, embed rev_part Rev_State pass_signal, Rev_State pass_init))"

interpretation accel: rsa_in_network 16 rsa_part Rsa_State
  by unfold_locales simp_all

end
