(* ===== verification/TableElements.thy ===== *)
theory TableElements
  imports Network
begin

text \<open>
  Elements with a table or a queue of their own: MinHeap (\<open>elements/queues/MinHeap.clnp\<close>), which is proved
  never to have more than one flit to choose from, and HashTable (\<open>elements/lookups/HashTable.clnp\<close>), a
  direct-mapped table whose index the host computes. Then Demux, output by output.
\<close>

subsection \<open>MinHeap\<close>

definition HEAP_SIZE :: nat where "HEAP_SIZE = 64"

record heap_state =
  hp_prio :: "u64 list"
  hp_data :: "flit list"
  hp_size :: nat

definition heap_start :: heap_state where
  "heap_start = \<lparr>hp_prio = replicate HEAP_SIZE 0, hp_data = replicate HEAP_SIZE flit_zero, hp_size = 0\<rparr>"

definition heap_swap :: "nat \<Rightarrow> nat \<Rightarrow> heap_state \<Rightarrow> heap_state" where
  "heap_swap i j h =
     h\<lparr>hp_prio := (hp_prio h)[i := hp_prio h ! j, j := hp_prio h ! i],
       hp_data := (hp_data h)[i := hp_data h ! j, j := hp_data h ! i]\<rparr>"

function sift_up :: "nat \<Rightarrow> heap_state \<Rightarrow> heap_state" where
  "sift_up i h =
     (if 0 < i then
        (let p = (i - 1) div 2
         in if hp_prio h ! i < hp_prio h ! p then sift_up p (heap_swap i p h) else h)
      else h)"
  by auto
termination by (relation "measure fst") auto

definition smallest_child :: "nat \<Rightarrow> heap_state \<Rightarrow> nat" where
  "smallest_child i h =
     (let l = 2 * i + 1; r = 2 * i + 2;
          m = (if l < hp_size h \<and> hp_prio h ! l < hp_prio h ! i then l else i)
      in if r < hp_size h \<and> hp_prio h ! r < hp_prio h ! m then r else m)"

lemma smallest_child_bounds: "smallest_child i h \<noteq> i \<Longrightarrow> i < smallest_child i h \<and> smallest_child i h < hp_size h"
  by (auto simp: smallest_child_def Let_def split: if_splits)

function sift_down :: "nat \<Rightarrow> heap_state \<Rightarrow> heap_state" where
  "sift_down i h = (let m = smallest_child i h in if m = i then h else sift_down m (heap_swap i m h))"
  by auto
termination
  by (relation "measure (\<lambda>(i, h). hp_size h - i)")
    (use smallest_child_bounds in \<open>fastforce simp: heap_swap_def\<close>)+

declare sift_up.simps [simp del] sift_down.simps [simp del]

definition heap_insert :: "flit \<Rightarrow> heap_state \<Rightarrow> heap_state" where
  "heap_insert f h =
     (let i = hp_size h
      in sift_up i (h\<lparr>hp_size := i + 1, hp_prio := (hp_prio h)[i := get_lane 0 f], hp_data := (hp_data h)[i := f]\<rparr>))"

definition heap_pop :: "heap_state \<Rightarrow> heap_state" where
  "heap_pop h =
     (let n = hp_size h - 1
      in sift_down 0 (h\<lparr>hp_size := n, hp_prio := (hp_prio h)[0 := hp_prio h ! n], hp_data := (hp_data h)[0 := hp_data h ! n]\<rparr>))"

definition min_heap_take :: "heap_state body" where
  "min_heap_take lc =
     (if input_ready PORT_1 (lc_ports lc) \<and> hp_size (lc_state lc) < HEAP_SIZE
      then (let (f, p) = read_input_port PORT_1 (lc_ports lc)
            in lc\<lparr>lc_ports := p, lc_state := heap_insert f (lc_state lc)\<rparr>)
      else lc)"

definition min_heap_handler :: "heap_state body" where
  "min_heap_handler lc =
     (let lc1 = min_heap_take lc
      in (if 0 < hp_size (lc_state lc1)
          then lc1\<lparr>lc_ports := set_output_port 1 (hp_data (lc_state lc1) ! 0) (lc_ports lc1), lc_state := heap_pop (lc_state lc1)\<rparr>
          else lc1)\<lparr>lc_ret := PORT_1\<rparr>)"

text \<open>Between two calls the heap is empty: what comes in goes out in the same call.\<close>

definition heap_empty :: "heap_state \<Rightarrow> flit list \<Rightarrow> flit list \<Rightarrow> bool" where
  "heap_empty h seen out \<longleftrightarrow> hp_size h = 0 \<and> length (hp_data h) = HEAP_SIZE \<and> out = seen"

lemma heap_insert_pop:
  assumes "hp_size h = 0" "length (hp_data h) = HEAP_SIZE"
  shows "hp_size (heap_insert f h) = 1" "hp_data (heap_insert f h) ! 0 = f"
    "hp_size (heap_pop (heap_insert f h)) = 0" "length (hp_data (heap_pop (heap_insert f h))) = HEAP_SIZE"
proof -
  let ?h = "h\<lparr>hp_size := 1, hp_prio := (hp_prio h)[0 := get_lane 0 f], hp_data := (hp_data h)[0 := f]\<rparr>"
  have i: "heap_insert f h = ?h" using assms by (simp add: heap_insert_def Let_def sift_up.simps [of 0])
  show "hp_size (heap_insert f h) = 1" "hp_data (heap_insert f h) ! 0 = f"
    using assms by (simp_all add: i HEAP_SIZE_def)
  have "smallest_child 0 g = 0" if "hp_size g = 0" for g using that by (simp add: smallest_child_def Let_def)
  then show "hp_size (heap_pop (heap_insert f h)) = 0" "length (hp_data (heap_pop (heap_insert f h))) = HEAP_SIZE"
    using assms by (simp_all add: i heap_pop_def Let_def sift_down.simps [of 0])
qed

interpretation min_heap: element min_heap_handler "\<lambda>lc. lc" heap_empty
proof
  fix lc :: "heap_state locals" and seen out :: "flit list"
  let ?p = "lc_ports lc" let ?f = "po_input_data ?p ! 1" let ?h = "lc_state lc"
  assume h: "heap_empty ?h seen out" and fit: "ports_fit ?p" and zero: "po_output_port ?p = 0"
  then have e: "hp_size ?h = 0" "length (hp_data ?h) = HEAP_SIZE" "out = seen" by (simp_all add: heap_empty_def)
  show "heap_empty (lc_state (min_heap_handler lc)) (seen @ buffered ?p) (out @ pending_out (lc_ports (min_heap_handler lc)))
      \<and> buffered (lc_ports (min_heap_handler lc)) = [] \<and> ports_fit (lc_ports (min_heap_handler lc))"
  proof (cases "input_ready PORT_1 ?p")
    case True
    then have "buffered ?p = [?f]" by (simp add: input_ready_def PORT_1_def held_at_def)
    moreover have "min_heap_take lc = lc\<lparr>lc_ports := clear_input_ready 2 ?p, lc_state := heap_insert ?f ?h\<rparr>"
      using True e(1) by (simp add: min_heap_take_def read_port_1 HEAP_SIZE_def)
    ultimately show ?thesis using e fit zero heap_insert_pop [OF e(1,2), of ?f]
      by (simp add: min_heap_handler_def heap_empty_def emitted_one del: One_nat_def)
  next
    case False
    then have "buffered ?p = []" "min_heap_take lc = lc" by (simp_all add: input_ready_def PORT_1_def held_at_def min_heap_take_def)
    with e h fit zero show ?thesis by (simp add: min_heap_handler_def pending_at_def)
  qed
qed simp_all

lemma min_heap_in_order:
  assumes "distinct (map kh_name (b_kernels b))" and "element_at ws rs bodies min_heap_handler (\<lambda>lc. lc) b i"
    and "(net_step ws rs)\<^sup>*\<^sup>* (emulator bodies b) n" and "snd (snd (bodies (b_kernels b ! i))) = heap_start"
  shows "subseq (sh_sent (nt_shared n) (out_stream b i)) (sh_got (nt_shared n) (in_stream b i))"
proof -
  have start: "heap_empty (snd (snd (bodies (b_kernels b ! i)))) [] []"
    by (simp add: assms(4) heap_empty_def heap_start_def)
  from min_heap.emulator_result [OF assms(1-3) start] obtain seen rest out
    where o: "heap_empty (lc_state (th_locals (nt_threads n ! i))) seen out"
      "sh_got (nt_shared n) (in_stream b i) = seen @ rest" "subseq (sh_sent (nt_shared n) (out_stream b i)) out" by metis
  then show ?thesis using list_emb_append_mono [OF o(3) list_emb_Nil, of rest] by (simp add: heap_empty_def)
qed

subsection \<open>HashTable\<close>

record table_entry =
  te_key0 :: u64
  te_key1 :: u64
  te_action :: u64
  te_valid :: bool

text \<open>The index is masked, so the entries that exist are those below 2 to the 14.\<close>

type_synonym hash_table = "u32 \<Rightarrow> table_entry"

definition INDEX_MASK :: u32 where "INDEX_MASK = push_bit 14 1 - 1"

definition table_start :: hash_table where
  "table_start = (\<lambda>_. \<lparr>te_key0 = 0, te_key1 = 0, te_action = 0, te_valid = False\<rparr>)"

definition hash_index :: "u64 \<Rightarrow> u64 \<Rightarrow> u32" where
  "hash_index k0 k1 =
     (let h = k0 XOR (k1 + 0x9E3779B97F4A7C15 + push_bit 6 k0 + drop_bit 2 k0) in ucast h AND INDEX_MASK)"

definition table_answer :: "hash_table \<Rightarrow> flit \<Rightarrow> flit" where
  "table_answer t f =
     (let k0 = get_lane 0 f; k1 = get_lane 1 f; e = t (hash_index k0 k1);
          hit = te_valid e \<and> te_key0 e = k0 \<and> te_key1 e = k1;
          out = (if hit then set_lane 1 1 (set_lane 0 (te_action e) flit_zero) else set_lane 1 0 (set_lane 0 0 flit_zero))
      in set_eop True (set_sop True (set_lane 3 k1 (set_lane 2 k0 out))))"

definition hash_table_handler :: "hash_table body" where
  "hash_table_handler lc =
     (if input_ready PORT_1 (lc_ports lc)
      then (let (f, p) = read_input_port PORT_1 (lc_ports lc)
            in lc\<lparr>lc_ports := set_output_port 1 (table_answer (lc_state lc) f) p, lc_ret := PORT_1\<rparr>)
      else lc\<lparr>lc_ret := PORT_1\<rparr>)"

definition rule_signal :: "cl_signal \<Rightarrow> hash_table \<Rightarrow> hash_table \<times> u64 list" where
  "rule_signal ev t =
     (let idx = cs_sparam ev AND INDEX_MASK; e = t idx in
      if cs_cmd ev = 1
      then (t(idx := \<lparr>te_key0 = cs_lparam ev ! 0, te_key1 = cs_lparam ev ! 1, te_action = cs_lparam ev ! 2, te_valid = True\<rparr>), [1])
      else if cs_cmd ev = 2 then (t(idx := e\<lparr>te_valid := False\<rparr>), [1])
      else (t, [te_key0 e, te_key1 e, te_action e, of_bool (te_valid e)]))"

definition hash_table_signal :: "hash_table body" where
  "hash_table_signal lc =
     (case rule_signal (lc_event lc) (lc_state lc) of (t, answer) \<Rightarrow>
        lc\<lparr>lc_state := t, lc_outevent := set_lparams answer (lc_outevent lc)\<rparr>)"

text \<open>What the table says of a key: the action, or nothing.\<close>

definition table_lookup :: "hash_table \<Rightarrow> u64 \<times> u64 \<Rightarrow> u64 option" where
  "table_lookup t k =
     (let e = t (hash_index (fst k) (snd k))
      in if te_valid e \<and> (te_key0 e, te_key1 e) = k then Some (te_action e) else None)"

definition key_slot :: "u64 \<times> u64 \<Rightarrow> u32" where
  "key_slot k = hash_index (fst k) (snd k)"

text \<open>Storing evicts the keys of the same slot; a rule stored at the wrong index is never found.\<close>

lemma table_lookup_insert:
  assumes "cs_cmd ev = 1"
  shows "table_lookup (fst (rule_signal ev t)) k =
    (if key_slot k \<noteq> cs_sparam ev AND INDEX_MASK then table_lookup t k
     else if k = (cs_lparam ev ! 0, cs_lparam ev ! 1) then Some (cs_lparam ev ! 2) else None)"
  using assms by (auto simp: table_lookup_def rule_signal_def key_slot_def Let_def)

lemma table_lookup_delete:
  assumes "cs_cmd ev = 2"
  shows "table_lookup (fst (rule_signal ev t)) k =
    (if key_slot k = cs_sparam ev AND INDEX_MASK then None else table_lookup t k)"
  using assms by (auto simp: table_lookup_def rule_signal_def key_slot_def Let_def)

lemma table_lookup_read: "cs_cmd ev \<noteq> 1 \<Longrightarrow> cs_cmd ev \<noteq> 2 \<Longrightarrow> fst (rule_signal ev t) = t"
  by (simp add: rule_signal_def Let_def)

lemma table_lookup_start: "table_lookup table_start k = None"
  by (simp add: table_lookup_def table_start_def)

text \<open>The answer carries the result of the lookup and the key.\<close>

lemma table_answer_lanes:
  defines "r t f \<equiv> table_lookup t (get_lane 0 f, get_lane 1 f)"
  shows "get_lane 0 (table_answer t f) = (case r t f of None \<Rightarrow> 0 | Some a \<Rightarrow> a)"
    and "get_lane 1 (table_answer t f) = (case r t f of None \<Rightarrow> 0 | Some _ \<Rightarrow> 1)"
    and "get_lane 2 (table_answer t f) = get_lane 0 f" and "get_lane 3 (table_answer t f) = get_lane 1 f"
  by (auto simp: table_answer_def r_def table_lookup_def Let_def lane_other lane_roundtrip)

text \<open>One answer for each flit, in order, whatever rules are set on the way.\<close>

definition asks :: "flit \<Rightarrow> flit \<Rightarrow> bool" where
  "asks f g \<longleftrightarrow> get_lane 2 g = get_lane 0 f \<and> get_lane 3 g = get_lane 1 f"

interpretation hash_table: element hash_table_handler hash_table_signal "\<lambda>_ seen out. list_all2 asks seen out"
proof
  fix lc :: "hash_table locals" and seen out :: "flit list"
  let ?p = "lc_ports lc"
  assume r: "list_all2 asks seen out" and fit: "ports_fit ?p" and zero: "po_output_port ?p = 0"
  show "list_all2 asks (seen @ buffered ?p) (out @ pending_out (lc_ports (hash_table_handler lc)))
      \<and> buffered (lc_ports (hash_table_handler lc)) = [] \<and> ports_fit (lc_ports (hash_table_handler lc))"
  proof (cases "input_ready PORT_1 ?p")
    case True
    then have "buffered ?p = [po_input_data ?p ! 1]" by (simp add: input_ready_def PORT_1_def held_at_def)
    with True fit zero r show ?thesis
      by (simp add: hash_table_handler_def read_port_1 Let_def emitted_one asks_def table_answer_lanes list_all2_appendI del: One_nat_def)
  next
    case False
    then have "buffered ?p = []" by (simp add: input_ready_def PORT_1_def held_at_def)
    with False r fit zero show ?thesis by (simp add: hash_table_handler_def pending_at_def)
  qed
qed (simp_all add: hash_table_signal_def split: prod.split)

subsection \<open>Demux, output by output\<close>

text \<open>Output \<open>q\<close> gets every eighth flit, whatever the number of outputs.\<close>

definition turns :: "nat \<Rightarrow> flit list \<Rightarrow> flit list" where
  "turns q seen = nths seen {j. j mod 8 + 1 = q}"

definition demux_deals :: "nat \<Rightarrow> demux_state locals \<Rightarrow> (nat \<Rightarrow> flit list) \<Rightarrow> flit list \<Rightarrow> bool" where
  "demux_deals q lc got out \<longleftrightarrow> 2 \<le> length (po_input_data (lc_ports lc)) \<and> q < length (po_output_data (lc_ports lc)) \<and>
     (\<exists>seen. got 1 = seen @ buffered (lc_ports lc) \<and> unat (dm_rr (lc_state lc)) = length seen mod 8 + 1 \<and> out = turns q seen)"

lemma turns_snoc: "turns q (seen @ [f]) = turns q seen @ (if length seen mod 8 + 1 = q then [f] else [])"
  by (simp add: turns_def nths_append)

locale demux_output =
  fixes q :: nat
  assumes port_range: "1 \<le> q" "q \<le> 8"
begin

lemma demux_handler_deals:
  assumes d: "demux_deals q lc got out" and zero: "po_output_port (lc_ports lc) = 0"
  shows "demux_deals q (demux_handler lc) got (out @ pending_at q (lc_ports (demux_handler lc)))"
proof -
  let ?p = "lc_ports lc" let ?f = "po_input_data ?p ! 1"
  from d obtain seen where s: "got 1 = seen @ buffered ?p" "unat (dm_rr (lc_state lc)) = length seen mod 8 + 1" "out = turns q seen"
    and fit: "2 \<le> length (po_input_data ?p)" "q < length (po_output_data ?p)" unfolding demux_deals_def by blast
  show ?thesis
  proof (cases "input_ready PORT_1 ?p")
    case True
    then have "buffered ?p = [?f]" by (simp add: input_ready_def PORT_1_def held_at_def)
    note h = demux_handler_flit [OF True zero s(2)]
    let ?lc = "demux_handler lc"
    have data: "po_output_data (lc_ports ?lc) = (po_output_data ?p)[length seen mod 8 + 1 := ?f]"
      "po_input_data (lc_ports ?lc) = po_input_data ?p"
      using True by (simp_all add: demux_handler_def read_port_1 Let_def set_output_port_def s(2))
    have "pending_at q (lc_ports ?lc) = (if length seen mod 8 + 1 = q then [?f] else [])"
      using fit(2) port_range by (auto simp: pending_at_def h(1) data port_bits_differ PORT_BIT_nonzero)
    then show ?thesis using h s fit \<open>buffered ?p = [?f]\<close> data unfolding demux_deals_def
      by (intro conjI exI [where x = "seen @ [?f]"]) (simp_all add: turns_snoc del: One_nat_def)
  next
    case False
    then have "demux_handler lc = lc\<lparr>lc_ret := PORT_1\<rparr>" by (simp add: demux_handler_def)
    with d zero show ?thesis by (simp add: demux_deals_def pending_at_def)
  qed
qed

end

sublocale demux_output \<subseteq> stream_kernel demux_handler "\<lambda>lc. lc" "{1}" q "demux_deals q"
proof
  fix lc lc' :: "demux_state locals" and got :: "nat \<Rightarrow> flit list" and out :: "flit list"
  assume d: "demux_deals q lc got out"
  show "demux_deals q lc got out" by (rule d)
  show "demux_deals q (demux_handler lc) got (out @ pending_at q (lc_ports (demux_handler lc)))"
    if "po_output_port (lc_ports lc) = 0" by (rule demux_handler_deals [OF d that])
  show "demux_deals q lc' got out" if "same_view lc lc'"
    using d that by (auto simp: demux_deals_def same_view_def held_at_def)
  fix i f
  assume i: "i \<in> {1}" "wants_input i lc"
  then have "i < length (po_input_data (lc_ports lc))" "i < 32" using d by (auto simp: demux_deals_def)
  from held_buffer_input [OF i(2) this, of 1] i(1)
  have h: "buffered (buffer_input 1 f (lc_ports lc)) = buffered (lc_ports lc) @ [f]" by simp
  have frame: "length (po_input_data (buffer_input i f (lc_ports lc))) = length (po_input_data (lc_ports lc))"
    "po_output_data (buffer_input i f (lc_ports lc)) = po_output_data (lc_ports lc)"
    by (simp_all add: buffer_input_def)
  show "demux_deals q (map_ports (buffer_input i f) lc) (got(i := got i @ [f])) out"
    using d i frame by (auto simp: demux_deals_def h simp del: One_nat_def)
qed

interpretation demux_1: demux_output 1 by unfold_locales simp_all

end
