(* ===== verification/FirewallElements.thy ===== *)
theory FirewallElements
  imports TableElements HostPrograms
begin

text \<open>
  The elements of \<open>examples/Firewall\<close> and its rule: FlowTupleParser (\<open>elements/parsers\<close>) makes the key of a
  packet, HashTable looks it up, LookupAct (\<open>examples/Firewall/topology.clnp\<close>) passes or drops the packet,
  and the host program installs one rule. None of them does what the example means to do: the key
  takes two bytes from beyond the buffer, the verdict that counts is the last one read, and the rule is
  stored where no lookup finds it.
\<close>

subsection \<open>FlowTupleParser\<close>

text \<open>
  The body reads the bytes 30 to 33 of a buffer of 32 bytes. What the two bytes behind the buffer hold is
  a parameter.
\<close>

definition be_word32 :: "u8 list \<Rightarrow> nat \<Rightarrow> u32" where
  "be_word32 bs i =
     push_bit 24 (ucast (bs ! i)) OR push_bit 16 (ucast (bs ! (i + 1))) OR push_bit 8 (ucast (bs ! (i + 2))) OR ucast (bs ! (i + 3))"

definition tuple_meta :: "u8 list \<Rightarrow> flit" where
  "tuple_meta bs =
     set_eop True (set_sop True (set_lane 1 (ucast (bs ! (14 + 9)))
       (set_lane 0 (push_bit 32 (ucast (be_word32 bs (14 + 12))) OR ucast (be_word32 bs (14 + 16))) flit_zero)))"

definition tuple_handler :: "u8 list \<Rightarrow> bool body" where
  "tuple_handler beyond lc =
     (if input_ready PORT_1 (lc_ports lc)
      then (let (f, p) = read_input_port PORT_1 (lc_ports lc);
                p1 = set_output_port 1 f p;
                (p2, first) = (if lc_state lc \<and> sop f
                               then (set_output_port 2 (tuple_meta (get_data 32 f @ beyond)) p1, False)
                               else (p1, lc_state lc))
            in lc\<lparr>lc_ports := p2, lc_state := (if eop f then True else first), lc_ret := PORT_1\<rparr>)
      else lc\<lparr>lc_ret := PORT_1\<rparr>)"

lemma low_half: "(push_bit 32 (ucast (a :: u32)) OR ucast (push_bit 24 (ucast b) OR push_bit 16 (ucast c) OR push_bit 8 (ucast x) OR ucast y :: u32))
      AND 0xFFFF = (push_bit 8 (ucast x) OR ucast y :: u64)" for a and b c x y :: u8
proof (rule bit_word_eqI)
  fix n
  assume "n < LENGTH(64)"
  have m: "(0xFFFF :: u64) = mask 16" by (simp add: mask_eq_exp_minus_1)
  consider "n < 8" | "8 \<le> n" "n < 16" | "16 \<le> n" by linarith
  then show "bit ((push_bit 32 (ucast a) OR ucast (push_bit 24 (ucast b) OR push_bit 16 (ucast c) OR push_bit 8 (ucast x) OR ucast y :: u32))
      AND 0xFFFF :: u64) n \<longleftrightarrow> bit (push_bit 8 (ucast x) OR ucast y :: u64) n"
  proof cases
    case 3
    then have "\<not> bit x (n - 8)" "\<not> bit y n" using bit_imp_le_length [of x "n - 8"] bit_imp_le_length [of y n] by auto
    with 3 show ?thesis unfolding m by (simp add: bit_simps)
  qed (auto simp: m bit_simps)
qed

text \<open>The key of a packet: only 16 bits of the destination come from the packet.\<close>

lemma tuple_key_low:
  assumes "length bs = 32"
  shows "get_lane 0 (tuple_meta (bs @ [x, y])) AND 0xFFFF = push_bit 8 (ucast x) OR ucast y"
proof -
  have "get_lane 0 (tuple_meta (bs @ [x, y])) = push_bit 32 (ucast (be_word32 (bs @ [x, y]) 26)) OR ucast (be_word32 (bs @ [x, y]) 30)"
    by (simp add: tuple_meta_def lane_other lane_roundtrip)
  moreover have "be_word32 (bs @ [x, y]) 30 =
      push_bit 24 (ucast (bs ! 30)) OR push_bit 16 (ucast (bs ! 31)) OR push_bit 8 (ucast x) OR ucast y"
    using assms by (simp add: be_word32_def nth_append)
  ultimately show ?thesis by (simp add: low_half)
qed

text \<open>The packets themselves are passed on as they are.\<close>

lemma tuple_passes:
  assumes "input_ready PORT_1 (lc_ports lc)" "ports_fit (lc_ports lc)" "po_output_port (lc_ports lc) = 0"
  shows "pending_out (lc_ports (tuple_handler beyond lc)) = [po_input_data (lc_ports lc) ! 1]"
    and "buffered (lc_ports (tuple_handler beyond lc)) = []" "ports_fit (lc_ports (tuple_handler beyond lc))"
proof -
  have two: "pending_out (set_output_port 2 g p) = pending_out p" if "length (po_output_data p) \<noteq> 1" for g p
    using that by (simp add: pending_at_def set_output_port_def port_bit_or [of _ 2 1, simplified] del: One_nat_def)
  have out: "pending_out (lc_ports (tuple_handler beyond lc)) = [po_input_data (lc_ports lc) ! 1]
    \<and> buffered (lc_ports (tuple_handler beyond lc)) = [] \<and> ports_fit (lc_ports (tuple_handler beyond lc))"
    using assms
    by (auto simp: tuple_handler_def read_port_1 Let_def two emitted_one held_set_output_port ports_fit_def
        simp del: One_nat_def split: if_splits)
  then show "pending_out (lc_ports (tuple_handler beyond lc)) = [po_input_data (lc_ports lc) ! 1]"
    "buffered (lc_ports (tuple_handler beyond lc)) = []" "ports_fit (lc_ports (tuple_handler beyond lc))" by blast+
qed

interpretation tuple_parser: element "tuple_handler beyond" "\<lambda>lc. lc" "\<lambda>_ seen out. out = seen" for beyond
proof
  fix lc :: "bool locals" and seen out :: "flit list"
  assume r: "out = seen" and fit: "ports_fit (lc_ports lc)" and zero: "po_output_port (lc_ports lc) = 0"
  show "out @ pending_out (lc_ports (tuple_handler beyond lc)) = seen @ buffered (lc_ports lc)
      \<and> buffered (lc_ports (tuple_handler beyond lc)) = [] \<and> ports_fit (lc_ports (tuple_handler beyond lc))"
  proof (cases "input_ready PORT_1 (lc_ports lc)")
    case True
    then have "buffered (lc_ports lc) = [po_input_data (lc_ports lc) ! 1]" by (simp add: input_ready_def PORT_1_def held_at_def)
    with r tuple_passes [OF True fit zero, of beyond] show ?thesis by (simp del: One_nat_def)
  next
    case False
    then have "buffered (lc_ports lc) = []" by (simp add: input_ready_def PORT_1_def held_at_def)
    with False r fit zero show ?thesis by (simp add: tuple_handler_def pending_at_def)
  qed
qed simp_all

subsection \<open>LookupAct\<close>

record act_state =
  la_has_decision :: bool
  la_pass_pkt :: bool
  la_passed :: u64
  la_dropped :: u64

definition act_start :: act_state where
  "act_start = \<lparr>la_has_decision = False, la_pass_pkt = False, la_passed = 0, la_dropped = 0\<rparr>"

text \<open>The verdict of a metadata flit, and the flit of a packet.\<close>

definition act_decide :: "act_state body" where
  "act_decide lc =
     (if input_ready PORT_2 (lc_ports lc)
      then (let (m, p) = read_input_port PORT_2 (lc_ports lc)
            in lc\<lparr>lc_ports := p, lc_state := (lc_state lc)\<lparr>la_has_decision := True, la_pass_pkt := get_lane 1 m \<noteq> 0\<rparr>\<rparr>)
      else lc)"

definition act_handler :: "act_state body" where
  "act_handler lc =
     (let lc1 = act_decide lc; st = lc_state lc1 in
      (if la_has_decision st \<and> input_ready PORT_1 (lc_ports lc1)
       then (let (f, p) = read_input_port PORT_1 (lc_ports lc1) in
             if la_pass_pkt st
             then lc1\<lparr>lc_ports := set_output_port 1 f p,
                    lc_state := (if eop f then st\<lparr>la_passed := la_passed st + 1, la_has_decision := False\<rparr> else st)\<rparr>
             else lc1\<lparr>lc_ports := p,
                    lc_state := (if eop f then st\<lparr>la_dropped := la_dropped st + 1, la_has_decision := False\<rparr> else st)\<rparr>)
       else lc1)\<lparr>lc_ret := PORT_ALL\<rparr>)"

definition act_signal :: "act_state body" where
  "act_signal lc = lc\<lparr>lc_outevent := set_lparams [la_passed (lc_state lc), la_dropped (lc_state lc)] (lc_outevent lc)\<rparr>"

text \<open>
  What has been taken from the packets, and what has come out: nothing if every verdict read so far is a
  miss, everything if every verdict read so far is a hit.
\<close>

definition verdicts_kept :: "act_state \<Rightarrow> flit set \<Rightarrow> flit list \<Rightarrow> flit list \<Rightarrow> bool" where
  "verdicts_kept st ms seen out \<longleftrightarrow> subseq out seen \<and>
     ((\<forall>m\<in>ms. get_lane 1 m = 0) \<longrightarrow> out = [] \<and> \<not> (la_has_decision st \<and> la_pass_pkt st)) \<and>
     ((\<forall>m\<in>ms. get_lane 1 m \<noteq> 0) \<longrightarrow> out = seen \<and> (la_has_decision st \<longrightarrow> la_pass_pkt st))"

definition act_inv :: "act_state locals \<Rightarrow> (nat \<Rightarrow> flit list) \<Rightarrow> flit list \<Rightarrow> bool" where
  "act_inv lc got out \<longleftrightarrow>
     3 \<le> length (po_input_data (lc_ports lc)) \<and> 2 \<le> length (po_output_data (lc_ports lc)) \<and>
     set (held_at 2 (lc_ports lc)) \<subseteq> set (got 2) \<and>
     (\<exists>seen. got 1 = seen @ held_at 1 (lc_ports lc) \<and> verdicts_kept (lc_state lc) (set (got 2)) seen out)"

lemma act_invI:
  assumes "3 \<le> length (po_input_data (lc_ports lc))" "2 \<le> length (po_output_data (lc_ports lc))"
    "set (held_at 2 (lc_ports lc)) \<subseteq> set (got 2)" "got 1 = seen @ held_at 1 (lc_ports lc)"
    "verdicts_kept (lc_state lc) (set (got 2)) seen out"
  shows "act_inv lc got out"
  using assms unfolding act_inv_def by blast

lemma port_2_number: "builtin_ctz PORT_2 = 2"
  by code_simp

lemma read_port_2: "read_input_port PORT_2 p = (po_input_data p ! 2, clear_input_ready (PORT_BIT 2) p)"
  by (simp add: read_input_port_def port_2_number) (simp add: PORT_2_def)

lemma ready_held: "input_ready PORT_1 p \<longleftrightarrow> held_at 1 p = [po_input_data p ! 1]" "input_ready PORT_2 p \<longleftrightarrow> held_at 2 p = [po_input_data p ! 2]"
  by (auto simp: input_ready_def PORT_1_def PORT_2_def held_at_def)

lemma clear_ports: "clear_input_ready 2 p = clear_input_ready (PORT_BIT 1) p"
  by simp

lemma act_decide_inv:
  assumes "act_inv lc got out"
  shows "act_inv (act_decide lc) got out"
proof (cases "input_ready PORT_2 (lc_ports lc)")
  case True
  let ?m = "po_input_data (lc_ports lc) ! 2" let ?st = "lc_state lc"
  from assms obtain seen where s: "3 \<le> length (po_input_data (lc_ports lc))" "2 \<le> length (po_output_data (lc_ports lc))"
    "set (held_at 2 (lc_ports lc)) \<subseteq> set (got 2)" "got 1 = seen @ held_at 1 (lc_ports lc)" "verdicts_kept ?st (set (got 2)) seen out"
    unfolding act_inv_def by blast
  have "?m \<in> set (got 2)" using s(3) True unfolding ready_held by simp
  then have "verdicts_kept (?st\<lparr>la_has_decision := True, la_pass_pkt := get_lane 1 ?m \<noteq> 0\<rparr>) (set (got 2)) seen out"
    using s(5) by (auto simp: verdicts_kept_def)
  moreover have "act_decide lc = lc\<lparr>lc_ports := clear_input_ready (PORT_BIT 2) (lc_ports lc),
      lc_state := ?st\<lparr>la_has_decision := True, la_pass_pkt := get_lane 1 ?m \<noteq> 0\<rparr>\<rparr>"
    unfolding act_decide_def read_port_2 Let_def prod.case using True by simp
  moreover have "held_at 1 (clear_input_ready (PORT_BIT 2) (lc_ports lc)) = held_at 1 (lc_ports lc)"
    "held_at 2 (clear_input_ready (PORT_BIT 2) (lc_ports lc)) = []" unfolding held_clear by simp_all
  ultimately show ?thesis using s by (intro act_invI [where seen = seen]) (simp_all del: One_nat_def)
qed (use assms in \<open>simp add: act_decide_def\<close>)

lemma act_decide_output: "po_output_port (lc_ports (act_decide lc)) = po_output_port (lc_ports lc)"
  by (simp add: act_decide_def read_port_2)

lemma act_handler_inv:
  assumes i: "act_inv lc got out" and zero: "po_output_port (lc_ports lc) = 0"
  shows "act_inv (act_handler lc) got (out @ pending_out (lc_ports (act_handler lc)))"
proof -
  define lc1 where "lc1 = act_decide lc"
  let ?st = "lc_state lc1" let ?p = "lc_ports lc1" let ?f = "po_input_data ?p ! 1"
  have z: "po_output_port ?p = 0" unfolding lc1_def act_decide_output by (rule zero)
  from act_decide_inv [OF i] obtain seen where s: "3 \<le> length (po_input_data ?p)" "2 \<le> length (po_output_data ?p)"
    "set (held_at 2 ?p) \<subseteq> set (got 2)" "got 1 = seen @ held_at 1 ?p" "verdicts_kept ?st (set (got 2)) seen out"
    unfolding act_inv_def lc1_def by blast
  show ?thesis
  proof (cases "la_has_decision ?st \<and> input_ready PORT_1 ?p")
    case True
    then have held: "held_at 1 ?p = [?f]" by (simp add: ready_held)
    let ?p' = "clear_input_ready (PORT_BIT 1) ?p"
    have h': "held_at 1 ?p' = []" "held_at 2 ?p' = held_at 2 ?p" "pending_out ?p' = []"
      unfolding held_clear using z by (simp_all add: pending_at_def)
    define st' where "st' = (if eop ?f then ?st\<lparr>la_has_decision := False\<rparr> else ?st)"
    have keep: "verdicts_kept st (set (got 2)) (seen @ [?f]) (out @ (if la_pass_pkt ?st then [?f] else []))"
      if "la_has_decision st \<longrightarrow> la_has_decision ?st \<and> la_pass_pkt st = la_pass_pkt ?st" for st
      using s(5) True that by (auto simp: verdicts_kept_def)
    show ?thesis
    proof (cases "la_pass_pkt ?st")
      case pass: True
      have eq: "act_handler lc = lc1\<lparr>lc_ports := set_output_port 1 ?f ?p', lc_state :=
          (if eop ?f then ?st\<lparr>la_passed := la_passed ?st + 1, la_has_decision := False\<rparr> else ?st), lc_ret := PORT_ALL\<rparr>"
        using True pass by (simp add: act_handler_def lc1_def [symmetric] Let_def read_port_1)
      have out: "pending_out (set_output_port 1 ?f ?p') = [?f]" by (rule pending_set_output) (use z s(2) in simp_all)
      show ?thesis unfolding eq
        by (rule act_invI [where seen = "seen @ [?f]"])
          (use s held h' out keep pass in \<open>simp_all add: held_set_output_port del: One_nat_def\<close>)
    next
      case False
      have eq: "act_handler lc = lc1\<lparr>lc_ports := ?p', lc_state :=
          (if eop ?f then ?st\<lparr>la_dropped := la_dropped ?st + 1, la_has_decision := False\<rparr> else ?st), lc_ret := PORT_ALL\<rparr>"
        using True False by (simp add: act_handler_def lc1_def [symmetric] Let_def read_port_1)
      show ?thesis unfolding eq
        by (rule act_invI [where seen = "seen @ [?f]"])
          (use s held h' keep False in \<open>simp_all del: One_nat_def\<close>)
    qed
  next
    case False
    then have eq: "act_handler lc = lc1\<lparr>lc_ret := PORT_ALL\<rparr>" by (auto simp: act_handler_def lc1_def [symmetric] Let_def)
    show ?thesis unfolding eq
      by (rule act_invI [where seen = seen]) (use s z in \<open>simp_all add: pending_at_def del: One_nat_def\<close>)
  qed
qed

interpretation lookup_act: stream_kernel act_handler act_signal "{1, 2}" 1 act_inv
proof
  fix lc lc' :: "act_state locals" and got :: "nat \<Rightarrow> flit list" and out :: "flit list"
  assume i: "act_inv lc got out"
  show "act_inv (act_signal lc) got out" using i by (simp add: act_inv_def act_signal_def)
  show "act_inv (act_handler lc) got (out @ pending_at 1 (lc_ports (act_handler lc)))" if "po_output_port (lc_ports lc) = 0"
    by (rule act_handler_inv [OF i that])
  from i obtain seen where s: "3 \<le> length (po_input_data (lc_ports lc))" "2 \<le> length (po_output_data (lc_ports lc))"
    "set (held_at 2 (lc_ports lc)) \<subseteq> set (got 2)" "got 1 = seen @ held_at 1 (lc_ports lc)"
    "verdicts_kept (lc_state lc) (set (got 2)) seen out" unfolding act_inv_def by blast
  then show "act_inv lc' got out" if "same_view lc lc'"
    using that by (intro act_invI [where seen = seen]) (simp_all add: same_view_def held_at_def)
  fix k f
  assume k: "k \<in> {1, 2}" "wants_input k lc"
  with s have "k < length (po_input_data (lc_ports lc))" "k < 32" by auto
  note h = held_buffer_input [OF k(2) this]
  have "verdicts_kept (lc_state lc) (set ((got(k := got k @ [f])) 2)) seen out"
    using s(5) by (auto simp: verdicts_kept_def)
  then show "act_inv (map_ports (buffer_input k f) lc) (got(k := got k @ [f])) out"
    using s k(1) by (intro act_invI [where seen = seen]) (auto simp: h buffer_input_frame simp del: One_nat_def)
qed

text \<open>In a network with kernels of other element types.\<close>

locale act_in_network =
  fixes get :: "'b \<Rightarrow> act_state" and put :: "act_state \<Rightarrow> 'b"
  assumes state_of: "get (put x) = x"

sublocale act_in_network \<subseteq> embedded_kernel act_handler act_signal "{1, 2}" 1 act_inv get put
  by (intro embedded_kernel.intro lookup_act.stream_kernel_axioms embedded_kernel_axioms.intro state_of)

context act_in_network
begin

lemma lookup_act_result:
  assumes "distinct (map kh_name (b_kernels b))" and "kernel_at ws rs bodies (embed get put act_handler) (embed get put act_signal) b i {1, 2} 1"
    and "(net_step ws rs)\<^sup>*\<^sup>* (emulator bodies b) n" and "snd (snd (bodies (b_kernels b ! i))) = put act_start"
  shows "subseq (sh_sent (nt_shared n) (port_out b i 1)) (sh_got (nt_shared n) (port_in b i 1))"
    and "(\<forall>m\<in>set (sh_got (nt_shared n) (port_in b i 2)). get_lane 1 m = 0) \<Longrightarrow> sh_sent (nt_shared n) (port_out b i 1) = []"
proof -
  let ?k = "b_kernels b ! i"
  have "card (set (map port_no (kh_in_ports ?k))) \<le> length (map port_no (kh_in_ports ?k))" by (rule card_length)
  then have "2 \<le> length (kh_in_ports ?k)" using assms(2) by (simp add: kernel_at_def)
  then have len: "3 \<le> array_slots (kh_in_ports ?k)" "2 \<le> array_slots (kh_out_ports ?k)" by (simp_all add: array_slots_def)
  then have start: "act_inv (map_state get (kernel_locals ?k (snd (snd (bodies ?k))))) (\<lambda>_. []) []"
    unfolding assms(4) by (intro act_invI [where seen = "[]"])
      (simp_all add: kernel_locals_def map_state_def held_at_def verdicts_kept_def act_start_def get_put)
  note f = outer.emulator_follows [OF assms(1-3) start]
  from outer.follows_result [OF f(1)] obtain out where
    o: "act_inv (map_state get (th_locals (nt_threads n ! i))) (got_on {1, 2} (th_kernel (nt_threads n ! i)) (nt_shared n)) out"
      "subseq (sh_sent (nt_shared n) (port_out b i 1)) out" unfolding f(2) kernel_fn_streams by blast
  have g: "got_on {1, 2} (th_kernel (nt_threads n ! i)) (nt_shared n) 1 = sh_got (nt_shared n) (port_in b i 1)"
    "got_on {1, 2} (th_kernel (nt_threads n ! i)) (nt_shared n) 2 = sh_got (nt_shared n) (port_in b i 2)"
    by (simp_all add: got_on_def f(2))
  from o(1) obtain seen where s: "sh_got (nt_shared n) (port_in b i 1) = seen @ held_at 1 (lc_ports (map_state get (th_locals (nt_threads n ! i))))"
    "verdicts_kept (lc_state (map_state get (th_locals (nt_threads n ! i)))) (set (sh_got (nt_shared n) (port_in b i 2))) seen out"
    unfolding act_inv_def g by blast
  then have "subseq out seen" by (simp add: verdicts_kept_def)
  then have "subseq out (sh_got (nt_shared n) (port_in b i 1))" unfolding s(1) by (rule subseq_order.trans) (simp add: prefix_imp_subseq)
  with o(2) show "subseq (sh_sent (nt_shared n) (port_out b i 1)) (sh_got (nt_shared n) (port_in b i 1))"
    by (rule subseq_order.trans)
  assume "\<forall>m\<in>set (sh_got (nt_shared n) (port_in b i 2)). get_lane 1 m = 0"
  with s(2) have "out = []" by (simp add: verdicts_kept_def)
  with o(2) show "sh_sent (nt_shared n) (port_out b i 1) = []" by simp
qed

end

text \<open>A verdict does not wait for the packet of the verdict before it: only the last one read counts.\<close>

definition awaiting :: "act_state locals \<Rightarrow> bool" where
  "awaiting lc \<longleftrightarrow> 3 \<le> length (po_input_data (lc_ports lc)) \<and> 2 \<le> length (po_output_data (lc_ports lc)) \<and>
     held_at 1 (lc_ports lc) = [] \<and> held_at 2 (lc_ports lc) = []"

lemma held_output [simp]: "held_at i (p\<lparr>po_output_port := w\<rparr>) = held_at i p"
  by (simp add: held_at_def)

lemma act_call_verdict:
  assumes "awaiting lc"
  shows "awaiting (handler_call act_handler [(2, m)] lc)" "pending_out (lc_ports (handler_call act_handler [(2, m)] lc)) = []"
    "la_has_decision (lc_state (handler_call act_handler [(2, m)] lc))"
    "la_pass_pkt (lc_state (handler_call act_handler [(2, m)] lc)) \<longleftrightarrow> get_lane 1 m \<noteq> 0"
proof -
  let ?p = "(buffer_input 2 m (lc_ports lc))\<lparr>po_output_port := 0\<rparr>"
  have h: "held_at 2 ?p = [m]" "held_at 1 ?p = []" "po_input_data ?p ! 2 = m"
    using assms by (simp_all add: awaiting_def held_buffer_empty del: One_nat_def) (simp add: buffer_input_def)
  then have r: "input_ready PORT_2 ?p" unfolding ready_held by simp
  let ?p' = "clear_input_ready (PORT_BIT 2) ?p"
  have h': "held_at 1 ?p' = []" "held_at 2 ?p' = []" using h unfolding held_clear by simp_all
  then have r': "\<not> input_ready PORT_1 ?p'" unfolding ready_held by simp
  have call: "handler_call act_handler [(2, m)] lc = act_handler (lc\<lparr>lc_ports := ?p\<rparr>)"
    by (simp add: handler_call_def)
  have d: "act_decide (lc\<lparr>lc_ports := ?p\<rparr>) = lc\<lparr>lc_ports := ?p', lc_state :=
      (lc_state lc)\<lparr>la_has_decision := True, la_pass_pkt := get_lane 1 m \<noteq> 0\<rparr>\<rparr>"
    unfolding act_decide_def read_port_2 Let_def prod.case using r h(3) by simp
  have eq: "handler_call act_handler [(2, m)] lc = lc\<lparr>lc_ports := ?p', lc_state :=
      (lc_state lc)\<lparr>la_has_decision := True, la_pass_pkt := get_lane 1 m \<noteq> 0\<rparr>, lc_ret := PORT_ALL\<rparr>"
    unfolding call act_handler_def d Let_def using r' by simp
  show "awaiting (handler_call act_handler [(2, m)] lc)"
    unfolding eq awaiting_def using assms h' by (simp add: awaiting_def buffer_input_frame)
  show "pending_out (lc_ports (handler_call act_handler [(2, m)] lc)) = []" unfolding eq by (simp add: pending_at_def)
  show "la_has_decision (lc_state (handler_call act_handler [(2, m)] lc))"
    "la_pass_pkt (lc_state (handler_call act_handler [(2, m)] lc)) \<longleftrightarrow> get_lane 1 m \<noteq> 0" unfolding eq by simp_all
qed

lemma act_verdicts:
  assumes "awaiting lc" "ms \<noteq> []"
  shows "fst (handler_calls 1 act_handler (map (\<lambda>m. [(2, m)]) ms) lc) = []
    \<and> awaiting (snd (handler_calls 1 act_handler (map (\<lambda>m. [(2, m)]) ms) lc))
    \<and> la_has_decision (lc_state (snd (handler_calls 1 act_handler (map (\<lambda>m. [(2, m)]) ms) lc)))
    \<and> (la_pass_pkt (lc_state (snd (handler_calls 1 act_handler (map (\<lambda>m. [(2, m)]) ms) lc))) \<longleftrightarrow> get_lane 1 (last ms) \<noteq> 0)"
  using assms
proof (induction ms arbitrary: lc)
  case (Cons m ms)
  note c = act_call_verdict [OF Cons.prems(1), of m]
  show ?case
  proof (cases "ms = []")
    case True
    then show ?thesis using c by (simp add: Let_def)
  next
    case False
    from Cons.IH [OF c(1) False] show ?thesis using False c(2) by (simp add: Let_def split_beta del: One_nat_def)
  qed
qed simp

lemma act_call_packet:
  assumes "awaiting lc" "la_has_decision (lc_state lc)"
  shows "pending_out (lc_ports (handler_call act_handler [(1, f)] lc)) = (if la_pass_pkt (lc_state lc) then [f] else [])"
proof -
  let ?p = "(buffer_input 1 f (lc_ports lc))\<lparr>po_output_port := 0\<rparr>"
  have h: "held_at 1 ?p = [f]" "held_at 2 ?p = []" "po_input_data ?p ! 1 = f"
    using assms by (simp_all add: awaiting_def held_buffer_empty del: One_nat_def) (simp add: buffer_input_def)
  have r: "input_ready PORT_1 ?p" "\<not> input_ready PORT_2 ?p" using h unfolding ready_held by simp_all
  have call: "handler_call act_handler [(1, f)] lc = act_handler (lc\<lparr>lc_ports := ?p\<rparr>)"
    by (simp add: handler_call_def)
  have d: "act_decide (lc\<lparr>lc_ports := ?p\<rparr>) = lc\<lparr>lc_ports := ?p\<rparr>" unfolding act_decide_def using r(2) by simp
  have out: "pending_out (set_output_port 1 f (clear_input_ready 2 ?p)) = [f]" "pending_out (clear_input_ready 2 ?p) = []"
    by (rule pending_set_output, use assms in \<open>simp_all add: awaiting_def buffer_input_frame pending_at_def\<close>)
  show ?thesis unfolding call act_handler_def d Let_def read_port_1 prod.case
    using r(1) assms(2) out h(3) by (simp del: One_nat_def)
qed

lemma act_last_verdict:
  assumes "awaiting lc" "ms \<noteq> []"
  shows "fst (handler_calls 1 act_handler (map (\<lambda>m. [(2, m)]) ms @ [[(1, f)]]) lc) = (if get_lane 1 (last ms) \<noteq> 0 then [f] else [])"
proof -
  note v = act_verdicts [OF assms]
  show ?thesis unfolding handler_calls_append
    using v act_call_packet [of "snd (handler_calls 1 act_handler (map (\<lambda>m. [(2, m)]) ms) lc)" f]
    by (simp add: Let_def split_beta del: One_nat_def)
qed

subsection \<open>The rule of the host program\<close>

definition firewall_rule :: signal_msg where
  "firewall_rule = signal_msg_zero\<lparr>sp_cmd := 1, sp_sparam := 123,
     sp_lparam := (sp_lparam signal_msg_zero)[0 := firewall_key0, 1 := 6, 2 := 1]\<rparr>"

lemma install_firewall_rule: "install_rule x r ht 123 firewall_key0 6 1 p = snd (element_signal x r ht firewall_rule p)"
  by (simp add: install_rule_def firewall_rule_def)

text \<open>As the element reads it, whatever the kernel number.\<close>

definition as_event :: "u16 \<Rightarrow> signal_msg \<Rightarrow> cl_signal" where
  "as_event kid m = \<lparr>cs_kid = kid, cs_cmd = sp_cmd m, cs_sparam = sp_sparam m, cs_lparam = sp_lparam m\<rparr>"

definition rule_only :: "hash_table \<Rightarrow> bool" where
  "rule_only t \<longleftrightarrow> (\<forall>i. te_valid (t i) \<longrightarrow> i = 123 \<and> te_key0 (t i) = firewall_key0 \<and> te_key1 (t i) = 6)"

lemma rule_only_signal:
  assumes "rule_only t" "cs_cmd ev = 1 \<Longrightarrow> ev = as_event (cs_kid ev) firewall_rule"
  shows "rule_only (fst (rule_signal ev t))"
proof (cases "cs_cmd ev = 1")
  case True
  have "123 AND INDEX_MASK = 123" by code_simp
  then have "fst (rule_signal ev t) = t(123 := \<lparr>te_key0 = firewall_key0, te_key1 = 6, te_action = 1, te_valid = True\<rparr>)"
    by (subst assms(2) [OF True])
      (simp add: rule_signal_def as_event_def firewall_rule_def signal_msg_zero_def Let_def numeral_2_eq_2 eval_nat_numeral)
  then show ?thesis using assms(1) by (auto simp: rule_only_def)
qed (use assms(1) in \<open>auto simp: rule_only_def rule_signal_def Let_def\<close>)

lemma rule_only_signals:
  "rule_only t \<Longrightarrow> (\<And>ev. ev \<in> set evs \<Longrightarrow> cs_cmd ev = 1 \<Longrightarrow> ev = as_event (cs_kid ev) firewall_rule) \<Longrightarrow>
    rule_only (fold (\<lambda>ev t. fst (rule_signal ev t)) evs t)"
  by (induction evs arbitrary: t) (simp_all add: rule_only_signal)

text \<open>The slot in which the key of the rule is looked up is another one.\<close>

lemma rule_elsewhere: "key_slot (firewall_key0, 6) \<noteq> 123"
  by code_simp

lemma rule_never_found: "rule_only t \<Longrightarrow> table_lookup t k = None"
  using rule_elsewhere by (cases k) (auto simp: rule_only_def table_lookup_def key_slot_def Let_def)

lemma rule_always_misses: "rule_only t \<Longrightarrow> get_lane 1 (table_answer t f) = 0"
  by (simp add: table_answer_lanes(2) rule_never_found)

lemma rule_only_start: "rule_only table_start"
  by (simp add: rule_only_def table_start_def)

subsection \<open>The emulator of the example\<close>

datatype firewall_state =
  Fw_Split | Fw_Tuple bool | Fw_Table hash_table | Fw_Act act_state | Fw_Pass pass_state

fun fw_tuple :: "firewall_state \<Rightarrow> bool" where
  "fw_tuple (Fw_Tuple b) = b" | "fw_tuple _ = True"

fun fw_table :: "firewall_state \<Rightarrow> hash_table" where
  "fw_table (Fw_Table t) = t" | "fw_table _ = table_start"

fun fw_act :: "firewall_state \<Rightarrow> act_state" where
  "fw_act (Fw_Act st) = st" | "fw_act _ = act_start"

fun fw_pass :: "firewall_state \<Rightarrow> pass_state" where
  "fw_pass (Fw_Pass st) = st" | "fw_pass _ = pass_init"

text \<open>The bodies by element type; the bytes beyond the buffer are a parameter.\<close>

definition firewall_bodies ::
  "u8 list \<Rightarrow> kernel_hls \<Rightarrow> firewall_state body \<times> firewall_state body \<times> firewall_state" where
  "firewall_bodies beyond k =
     (if kh_element_type k = ''Tee'' then (embed (\<lambda>_. ()) (\<lambda>_. Fw_Split) tee_handler, (\<lambda>lc. lc), Fw_Split)
      else if kh_element_type k = ''FlowTupleParser''
        then (embed fw_tuple Fw_Tuple (tuple_handler beyond), (\<lambda>lc. lc), Fw_Tuple True)
      else if kh_element_type k = ''HashTable''
        then (embed fw_table Fw_Table hash_table_handler, embed fw_table Fw_Table hash_table_signal, Fw_Table table_start)
      else if kh_element_type k = ''LookupAct''
        then (embed fw_act Fw_Act act_handler, embed fw_act Fw_Act act_signal, Fw_Act act_start)
      else (embed fw_pass Fw_Pass pass_handler, embed fw_pass Fw_Pass pass_signal, Fw_Pass pass_init))"

interpretation firewall: act_in_network fw_act Fw_Act
  by unfold_locales simp

end
