(* ===== verification/SetupHosts.thy ===== *)
theory SetupHosts
  imports HostPrograms
begin

text \<open>
  The host programs of the examples that set one element up and then sleep for ever, and those that
  only load their image. The platform the program sleeps on is the value of its model; the image that
  every one of them opens by default is named after its example.
\<close>

definition image_of :: "string \<Rightarrow> string" where
  "image_of ex = ''build/'' @ ex @ ''/'' @ ex @ ''.xclbin''"

text \<open>The result of \<open>open\<close> is not looked at. This is the whole of the programs that configure nothing.\<close>

definition idle_host :: "'d xrt option \<Rightarrow> registry \<Rightarrow> string \<Rightarrow> string list \<Rightarrow> 'd host_platform" where
  "idle_host x r ex args = launchAll (snd (platform_open x r (nth_arg args 1 (image_of ex)) [] XDMA Platform))"

definition signal_all ::
  "'d xrt option \<Rightarrow> registry \<Rightarrow> string \<Rightarrow> signal_msg list \<Rightarrow> 'd host_platform \<Rightarrow> 'd host_platform" where
  "signal_all x r name reqs p =
     (let (e, p) = platform_element name p in fold (\<lambda>m p. snd (element_signal x r e m p)) reqs p)"

text \<open>Request 1 with its first parameters, the rest of the message zero.\<close>

definition set_request :: "u32 \<Rightarrow> u64 list \<Rightarrow> signal_msg" where
  "set_request sp lp = signal_msg_zero\<lparr>sp_cmd := 1, sp_sparam := sp, sp_lparam := lp @ drop (length lp) (sp_lparam signal_msg_zero)\<rparr>"

definition lb_backend :: "nat \<Rightarrow> signal_msg" where
  "lb_backend i = set_request (of_nat i) [0x0a000001 + of_nat i]"

definition lb_host :: "'d xrt option \<Rightarrow> registry \<Rightarrow> string list \<Rightarrow> 'd host_platform" where
  "lb_host x r args = signal_all x r ''lb'' (map lb_backend [0..<4]) (idle_host x r ''L4LoadBalancer'' args)"

definition aes_host :: "'d xrt option \<Rightarrow> registry \<Rightarrow> string list \<Rightarrow> 'd host_platform" where
  "aes_host x r args =
     signal_all x r ''aes'' [set_request 0 [0xdeadbeefdeadbeef, 0x123456789abcdef]] (idle_host x r ''AES_Encryption'' args)"

definition traffic_host :: "'d xrt option \<Rightarrow> registry \<Rightarrow> string list \<Rightarrow> 'd host_platform" where
  "traffic_host x r args = signal_all x r ''gen'' [set_request 0 [0x10]] (idle_host x r ''TrafficGenerator'' args)"

definition limiter_host :: "'d xrt option \<Rightarrow> registry \<Rightarrow> string list \<Rightarrow> 'd host_platform" where
  "limiter_host x r args = signal_all x r ''rl'' [set_request 0 [0x10000]] (idle_host x r ''RateLimiter'' args)"

definition shaper_host :: "'d xrt option \<Rightarrow> registry \<Rightarrow> string list \<Rightarrow> 'd host_platform" where
  "shaper_host x r args = signal_all x r ''rl'' [set_request 0 [0x20]] (idle_host x r ''HierarchicalShaper'' args)"

definition encap_host :: "'d xrt option \<Rightarrow> registry \<Rightarrow> string list \<Rightarrow> 'd host_platform" where
  "encap_host x r args = signal_all x r ''encap'' [set_request 0 [0xABCD]] (idle_host x r ''NVGRE_Encap'' args)"

subsection \<open>What reaches the card\<close>

text \<open>With no tables registered nothing is delivered: the handle of the element is all that is left.\<close>

lemma signal_all_unregistered:
  fixes x :: "'d xrt option"
  shows "signal_all x registry_init name reqs p = snd (platform_element name p)"
proof -
  have "fold (\<lambda>m p. snd (element_signal x registry_init e m p)) reqs p' = p'" for e and p' :: "'d host_platform"
    by (induction reqs) (simp_all add: unregistered_signal)
  then show ?thesis by (simp add: signal_all_def split: prod.split)
qed

lemma element_blocks [simp]: "pf_axilite_blocks (snd (platform_element n p)) = pf_axilite_blocks p"
  by (simp add: platform_element_def split: option.split)

lemma idle_handles: "handles_ok (idle_host x r ex args)"
  by (simp add: handles_ok_def idle_host_def launchAll_def platform_open_def Platform_def Let_def split: prod.split)

text \<open>With tables, each request goes through the registers of the element, in order.\<close>

lemma signals_delivered:
  assumes gid: "0 \<le> findSignalGid name r" and d: "pf_axilite_blocks p (findSignalGid name r) = Some d"
  shows "pf_axilite_blocks (fold (\<lambda>m p. snd (element_signal (Some xr) r name m p)) reqs p) =
    (pf_axilite_blocks p)(findSignalGid name r \<mapsto> fold (\<lambda>m d. snd (dispatch_regs xr m d)) reqs d)"
  using d
proof (induction reqs arbitrary: p d)
  case (Cons m ms)
  let ?p = "snd (element_signal (Some xr) r name m p)"
  from gid Cons.prems have "pf_axilite_blocks ?p = (pf_axilite_blocks p)(findSignalGid name r \<mapsto> snd (dispatch_regs xr m d))"
    by (simp add: element_signal_def dispatchSignal_def split: prod.split)
  with Cons.IH [of ?p] show ?case by (simp add: fun_eq_iff)
qed (auto simp: fun_upd_idem)

lemma signal_all_delivers:
  assumes "handles_ok p" "0 \<le> findSignalGid name r" "pf_axilite_blocks p (findSignalGid name r) = Some d"
  shows "pf_axilite_blocks (signal_all (Some xr) r name reqs p) =
    (pf_axilite_blocks p)(findSignalGid name r \<mapsto> fold (\<lambda>m d. snd (dispatch_regs xr m d)) reqs d)"
proof -
  from assms(1) have "fst (platform_element name p) = name" by (simp add: element_handle)
  then obtain p' where p': "platform_element name p = (name, p')" by (metis prod.collapse)
  then have "pf_axilite_blocks p' = pf_axilite_blocks p" using element_blocks [of name p] by simp
  with signals_delivered [OF assms(2), of p' d] assms(3) p' show ?thesis by (simp add: signal_all_def)
qed

end
