(* ===== verification/HeapOrder.thy ===== *)
theory HeapOrder
  imports TableElements "HOL-Library.Multiset"
begin

text \<open>
  The heap of MinHeap as a priority queue: its operations keep the order of a binary heap and the
  multiset of the flits, so the flits that several insertions put in come out sorted. The element never
  has more than one flit in it (\<open>TableElements\<close>); the operations are right all the same.
\<close>

subsection \<open>The interface\<close>

locale priority_queue =
  fixes ins :: "'a \<Rightarrow> 'q \<Rightarrow> 'q" and first :: "'q \<Rightarrow> 'a" and rest :: "'q \<Rightarrow> 'q"
    and rank :: "'a \<Rightarrow> 'k::linorder" and contents :: "'q \<Rightarrow> 'a multiset" and ok :: "'q \<Rightarrow> bool" and capacity :: nat
  assumes ins_ok: "ok q \<Longrightarrow> size (contents q) < capacity \<Longrightarrow> ok (ins x q) \<and> contents (ins x q) = add_mset x (contents q)"
    and first_in: "ok q \<Longrightarrow> contents q \<noteq> {#} \<Longrightarrow> first q \<in># contents q"
    and first_least: "ok q \<Longrightarrow> x \<in># contents q \<Longrightarrow> rank (first q) \<le> rank x"
    and rest_ok: "ok q \<Longrightarrow> contents q \<noteq> {#} \<Longrightarrow> ok (rest q) \<and> contents (rest q) = contents q - {# first q #}"
begin

fun drain :: "nat \<Rightarrow> 'q \<Rightarrow> 'a list" where
  "drain 0 q = []"
| "drain (Suc n) q = first q # drain n (rest q)"

lemma fill_ok:
  "ok q \<Longrightarrow> size (contents q) + length xs \<le> capacity \<Longrightarrow>
    ok (fold ins xs q) \<and> contents (fold ins xs q) = contents q + mset xs"
  by (induction xs arbitrary: q) (simp_all add: ins_ok)

lemma drain_sorted:
  assumes "ok q" "size (contents q) = n"
  shows "mset (drain n q) = contents q \<and> sorted (map rank (drain n q))"
  using assms
proof (induction n arbitrary: q)
  case (Suc n)
  then have ne: "contents q \<noteq> {#}" by auto
  note f = first_in [OF Suc.prems(1) ne] and r = rest_ok [OF Suc.prems(1) ne]
  from r f Suc.prems(2) have "size (contents (rest q)) = n" by (simp add: size_Diff_singleton)
  with Suc.IH r have ih: "mset (drain n (rest q)) = contents q - {# first q #}" "sorted (map rank (drain n (rest q)))" by auto
  have "rank (first q) \<le> rank x" if "x \<in> set (drain n (rest q))" for x
  proof -
    from that have "x \<in># contents q - {# first q #}" by (simp flip: ih(1))
    then show ?thesis using first_least [OF Suc.prems(1)] in_diffD by fastforce
  qed
  with ih f show ?case by simp
qed simp

lemma fill_drain:
  assumes "ok q" "contents q = {#}" "length xs \<le> capacity"
  shows "mset (drain (length xs) (fold ins xs q)) = mset xs \<and> sorted (map rank (drain (length xs) (fold ins xs q)))"
  using fill_ok [OF assms(1), of xs] drain_sorted [of "fold ins xs q" "length xs"] assms(2,3) by simp

end

subsection \<open>Exchanging two entries\<close>

definition heap_flits :: "heap_state \<Rightarrow> flit list" where
  "heap_flits h = take (hp_size h) (hp_data h)"

text \<open>Shape: the arrays have their length and each priority is that of its flit.\<close>

definition heap_shape :: "heap_state \<Rightarrow> bool" where
  "heap_shape h \<longleftrightarrow> length (hp_prio h) = HEAP_SIZE \<and> length (hp_data h) = HEAP_SIZE \<and> hp_size h \<le> HEAP_SIZE \<and>
     (\<forall>i < hp_size h. hp_prio h ! i = get_lane 0 (hp_data h ! i))"

abbreviation prio :: "heap_state \<Rightarrow> nat \<Rightarrow> u64" where
  "prio h i \<equiv> hp_prio h ! i"

definition parent :: "nat \<Rightarrow> nat" where
  "parent i = (i - 1) div 2"

lemma parent_less: "0 < i \<Longrightarrow> parent i < i"
  by (auto simp: parent_def)

lemma parent_child: "0 < j \<Longrightarrow> parent j = i \<longleftrightarrow> j = 2 * i + 1 \<or> j = 2 * i + 2"
  by (auto simp: parent_def)

lemma heap_swap_entries:
  assumes "heap_shape h" "i < hp_size h" "j < hp_size h"
  shows "heap_shape (heap_swap i j h)" "hp_size (heap_swap i j h) = hp_size h"
    "mset (heap_flits (heap_swap i j h)) = mset (heap_flits h)"
    "prio (heap_swap i j h) k = (if k = j then prio h i else if k = i then prio h j else prio h k)"
proof -
  have len: "i < length (hp_prio h)" "j < length (hp_prio h)" "i < length (hp_data h)" "j < length (hp_data h)"
    using assms by (auto simp: heap_shape_def)
  show "heap_shape (heap_swap i j h)" using assms len by (auto simp: heap_shape_def heap_swap_def nth_list_update)
  show "hp_size (heap_swap i j h) = hp_size h" by (simp add: heap_swap_def)
  have "length (heap_flits h) = hp_size h" using assms(1) by (simp add: heap_flits_def heap_shape_def)
  moreover have "heap_flits (heap_swap i j h) = (heap_flits h)[i := heap_flits h ! j, j := heap_flits h ! i]"
    using assms(2,3) by (simp add: heap_flits_def heap_swap_def take_update_swap)
  ultimately show "mset (heap_flits (heap_swap i j h)) = mset (heap_flits h)" using assms(2,3) by (simp add: mset_swap)
  show "prio (heap_swap i j h) k = (if k = j then prio h i else if k = i then prio h j else prio h k)"
    using len by (auto simp: heap_swap_def nth_list_update)
qed

subsection \<open>The order\<close>

definition heap_ordered :: "heap_state \<Rightarrow> bool" where
  "heap_ordered h \<longleftrightarrow> (\<forall>j. 0 < j \<and> j < hp_size h \<longrightarrow> prio h (parent j) \<le> prio h j)"

text \<open>Ordered but for entry \<open>i\<close> and the one above it; the entries below \<open>i\<close> are above its parent.\<close>

definition order_above :: "nat \<Rightarrow> heap_state \<Rightarrow> bool" where
  "order_above i h \<longleftrightarrow> i < hp_size h \<and>
     (\<forall>j. 0 < j \<and> j < hp_size h \<and> j \<noteq> i \<longrightarrow> prio h (parent j) \<le> prio h j) \<and>
     (\<forall>j. 0 < i \<and> 0 < j \<and> j < hp_size h \<and> parent j = i \<longrightarrow> prio h (parent i) \<le> prio h j)"

lemma order_above_swap:
  assumes s: "heap_shape h" and o: "order_above i h" and i: "0 < i" "prio h i < prio h (parent i)"
  shows "order_above (parent i) (heap_swap i (parent i) h)"
proof -
  have p: "parent i < i" "parent i < hp_size h" "i < hp_size h" using parent_less [OF i(1)] o by (auto simp: order_above_def)
  note w = heap_swap_entries [OF s p(3,2)]
  have ord: "prio h (parent j) \<le> prio h j" if "0 < j" "j < hp_size h" "j \<noteq> i" for j
    using o that by (simp add: order_above_def)
  have below: "prio h (parent i) \<le> prio h j" if "0 < j" "j < hp_size h" "parent j = i" for j
    using o that i(1) by (simp add: order_above_def)
  show ?thesis unfolding order_above_def w
  proof (intro conjI allI impI)
    fix j
    assume j: "0 < j \<and> j < hp_size h \<and> j \<noteq> parent i"
    with parent_less have "parent j < j" by blast
    then show "(if parent j = parent i then prio h i else if parent j = i then prio h (parent i) else prio h (parent j))
        \<le> (if j = parent i then prio h i else if j = i then prio h (parent i) else prio h j)"
      using j i(2) ord [of j] below [of j] p(1) by (auto intro: order.trans less_imp_le)
  next
    fix j
    assume j: "0 < parent i \<and> 0 < j \<and> j < hp_size h \<and> parent j = parent i"
    with parent_less have "parent j < j" "parent (parent i) < parent i" by blast+
    moreover have "prio h (parent (parent i)) \<le> prio h (parent i)" using ord [of "parent i"] j p by auto
    ultimately show "(if parent (parent i) = parent i then prio h i else if parent (parent i) = i then prio h (parent i)
         else prio h (parent (parent i))) \<le> (if j = parent i then prio h i else if j = i then prio h (parent i) else prio h j)"
      using j p ord [of j] by (auto intro: order.trans)
  qed (rule p(2))
qed

lemma sift_up_ordered:
  assumes "heap_shape h" "order_above i h"
  shows "heap_shape (sift_up i h) \<and> heap_ordered (sift_up i h) \<and> hp_size (sift_up i h) = hp_size h
    \<and> mset (heap_flits (sift_up i h)) = mset (heap_flits h)"
  using assms
proof (induction i h rule: sift_up.induct)
  case (1 i h)
  show ?case
  proof (cases "0 < i \<and> prio h i < prio h (parent i)")
    case True
    have b: "i < hp_size h" "parent i < hp_size h" using 1(3) True parent_less [of i] by (auto simp: order_above_def)
    note w = heap_swap_entries [OF 1(2) b]
    have eq: "sift_up i h = sift_up (parent i) (heap_swap i (parent i) h)" using True by (subst sift_up.simps) (simp add: Let_def parent_def)
    from 1(1) [OF _ parent_def _ w(1) order_above_swap [OF 1(2,3)]] True
    show ?thesis unfolding eq w(2,3) by blast
  next
    case False
    then have eq: "sift_up i h = h" by (subst sift_up.simps) (auto simp: Let_def parent_def)
    have "heap_ordered h" unfolding heap_ordered_def
    proof (intro allI impI)
      fix j
      assume "0 < j \<and> j < hp_size h"
      then show "prio h (parent j) \<le> prio h j" using 1(3) False by (cases "j = i") (auto simp: order_above_def)
    qed
    then show ?thesis using 1(2) by (simp add: eq)
  qed
qed


text \<open>Ordered but for entry \<open>i\<close> and those below it, which are above the parent of \<open>i\<close>.\<close>

definition order_below :: "nat \<Rightarrow> heap_state \<Rightarrow> bool" where
  "order_below i h \<longleftrightarrow>
     (\<forall>j. 0 < j \<and> j < hp_size h \<and> parent j \<noteq> i \<longrightarrow> prio h (parent j) \<le> prio h j) \<and>
     (\<forall>j. 0 < i \<and> 0 < j \<and> j < hp_size h \<and> parent j = i \<longrightarrow> prio h (parent i) \<le> prio h j)"

lemma smallest_child_least:
  assumes "0 < j" "j < hp_size h" "parent j = i"
  shows "prio h (smallest_child i h) \<le> prio h j"
  using assms parent_child [OF assms(1), of i] by (auto simp: smallest_child_def Let_def)

lemma smallest_child_is_child:
  assumes "smallest_child i h \<noteq> i"
  shows "parent (smallest_child i h) = i \<and> prio h (smallest_child i h) < prio h i"
  using assms by (auto simp: smallest_child_def Let_def parent_def split: if_splits)

lemma order_below_swap:
  assumes s: "heap_shape h" and o: "order_below i h" and m: "m = smallest_child i h" "m \<noteq> i"
  shows "order_below m (heap_swap i m h)"
proof -
  have b: "i < m" "m < hp_size h" "i < hp_size h" using smallest_child_bounds [of i h] m by auto
  have c: "parent m = i" "prio h m < prio h i" using smallest_child_is_child [of i h] m by auto
  note w = heap_swap_entries [OF s b(3,2)]
  have ord: "prio h (parent j) \<le> prio h j" if "0 < j" "j < hp_size h" "parent j \<noteq> i" for j
    using o that by (simp add: order_below_def)
  have up: "0 < i \<Longrightarrow> prio h (parent i) \<le> prio h m" using o b c(1) by (simp add: order_below_def)
  have least: "prio h m \<le> prio h j" if "0 < j" "j < hp_size h" "parent j = i" for j
    using smallest_child_least [OF that] m(1) by simp
  show ?thesis unfolding order_below_def w
  proof (intro conjI allI impI)
    fix j
    assume j: "0 < j \<and> j < hp_size h \<and> parent j \<noteq> m"
    with parent_less have "parent j < j" by blast
    then show "(if parent j = m then prio h i else if parent j = i then prio h m else prio h (parent j))
        \<le> (if j = m then prio h i else if j = i then prio h m else prio h j)"
      using j b c up ord [of j] least [of j] by auto
  next
    fix j
    assume j: "0 < m \<and> 0 < j \<and> j < hp_size h \<and> parent j = m"
    with parent_less have "parent j < j" by blast
    then show "(if parent m = m then prio h i else if parent m = i then prio h m else prio h (parent m))
        \<le> (if j = m then prio h i else if j = i then prio h m else prio h j)"
      using j b c ord [of j] by auto
  qed
qed

lemma sift_down_ordered:
  assumes "heap_shape h" "order_below i h"
  shows "heap_shape (sift_down i h) \<and> heap_ordered (sift_down i h) \<and> hp_size (sift_down i h) = hp_size h
    \<and> mset (heap_flits (sift_down i h)) = mset (heap_flits h)"
  using assms
proof (induction i h rule: sift_down.induct)
  case (1 i h)
  show ?case
  proof (cases "smallest_child i h = i")
    case True
    then have eq: "sift_down i h = h" by (subst sift_down.simps) simp
    have "prio h (parent j) \<le> prio h j" if "0 < j" "j < hp_size h" for j
      using 1(3) that smallest_child_least [OF that, of i] True by (cases "parent j = i") (auto simp: order_below_def)
    then show ?thesis using 1(2) by (simp add: eq heap_ordered_def)
  next
    case False
    then have b: "i < hp_size h" "smallest_child i h < hp_size h" using smallest_child_bounds [of i h] by auto
    note w = heap_swap_entries [OF 1(2) b]
    have eq: "sift_down i h = sift_down (smallest_child i h) (heap_swap i (smallest_child i h) h)"
      using False by (subst sift_down.simps) (simp add: Let_def)
    from 1(1) [OF refl False w(1) order_below_swap [OF 1(2,3) refl False]] show ?thesis unfolding eq w(2,3) .
  qed
qed

subsection \<open>The operations of the interface\<close>

lemma root_least:
  assumes "heap_ordered h" "i < hp_size h"
  shows "prio h 0 \<le> prio h i"
  using assms(2)
proof (induction i rule: less_induct)
  case (less i)
  show ?case
  proof (cases "i = 0")
    case False
    then have "parent i < i" by (simp add: parent_less)
    with less.IH less.prems have "prio h 0 \<le> prio h (parent i)" by simp
    also have "\<dots> \<le> prio h i" using assms(1) less.prems False by (simp add: heap_ordered_def)
    finally show ?thesis .
  qed simp
qed

lemma heap_insert_ok:
  assumes "heap_shape h" "heap_ordered h" "hp_size h < HEAP_SIZE"
  shows "heap_shape (heap_insert f h) \<and> heap_ordered (heap_insert f h) \<and> hp_size (heap_insert f h) = hp_size h + 1
    \<and> mset (heap_flits (heap_insert f h)) = add_mset f (mset (heap_flits h))"
proof -
  let ?n = "hp_size h"
  let ?h = "h\<lparr>hp_size := ?n + 1, hp_prio := (hp_prio h)[?n := get_lane 0 f], hp_data := (hp_data h)[?n := f]\<rparr>"
  have shape: "heap_shape ?h" using assms(1,3) by (auto simp: heap_shape_def nth_list_update)
  have "order_above ?n ?h" unfolding order_above_def
  proof (intro conjI allI impI)
    fix j
    assume "0 < j \<and> j < hp_size ?h \<and> j \<noteq> ?n"
    with parent_less [of j] assms show "prio ?h (parent j) \<le> prio ?h j" by (simp add: heap_ordered_def)
  next
    fix j
    assume "0 < ?n \<and> 0 < j \<and> j < hp_size ?h \<and> parent j = ?n"
    with parent_less [of j] show "prio ?h (parent ?n) \<le> prio ?h j" by simp
  qed simp
  moreover have "heap_flits ?h = heap_flits h @ [f]"
    using assms(1,3) by (simp add: heap_flits_def heap_shape_def take_Suc_conv_app_nth)
  ultimately show ?thesis using sift_up_ordered [OF shape, of ?n] by (simp add: heap_insert_def Let_def)
qed

lemma mset_last_first:
  assumes "xs \<noteq> []"
  shows "mset (butlast (xs[0 := last xs])) = mset xs - {# hd xs #}"
proof (cases xs)
  case (Cons x ys)
  then show ?thesis by (cases ys rule: rev_cases) auto
qed (use assms in simp)

lemma heap_pop_ok:
  assumes "heap_shape h" "heap_ordered h" "0 < hp_size h"
  shows "heap_shape (heap_pop h) \<and> heap_ordered (heap_pop h) \<and> hp_size (heap_pop h) = hp_size h - 1
    \<and> mset (heap_flits (heap_pop h)) = mset (heap_flits h) - {# hp_data h ! 0 #}"
proof -
  let ?n = "hp_size h - 1"
  let ?h = "h\<lparr>hp_size := ?n, hp_prio := (hp_prio h)[0 := prio h ?n], hp_data := (hp_data h)[0 := hp_data h ! ?n]\<rparr>"
  have shape: "heap_shape ?h" using assms(1,3) by (auto simp: heap_shape_def nth_list_update)
  have ord: "order_below 0 ?h" unfolding order_below_def
  proof (intro conjI allI impI)
    fix j
    assume "0 < j \<and> j < hp_size ?h \<and> parent j \<noteq> 0"
    moreover from this have "j < hp_size h" by auto
    ultimately show "prio ?h (parent j) \<le> prio ?h j" using assms(2) by (simp add: heap_ordered_def)
  qed simp
  have len: "length (hp_data h) = HEAP_SIZE" "hp_size h \<le> HEAP_SIZE" using assms(1) by (simp_all add: heap_shape_def)
  then have ne: "heap_flits h \<noteq> []" using assms(3) by (auto simp: heap_flits_def)
  have "heap_flits ?h = butlast ((heap_flits h)[0 := last (heap_flits h)])"
    using len assms(3) ne by (simp add: heap_flits_def butlast_conv_take last_conv_nth take_update_swap min_def)
  moreover have "hd (heap_flits h) = hp_data h ! 0" using len assms(3) ne by (simp add: heap_flits_def hd_conv_nth)
  ultimately show ?thesis using sift_down_ordered [OF shape ord] mset_last_first [OF ne] by (simp add: heap_pop_def Let_def)
qed

definition heap_ok :: "heap_state \<Rightarrow> bool" where
  "heap_ok h \<longleftrightarrow> heap_shape h \<and> heap_ordered h"

interpretation heap_queue: priority_queue heap_insert "\<lambda>h. hp_data h ! 0" heap_pop "get_lane 0" "\<lambda>h. mset (heap_flits h)" heap_ok HEAP_SIZE
proof
  fix h :: heap_state and f :: flit
  assume ok: "heap_ok h"
  then have s: "heap_shape h" "heap_ordered h" by (simp_all add: heap_ok_def)
  then have len: "length (heap_flits h) = hp_size h" by (simp add: heap_flits_def heap_shape_def)
  show "heap_ok (heap_insert f h) \<and> mset (heap_flits (heap_insert f h)) = add_mset f (mset (heap_flits h))"
    if "size (mset (heap_flits h)) < HEAP_SIZE" using heap_insert_ok [OF s] that len by (simp add: heap_ok_def)
  show "hp_data h ! 0 \<in># mset (heap_flits h)" if "mset (heap_flits h) \<noteq> {#}"
    using that len nth_mem [of 0 "heap_flits h"] by (auto simp: heap_flits_def)
  show "get_lane 0 (hp_data h ! 0) \<le> get_lane 0 f" if "f \<in># mset (heap_flits h)"
  proof -
    from that obtain i where "i < hp_size h" "hp_data h ! i = f" using len by (auto simp: in_set_conv_nth heap_flits_def)
    with root_least [OF s(2), of i] s(1) show ?thesis by (auto simp: heap_shape_def)
  qed
  show "heap_ok (heap_pop h) \<and> mset (heap_flits (heap_pop h)) = mset (heap_flits h) - {# hp_data h ! 0 #}"
    if "mset (heap_flits h) \<noteq> {#}" 
  proof -
    from that len have "0 < hp_size h" by (cases "heap_flits h") auto
    from heap_pop_ok [OF s this] show ?thesis by (simp add: heap_ok_def)
  qed
qed


lemma heap_start_ok: "heap_ok heap_start" "mset (heap_flits heap_start) = {#}"
  by (simp_all add: heap_ok_def heap_shape_def heap_ordered_def heap_start_def heap_flits_def)

text \<open>The flits at the root, one removal after another.\<close>

primrec heap_drain :: "nat \<Rightarrow> heap_state \<Rightarrow> flit list" where
  "heap_drain 0 h = []"
| "heap_drain (Suc n) h = hp_data h ! 0 # heap_drain n (heap_pop h)"

lemma heap_drain_is_drain: "heap_drain n h = heap_queue.drain n h"
  by (induction n arbitrary: h) simp_all

end
