(* ===== verification/RsaCrt.thy ===== *)
theory RsaCrt
  imports Modexp
begin

text \<open>
  The private-key operation with the Chinese remainder theorem: the bit-serial reduction is the
  remainder, the recombination has the right residues modulo p and modulo q when q is at most p,
  and for primes the result is the power modulo the product.
\<close>

subsection \<open>Reduction\<close>

lemma shl1_loop_low:
  assumes "xs \<noteq> []"
  shows "fst (shl1_loop b xs) = (fst (shl1_loop 0 xs))[0 := fst (shl1_loop 0 xs) ! 0 OR b]"
    and "snd (shl1_loop b xs) = snd (shl1_loop 0 xs)"
  using assms by (cases xs; simp add: split_beta)+

lemma reduce_step_val:
  assumes "length lo = length md" "big_val lo < big_val md" "md \<noteq> []" "b \<in> {0, 1}"
  shows "\<exists>lo'. reduce_step md b (lo, 0) = (lo', 0) \<and> length lo' = length md
    \<and> big_val lo' = (2 * big_val lo + unat b) mod big_val md"
proof -
  let ?s = "shl1_loop b lo"
  let ?h = "snd ?s \<noteq> 0"
  have ne: "lo \<noteq> []" using assms(1,3) by auto
  have b1: "unat b \<le> 1" using assms(4) by auto
  from shl1_loop_val [OF b1, of lo] assms(1)
  have len: "length (fst ?s) = length md" and c: "unat (snd ?s) \<le> 1"
    and val: "big_val (fst ?s) + radix md * unat (snd ?s) = 2 * big_val lo + unat b" by simp_all
  have "unat (snd ?s) = (if ?h then 1 else 0)" using c
    by (cases "unat (snd ?s)") (auto simp: unat_eq_0)
  then have v: "big_val (fst ?s) + (if ?h then radix md else 0) = 2 * big_val lo + unat b"
    using val by auto
  have bn: "big_val md < radix md" by (rule big_val_less)
  then have less: "2 * big_val lo + unat b < big_val md + radix md" using assms(2) b1 by linarith
  note cs = cond_sub_val [OF len, of ?h, unfolded v, OF less]
  have "reduce_step md b (lo, 0) = (cond_sub ?h (fst ?s) md, 0)"
    by (simp add: reduce_step_def split_beta Let_def cond_sub_def shl1_loop_low [OF ne, of b, symmetric])
  moreover have "big_val (cond_sub ?h (fst ?s) md) = (2 * big_val lo + unat b) mod big_val md"
  proof (cases "big_val md \<le> 2 * big_val lo + unat b")
    case True
    then have "big_val (cond_sub ?h (fst ?s) md) = 2 * big_val lo + unat b - big_val md" using cs(2) by simp
    with True show ?thesis using assms(2) b1 by (simp add: le_mod_geq)
  next
    case False
    then have "big_val (cond_sub ?h (fst ?s) md) = big_val (fst ?s)" using cs(2) by simp
    moreover have "\<not> ?h" using False v bn by (auto split: if_splits)
    ultimately show ?thesis using False v by simp
  qed
  ultimately show ?thesis using cs(1) by blast
qed

lemma reduce_loop_val:
  assumes "md \<noteq> []" "0 < big_val md" "i \<le> length src * 64"
    and "length lo = length md" "big_val lo = (big_val src div 2 ^ i) mod big_val md"
  shows "length (fst (reduce_loop src md i (lo, 0))) = length md
    \<and> big_val (fst (reduce_loop src md i (lo, 0))) = big_val src mod big_val md"
  using assms(3-5)
proof (induction i arbitrary: lo)
  case (Suc i)
  let ?b = "limb_bit src i"
  have "big_val lo < big_val md" using Suc.prems(3) assms(2) by simp
  from reduce_step_val [OF Suc.prems(2) this assms(1) limb_bit_set [of src i]]
  obtain lo' where step: "reduce_step md ?b (lo, 0) = (lo', 0)" "length lo' = length md"
    "big_val lo' = (2 * big_val lo + unat ?b) mod big_val md" by blast
  have "unat ?b = of_bool (odd (big_val src div 2 ^ i))" using Suc.prems(1) by (simp add: limb_bit_val)
  then have "big_val lo' = (2 * (big_val src div 2 ^ Suc i) + of_bool (odd (big_val src div 2 ^ i))) mod big_val md"
    unfolding step(3) Suc.prems(3) by (simp only:) (intro mod_add_cong mod_mult_cong refl; simp)
  then have "big_val lo' = (big_val src div 2 ^ i) mod big_val md" unfolding exponent_bit .
  with Suc.IH [OF _ step(2) this] Suc.prems(1) show ?case by (simp add: step(1))
qed simp

lemma reduce_to_M_val:
  assumes "md \<noteq> []" "0 < big_val md"
  shows "length (reduce_to_M src md) = length md"
    and "big_val (reduce_to_M src md) = big_val src mod big_val md"
proof -
  have "big_val src div 2 ^ (length src * 64) = 0" by (rule big_val_div_zero) simp
  with reduce_loop_val [OF assms, of "length src * 64" src "big_zero (length md)"]
  show "length (reduce_to_M src md) = length md"
    and "big_val (reduce_to_M src md) = big_val src mod big_val md"
    by (simp_all add: reduce_to_M_def)
qed

subsection \<open>The truncated product is the product\<close>

lemma crt_row_mul_row:
  assumes "i + length q < length hq" "hq ! (i + length q) = 0"
  shows "crt_row q x i hq = mul_row q x i hq"
proof -
  let ?k = "length q"
  let ?ts = "take ?k (drop i hq)"
  have "length q = length ?ts" using assms(1) by simp
  with mac_row_val [of q ?ts 0 x] have len: "length (fst (mac_row 0 x q ?ts)) = ?k" by simp
  have "drop (i + ?k) hq = 0 # drop (i + ?k + 1) hq"
    using assms by (simp add: Cons_nth_drop_Suc [symmetric])
  with assms len show ?thesis
    by (simp add: crt_row_def mul_row_def split_beta Let_def nth_append list_update_append)
qed

lemma crt_mul_mul_loop:
  assumes "length hq = 2 * length q" "i + length xs \<le> length q"
    and "\<forall>j. i + length q \<le> j \<longrightarrow> j < length hq \<longrightarrow> hq ! j = 0"
  shows "crt_mul q xs i hq = mul_loop q xs i hq"
  using assms
proof (induction xs arbitrary: i hq)
  case (Cons x xs)
  then have i: "i < length q" by simp
  have row: "crt_row q x i hq = mul_row q x i hq"
    by (rule crt_row_mul_row) (use Cons.prems i in simp_all)
  from mul_row_val [OF Cons.prems(1) i Cons.prems(3), of x]
  have "crt_mul q xs (Suc i) (mul_row q x i hq) = mul_loop q xs (Suc i) (mul_row q x i hq)"
    using Cons.prems by (intro Cons.IH) (simp_all add: Suc_le_eq)
  then show ?case by (simp add: row)
qed simp

lemma crt_mul_val:
  assumes "length h = length q"
  shows "length (crt_mul q h 0 (big_zero (2 * length q))) = 2 * length q"
    and "big_val (crt_mul q h 0 (big_zero (2 * length q))) = big_val h * big_val q"
proof -
  have "crt_mul q h 0 (big_zero (2 * length q)) = big_mul h q"
    unfolding big_mul_def assms using assms
    by (intro crt_mul_mul_loop) (simp_all add: big_zero_def)
  with big_mul_val [OF assms] show "length (crt_mul q h 0 (big_zero (2 * length q))) = 2 * length q"
    and "big_val (crt_mul q h 0 (big_zero (2 * length q))) = big_val h * big_val q" by simp_all
qed

subsection \<open>Recombination\<close>

text \<open>The difference wraps when m2 exceeds m1 by more than p, which q at most p rules out.\<close>

lemma crt_diff_val:
  assumes "length m1 = length p" "length m2 = length p"
  shows "length (crt_diff p m1 m2) = length p"
    and "big_val m2 \<le> big_val m1 + big_val p \<Longrightarrow>
      big_val (crt_diff p m1 m2) = (if big_val m2 \<le> big_val m1 then big_val m1 else big_val m1 + big_val p) - big_val m2"
    and "big_val m1 + big_val p < big_val m2 \<Longrightarrow>
      big_val (crt_diff p m1 m2) + big_val m2 = radix p + big_val m1 + big_val p"
proof -
  let ?a = "big_sub m1 m2" and ?b = "big_sub m2 m1"
  note s1 = big_sub_val [OF trans [OF assms(1) assms(2) [symmetric]]]
  note s2 = big_sub_val [OF trans [OF assms(2) assms(1) [symmetric]]]
  have lb: "length p = length (fst ?b)" using s2(1) assms by simp
  note s3 = big_sub_val [OF lb]
  let ?c = "big_sub p (fst ?b)"
  have cmp: "0 \<le> big_cmp m1 m2 \<longleftrightarrow> big_val m2 \<le> big_val m1" using assms by (simp add: big_cmp_ge)
  show "length (crt_diff p m1 m2) = length p" using s1(1) s3(1) lb assms by (simp add: crt_diff_def)
  have w: "unat (snd ?a) = 0 \<or> unat (snd ?a) = 1" "unat (snd ?b) = 0 \<or> unat (snd ?b) = 1"
    "unat (snd ?c) = 0 \<or> unat (snd ?c) = 1" using s1(2) s2(2) s3(2) by linarith+
  have bounds: "big_val (fst ?a) < radix p" "big_val (fst ?b) < radix p" "big_val (fst ?c) < radix p"
    "big_val m1 < radix p" "big_val m2 < radix p" "big_val p < radix p"
    by (rule big_val_less_radix; simp only: s1(1) s2(1) s3(1) assms lb [symmetric])+
  have a: "big_val (crt_diff p m1 m2) = big_val m1 - big_val m2" if "big_val m2 \<le> big_val m1"
  proof -
    have "big_val (fst ?a) = big_val m1 - big_val m2"
      using w(1) s1(3) bounds(1,5) that unfolding assms(2) by (elim disjE) simp_all
    then show ?thesis using that by (simp add: crt_diff_def cmp)
  qed
  have c: "big_val (crt_diff p m1 m2) + big_val m2 = big_val m1 + big_val p + radix p * unat (snd ?c)"
    if "\<not> big_val m2 \<le> big_val m1"
  proof -
    have b: "big_val (fst ?b) + big_val m1 = big_val m2"
      using w(2) s2(3) bounds(2,4) that unfolding assms(1) by (elim disjE) simp_all
    have "big_val (fst ?c) + big_val (fst ?b) = big_val p + radix p * unat (snd ?c)"
      using s3(3) lb by simp
    with b have "big_val (fst ?c) + big_val m2 = big_val m1 + big_val p + radix p * unat (snd ?c)"
      by linarith
    then show ?thesis using that by (simp add: crt_diff_def cmp)
  qed
  have less: "big_val (crt_diff p m1 m2) < radix p" if "\<not> big_val m2 \<le> big_val m1"
    using bounds(3) that by (simp add: crt_diff_def cmp)
  show "big_val (crt_diff p m1 m2) = (if big_val m2 \<le> big_val m1 then big_val m1 else big_val m1 + big_val p) - big_val m2"
    if le: "big_val m2 \<le> big_val m1 + big_val p"
  proof (cases "big_val m2 \<le> big_val m1")
    case False
    with w(3) c [OF False] less [OF False] le show ?thesis by (elim disjE) simp_all
  qed (simp add: a)
  show "big_val (crt_diff p m1 m2) + big_val m2 = radix p + big_val m1 + big_val p"
    if gt: "big_val m1 + big_val p < big_val m2"
  proof -
    have "\<not> big_val m2 \<le> big_val m1" using gt by simp
    with w(3) c [OF this] gt show ?thesis by (elim disjE) simp_all
  qed
qed

lemma crt_h_val:
  assumes "odd_modulus p" "length d = length p" "length qInv = length p"
  shows "length (crt_h p qInv d) = length p"
    and "big_val (crt_h p qInv d) = (big_val d * big_val qInv) mod big_val p"
  using mont_rep_out [OF mont_rep_mul [OF mont_rep_in [OF assms(1,2)] mont_rep_in [OF assms(1,3)]]]
  by (simp_all add: crt_h_def Let_def mont_times_def)

text \<open>The shape of the key: limbs of half the width, odd factors, the inverse of q.\<close>

definition crt_key :: "big \<Rightarrow> big \<Rightarrow> big \<Rightarrow> big \<Rightarrow> big \<Rightarrow> big \<Rightarrow> bool" where
  "crt_key c p q dp dq qInv \<longleftrightarrow>
     odd_modulus p \<and> odd_modulus q \<and> length q = length p \<and> length dp = length p \<and> length dq = length p
     \<and> length qInv = length p \<and> length c = 2 * length p
     \<and> (big_val qInv * big_val q) mod big_val p = 1"

lemma rsa_crt_parts:
  assumes key: "crt_key c p q dp dq qInv"
  defines "m1 \<equiv> big_val c ^ big_val dp mod big_val p" and "m2 \<equiv> big_val c ^ big_val dq mod big_val q"
  shows "\<exists>d. big_val (rsa_crt_decrypt c p q dp dq qInv) = m2 + (d * big_val qInv) mod big_val p * big_val q
    \<and> (m2 \<le> m1 + big_val p \<longrightarrow> d = (if m2 \<le> m1 then m1 else m1 + big_val p) - m2)
    \<and> (m1 + big_val p < m2 \<longrightarrow> d + m2 = radix p + m1 + big_val p)"
proof -
  from key have op: "odd_modulus p" and oq: "odd_modulus q" and l: "length q = length p" "length dp = length p"
    "length dq = length p" "length qInv = length p" "length c = 2 * length p"
    by (simp_all add: crt_key_def)
  note p = odd_modulusD [OF op] and q = odd_modulusD [OF oq]
  note rp = reduce_to_M_val [OF p(1,2), of c] and rq = reduce_to_M_val [OF q(1,2), of c]
  let ?m1 = "modexp_consttime (reduce_to_M c p) dp p" and ?m2 = "modexp_consttime (reduce_to_M c q) dq q"
  let ?d = "crt_diff p ?m1 ?m2"
  let ?h = "crt_h p qInv ?d"
  let ?hq = "crt_mul q ?h 0 (big_zero (length c))"
  let ?ext = "?m2 @ big_zero (length c - length ?m2)"
  have v1: "length ?m1 = length p" "big_val ?m1 = m1"
    using modexp_consttime_val [OF op rp(1) l(2)] by (simp_all add: rp(2) m1_def power_mod)
  have v2: "length ?m2 = length p" "big_val ?m2 = m2"
    using modexp_consttime_val [OF oq rq(1), of dq] l by (simp_all add: rq(2) m2_def power_mod)
  note d = crt_diff_val [OF v1(1) v2(1), unfolded v1(2) v2(2)]
  note h = crt_h_val [OF op d(1) l(4)]
  have hq: "length ?hq = length c" "big_val ?hq = big_val ?h * big_val q"
    using crt_mul_val [of ?h q] h(1) l(1,5) by simp_all
  have ext: "length ?ext = length ?hq" "big_val ?ext = m2"
    using v2 l(5) hq(1) by (simp_all add: big_val_append)
  have "big_val ?h < big_val p" using h(2) p(2) by simp
  moreover have m2q: "m2 < big_val q" using q(2) by (simp add: m2_def)
  moreover have "big_val ?h * big_val q \<le> (big_val p - 1) * big_val q"
    using calculation(1) by (intro mult_le_mono1) simp
  moreover have "(big_val p - 1) * big_val q + big_val q = big_val p * big_val q"
    using p(2) by (simp add: diff_mult_distrib)
  ultimately have "m2 + big_val ?h * big_val q < big_val p * big_val q" by linarith
  also have "\<dots> \<le> radix p * radix p"
    using big_val_less [of p] big_val_less [of q] l(1) by (intro mult_le_mono) simp_all
  also have "\<dots> = radix ?hq" using hq(1) l(5) by (simp add: mult_2 power_add)
  finally have fits: "m2 + big_val ?h * big_val q < radix ?hq" .
  let ?s = "big_add ?ext ?hq"
  from big_add_val(2) [OF ext(1)] ext(2) hq(2)
  have sum: "big_val (fst ?s) + radix ?hq * unat (snd ?s) = m2 + big_val ?h * big_val q" by simp
  with fits have "radix ?hq * unat (snd ?s) < radix ?hq * 1" by linarith
  then have "unat (snd ?s) = 0" by simp
  with sum have "big_val (fst ?s) = m2 + big_val ?h * big_val q" by simp
  moreover have "rsa_crt_decrypt c p q dp dq qInv = fst ?s" by (simp add: rsa_crt_decrypt_def Let_def)
  ultimately have "big_val (rsa_crt_decrypt c p q dp dq qInv) = m2 + (big_val ?d * big_val qInv) mod big_val p * big_val q"
    by (simp add: h(2))
  with d(2,3) show ?thesis by blast
qed

lemma crt_residues:
  fixes m1 m2 d qi p q :: nat
  assumes "m2 < q" "0 < p" "(qi * q) mod p = 1" "(d + m2) mod p = m1"
  defines "out \<equiv> m2 + (d * qi) mod p * q"
  shows "out < p * q" "out mod q = m2" "out mod p = m1"
proof -
  have "(d * qi) mod p \<le> p - 1" using assms(2) by (simp add: less_Suc_eq_le [symmetric])
  then have "(d * qi) mod p * q \<le> (p - 1) * q" by (rule mult_le_mono1)
  moreover have "(p - 1) * q + q = p * q" using assms(2) by (simp add: diff_mult_distrib)
  ultimately show "out < p * q" unfolding out_def using assms(1) by linarith
  show "out mod q = m2" using assms(1) by (simp add: out_def)
  have "out mod p = (m2 + (d * qi) * q) mod p"
    unfolding out_def by (intro mod_add_cong mod_mult_cong refl) simp
  also have "\<dots> = (m2 + d * ((qi * q) mod p)) mod p"
    unfolding mult.assoc by (intro mod_add_cong mod_mult_cong refl) simp
  also have "\<dots> = m1" using assms(3,4) by (simp add: add.commute)
  finally show "out mod p = m1" .
qed

lemma rsa_crt_decrypt_val:
  assumes key: "crt_key c p q dp dq qInv" and le: "big_val q \<le> big_val p"
  shows "big_val (rsa_crt_decrypt c p q dp dq qInv) < big_val p * big_val q
    \<and> big_val (rsa_crt_decrypt c p q dp dq qInv) mod big_val p = big_val c ^ big_val dp mod big_val p
    \<and> big_val (rsa_crt_decrypt c p q dp dq qInv) mod big_val q = big_val c ^ big_val dq mod big_val q"
proof -
  let ?m1 = "big_val c ^ big_val dp mod big_val p" and ?m2 = "big_val c ^ big_val dq mod big_val q"
  from key have inv: "(big_val qInv * big_val q) mod big_val p = 1"
    and pos: "0 < big_val p" "0 < big_val q" by (auto simp: crt_key_def odd_modulus_def intro: odd_pos)
  obtain d where out: "big_val (rsa_crt_decrypt c p q dp dq qInv) = ?m2 + (d * big_val qInv) mod big_val p * big_val q"
    and d: "?m2 \<le> ?m1 + big_val p \<longrightarrow> d = (if ?m2 \<le> ?m1 then ?m1 else ?m1 + big_val p) - ?m2"
    using rsa_crt_parts [OF key] by blast
  have m: "?m2 < big_val q" "?m1 < big_val p" using pos by simp_all
  with le d have "d + ?m2 = (if ?m2 \<le> ?m1 then ?m1 else ?m1 + big_val p)" by simp
  then have "(d + ?m2) mod big_val p = ?m1" using m(2) by simp
  from crt_residues [OF m(1) pos(1) inv this] show ?thesis unfolding out by simp
qed

subsection \<open>Prime factors\<close>

definition prime_val :: "nat \<Rightarrow> bool" where
  "prime_val p \<longleftrightarrow> 1 < p \<and> (\<forall>d\<in>{2..<p}. \<not> d dvd p)"

lemma prime_val_coprime:
  assumes "prime_val p" "\<not> p dvd k"
  shows "coprime p k"
proof (rule coprimeI)
  fix d assume d: "d dvd p" "d dvd k"
  then have "d \<noteq> p" using assms(2) by auto
  moreover have "d \<le> p" using d(1) assms(1) by (simp add: dvd_imp_le prime_val_def)
  moreover have "d \<noteq> 0" using d(1) assms(1) by (cases d) (simp_all add: prime_val_def)
  ultimately have "d = 1 \<or> d \<in> {2..<p}" by auto
  with assms(1) d(1) show "is_unit d" by (auto simp: prime_val_def)
qed

lemma prime_dvd_choose:
  assumes "prime_val p" "0 < k" "k < p"
  shows "p dvd (p choose k)"
proof -
  have "\<not> p dvd k" using assms by (simp add: nat_dvd_not_less)
  with assms(1) have "coprime p k" by (rule prime_val_coprime)
  moreover have "k * (p choose k) = p * (p - 1 choose (k - 1))"
    using assms(2,3) by (simp add: times_binomial_minus1_eq)
  then have "p dvd k * (p choose k)" by simp
  ultimately show ?thesis by (simp add: coprime_dvd_mult_right_iff)
qed

lemma fermat: "prime_val p \<Longrightarrow> a ^ p mod p = a mod p"
proof (induction a)
  case 0
  then show ?case by (simp add: prime_val_def zero_power)
next
  case (Suc a)
  have p: "1 < p" using Suc.prems by (simp add: prime_val_def)
  have "(a + 1) ^ p = (\<Sum>k\<le>p. (p choose k) * a ^ k)"
    using binomial [of a 1 p] by simp
  also have "\<dots> = (\<Sum>k\<in>{1..<p}. (p choose k) * a ^ k) + (1 + a ^ p)"
  proof -
    have "{..p} = insert 0 (insert p {1..<p})" using p by auto
    then show ?thesis using p by simp
  qed
  finally have "Suc a ^ p = (\<Sum>k\<in>{1..<p}. (p choose k) * a ^ k) + (1 + a ^ p)" by simp
  moreover have "p dvd (\<Sum>k\<in>{1..<p}. (p choose k) * a ^ k)"
    by (intro dvd_sum dvd_mult2 prime_dvd_choose [OF Suc.prems]) auto
  ultimately have "Suc a ^ p mod p = (1 + a ^ p) mod p" by (auto elim: dvdE)
  also have "\<dots> = (1 + a) mod p" by (rule mod_add_cong) (simp_all add: Suc.IH [OF Suc.prems])
  finally show ?case by simp
qed

lemma reduced_exponent:
  assumes "prime_val p" "0 < d mod (p - 1)"
  shows "a ^ (d mod (p - 1)) mod p = a ^ d mod p"
proof -
  have step: "a ^ (k * (p - 1) + r) mod p = a ^ r mod p" if r: "0 < r" for k r
  proof (induction k)
    case (Suc k)
    have "Suc k * (p - 1) + r = (k * (p - 1) + (r - 1)) + p"
      using r assms(1) by (simp add: prime_val_def)
    then have "a ^ (Suc k * (p - 1) + r) mod p = (a ^ (k * (p - 1) + (r - 1)) * a ^ p) mod p"
      by (simp only: power_add)
    also have "\<dots> = (a ^ (k * (p - 1) + (r - 1)) * a) mod p"
      by (rule mod_mult_cong [OF refl fermat [OF assms(1)]])
    also have "a ^ (k * (p - 1) + (r - 1)) * a = a ^ (k * (p - 1) + r)"
      using r by (cases r) (simp_all add: mult.commute)
    finally show ?case using Suc by simp
  qed simp
  have "d = d div (p - 1) * (p - 1) + d mod (p - 1)" by (rule div_mult_mod_eq [symmetric])
  with step [OF assms(2)] show ?thesis by metis
qed

lemma mod_mult_unique:
  fixes p q x y :: nat
  assumes "coprime p q" "x < p * q" "y < p * q" "x mod p = y mod p" "x mod q = y mod q"
  shows "x = y"
proof -
  have le: "x = y" if "x \<le> y" "y < p * q" "x mod p = y mod p" "x mod q = y mod q" for x y
  proof -
    have "p dvd y - x" "q dvd y - x" using that by (simp_all add: mod_eq_dvd_iff_nat [symmetric])
    then have "p * q dvd y - x" using assms(1) by (rule divides_mult)
    moreover have "y - x < p * q" using that by simp
    ultimately have "y - x = 0" using dvd_imp_le [of "p * q" "y - x"] by (cases "y - x") auto
    with that(1) show ?thesis by simp
  qed
  show ?thesis using le [of x y] le [of y x] assms(2-5) by (cases "x \<le> y") simp_all
qed

lemma crt_key_coprime:
  assumes "crt_key c p q dp dq qInv"
  shows "coprime (big_val p) (big_val q)"
proof (rule coprimeI)
  fix d assume d: "d dvd big_val p" "d dvd big_val q"
  then have "d dvd (big_val qInv * big_val q) mod big_val p" by (simp add: dvd_mod)
  then show "is_unit d" using assms by (simp add: crt_key_def)
qed

lemma rsa_crt_power:
  assumes key: "crt_key c p q dp dq qInv" and le: "big_val q \<le> big_val p"
    and primes: "prime_val (big_val p)" "prime_val (big_val q)"
    and dp: "big_val dp = d mod (big_val p - 1)" "0 < big_val dp"
    and dq: "big_val dq = d mod (big_val q - 1)" "0 < big_val dq"
  shows "big_val (rsa_crt_decrypt c p q dp dq qInv) = big_val c ^ d mod (big_val p * big_val q)"
proof (rule mod_mult_unique [OF crt_key_coprime [OF key]])
  note val = rsa_crt_decrypt_val [OF key le]
  show "big_val (rsa_crt_decrypt c p q dp dq qInv) < big_val p * big_val q" using val by blast
  then show "big_val c ^ d mod (big_val p * big_val q) < big_val p * big_val q"
    by (intro mod_less_divisor) linarith
  have "big_val c ^ big_val dp mod big_val p = big_val c ^ d mod big_val p"
    using reduced_exponent [OF primes(1), of d] dp by simp
  with val show "big_val (rsa_crt_decrypt c p q dp dq qInv) mod big_val p
      = big_val c ^ d mod (big_val p * big_val q) mod big_val p"
    by (simp add: mod_mod_cancel)
  have "big_val c ^ big_val dq mod big_val q = big_val c ^ d mod big_val q"
    using reduced_exponent [OF primes(2), of d] dq by simp
  with val show "big_val (rsa_crt_decrypt c p q dp dq qInv) mod big_val q
      = big_val c ^ d mod (big_val p * big_val q) mod big_val q"
    by (simp add: mod_mod_cancel)
qed

text \<open>
  Without that order of the factors the difference can wrap around the limb width, and then the
  residue modulo p is off by a power of two, which an odd p does not divide.
\<close>

lemma rsa_crt_wraps:
  assumes key: "crt_key c p q dp dq qInv"
    and gt: "big_val c ^ big_val dp mod big_val p + big_val p < big_val c ^ big_val dq mod big_val q"
  shows "big_val (rsa_crt_decrypt c p q dp dq qInv) mod big_val p \<noteq> big_val c ^ big_val dp mod big_val p"
proof
  let ?m1 = "big_val c ^ big_val dp mod big_val p" and ?m2 = "big_val c ^ big_val dq mod big_val q"
  let ?p = "big_val p"
  from key have inv: "(big_val qInv * big_val q) mod ?p = 1" and op: "odd_modulus p"
    and pos: "0 < ?p" "0 < big_val q" by (auto simp: crt_key_def odd_modulus_def intro: odd_pos)
  obtain d where out: "big_val (rsa_crt_decrypt c p q dp dq qInv) = ?m2 + (d * big_val qInv) mod ?p * big_val q"
    and d: "d + ?m2 = radix p + ?m1 + ?p"
    using rsa_crt_parts [OF key] gt by blast
  have m2: "?m2 < big_val q" using pos by simp
  from crt_residues(3) [OF m2 pos(1) inv refl, of d] d
  have res: "big_val (rsa_crt_decrypt c p q dp dq qInv) mod ?p = (radix p + ?m1) mod ?p"
    unfolding out by simp
  assume "big_val (rsa_crt_decrypt c p q dp dq qInv) mod ?p = ?m1"
  with res have "(radix p + ?m1) mod ?p = ?m1 mod ?p" by simp
  then have "?p dvd radix p + ?m1 - ?m1" by (subst mod_eq_dvd_iff_nat [symmetric]) simp_all
  then have "?p dvd radix p" by simp
  with odd_modulusD(4) [OF op] have "is_unit ?p" by (meson coprime_common_divisor dvd_refl)
  with inv show False by simp
qed

end
