(* ===== verification/Engine.thy ===== *)
theory Engine
  imports RsaCrt Aes
begin

text \<open>
  The OpenSSL integration: the C shims (\<open>ssl_integration/openclicknp_modexp.cpp\<close>,
  \<open>openclicknp_aes_shim.cpp\<close>) and the engine (\<open>openclicknp_engine.c\<close>). libcrypto is a parameter: a
  BIGNUM is the number it holds, and the record \<open>bn_lib\<close> has the functions the engine calls. An int
  result that reports failure is None.
\<close>

subsection \<open>The shims\<close>

text \<open>The three instances of the generic lambda, by the number of limbs.\<close>

definition shim_width :: "int \<Rightarrow> nat option" where
  "shim_width n_limbs = (if n_limbs = 16 then Some 16 else if n_limbs = 32 then Some 32
     else if n_limbs = 64 then Some 64 else None)"

definition openclicknp_modexp :: "u64 list \<Rightarrow> u64 list \<Rightarrow> u64 list \<Rightarrow> int \<Rightarrow> big option" where
  "openclicknp_modexp m e n n_limbs =
     (case shim_width n_limbs of
        None \<Rightarrow> None
      | Some N \<Rightarrow> let mu = take N m; eu = take N e; nu = take N n
                  in if nu ! 0 AND 1 = 0 then None else Some (modexp mu eu nu))"

definition openclicknp_modexp_consttime :: "u64 list \<Rightarrow> u64 list \<Rightarrow> u64 list \<Rightarrow> int \<Rightarrow> big option" where
  "openclicknp_modexp_consttime m e n n_limbs =
     (case shim_width n_limbs of
        None \<Rightarrow> None
      | Some N \<Rightarrow> let mu = take N m; eu = take N e; nu = take N n
                  in if nu ! 0 AND 1 = 0 then None else Some (modexp_consttime mu eu nu))"

definition openclicknp_rsa_crt ::
  "u64 list \<Rightarrow> u64 list \<Rightarrow> u64 list \<Rightarrow> u64 list \<Rightarrow> u64 list \<Rightarrow> u64 list \<Rightarrow> int \<Rightarrow> big option" where
  "openclicknp_rsa_crt c p q dp dq qInv n_limbs =
     (case shim_width n_limbs of
        None \<Rightarrow> None
      | Some N \<Rightarrow> let M = N div 2; cu = take N c; pu = take M p; qu = take M q; dpu = take M dp; dqu = take M dq;
                      qiu = take M qInv
                  in if pu ! 0 AND 1 = 0 \<or> qu ! 0 AND 1 = 0 then None
                     else Some (rsa_crt_decrypt cu pu qu dpu dqu qiu))"

text \<open>The cipher context holds the round keys; every call returns 1.\<close>

definition openclicknp_aes128_expand :: "u8 list \<Rightarrow> int \<times> u8 list" where
  "openclicknp_aes128_expand key = (1, aes128_key_expand key)"

definition openclicknp_aes128_encrypt_block :: "u8 list \<Rightarrow> u8 list \<Rightarrow> int \<times> u8 list" where
  "openclicknp_aes128_encrypt_block inp k = (1, aes128_encrypt_block k inp)"

definition openclicknp_aes128_decrypt_block :: "u8 list \<Rightarrow> u8 list \<Rightarrow> int \<times> u8 list" where
  "openclicknp_aes128_decrypt_block inp k = (1, aes128_decrypt_block k inp)"

subsection \<open>libcrypto\<close>

record bn_lib =
  BN_num_bits :: "nat \<Rightarrow> int"
  BN_num_bytes :: "nat \<Rightarrow> int"
  BN_bn2binpad :: "nat \<Rightarrow> nat \<Rightarrow> u8 list option"
  BN_bin2bn :: "u8 list \<Rightarrow> nat option"
  BN_mod_exp_mont :: "nat \<Rightarrow> nat \<Rightarrow> nat \<Rightarrow> nat option"
  BN_mod_exp_mont_consttime :: "nat \<Rightarrow> nat \<Rightarrow> nat \<Rightarrow> nat option"

text \<open>A BIGNUM with its flag, and what the engine reads of an RSA key.\<close>

record bignum =
  bn_val :: nat
  bn_consttime :: bool

record rsa_key =
  rk_n :: nat
  rk_d :: nat
  rk_p :: "nat option"
  rk_q :: "nat option"
  rk_dp :: "nat option"
  rk_dq :: "nat option"
  rk_qi :: "nat option"

record counters =
  g_modexp_calls :: u64
  g_modexp_consttime_calls :: u64
  g_crt_calls :: u64
  g_modexp_unsupported :: u64
  g_aes_blocks :: u64

definition counters_init :: counters where
  "counters_init = \<lparr>g_modexp_calls = 0, g_modexp_consttime_calls = 0, g_crt_calls = 0,
     g_modexp_unsupported = 0, g_aes_blocks = 0\<rparr>"

subsection \<open>Conversion\<close>

definition limb_of_bytes :: "u8 list \<Rightarrow> u64" where
  "limb_of_bytes bs = fold (\<lambda>b v. push_bit 8 v OR ucast b) bs 0"

definition limbs_of_bytes :: "nat \<Rightarrow> u8 list \<Rightarrow> u64 list" where
  "limbs_of_bytes n buf = map (\<lambda>i. limb_of_bytes (take 8 (drop ((n - 1 - i) * 8) buf))) [0..<n]"

definition bn_to_limbs :: "bn_lib \<Rightarrow> nat \<Rightarrow> nat \<Rightarrow> u64 list option" where
  "bn_to_limbs L x n_limbs =
     (if int n_limbs * 8 < BN_num_bytes L x then None
      else case BN_bn2binpad L x (n_limbs * 8) of
             None \<Rightarrow> None
           | Some buf \<Rightarrow> Some (limbs_of_bytes n_limbs buf))"

definition bytes_of_limb :: "u64 \<Rightarrow> u8 list" where
  "bytes_of_limb v = map (\<lambda>b. ucast (drop_bit (b * 8) v AND 0xff)) (rev [0..<8])"

definition limbs_to_bn :: "bn_lib \<Rightarrow> u64 list \<Rightarrow> nat option" where
  "limbs_to_bn L x = BN_bin2bn L (concat (map bytes_of_limb (rev x)))"

definition round_up_limbs_for_bits :: "int \<Rightarrow> nat" where
  "round_up_limbs_for_bits bits =
     (if bits \<le> 1024 then 16 else if bits \<le> 2048 then 32 else if bits \<le> 4096 then 64 else 0)"

subsection \<open>The hooks\<close>

text \<open>The local arrays have 64 (32) words, of which the conversion fills the first \<open>n_limbs\<close>.\<close>

definition limb_array :: "nat \<Rightarrow> u64 list \<Rightarrow> u64 list" where
  "limb_array k xs = xs @ replicate (k - length xs) 0"

definition count_unsupported :: "counters \<Rightarrow> counters" where
  "count_unsupported c = c\<lparr>g_modexp_unsupported := g_modexp_unsupported c + 1\<rparr>"

definition ocnp_bn_mod_exp :: "bn_lib \<Rightarrow> nat \<Rightarrow> bignum \<Rightarrow> nat \<Rightarrow> counters \<Rightarrow> nat option \<times> counters" where
  "ocnp_bn_mod_exp L a p m c =
     (let n_limbs = round_up_limbs_for_bits (BN_num_bits L m);
          fall_back = (BN_mod_exp_mont L a (bn_val p) m, count_unsupported c)
      in if n_limbs = 0 then fall_back
         else case (bn_to_limbs L a n_limbs, bn_to_limbs L (bn_val p) n_limbs, bn_to_limbs L m n_limbs) of
                (Some al, Some pl, Some ml) \<Rightarrow>
                  (if bn_consttime p
                   then case openclicknp_modexp_consttime (limb_array 64 al) (limb_array 64 pl) (limb_array 64 ml) (int n_limbs) of
                          Some r \<Rightarrow> (limbs_to_bn L r, c\<lparr>g_modexp_consttime_calls := g_modexp_consttime_calls c + 1\<rparr>)
                        | None \<Rightarrow> fall_back
                   else case openclicknp_modexp (limb_array 64 al) (limb_array 64 pl) (limb_array 64 ml) (int n_limbs) of
                          Some r \<Rightarrow> (limbs_to_bn L r, c\<lparr>g_modexp_calls := g_modexp_calls c + 1\<rparr>)
                        | None \<Rightarrow> fall_back)
              | _ \<Rightarrow> fall_back)"

definition ocnp_rsa_mod_exp :: "bn_lib \<Rightarrow> nat \<Rightarrow> rsa_key \<Rightarrow> counters \<Rightarrow> nat option \<times> counters" where
  "ocnp_rsa_mod_exp L inp k c =
     (let fall_back = (BN_mod_exp_mont_consttime L inp (rk_d k) (rk_n k), count_unsupported c)
      in case (rk_p k, rk_q k, rk_dp k, rk_dq k, rk_qi k) of
           (Some p, Some q, Some dp, Some dq, Some qi) \<Rightarrow>
             (let n_limbs = round_up_limbs_for_bits (BN_num_bits L (rk_n k)); half = n_limbs div 2
              in if n_limbs = 0 then fall_back
                 else case (bn_to_limbs L inp n_limbs, bn_to_limbs L p half, bn_to_limbs L q half,
                            bn_to_limbs L dp half, bn_to_limbs L dq half, bn_to_limbs L qi half) of
                        (Some cl, Some pl, Some ql, Some dpl, Some dql, Some qil) \<Rightarrow>
                          (case openclicknp_rsa_crt (limb_array 64 cl) (limb_array 32 pl) (limb_array 32 ql)
                                  (limb_array 32 dpl) (limb_array 32 dql) (limb_array 32 qil) (int n_limbs) of
                             None \<Rightarrow> fall_back
                           | Some r \<Rightarrow> (limbs_to_bn L r, c\<lparr>g_crt_calls := g_crt_calls c + 1\<rparr>))
                      | _ \<Rightarrow> fall_back)
         | _ \<Rightarrow> fall_back)"

definition ocnp_aes128_ecb_init :: "u8 list \<Rightarrow> int \<times> u8 list" where
  "ocnp_aes128_ecb_init key = openclicknp_aes128_expand key"

function ecb_blocks :: "bool \<Rightarrow> u8 list \<Rightarrow> u8 list \<Rightarrow> u8 list" where
  "ecb_blocks enc k inp =
     (if inp = [] then []
      else snd (if enc then openclicknp_aes128_encrypt_block (take 16 inp) k
                else openclicknp_aes128_decrypt_block (take 16 inp) k) @ ecb_blocks enc k (drop 16 inp))"
  by auto
termination by (relation "measure (\<lambda>(_, _, inp). length inp)") auto

declare ecb_blocks.simps [simp del]

definition ocnp_aes128_ecb_do_cipher :: "u8 list \<Rightarrow> bool \<Rightarrow> u8 list \<Rightarrow> counters \<Rightarrow> u8 list option \<times> counters" where
  "ocnp_aes128_ecb_do_cipher k enc inp c =
     (if length inp mod 16 \<noteq> 0 then (None, c)
      else (Some (ecb_blocks enc k inp), c\<lparr>g_aes_blocks := g_aes_blocks c + of_nat (length inp div 16)\<rparr>))"

subsection \<open>What libcrypto documents\<close>

definition bn_documented :: "bn_lib \<Rightarrow> bool" where
  "bn_documented L \<longleftrightarrow>
     (\<forall>x. 0 \<le> BN_num_bits L x \<and> x < 2 ^ nat (BN_num_bits L x))
     \<and> (\<forall>x n bs. BN_bn2binpad L x n = Some bs \<longrightarrow> length bs = n \<and> be_val bs = x)
     \<and> (\<forall>bs. BN_bin2bn L bs = Some (be_val bs))
     \<and> (\<forall>a p m. odd m \<longrightarrow> BN_mod_exp_mont L a p m = Some (a ^ p mod m))
     \<and> (\<forall>a p m. odd m \<longrightarrow> BN_mod_exp_mont_consttime L a p m = Some (a ^ p mod m))"

subsection \<open>Conversion is exact\<close>

lemma unat_shift_byte:
  assumes "unat v < 2 ^ 56"
  shows "unat (push_bit 8 v OR ucast (b :: u8) :: u64) = unat v * 256 + unat b"
proof -
  have "push_bit 8 v OR ucast b = push_bit 8 v + (ucast b :: u64)"
  proof (rule disjunctive_add [symmetric])
    fix n
    show "\<not> bit (push_bit 8 v) n \<or> \<not> bit (ucast b :: u64) n"
      by (auto simp: bit_simps dest: bit_imp_le_length)
  qed
  also have "\<dots> = of_nat (unat v * 256 + unat b)"
    by (simp add: push_bit_eq_mult mult.commute)
  finally have eq: "push_bit 8 v OR ucast b = (of_nat (unat v * 256 + unat b) :: u64)" .
  have "unat v * 256 + unat b < 2 ^ 64" using assms u8_less [of b] by simp
  then show ?thesis unfolding eq
    by (simp only: unsigned_of_nat) (simp add: take_bit_nat_eq_self)
qed

lemma limb_of_bytes_val:
  assumes "length bs \<le> 8"
  shows "unat (limb_of_bytes bs) = be_val bs"
  using assms
proof (induction bs rule: rev_induct)
  case (snoc b bs)
  have "be_val bs < 256 ^ length bs" by (rule be_val_less)
  also have "(256 :: nat) ^ length bs \<le> 256 ^ 7" using snoc.prems by (intro power_increasing) auto
  finally have "be_val bs < 2 ^ 56" by simp
  then show ?case using snoc unat_shift_byte [of "limb_of_bytes bs" b]
    by (simp add: limb_of_bytes_def be_val_append)
qed (simp add: limb_of_bytes_def)

lemma base_bytes: "256 ^ (8 * k) = limb_base ^ k"
  unfolding limb_base_def power_mult by simp

lemma limbs_of_bytes_val:
  "length buf = n * 8 \<Longrightarrow> length (limbs_of_bytes n buf) = n \<and> big_val (limbs_of_bytes n buf) = be_val buf"
proof (induction n arbitrary: buf)
  case (Suc n)
  define hi lo where "hi = take 8 buf" and "lo = drop 8 buf"
  have buf: "buf = hi @ lo" and l: "length hi = 8" "length lo = n * 8"
    using Suc.prems by (simp_all add: hi_def lo_def)
  have "limbs_of_bytes (Suc n) buf = limbs_of_bytes n lo @ [limb_of_bytes hi]"
  proof -
    have "take 8 (drop ((n - i) * 8) buf) = take 8 (drop ((n - 1 - i) * 8) lo)" if "i < n" for i
    proof -
      have "(n - i) * 8 = 8 + (n - 1 - i) * 8" using that by (simp add: algebra_simps)
      then show ?thesis unfolding buf using l(1) by simp
    qed
    then show ?thesis by (simp add: limbs_of_bytes_def hi_def)
  qed
  moreover have "be_val buf = be_val hi * limb_base ^ n + be_val lo"
    unfolding buf be_val_append l(2) base_bytes [symmetric] by (simp add: mult.commute)
  ultimately show ?case
    using Suc.IH [OF l(2)] limb_of_bytes_val [of hi] l(1) by (simp add: big_val_append)
qed (simp add: limbs_of_bytes_def)

lemma byte_of_limb: "unat (ucast (drop_bit (b * 8) v AND 0xff) :: u8) = unat (v :: u64) div 256 ^ b mod 256"
proof -
  have m: "(0xff :: u64) = mask 8" by (simp add: mask_eq_exp_minus_1)
  have "(ucast (drop_bit (b * 8) v AND 0xff) :: u8) = ucast (drop_bit (b * 8) v)"
    unfolding m by (intro bit_word_eqI) (auto simp: bit_simps)
  then have "unat (ucast (drop_bit (b * 8) v AND 0xff) :: u8) = take_bit 8 (drop_bit (b * 8) (take_bit 64 (unat v)))"
    by (simp only: unsigned_ucast_eq unsigned_drop_bit_eq) simp
  moreover have "take_bit 64 (unat v) = unat v" using unat_u64_less [of v] by (intro take_bit_nat_eq_self)
  moreover have "(2 :: nat) ^ (b * 8) = 256 ^ b" by (simp add: power_mult mult.commute [of b])
  ultimately show ?thesis by (simp add: take_bit_eq_mod drop_bit_eq_div)
qed

lemma bytes_of_limb_val: "length (bytes_of_limb v) = 8 \<and> be_val (bytes_of_limb v) = unat v"
proof -
  have "be_val (map (\<lambda>b. ucast (drop_bit (b * 8) v AND 0xff)) (rev [0..<n])) = unat v mod 256 ^ n" for n
  proof (induction n)
    case (Suc n)
    have "unat v mod 256 ^ Suc n = 256 ^ n * (unat v div 256 ^ n mod 256) + unat v mod 256 ^ n"
      unfolding power_Suc2 by (rule mod_mult2_eq)
    with Suc show ?case by (simp add: byte_of_limb mult.commute)
  qed simp
  from this [of 8] have "be_val (bytes_of_limb v) = unat v mod 256 ^ 8" unfolding bytes_of_limb_def .
  then show ?thesis using unat_u64_less [of v] by (simp add: bytes_of_limb_def)
qed

lemma limbs_to_bn_val:
  assumes "bn_documented L"
  shows "limbs_to_bn L x = Some (big_val x)"
proof -
  have "be_val (concat (map bytes_of_limb (rev x))) = big_val x"
  proof (induction x)
    case (Cons v x)
    then show ?case using bytes_of_limb_val [of v] base_bytes [of 1]
      by (simp add: be_val_append mult.commute)
  qed simp
  with assms show ?thesis by (simp add: limbs_to_bn_def bn_documented_def)
qed

lemma bn_to_limbs_val:
  assumes "bn_documented L" "bn_to_limbs L x n = Some xs"
  shows "length xs = n" "big_val xs = x"
proof -
  from assms(2) obtain buf where "BN_bn2binpad L x (n * 8) = Some buf" "xs = limbs_of_bytes n buf"
    by (auto simp: bn_to_limbs_def split: if_splits option.splits)
  with assms(1) limbs_of_bytes_val [of buf n] show "length xs = n" "big_val xs = x"
    by (auto simp: bn_documented_def)
qed

lemma round_up_width: "n = round_up_limbs_for_bits b \<Longrightarrow> n \<noteq> 0 \<Longrightarrow> shim_width (int n) = Some n \<and> n \<le> 64 \<and> 0 < n"
  by (auto simp: round_up_limbs_for_bits_def shim_width_def split: if_splits)

lemma take_limb_array [simp]: "length xs = n \<Longrightarrow> take n (limb_array k xs) = xs"
  by (simp add: limb_array_def)

lemma odd_limb: "xs \<noteq> [] \<Longrightarrow> xs ! 0 AND 1 = 0 \<longleftrightarrow> even (big_val xs)"
  using is_odd_val [of xs] by (auto simp: is_odd_def)

subsection \<open>The public hook returns the power\<close>

lemma bn_mod_exp_result:
  assumes L: "bn_documented L" and "odd m"
  shows "fst (ocnp_bn_mod_exp L a p m c) = Some (a ^ bn_val p mod m)"
proof -
  let ?n = "round_up_limbs_for_bits (BN_num_bits L m)"
  have fb: "BN_mod_exp_mont L a (bn_val p) m = Some (a ^ bn_val p mod m)"
    using assms by (simp add: bn_documented_def)
  have fast: "openclicknp_modexp (limb_array 64 al) (limb_array 64 pl) (limb_array 64 ml) (int ?n) = Some (modexp al pl ml)
      \<and> openclicknp_modexp_consttime (limb_array 64 al) (limb_array 64 pl) (limb_array 64 ml) (int ?n) = Some (modexp_consttime al pl ml)
      \<and> big_val (modexp al pl ml) = a ^ bn_val p mod m \<and> big_val (modexp_consttime al pl ml) = a ^ bn_val p mod m"
    if "?n \<noteq> 0" and al: "bn_to_limbs L a ?n = Some al" and pl: "bn_to_limbs L (bn_val p) ?n = Some pl"
      and ml: "bn_to_limbs L m ?n = Some ml" for al pl ml
  proof -
    note v = bn_to_limbs_val [OF L al] bn_to_limbs_val [OF L pl] bn_to_limbs_val [OF L ml]
    note w = round_up_width [OF refl that(1)]
    have ne: "ml \<noteq> []" using v(5) w by auto
    then have om: "odd_modulus ml" using assms(2) v(6) by (simp add: odd_modulus_def)
    have "length al = length ml" "length pl = length ml" using v by simp_all
    from modexp_val(2) [OF om this(1), of pl] modexp_consttime_val(2) [OF om this] w v ne assms(2)
    show ?thesis by (simp add: openclicknp_modexp_def openclicknp_modexp_consttime_def odd_limb)
  qed
  show ?thesis
    using fast by (auto simp: ocnp_bn_mod_exp_def Let_def fb limbs_to_bn_val [OF L] split: option.splits)
qed

subsection \<open>The private hook returns the power\<close>

text \<open>A private key whose parts fit each other, as PKCS #1 defines them.\<close>

definition rsa_key_ok :: "rsa_key \<Rightarrow> bool" where
  "rsa_key_ok k \<longleftrightarrow>
     (case (rk_p k, rk_q k, rk_dp k, rk_dq k, rk_qi k) of
        (Some p, Some q, Some dp, Some dq, Some qi) \<Rightarrow>
          rk_n k = p * q \<and> prime_val p \<and> prime_val q \<and> odd p \<and> odd q \<and> q \<le> p
          \<and> dp = rk_d k mod (p - 1) \<and> 0 < dp \<and> dq = rk_d k mod (q - 1) \<and> 0 < dq \<and> (qi * q) mod p = 1
      | _ \<Rightarrow> odd (rk_n k))"

lemma rsa_mod_exp_result:
  assumes L: "bn_documented L" and key: "rsa_key_ok k"
  shows "fst (ocnp_rsa_mod_exp L inp k c) = Some (inp ^ rk_d k mod rk_n k)"
proof -
  let ?n = "round_up_limbs_for_bits (BN_num_bits L (rk_n k))"
  have "odd (rk_n k)" using key by (auto simp: rsa_key_ok_def split: option.splits)
  then have fb: "BN_mod_exp_mont_consttime L inp (rk_d k) (rk_n k) = Some (inp ^ rk_d k mod rk_n k)"
    using L by (simp add: bn_documented_def)
  have fast: "openclicknp_rsa_crt (limb_array 64 cl) (limb_array 32 pl) (limb_array 32 ql) (limb_array 32 dpl)
        (limb_array 32 dql) (limb_array 32 qil) (int ?n) = Some (rsa_crt_decrypt cl pl ql dpl dql qil)
      \<and> big_val (rsa_crt_decrypt cl pl ql dpl dql qil) = inp ^ rk_d k mod rk_n k"
    if some: "rk_p k = Some p" "rk_q k = Some q" "rk_dp k = Some dp" "rk_dq k = Some dq" "rk_qi k = Some qi"
      and "?n \<noteq> 0" and cl: "bn_to_limbs L inp ?n = Some cl" and pl: "bn_to_limbs L p (?n div 2) = Some pl"
      and ql: "bn_to_limbs L q (?n div 2) = Some ql" and dpl: "bn_to_limbs L dp (?n div 2) = Some dpl"
      and dql: "bn_to_limbs L dq (?n div 2) = Some dql" and qil: "bn_to_limbs L qi (?n div 2) = Some qil"
    for p q dp dq qi cl pl ql dpl dql qil
  proof -
    note v = bn_to_limbs_val [OF L cl] bn_to_limbs_val [OF L pl] bn_to_limbs_val [OF L ql]
      bn_to_limbs_val [OF L dpl] bn_to_limbs_val [OF L dql] bn_to_limbs_val [OF L qil]
    from key some have k: "rk_n k = p * q" "prime_val p" "prime_val q" "odd p" "odd q" "q \<le> p"
      "dp = rk_d k mod (p - 1)" "0 < dp" "dq = rk_d k mod (q - 1)" "0 < dq" "(qi * q) mod p = 1"
      by (simp_all add: rsa_key_ok_def)
    note w = round_up_width [OF refl \<open>?n \<noteq> 0\<close>]
    have even: "2 * (?n div 2) = ?n" "?n div 2 \<noteq> 0" using \<open>?n \<noteq> 0\<close>
      by (auto simp: round_up_limbs_for_bits_def split: if_splits)
    have ne: "pl \<noteq> []" "ql \<noteq> []" using v even by auto
    have "crt_key cl pl ql dpl dql qil"
      using v k even ne by (simp add: crt_key_def odd_modulus_def)
    from rsa_crt_power [OF this, of "rk_d k"] v k
    have "big_val (rsa_crt_decrypt cl pl ql dpl dql qil) = inp ^ rk_d k mod rk_n k" by simp
    moreover have "\<not> pl ! 0 AND 1 = 0" "\<not> ql ! 0 AND 1 = 0" using odd_limb [OF ne(1)] odd_limb [OF ne(2)] v k by simp_all
    ultimately show ?thesis using w v by (simp add: openclicknp_rsa_crt_def Let_def)
  qed
  show ?thesis
    using fast by (auto simp: ocnp_rsa_mod_exp_def Let_def fb limbs_to_bn_val [OF L] split: option.splits)
qed

subsection \<open>Whole blocks\<close>

lemma ecb_blocks_step:
  "inp \<noteq> [] \<Longrightarrow> ecb_blocks enc k inp =
     (if enc then aes128_encrypt_block k (take 16 inp) else aes128_decrypt_block k (take 16 inp))
     @ ecb_blocks enc k (drop 16 inp)"
  by (subst ecb_blocks.simps)
    (simp add: openclicknp_aes128_encrypt_block_def openclicknp_aes128_decrypt_block_def)

lemma ecb_blocks_empty [simp]: "ecb_blocks enc k [] = []"
  by (simp add: ecb_blocks.simps)

lemma ecb_inverse:
  "length inp mod 16 = 0 \<Longrightarrow> ecb_blocks False k (ecb_blocks True k inp) = inp
     \<and> length (ecb_blocks True k inp) = length inp"
proof (induction "length inp" arbitrary: inp rule: less_induct)
  case less
  show ?case
  proof (cases "inp = []")
    case False
    then have len: "16 \<le> length inp" using less.prems by (metis length_0_conv mod_less not_le)
    let ?e = "aes128_encrypt_block k (take 16 inp)"
    have "length (drop 16 inp) < length inp" "length (drop 16 inp) mod 16 = 0"
      using len less.prems by (simp_all add: le_mod_geq [symmetric])
    note IH = less.hyps [OF this]
    have enc: "ecb_blocks True k inp = ?e @ ecb_blocks True k (drop 16 inp)"
      using ecb_blocks_step [OF False, of True k] by simp
    have ne: "?e @ ecb_blocks True k (drop 16 inp) \<noteq> []"
      using length_encrypt [of k "take 16 inp"] by (metis append_is_Nil_conv list.size(3) zero_neq_numeral)
    have "aes128_decrypt_block k ?e = take 16 inp" using len by (intro decrypt_encrypt) simp
    then have "ecb_blocks False k (ecb_blocks True k inp) = take 16 inp @ drop 16 inp"
      unfolding enc ecb_blocks_step [OF ne] using IH by simp
    moreover have "length (ecb_blocks True k inp) = length inp" unfolding enc using IH len by simp
    ultimately show ?thesis by simp
  qed simp
qed

end
