(* ===== verification/EngineBind.thy ===== *)
theory EngineBind
  imports Engine
begin

text \<open>
  How the engine enters libcrypto (\<open>ssl_integration/openclicknp_engine.c\<close>): the bind function with its
  early returns, the callbacks it installs, the cipher built on first use and the globals that hold
  what was allocated. The results of libcrypto's calls are parameters: any of them may fail.
\<close>

subsection \<open>What is installed\<close>

datatype mod_exp_hook = Default_Hook | Ocnp_Hook

record rsa_method =
  rm_name :: string
  rm_bn_mod_exp :: mod_exp_hook
  rm_mod_exp :: mod_exp_hook

record evp_cipher =
  ec_nid :: int
  ec_block_size :: nat
  ec_key_len :: nat
  ec_iv_length :: nat
  ec_mode_ecb :: bool
  ec_installed :: bool
  ec_impl_ctx_size :: nat

record cmd_defn =
  cd_num :: int
  cd_name :: string
  cd_desc :: string

record engine =
  en_id :: "string option"
  en_name :: "string option"
  en_init :: bool
  en_finish :: bool
  en_destroy :: bool
  en_ctrl :: bool
  en_cmds :: "cmd_defn list"
  en_rsa :: "rsa_method option"
  en_ciphers :: bool

definition engine_new :: engine where
  "engine_new = \<lparr>en_id = None, en_name = None, en_init = False, en_finish = False, en_destroy = False,
     en_ctrl = False, en_cmds = [], en_rsa = None, en_ciphers = False\<rparr>"

text \<open>Which calls succeed, by the name of the function, and the default method.\<close>

record engine_lib =
  el_ok :: "string \<Rightarrow> bool"
  el_default :: rsa_method
  el_dup :: bool
  el_cipher_new :: bool
  el_nid :: int

text \<open>
  The static variables. \<open>gl_live\<close> and \<open>gl_ciphers\<close> count the methods and ciphers allocated and not
  freed; the code has no such variables.
\<close>

record globals =
  gl_rsa_method :: "rsa_method option"
  gl_default :: "rsa_method option"
  gl_ecb :: "evp_cipher option"
  gl_live :: nat
  gl_ciphers :: nat

definition globals_init :: globals where
  "globals_init = \<lparr>gl_rsa_method = None, gl_default = None, gl_ecb = None, gl_live = 0, gl_ciphers = 0\<rparr>"

definition OCNP_ENGINE_ID :: string where "OCNP_ENGINE_ID = ''openclicknp''"
definition OCNP_ENGINE_NAME :: string where "OCNP_ENGINE_NAME = ''OpenClickNP RSA modexp accelerator''"
definition OCNP_CMD_STATS :: int where "OCNP_CMD_STATS = 200"

definition ocnp_cmds :: "cmd_defn list" where
  "ocnp_cmds = [\<lparr>cd_num = OCNP_CMD_STATS, cd_name = ''STATS'', cd_desc = ''Print modexp call counters''\<rparr>]"

subsection \<open>Callbacks\<close>

definition ocnp_init :: int where "ocnp_init = 1"
definition ocnp_finish :: int where "ocnp_finish = 1"

definition ocnp_destroy :: "globals \<Rightarrow> int \<times> globals" where
  "ocnp_destroy g =
     (1, case gl_rsa_method g of None \<Rightarrow> g | Some m \<Rightarrow> g\<lparr>gl_rsa_method := None, gl_live := gl_live g - 1\<rparr>)"

definition counter_str :: "u64 \<Rightarrow> string" where
  "counter_str c = nat_str (unat c)"

definition stats_text :: "counters \<Rightarrow> string" where
  "stats_text c = ''[openclicknp ENGINE] modexp='' @ counter_str (g_modexp_calls c)
     @ '' modexp_ct='' @ counter_str (g_modexp_consttime_calls c) @ '' crt='' @ counter_str (g_crt_calls c)
     @ '' fallback='' @ counter_str (g_modexp_unsupported c) @ '' aes_blocks='' @ counter_str (g_aes_blocks c) @ [chr_nl]"

definition ocnp_ctrl :: "int \<Rightarrow> counters \<Rightarrow> int \<times> string" where
  "ocnp_ctrl cmd c = (if cmd = OCNP_CMD_STATS then (1, stats_text c) else (0, []))"

definition ocnp_aes128_ecb_cleanup :: int where "ocnp_aes128_ecb_cleanup = 1"

definition ocnp_get_aes128_ecb :: "engine_lib \<Rightarrow> globals \<Rightarrow> evp_cipher option \<times> globals" where
  "ocnp_get_aes128_ecb L g =
     (case gl_ecb g of
        Some c \<Rightarrow> (Some c, g)
      | None \<Rightarrow>
          if el_cipher_new L then
            (let c = \<lparr>ec_nid = el_nid L, ec_block_size = 16, ec_key_len = 16, ec_iv_length = 0, ec_mode_ecb = True,
                      ec_installed = True, ec_impl_ctx_size = 256\<rparr>
             in (Some c, g\<lparr>gl_ecb := Some c, gl_ciphers := gl_ciphers g + 1\<rparr>))
          else (None, g))"

text \<open>
  The query without a cipher argument asks for the list of identifiers; otherwise the cipher of one
  identifier is asked for. The answer is the list, the cipher and the result.
\<close>

datatype cipher_query = List_Nids | Cipher_For int

definition ocnp_ciphers ::
  "engine_lib \<Rightarrow> cipher_query \<Rightarrow> globals \<Rightarrow> (int list \<times> evp_cipher option \<times> int) \<times> globals" where
  "ocnp_ciphers L q g =
     (case q of
        List_Nids \<Rightarrow> (([el_nid L], None, 1), g)
      | Cipher_For nid \<Rightarrow>
          if nid = el_nid L then (case ocnp_get_aes128_ecb L g of (c, g') \<Rightarrow> (([], c, 1), g'))
          else (([], None, 0), g))"

subsection \<open>Binding\<close>

text \<open>A call that may fail, before the rest of the function.\<close>

definition try_set :: "engine_lib \<Rightarrow> string \<Rightarrow> (engine \<Rightarrow> engine) \<Rightarrow> (engine \<times> globals \<Rightarrow> bool \<times> engine \<times> globals)
    \<Rightarrow> engine \<times> globals \<Rightarrow> bool \<times> engine \<times> globals" where
  "try_set L call upd rest x =
     (case x of (e, g) \<Rightarrow> if el_ok L call then rest (upd e, g) else (False, e, g))"

definition ocnp_method :: "rsa_method \<Rightarrow> rsa_method" where
  "ocnp_method m = m\<lparr>rm_name := OCNP_ENGINE_NAME @ '' RSA'', rm_bn_mod_exp := Ocnp_Hook, rm_mod_exp := Ocnp_Hook\<rparr>"

definition bind_rsa ::
  "engine_lib \<Rightarrow> (engine \<times> globals \<Rightarrow> bool \<times> engine \<times> globals) \<Rightarrow> engine \<times> globals \<Rightarrow> bool \<times> engine \<times> globals" where
  "bind_rsa L rest x = (case x of (e, g) \<Rightarrow>
     let g = g\<lparr>gl_default := Some (el_default L)\<rparr> in
     if \<not> el_dup L then (False, e, g\<lparr>gl_rsa_method := None\<rparr>)
     else
       (let m = ocnp_method (el_default L); g = g\<lparr>gl_rsa_method := Some m, gl_live := gl_live g + 1\<rparr>
        in try_set L ''ENGINE_set_RSA'' (\<lambda>e. e\<lparr>en_rsa := Some m\<rparr>) rest (e, g)))"

definition bind_helper :: "engine_lib \<Rightarrow> engine \<times> globals \<Rightarrow> bool \<times> engine \<times> globals" where
  "bind_helper L =
     try_set L ''ENGINE_set_id'' (\<lambda>e. e\<lparr>en_id := Some OCNP_ENGINE_ID\<rparr>)
      (try_set L ''ENGINE_set_name'' (\<lambda>e. e\<lparr>en_name := Some OCNP_ENGINE_NAME\<rparr>)
       (try_set L ''ENGINE_set_init_function'' (\<lambda>e. e\<lparr>en_init := True\<rparr>)
        (try_set L ''ENGINE_set_finish_function'' (\<lambda>e. e\<lparr>en_finish := True\<rparr>)
         (try_set L ''ENGINE_set_destroy_function'' (\<lambda>e. e\<lparr>en_destroy := True\<rparr>)
          (try_set L ''ENGINE_set_ctrl_function'' (\<lambda>e. e\<lparr>en_ctrl := True\<rparr>)
           (try_set L ''ENGINE_set_cmd_defns'' (\<lambda>e. e\<lparr>en_cmds := ocnp_cmds\<rparr>)
            (bind_rsa L
             (try_set L ''ENGINE_set_ciphers'' (\<lambda>e. e\<lparr>en_ciphers := True\<rparr>) (\<lambda>x. (True, x))))))))))"

subsection \<open>Binding is complete when it succeeds\<close>

definition bound_engine :: "engine_lib \<Rightarrow> engine" where
  "bound_engine L = \<lparr>en_id = Some OCNP_ENGINE_ID, en_name = Some OCNP_ENGINE_NAME, en_init = True, en_finish = True,
     en_destroy = True, en_ctrl = True, en_cmds = ocnp_cmds, en_rsa = Some (ocnp_method (el_default L)), en_ciphers = True\<rparr>"

lemma bind_success:
  assumes "bind_helper L (e, g) = (True, e', g')"
  shows "e' = bound_engine L" and "gl_rsa_method g' = en_rsa e'" and "gl_live g' = gl_live g + 1"
  using assms by (auto simp: bind_helper_def try_set_def bind_rsa_def bound_engine_def Let_def
      intro!: engine.equality split: if_splits)

lemma bind_failure:
  assumes "bind_helper L (e, g) = (False, e', g')"
  shows "\<not> el_dup L \<or> (\<exists>call. \<not> el_ok L call)"
  using assms by (auto simp: bind_helper_def try_set_def bind_rsa_def Let_def split: if_splits)

lemma bind_live:
  assumes "bind_helper L (e, g) = (ok, e', g')"
  shows "gl_live g' \<le> gl_live g + 1" and "gl_live g \<le> gl_live g'"
  using assms by (auto simp: bind_helper_def try_set_def bind_rsa_def Let_def split: if_splits)

subsection \<open>The cipher is built once\<close>

definition ciphers_counted :: "globals \<Rightarrow> bool" where
  "ciphers_counted g \<longleftrightarrow> gl_ciphers g = (if gl_ecb g = None then 0 else 1)"

fun cipher_queries :: "engine_lib \<Rightarrow> cipher_query list \<Rightarrow> globals \<Rightarrow> globals" where
  "cipher_queries L [] g = g"
| "cipher_queries L (q # qs) g = cipher_queries L qs (snd (ocnp_ciphers L q g))"

lemma ocnp_ciphers_counted: "ciphers_counted g \<Longrightarrow> ciphers_counted (snd (ocnp_ciphers L q g))"
  by (auto simp: ciphers_counted_def ocnp_ciphers_def ocnp_get_aes128_ecb_def Let_def split: option.splits cipher_query.splits)

lemma cipher_queries_counted: "ciphers_counted g \<Longrightarrow> ciphers_counted (cipher_queries L qs g)"
  by (induction qs arbitrary: g) (simp_all add: ocnp_ciphers_counted)

lemma ocnp_ciphers_keeps: "gl_ecb g = Some c \<Longrightarrow> gl_ecb (snd (ocnp_ciphers L q g)) = Some c"
  by (auto simp: ocnp_ciphers_def ocnp_get_aes128_ecb_def split: cipher_query.splits)

end
