(* ===== verification/Spec2Isabelle.thy ===== *)
theory Spec2Isabelle
  imports LexerText RunFacts CryptoElements RsaServes FirewallElements SetupHosts HeapOrder EngineBind
begin

text \<open>
  OpenClickNP compiles element graphs written in a small language (files \<open>.clnp\<close>) to FPGA kernels and
  to simulators of them, and has a host runtime, wide-integer and cipher code, and an OpenSSL engine
  around these. This library models the C++ and C code of the repository, function by function, and
  proves what makes each part correct; where the code does not do what it means to, the theorem says
  what it does. All paths below are relative to the repository's source tree.

  \<^bold>\<open>The program and its theories.\<close>

  \<^item> Base. \<open>Prelude\<close>: machine integer types, the character classes of C, decimal and hexadecimal
    conversion (\<open>std::to_string\<close>, \<open>std::stoi\<close>, \<open>std::stoull\<close>), list lemmas, and \<open>fold\<close> over options with
    its invariant rules. \<open>SourceText\<close>: \<open>compiler/src/source.cpp\<close>, buffers, line tables, positions and the
    import search; the file system is the record \<open>file_system\<close>. \<open>Diagnostics\<close>: \<open>diagnostic.cpp\<close>.
  \<^item> Front end. \<open>Lexer\<close> (\<open>lex/lexer.cpp\<close>) with \<open>LexerFacts\<close> and \<open>LexerText\<close>; \<open>Ast\<close> (\<open>ast.hpp\<close>);
    \<open>ParserMonad\<close> and \<open>Parser\<close> (\<open>parse/parser.cpp\<close>) with \<open>ParserFacts\<close>. A parser is a state function
    whose result is a value, a failure, or an uncaught C++ exception.
  \<^item> Middle. \<open>Graph\<close> (\<open>eg_ir.hpp\<close>, \<open>be_ir.hpp\<close>), \<open>Resolver\<close> (\<open>ir/resolver.cpp\<close>) with \<open>ResolverFacts\<close>,
    \<open>Analyses\<close> and \<open>Cycles\<close> (\<open>analyses/*.cpp\<close>), \<open>Lowering\<close> (\<open>ir/lower.cpp\<close>).
  \<^item> Back ends. \<open>BodyRewrite\<close> (\<open>backends/body_rewrite.cpp\<close>), \<open>Emit\<close> (what the emitters share: text,
    directories and files of the output system), \<open>EmitHls\<close>, \<open>EmitSwEmu\<close>, \<open>EmitSim\<close> (SystemC and
    Verilator), \<open>EmitLink\<close> (link configuration and host tables), each a function to the text of the files;
    \<open>EmitFacts\<close>. \<open>Driver\<close> (\<open>driver.cpp\<close>, \<open>main.cpp\<close>) composes all stages; \<open>DriverFacts\<close>, \<open>RunFacts\<close>.
  \<^item> The running emulator. \<open>Emulator\<close> is the meaning of the text that \<open>EmitSwEmu\<close> writes: a kernel
    function is a list of instructions in the order of the emission (\<open>loop_code\<close>), its local variables
    are a record, the user's bodies are functions on that record, and a network of threads shares the
    streams, the signal channel and the stop flag. \<open>StreamKernel\<close> is what a kernel with any number of
    inputs promises on one output, whatever its body; \<open>Network\<close> puts such a kernel into the emulator of
    a plan.
  \<^item> Elements of the library, as bodies: \<open>Elements\<close> (\<open>elements/core\<close>: Pass, PassThrough, Tee, Mux, Demux and
    the counters), \<open>TableElements\<close> (\<open>queues/MinHeap.clnp\<close>, \<open>lookups/HashTable.clnp\<close>) with
    \<open>HeapOrder\<close> (the heap of MinHeap as a priority queue), \<open>CryptoElements\<close>
    (\<open>crypto/SHA1.clnp\<close>, \<open>AES_ECB.clnp\<close>, \<open>AES_CTR.clnp\<close>), \<open>Accelerator\<close> and \<open>RsaServes\<close>
    (\<open>crypto/RSA_ModExp_1024.clnp\<close> and its wider variants, and the example \<open>RSA_Accelerator\<close>),
    \<open>FirewallElements\<close> (\<open>parsers/FlowTupleParser.clnp\<close> and the example \<open>Firewall\<close> with its rule).
  \<^item> Runtime. \<open>Flit\<close> (\<open>runtime/include/openclicknp/flit.hpp\<close>), \<open>Streams\<close> (\<open>sw_runtime.hpp\<close>), \<open>Pcap\<close>
    (\<open>pcap.hpp\<close>, \<open>pcap.cpp\<close>), \<open>Host\<close> (slot bridges, platform, registry, elements, \<open>hls_runtime.hpp\<close>),
    \<open>HostPrograms\<close> (four programs under \<open>examples\<close>) and \<open>SetupHosts\<close> (the programs that set one
    element up, and those that only open the platform and sleep).
  \<^item> Arithmetic and ciphers. \<open>Bigint\<close>, \<open>BigintFacts\<close>, \<open>Modexp\<close>, \<open>RsaCrt\<close> (\<open>bigint.hpp\<close>), \<open>Aes\<close>
    (\<open>aes128.hpp\<close>), \<open>Sha1\<close> (\<open>sha1.hpp\<close>). Words have their width, so carries and wrap-around are those of
    the code; an array of limbs is a list of 64-bit words, and \<open>big_val\<close> is the number it holds.
  \<^item> OpenSSL. \<open>Engine\<close> (the shims and the hooks of \<open>ssl_integration/openclicknp_engine.c\<close>) and
    \<open>EngineBind\<close> (callbacks, cipher table and bind function).

  \<^bold>\<open>How the parts meet.\<close> \<open>Driver_run\<close> reads a file through the source manager, parses it with its
  imports, resolves the module to a graph (instances, inlined groups, pseudo-elements for the
  boundaries), runs the analyses, lowers the graph to a plan (\<open>build\<close>) and hands the plan to the enabled
  emitters, which share one diagnostic engine. The emulator of a plan (\<open>emulator\<close>) is built from the same
  plan and the same wiring that the emitted main function is written from. The host side knows the plan
  by the tables the host emitter writes. The engine uses the arithmetic through the shims.

  \<^bold>\<open>State and errors.\<close> A class with state is a record that its methods take and return. A lookup that may
  fail is an option; a stage of the driver is \<open>Stage\<close> or \<open>Stopped\<close> with the outcome of the run; a run is
  \<open>Returned\<close> with the exit status, the standard error text and the files, \<open>Uncaught\<close> for a C++
  exception that leaves \<open>main\<close>, or \<open>No_return\<close>. Every early return and every raise of the source is a branch
  of its model.

  \<^bold>\<open>Fuel and termination.\<close> Loops that move through a list are structural or have a measure. Fuel is used
  where the code recurses over data that can be cyclic: \<open>parseFile\<close> over imports (fuel above the number of
  readable files suffices, since a file is parsed once: C3), group inlining in the resolver (fuel above
  the nesting depth of the groups: \<open>resolve_returns\<close>; a group that contains itself has no such depth and
  exhausts every fuel: C10) and the strongly connected components (fuel of the number of kernels; C4 states the
  whole run). More fuel never changes a result (\<open>RunFacts\<close>). The block loops of SHA-1 are
  \<open>partial_function (option)\<close>, and their value is proved to exist.

  \<^bold>\<open>Concurrency.\<close> \<open>Emulator.net_step\<close> is one instruction of one thread or one action of the code around
  the emulator; reachability is its reflexive transitive closure. Every operation of a stream or channel
  holds its mutex throughout, so an instruction that uses one is atomic. The histories of the streams
  (\<open>sh_sent\<close>, \<open>sh_got\<close>) are ghost components that no instruction reads. C16 to C20, C22, C24 and C25 hold
  for every interleaving; C21, C26 and C27 are about calls of one body, C23 about the operations of a heap. A body is a total function on the local variables: a body that loops for ever or
  leaves its arrays has no meaning here.

  \<^bold>\<open>Interfaces.\<close> \<open>scan_op\<close> (an operation of the lexer moves its cursor forward over the same text;
  interpreted for every scanning loop), \<open>fifo\<close> (a queue delivers what it accepts, in order; interpreted for the software stream,
  both directions of the signal channel and the slots of both bridges), \<open>residue_mul\<close> (a product in some
  representation of residues; interpreted for Montgomery multiplication under both ladders) and
  \<open>reporting_emitter\<close> (an emitter fails exactly when it reports an error; interpreted for all six), \<open>priority_queue\<close> (what goes in comes out in order of rank;
  interpreted for the heap of MinHeap). For
  kernels: \<open>stream_kernel\<close> (what a body keeps between its calls bounds what its kernel writes), of which
  \<open>element\<close> (one input, one output), \<open>forwarder\<close> (an element that passes on the flits it keeps),
  \<open>embedded_kernel\<close> (a kernel whose state is a part of a larger state type), \<open>rsa_element\<close>, \<open>rsa_in_network\<close>,
  \<open>act_in_network\<close> and \<open>demux_output\<close> are extensions or instances; interpreted for Pass, PassThrough, SHA1,
  AES\_ECB, AES\_CTR, MinHeap, HashTable, FlowTupleParser, LookupAct, Demux, the three RSA elements and the
  kernels of the examples RSA\_Accelerator and Firewall.

  \<^bold>\<open>What the properties show.\<close> C1 to C15: the compiler accepts only plans whose streams end at ports that
  exist, keeps every edge, returns on every input without recursive groups, tells its result by the exit
  status, writes every kernel once, rewrites bodies exactly, and what happens in the cases it does not
  handle. C16 to C19: what the emulated program delivers, and that it stops. C20 to C27: what elements of
  the library do in it: an RSA kernel computes powers and takes a known number of calls, an SHA1 kernel
  digests zero-padded packets, the heap of MinHeap sorts but the
  element never has two flits in it, the firewall of the examples passes nothing, a Mux
  serves every port, a Demux writes beyond its own. C28 to C30: Montgomery multiplication, both exponentiations and the CRT form of RSA
  compute the powers they should. C31 and C32: AES decrypts what it encrypts, SHA-1 is the chained
  compression of the padded message. C33 to C35: packets survive the conversion to flits and the files.
  C36 and C37: the slots and a host program. C38 to C40: the engine's hooks compute what
  libcrypto computes, and the bind function is complete. The lemma groups of the \<open>Facts\<close> theories are
  the invariants and branch equations these rest on.

  \<^bold>\<open>Parameters.\<close> The file system read (\<open>file_system\<close>) and written (\<open>output_system\<close>), the printing of
  doubles in one diagnostic (\<open>sh\<close>), XRT (\<open>xrt\<close>: devices, kernels, register reads and writes), libcrypto
  (\<open>bn_lib\<close> with its documented laws \<open>bn_documented\<close>, \<open>engine_lib\<close> for the calls that may fail) and the
  bodies of the kernels in the emulator. Nothing is assumed about them beyond these named hypotheses.

  \<^bold>\<open>Not modelled.\<close> The meaning of C++ text in element bodies other than those of the element theories;
  the timing of hardware and the SystemC kernel; \<open>sc_runtime.hpp\<close> (two includes); the line that a
  failed open of the platform writes to standard error; tests, evaluation scripts, shell RTL, build files. The host programs
  that only open the platform and sleep, which differ in the name of their image, are one definition.
\<close>

subsection \<open>Concrete inputs\<close>

text \<open>A file system with one file, a program of two elements in a chain, and its module.\<close>

definition one_file :: "string \<Rightarrow> string \<Rightarrow> file_system" where
  "one_file name txt =
     \<lparr>fs_exists = (\<lambda>p. p = name), fs_read = (\<lambda>p. if p = name then Some txt else None),
      fs_weakly_canonical = (\<lambda>p. Some p)\<rparr>"

definition simple_end :: "string \<Rightarrow> conn_end" where
  "simple_end n = \<lparr>ce_node_name = n, ce_range = port_range_default, ce_src = range_default\<rparr>"

definition simple_conn :: "string \<Rightarrow> string \<Rightarrow> connection_decl" where
  "simple_conn a b =
     \<lparr>cd_source = simple_end a, cd_dest = simple_end b, cd_lossy = False, cd_src = range_default\<rparr>"

definition simple_instance :: "string \<Rightarrow> string \<Rightarrow> instance_decl" where
  "simple_instance ty n = instance_decl_default\<lparr>in_type := ty, in_name := n, in_host_control := True\<rparr>"

definition chain_module :: ast_module where
  "chain_module =
     \<lparr>md_file = 0, md_stmts =
        [Top_Element (element_decl_default\<lparr>el_name := ''P''\<rparr>),
         Top_Instance (simple_instance ''P'' ''a''), Top_Instance (simple_instance ''P'' ''b''),
         Top_Connection (simple_conn ''host_in'' ''a''), Top_Connection (simple_conn ''a'' ''b''),
         Top_Connection (simple_conn ''b'' ''tor_out'')]\<rparr>"

definition chain_plan :: "(build \<times> diag_engine) stage" where
  "chain_plan = compile_plan 8 (\<lambda>_. []) options_default sm_empty chain_module diag_empty"

definition chain_build :: build where
  "chain_build = (case chain_plan of Stage (b, de) \<Rightarrow> b | _ \<Rightarrow> build_default)"

lemma chain_plan_eq: "chain_plan = Stage (chain_build, diag_empty)"
proof -
  have c: "case chain_plan of Stage (b, de) \<Rightarrow> de = diag_empty | _ \<Rightarrow> False" by code_simp
  show ?thesis
  proof (cases chain_plan)
    case (Stage x)
    obtain b de where x: "x = (b, de)" by fastforce
    from c show ?thesis by (simp add: Stage x chain_build_def)
  next
    case (Stopped out)
    from c show ?thesis by (simp add: Stopped)
  qed
qed

text \<open>The plan written out, so that evaluations need not compile the program again.\<close>

definition chain_kernel :: "string \<Rightarrow> int \<Rightarrow> kernel_hls" where
  "chain_kernel n base =
     \<lparr>kh_name = n, kh_element_type = ''P'', kh_autorun = True, kh_has_signal = True, kh_axilite_base = base,
      kh_pipeline_ii = 0, kh_hls_pragmas = [],
      kh_in_ports = [\<lparr>p_index = 1, p_kind = Channel_Flit, p_width_bits = 512\<rparr>],
      kh_out_ports = [\<lparr>p_index = 1, p_kind = Channel_Flit, p_width_bits = 512\<rparr>],
      kh_params = [], kh_state_cpp = [], kh_init_cpp = [], kh_handler_cpp = [], kh_signal_cpp = [],
      kh_signal_params = []\<rparr>"

definition chain_conn :: "string \<Rightarrow> string \<Rightarrow> stream_conn" where
  "chain_conn a b = \<lparr>sc_src_kernel = a, sc_src_port = 1, sc_dst_kernel = b, sc_dst_port = 1, sc_lossy = False,
     sc_depth = 64, sc_width_bits = 512\<rparr>"

lemma chain_build_value [code]:
  "chain_build =
     \<lparr>b_platform = U50_XDMA, b_user_clock_hz = 322265625,
      b_kernels = [chain_kernel ''a'' 4096, chain_kernel ''b'' 4224],
      b_stream_conns = [chain_conn ''a'' ''b''], b_host_conns = [], b_mem_conns = [],
      b_tor_conns = [chain_conn ''b'' ''tor_out''], b_nic_conns = [],
      b_host_streams = [\<lparr>hc_kernel = ''a'', hc_port = 1, hc_kernel_to_host = False, hc_slot_id = 32\<rparr>],
      b_signal_table = [\<lparr>se_gid = 0, se_kernel = ''a'', se_axilite_base = 4096\<rparr>,
                        \<lparr>se_gid = 1, se_kernel = ''b'', se_axilite_base = 4224\<rparr>],
      b_source_path = []\<rparr>"
  by code_simp

lemma chain_streams: "b_stream_conns chain_build = [stream_of (edge_of (simple_conn ''a'' ''b''))]"
  by code_simp


definition tor_module :: ast_module where
  "tor_module =
     \<lparr>md_file = 0, md_stmts =
        [Top_Element (element_decl_default\<lparr>el_name := ''P''\<rparr>),
         Top_Instance (simple_instance ''P'' ''tor_out_filter''),
         Top_Connection (simple_conn ''tor_in'' ''tor_out_filter''),
         Top_Connection (simple_conn ''tor_out_filter'' ''nic_out'')]\<rparr>"

definition group_pass :: element_group_decl where
  "group_pass = element_group_default\<lparr>gd_name := ''G'', gd_body :=
     [Group_Instance (simple_instance ''P'' ''a''), Group_Connection (simple_conn ''begin'' ''a''),
      Group_Connection (simple_conn ''a'' ''end'')]\<rparr>"

definition group_module :: ast_module where
  "group_module =
     \<lparr>md_file = 0, md_stmts =
        [Top_Element (element_decl_default\<lparr>el_name := ''P''\<rparr>), Top_Group group_pass,
         Top_Instance (simple_instance ''G'' ''g''),
         Top_Connection (simple_conn ''host_in'' ''g''), Top_Connection (simple_conn ''g'' ''host_out'')]\<rparr>"

definition plan_of :: "(build \<times> diag_engine) stage \<Rightarrow> build" where
  "plan_of p = (case p of Stage (b, de) \<Rightarrow> b | _ \<Rightarrow> build_default)"

lemma plan_of_stage: "(case p of Stage (b, de) \<Rightarrow> de = d | _ \<Rightarrow> False) \<Longrightarrow> p = Stage (plan_of p, d)"
  by (cases p) (auto simp: plan_of_def)



definition tor_plan :: "(build \<times> diag_engine) stage" where
  "tor_plan = compile_plan 8 (\<lambda>_. []) options_default sm_empty tor_module diag_empty"

definition tor_build :: build where
  "tor_build = plan_of tor_plan"



lemma tor_plan_eq: "tor_plan = Stage (tor_build, diag_empty)"
  unfolding tor_build_def by (rule plan_of_stage) code_simp


lemma tor_link: "link_boundary ''tor'' (0, b_tor_conns tor_build ! 0) = ''stream_connect=tor_in.out_1:tor_out0:64''"
  by code_simp

text \<open>A lexer at the beginning of a text.\<close>

definition lexer_on :: "string \<Rightarrow> lexer" where
  "lexer_on txt = Lexer (SourceBuffer [] txt) 0"

lemma lexer_on_ahead [simp]: "ahead (lexer_on txt) = txt"
  by (simp add: lexer_on_def Lexer_def ahead_def SourceBuffer_def)

definition open_platform :: "transport_kind \<Rightarrow> unit host_platform" where
  "open_platform t = snd (platform_open None registry_init [] [] t Platform)"

lemma open_platform_ok:
  "bridge_ok (open_platform t)" "pf_items s (open_platform t) = []" "pf_transport (open_platform t) = t"
  using open_bridge_ok [of None registry_init "[]" "[]" t Platform "open_platform t"]
  by (simp_all add: open_platform_def open_without_xrt)

text \<open>A run of the emulator of the chain with the element Pass in both kernels.\<close>

definition pass_bodies :: "kernel_hls \<Rightarrow> pass_state body \<times> pass_state body \<times> pass_state" where
  "pass_bodies k = (pass_handler, pass_signal, pass_init)"

definition chain_run :: "action list" where
  "chain_run =
     [Env_Write ''host_stream_0'' flit_zero, Env_Write ''host_stream_0'' (set_error True flit_zero)]
     @ replicate 8 (Run 0) @ replicate 8 (Run 1) @ [Env_Read ''tor_stream_0'']"

lemma chain_run_reachable:
  "(net_step {''host_stream_0''} {''tor_stream_0''})\<^sup>*\<^sup>* (emulator pass_bodies chain_build)
     (run_net chain_run (emulator pass_bodies chain_build))"
  by (rule run_net_reachable) (simp add: chain_run_def list_all_iff)

lemma chain_names: "distinct (map kh_name (b_kernels chain_build))"
proof -
  have "map kh_name (b_kernels chain_build) = [''a'', ''b'']" by code_simp
  then show ?thesis by simp
qed

lemma chain_kernel_streams:
  "in_stream chain_build 0 = ''host_stream_0''" "out_stream chain_build 0 = ''stream_0''"
  "in_stream chain_build 1 = ''stream_0''" "out_stream chain_build 1 = ''tor_stream_0''"
  by code_simp+

lemma chain_elements:
  "element_at {''host_stream_0''} {''tor_stream_0''} pass_bodies pass_handler pass_signal chain_build 0"
  "element_at {''host_stream_0''} {''tor_stream_0''} pass_bodies pass_handler pass_signal chain_build 1"
proof -
  have k: "length (b_kernels chain_build) = 2" "map port_no (kh_in_ports (b_kernels chain_build ! 0)) = [1]"
    "map port_no (kh_out_ports (b_kernels chain_build ! 0)) = [1]"
    "map port_no (kh_in_ports (b_kernels chain_build ! 1)) = [1]"
    "map port_no (kh_out_ports (b_kernels chain_build ! 1)) = [1]" by code_simp+
  then show "element_at {''host_stream_0''} {''tor_stream_0''} pass_bodies pass_handler pass_signal chain_build 0"
    "element_at {''host_stream_0''} {''tor_stream_0''} pass_bodies pass_handler pass_signal chain_build 1"
    unfolding element_at_def chain_kernel_streams pass_bodies_def null_var_def k by simp_all
qed

text \<open>Kernels at work: a Demux at its third turn and a Mux.\<close>

definition shared_with :: "(string \<Rightarrow> sw_stream) \<Rightarrow> shared" where
  "shared_with f = \<lparr>sh_streams = f, sh_chan = channel_empty, sh_stop = False, sh_sent = (\<lambda>_. []), sh_got = (\<lambda>_. [])\<rparr>"

definition locals_with :: "ports \<Rightarrow> 'st \<Rightarrow> 'st locals" where
  "locals_with p st = \<lparr>lc_ret = PORT_ALL, lc_ports = p, lc_last_rport = 0, lc_event = signal_zero,
     lc_outevent = signal_zero, lc_has_signal = False, lc_state = st\<rparr>"

definition ports_with :: "u32 \<Rightarrow> u32 \<Rightarrow> flit \<Rightarrow> ports" where
  "ports_with i out f = \<lparr>po_input_port = i, po_input_data = replicate 3 flit_zero, po_output_port = out,
     po_output_data = replicate 3 f, po_output_failed = 0, po_output_success = 0\<rparr>"


definition mux_locals :: "mux_state locals" where
  "mux_locals = locals_with (ports_with 6 0 flit_zero) \<lparr>mx_rr = 5, mx_merged = 0\<rparr>"


text \<open>The example RSA\_Accelerator, its plan, and a run in which 3, 5 and 7 arrive as operands.\<close>

definition accel_conn :: "string \<Rightarrow> int \<Rightarrow> string \<Rightarrow> int \<Rightarrow> connection_decl" where
  "accel_conn a pa b pb =
     (let port = (\<lambda>p. port_range_default\<lparr>pr_lo := p, pr_hi := p\<rparr>)
      in \<lparr>cd_source = (simple_end a)\<lparr>ce_range := port pa\<rparr>, cd_dest = (simple_end b)\<lparr>ce_range := port pb\<rparr>,
          cd_lossy = False, cd_src = range_default\<rparr>)"

definition accel_module :: ast_module where
  "accel_module =
     \<lparr>md_file = 0, md_stmts =
        [Top_Element (element_decl_default\<lparr>el_name := ''RSA_ModExp_1024'', el_n_in_ports := 3\<rparr>),
         Top_Element (element_decl_default\<lparr>el_name := ''Pass''\<rparr>),
         Top_Instance ((simple_instance ''RSA_ModExp_1024'' ''rsa'')\<lparr>in_n_in_ports := 3, in_n_out_ports := 1\<rparr>),
         Top_Instance (simple_instance ''Pass'' ''rev''),
         Top_Connection (accel_conn ''host_in'' 0 ''rsa'' 1), Top_Connection (accel_conn ''host_in'' 0 ''rsa'' 2),
         Top_Connection (accel_conn ''host_in'' 0 ''rsa'' 3), Top_Connection (accel_conn ''rsa'' 1 ''host_out'' 0),
         Top_Connection (simple_conn ''tor_in'' ''rev''), Top_Connection (simple_conn ''rev'' ''nic_out'')]\<rparr>"

definition accel_build :: build where
  "accel_build = plan_of (compile_plan 8 (\<lambda>_. []) options_default sm_empty accel_module diag_empty)"

lemma accel_plan: "compile_plan 8 (\<lambda>_. []) options_default sm_empty accel_module diag_empty = Stage (accel_build, diag_empty)"
  unfolding accel_build_def by (rule plan_of_stage) code_simp

lemma accel_build_value [code]:
  "accel_build =
     (let port = (\<lambda>i. \<lparr>p_index = i, p_kind = Channel_Flit, p_width_bits = 512\<rparr>);
          conn = (\<lambda>a b. \<lparr>sc_src_kernel = a, sc_src_port = 1, sc_dst_kernel = b, sc_dst_port = 1, sc_lossy = False,
                           sc_depth = 64, sc_width_bits = 512\<rparr>);
          host = (\<lambda>i out s. \<lparr>hc_kernel = ''rsa'', hc_port = i, hc_kernel_to_host = out, hc_slot_id = s\<rparr>)
      in build_default\<lparr>
        b_kernels :=
          [(chain_kernel ''rsa'' 4096)\<lparr>kh_element_type := ''RSA_ModExp_1024'', kh_in_ports := map port [1, 2, 3]\<rparr>,
           (chain_kernel ''rev'' 4224)\<lparr>kh_element_type := ''Pass''\<rparr>],
        b_tor_conns := [conn ''tor_in'' ''rev''], b_nic_conns := [conn ''rev'' ''nic_out''],
        b_host_streams := [host 1 False 32, host 2 False 33, host 3 False 34, host 1 True 35],
        b_signal_table := [\<lparr>se_gid = 0, se_kernel = ''rsa'', se_axilite_base = 4096\<rparr>,
                           \<lparr>se_gid = 1, se_kernel = ''rev'', se_axilite_base = 4224\<rparr>]\<rparr>)"
  by code_simp


definition operand_of :: "u64 \<Rightarrow> flit list" where "operand_of x = set_lane 0 x flit_zero # replicate 3 flit_zero"


definition accel_run :: "action list" where
  "accel_run =
     concat (map (\<lambda>(v, x). map (Env_Write v) (operand_of x)) [(''host_stream_0'', 3), (''host_stream_1'', 5), (''host_stream_2'', 7)])
     @ replicate 36 (Run 0)"

definition accel_net :: "accel_state net" where "accel_net = run_net accel_run (emulator accel_bodies accel_build)"

lemma accel_kernel:
  "distinct (map kh_name (b_kernels accel_build))" "snd (snd (accel_bodies (b_kernels accel_build ! 0))) = Rsa_State (rsa_start 16)"
  "port_in accel_build 0 1 = ''host_stream_0''" "port_in accel_build 0 2 = ''host_stream_1''"
  "port_in accel_build 0 3 = ''host_stream_2''" "port_out accel_build 0 1 = ''host_stream_3''"
  "kernel_at {''host_stream_0'', ''host_stream_1'', ''host_stream_2''} {''host_stream_3''} accel_bodies
     (embed rsa_part Rsa_State (rsa_handler 16)) (embed rsa_part Rsa_State (\<lambda>lc. lc)) accel_build 0 {1, 2, 3} 1"
proof -
  have k: "map kh_name (b_kernels accel_build) = [''rsa'', ''rev'']" "length (b_kernels accel_build) = 2"
    "kh_element_type (b_kernels accel_build ! 0) = ''RSA_ModExp_1024''"
    "map port_no (kh_in_ports (b_kernels accel_build ! 0)) = [1, 2, 3]"
    "map port_no (kh_out_ports (b_kernels accel_build ! 0)) = [1]" by code_simp+
  show "distinct (map kh_name (b_kernels accel_build))" by (simp add: k(1))
  show "snd (snd (accel_bodies (b_kernels accel_build ! 0))) = Rsa_State (rsa_start 16)" by (simp add: accel_bodies_def k(3))
  show s: "port_in accel_build 0 1 = ''host_stream_0''" "port_in accel_build 0 2 = ''host_stream_1''"
    "port_in accel_build 0 3 = ''host_stream_2''" "port_out accel_build 0 1 = ''host_stream_3''" by code_simp+
  show "kernel_at {''host_stream_0'', ''host_stream_1'', ''host_stream_2''} {''host_stream_3''} accel_bodies
     (embed rsa_part Rsa_State (rsa_handler 16)) (embed rsa_part Rsa_State (\<lambda>lc. lc)) accel_build 0 {1, 2, 3} 1"
    unfolding kernel_at_def k(4,5) using s by (simp add: accel_bodies_def k(2,3) null_var_def)
qed

lemma accel_reachable:
  "(net_step {''host_stream_0'', ''host_stream_1'', ''host_stream_2''} {''host_stream_3''})\<^sup>*\<^sup>* (emulator accel_bodies accel_build) accel_net"
  unfolding accel_net_def by (rule run_net_reachable) (simp add: accel_run_def operand_of_def list_all_iff)

lemma accel_got:
  "map (sh_got (nt_shared accel_net)) [''host_stream_0'', ''host_stream_1'', ''host_stream_2''] = [operand_of 3, operand_of 5, operand_of 7]"
  by code_simp

text \<open>The slots of the host program are those the plan gives to its streams.\<close>

lemma accel_slots: "map hc_slot_id (b_host_streams accel_build) = [32, 33, 34, 35]"
  by code_simp

lemma operand_of_val: "big_val (nth_operand 4 (operand_of x) 0) = unat x"
proof -
  have "flit_limbs (set_lane 0 x flit_zero) = [x, 0, 0, 0]" "flit_limbs flit_zero = [0, 0, 0, 0]"
    by (simp_all add: flit_limbs_def upt_rec lane_other lane_roundtrip numeral_3_eq_3) code_simp+
  then show ?thesis by (simp add: nth_operand_def operand_of_def limbs_of_def numeral_3_eq_3)
qed


definition heap_bodies :: "kernel_hls \<Rightarrow> heap_state body \<times> heap_state body \<times> heap_state" where
  "heap_bodies k = (min_heap_handler, (\<lambda>lc. lc), heap_start)"

lemma chain_element_with:
  assumes "\<And>k. bodies k = (h, s, st)"
  shows "element_at {''host_stream_0''} {''tor_stream_0''} bodies h s chain_build 0"
  using chain_elements(1) by (simp add: element_at_def assms pass_bodies_def)


definition two_writes :: "flit \<Rightarrow> flit \<Rightarrow> nat \<Rightarrow> action list" where
  "two_writes f g k = [Env_Write ''host_stream_0'' f, Env_Write ''host_stream_0'' g] @ replicate k (Run 0)"

definition urgent :: "u64 \<Rightarrow> flit" where "urgent p = set_lane 0 p flit_zero"

text \<open>The example Firewall, its plan, and a run in which the rule is posted and a packet that it allows arrives.\<close>

definition firewall_module :: ast_module where
  "firewall_module =
     (let decl = (\<lambda>n i out. Top_Element (element_decl_default\<lparr>el_name := n, el_n_in_ports := i, el_n_out_ports := out\<rparr>));
          inst = (\<lambda>ty n i out. Top_Instance ((simple_instance ty n)\<lparr>in_n_in_ports := i, in_n_out_ports := out\<rparr>))
      in \<lparr>md_file = 0, md_stmts =
        [decl ''Pass'' 1 1, decl ''Tee'' 1 2, decl ''FlowTupleParser'' 1 2, decl ''HashTable'' 1 1, decl ''LookupAct'' 2 1,
         inst ''Tee'' ''split'' 1 2, inst ''FlowTupleParser'' ''parser'' (-1) (-1), inst ''HashTable'' ''ht'' (-1) (-1),
         inst ''LookupAct'' ''act'' 2 1, inst ''Pass'' ''rev'' (-1) (-1),
         Top_Connection (accel_conn ''nic_in'' 0 ''split'' 0), Top_Connection (accel_conn ''split'' 1 ''act'' 1),
         Top_Connection (accel_conn ''split'' 2 ''parser'' 0), Top_Connection (accel_conn ''parser'' 2 ''ht'' 1),
         Top_Connection (accel_conn ''parser'' 1 ''Drop'' 0), Top_Connection (accel_conn ''ht'' 0 ''act'' 2),
         Top_Connection (accel_conn ''act'' 0 ''tor_out'' 0), Top_Connection (accel_conn ''tor_in'' 0 ''rev'' 0),
         Top_Connection (accel_conn ''rev'' 0 ''nic_out'' 0)]\<rparr>)"


definition firewall_build :: build where
  "firewall_build = plan_of (compile_plan 8 (\<lambda>_. []) options_default sm_empty firewall_module diag_empty)"

lemma firewall_plan:
  "compile_plan 8 (\<lambda>_. []) options_default sm_empty firewall_module diag_empty = Stage (firewall_build, diag_empty)"
  unfolding firewall_build_def by (rule plan_of_stage) code_simp

lemma firewall_build_value [code]:
  "firewall_build =
     (let port = (\<lambda>i. \<lparr>p_index = i, p_kind = Channel_Flit, p_width_bits = 512\<rparr>);
          conn = (\<lambda>a p b q. (chain_conn a b)\<lparr>sc_src_port := p, sc_dst_port := q\<rparr>);
          kernel = (\<lambda>n ty base i out. (chain_kernel n base)\<lparr>kh_element_type := ty, kh_in_ports := map port i, kh_out_ports := map port out\<rparr>);
          sig = (\<lambda>g n base. \<lparr>se_gid = g, se_kernel = n, se_axilite_base = base\<rparr>)
      in build_default\<lparr>
        b_kernels :=
          [kernel ''split'' ''Tee'' 4096 [1] [1, 2], kernel ''parser'' ''FlowTupleParser'' 4224 [1] [1, 2],
           kernel ''ht'' ''HashTable'' 4352 [1] [1], kernel ''act'' ''LookupAct'' 4480 [1, 2] [1],
           kernel ''rev'' ''Pass'' 4608 [1] [1]],
        b_stream_conns := [conn ''split'' 1 ''act'' 1, conn ''split'' 2 ''parser'' 1, conn ''parser'' 2 ''ht'' 1, conn ''ht'' 1 ''act'' 2],
        b_tor_conns := [chain_conn ''act'' ''tor_out'', chain_conn ''tor_in'' ''rev''],
        b_nic_conns := [chain_conn ''nic_in'' ''split'', chain_conn ''rev'' ''nic_out''],
        b_signal_table := [sig 0 ''split'' 4096, sig 1 ''parser'' 4224, sig 2 ''ht'' 4352, sig 3 ''act'' 4480, sig 4 ''rev'' 4608]\<rparr>)"
  by code_simp







text \<open>Flits with given priorities.\<close>

definition lane_flits :: "u64 list \<Rightarrow> flit list" where
  "lane_flits vs = map (\<lambda>v. set_lane 0 v flit_zero) vs"

subsection \<open>Compiler\<close>

text \<open>
  C1. Whenever the driver gets as far as handing a build plan to the backends, each end of each
  internal stream is a kernel of the plan with a port of that number (or one of the two group
  markers): no stream dangles, and no port is out of range. This combines the resolver's reference
  check, the arity analysis and the lowering.
\<close>

theorem plan_streams_are_wired:
  assumes "compile_plan n sh opts sm m de = Stage (b, de')"
    and "de_ok de" and "length (de_diags de') < 2 ^ 32" and "sc \<in> set (b_stream_conns b)"
  shows "stream_wired b sc"
  using assms by (rule plan_streams_wired)

theorem plan_streams_are_wired_witness:
  "stream_wired chain_build (stream_of (edge_of (simple_conn ''a'' ''b'')))"
proof (rule plan_streams_are_wired [OF chain_plan_eq [unfolded chain_plan_def]])
qed (simp_all add: chain_streams)

text \<open>
  C2. The lowering implements its specification: every edge of the graph ends up in exactly the list
  of the plan that its end points call for (or is one of the discarded edges at \<open>Idle\<close> and \<open>Drop\<close>),
  in the order of the graph, and the kernels of the plan are the user kernels in order.
\<close>

theorem lowering_keeps_every_edge:
  "length (g_edges g) =
     length (b_tor_conns (lowerToBackend g pf clk p)) + length (b_nic_conns (lowerToBackend g pf clk p))
     + length (b_stream_conns (lowerToBackend g pf clk p))
     + length (b_host_streams (lowerToBackend g pf clk p)) + length (edges_in g Discarded)
   \<and> b_stream_conns (lowerToBackend g pf clk p) = map stream_of (edges_in g Internal)
   \<and> b_tor_conns (lowerToBackend g pf clk p) = map stream_of (edges_in g To_Tor)
   \<and> b_nic_conns (lowerToBackend g pf clk p) = map stream_of (edges_in g To_Nic)
   \<and> b_kernels (lowerToBackend g pf clk p) = map lower_kernel (filter user_kernel (g_kernels g))"
  using classes_partition [of "g_edges g" g 32]
  by (simp add: lowerToBackend_plan edges_in_def streams_in_def)

text \<open>
  C3. With more fuel than there are readable files the parser returns: no loop of a production runs
  out of fuel, import cycles are broken, and no buffer lookup throws. When it fails, at least one
  error is among the diagnostics, and the diagnostics emitted before are still there.
\<close>

theorem parse_file_returns:
  assumes "finite (readable fs)" and "card (readable fs) < n"
    and "length (sm_buffers sm) + card (readable fs) < 2 ^ 32"
    and "\<And>p t. fs_read fs p = Some t \<Longrightarrow> length t < 2 ^ 32"
    and "de_ok de" and "parseFile n path (Parser fs sm de) = (r, s')"
  shows "r \<noteq> Abort \<and> (r = Fail \<longrightarrow> errors_of (de_diags (ps_diags s')) \<noteq> [])
    \<and> diag_extends de (ps_diags s')"
proof -
  have "imports_ok n (Parser fs sm de)"
    using assms(1-4) by (simp add: imports_ok_def Parser_def unread_def)
  then have "file_result (Parser fs sm de) r s'"
    using import_contract_parseFile [of n] assms(5,6) unfolding import_contract_def
    by (simp add: Parser_def)
  then show ?thesis by (simp add: file_result_def has_errors_def Parser_def)
qed

theorem parse_file_returns_witness:
  "fst (parseFile 2 ''m'' (Parser (one_file ''m'' ''a->b;'') sm_empty diag_empty)) \<noteq> Abort"
proof -
  have rd: "readable (one_file ''m'' ''a->b;'') = {''m''}"
    by (auto simp: readable_def one_file_def fs_canon_def)
  obtain r s where eq: "parseFile 2 ''m'' (Parser (one_file ''m'' ''a->b;'') sm_empty diag_empty) = (r, s)"
    by fastforce
  have "r \<noteq> Abort \<and> (r = Fail \<longrightarrow> errors_of (de_diags (ps_diags s)) \<noteq> [])
      \<and> diag_extends diag_empty (ps_diags s)"
    by (rule parse_file_returns [OF _ _ _ _ _ eq], unfold rd)
      (auto simp: sm_empty_def one_file_def split: if_splits)
  then show ?thesis by (simp add: eq)
qed



text \<open>
  C5. A graph that the resolver accepts has no dangling edge: both names of every edge are names of
  kernels, user-defined or synthesized.
\<close>

theorem resolve_no_dangling_edge:
  assumes "resolveModuleToGraph n m de = Some (True, g, de')"
    and "de_ok de" and "length (de_diags de') < 2 ^ 32" and "e \<in> set (g_edges g)"
  shows "e_src_kernel e \<in> set (kernel_names g) \<and> e_dst_kernel e \<in> set (kernel_names g)"
  using assms by (rule resolve_edges_exist)

theorem resolve_no_dangling_edge_witness:
  "\<exists>g de'. resolveModuleToGraph 2 chain_module diag_empty = Some (True, g, de')
     \<and> e_src_kernel (hd (g_edges g)) \<in> set (kernel_names g)"
proof -
  have "case resolveModuleToGraph 2 chain_module diag_empty of
      Some (ok, g, de') \<Rightarrow> ok \<and> g_edges g \<noteq> [] \<and> de_diags de' = [] | None \<Rightarrow> False"
    by code_simp
  then obtain g de' where r: "resolveModuleToGraph 2 chain_module diag_empty = Some (True, g, de')"
    and "g_edges g \<noteq> []" "de_diags de' = []"
    by (auto split: option.splits prod.splits)
  with resolve_no_dangling_edge [OF r, of "hd (g_edges g)"] show ?thesis by auto
qed



text \<open>
  C7. On a disk that can be written, the HLS emitter leaves in kernels/ the generated source of every
  kernel of the plan, as long as instance names are distinct and none is another name followed by
  _tb: the testbench of one kernel is written under that name and would replace the other's source.
\<close>

theorem kernel_sources_are_kept:
  assumes "separate_names b" and "k \<in> set (b_kernels b)" and "os_ready sys"
  shows "\<exists>files. emitHlsCpp sys b outdir (de, fs) = Some (True, de, files)
    \<and> file_text files (path_append (path_append outdir ''kernels'') (kh_name k @ ''.cpp'')) = Some (emitKernel b k)"
  using assms by (rule kernel_file_kept)

theorem kernel_sources_are_kept_witness:
  "\<exists>files. emitHlsCpp \<lparr>os_mkdir = \<lambda>_. True, os_open = \<lambda>_. True\<rparr> chain_build ''out'' (diag_empty, []) = Some (True, diag_empty, files)
    \<and> file_text files (path_append (path_append ''out'' ''kernels'') (kh_name (hd (b_kernels chain_build)) @ ''.cpp''))
      = Some (emitKernel chain_build (hd (b_kernels chain_build)))"
proof (rule kernel_sources_are_kept)
  have n: "map kh_name (b_kernels chain_build) = [''a'', ''b'']" by code_simp
  then have ne: "b_kernels chain_build \<noteq> []" by auto
  then show "hd (b_kernels chain_build) \<in> set (b_kernels chain_build)" by simp
  have names: "kh_name k \<in> {''a'', ''b''}" if "k \<in> set (b_kernels chain_build)" for k
    using that n by (metis image_eqI list.set(1) list.set(2) list.set_map)
  show "separate_names chain_build"
    unfolding separate_names_def n using names by fastforce
qed (simp add: os_ready_def)

text \<open>
  C8. In the generated main function, connection number i of the plan is stream_i and is an argument of
  the kernel at each of its ends, provided no port has two connections; a port with no connection
  gets the null stream.
\<close>

theorem emulator_connects_streams:
  assumes "ports_used_once b" and "i < length (b_stream_conns b)" and "sc = b_stream_conns b ! i"
    and "ks \<in> set (b_kernels b)" and "kh_name ks = sc_src_kernel sc" and "sc_src_port sc \<in> set (map p_index (kh_out_ports ks))"
    and "kd \<in> set (b_kernels b)" and "kh_name kd = sc_dst_kernel sc" and "sc_dst_port sc \<in> set (map p_index (kh_in_ports kd))"
  shows "''openclicknp_sw_emu::stream_'' @ nat_str i @ ''()'' \<in> set (kernel_arguments (wire_all b) ks)
    \<and> ''openclicknp_sw_emu::stream_'' @ nat_str i @ ''()'' \<in> set (kernel_arguments (wire_all b) kd)
    \<and> (\<forall>key. key \<notin> fst ` set (attachments b) \<longrightarrow> stream_for (wire_all b) key = ''openclicknp::SwStream::null()'')"
  using argument_of_port(1) [OF assms(6), of "wire_all b"] argument_of_port(2) [OF assms(9), of "wire_all b"]
    internal_stream [OF assms(1-3)] unattached by (simp add: assms(5,8))

theorem emulator_connects_streams_witness:
  "''openclicknp_sw_emu::stream_0()'' \<in> set (kernel_arguments (wire_all chain_build) (b_kernels chain_build ! 1))"
proof -
  have o: "ports_used_once chain_build" unfolding ports_used_once_def by code_simp
  have l: "length (b_kernels chain_build) = 2" by code_simp
  have n: "kh_name (b_kernels chain_build ! 0) = ''a''" "kh_name (b_kernels chain_build ! 1) = ''b''"
    "map p_index (kh_out_ports (b_kernels chain_build ! 0)) = [1]"
    "map p_index (kh_in_ports (b_kernels chain_build ! 1)) = [1]" by code_simp+
  have s: "b_stream_conns chain_build ! 0 = stream_of (edge_of (simple_conn ''a'' ''b''))"
    "0 < length (b_stream_conns chain_build)" by (simp_all add: chain_streams)
  have e: "sc_src_kernel (stream_of (edge_of (simple_conn ''a'' ''b''))) = ''a''"
    "sc_dst_kernel (stream_of (edge_of (simple_conn ''a'' ''b''))) = ''b''"
    "sc_src_port (stream_of (edge_of (simple_conn ''a'' ''b''))) = 1"
    "sc_dst_port (stream_of (edge_of (simple_conn ''a'' ''b''))) = 1" by code_simp+
  have m: "b_kernels chain_build ! 0 \<in> set (b_kernels chain_build)"
    "b_kernels chain_build ! 1 \<in> set (b_kernels chain_build)" by (simp_all add: l del: One_nat_def)
  have "''openclicknp_sw_emu::stream_'' @ nat_str 0 @ ''()''
      \<in> set (kernel_arguments (wire_all chain_build) (b_kernels chain_build ! 1))"
    by (rule emulator_connects_streams [THEN conjunct2, THEN conjunct1, OF o s(2) s(1) [symmetric] m(1) _ _ m(2)])
      (simp_all only: n e list.set insert_iff simp_thms)
  moreover have "''openclicknp_sw_emu::stream_'' @ nat_str 0 @ ''()'' = ''openclicknp_sw_emu::stream_0()''" by code_simp
  ultimately show ?thesis by (simp only:)
qed

text \<open>
  C9. Reading a body as words, punctuation, comments, literals and return statements, the rewriting turns
  each return statement into an assignment and a jump (an empty expression becomes PORT_ALL) and
  copies every other piece, in order: a word that contains "return", a comment or a literal with the
  word in it is left alone.
\<close>

theorem returns_are_rewritten:
  assumes "body_ok None ps"
  shows "rewriteReturns (body_text ps) which = concat (map (piece_out which) ps)"
  unfolding rewriteReturns_def using assms by (rule rewrite_from_pieces)

theorem returns_are_rewritten_witness:
  "rewriteReturns ''if(x)return f(a);y=returned;'' ''handler''
     = ''if(x){ _ret = (f(a)); goto _end_handler; }y=returned;''"
  using returns_are_rewritten [of "[Word ''if'', Punct (CHR ''(''), Word ''x'', Punct (CHR '')''), Ret '' f(a)'',
      Word ''y'', Punct (CHR ''=''), Word ''returned'', Punct (CHR '';'')]" "''handler''"]
  by (simp add: body_text_def no_comment_def last_char_def not_ident_def isIdentChar_def cctype_defs ret_block_def)

text \<open>
  C10. An element group that instantiates itself sends the resolver into an infinite recursion: no
  amount of fuel gives a result (the program has no check and exhausts its stack).
\<close>

theorem recursive_group_diverges:
  assumes "dt_elems t ty = None" and "dt_groups t ty = Some g"
    and "Group_Instance v \<in> set (gd_body g)" and "in_type v = ty" and "in_type d = ty"
  shows "process_instance n t d st = None"
  using assms by (rule recursive_group_never_returns)

theorem recursive_group_diverges_witness:
  "\<forall>n st. process_instance n
     \<lparr>dt_elems = (\<lambda>_. None),
      dt_groups = (\<lambda>ty. if ty = ''G''
        then Some (element_group_default\<lparr>gd_body := [Group_Instance (simple_instance ''G'' ''x'')]\<rparr>) else None)\<rparr>
     (simple_instance ''G'' ''y'') st = None"
  by (intro allI recursive_group_diverges [where ty = "''G''" and v = "simple_instance ''G'' ''x''"
      and g = "element_group_default\<lparr>gd_body := [Group_Instance (simple_instance ''G'' ''x'')]\<rparr>"])
    (simp_all add: simple_instance_def element_group_default_def)

text \<open>
  C11. The connections of a group at begin and end are moved to the name of the instance, and no kernel is
  ever created under that name: resolution of every module that instantiates such a group fails,
  unless an unrelated element has the instance's name.
\<close>

theorem group_ports_never_resolve:
  assumes "resolveModuleToGraph n m de = Some (ok, g, de')" and "collect_decls m de = (t, de1)"
    and "de_ok de" and "length (de_diags de') < 2 ^ 32"
    and "Top_Instance d \<in> set (md_stmts m)" and "dt_elems t (in_type d) = None"
    and "dt_groups t (in_type d) = Some grp" and "Group_Connection c \<in> set (gd_body grp)"
    and "ce_node_name (cd_source c) = ''begin'' \<or> ce_node_name (cd_dest c) = ''end''"
    and "in_name d \<notin> set (kernel_names g)"
  shows "\<not> ok"
  using assms by (rule group_ends_dangle)

theorem group_ports_never_resolve_witness:
  "case resolveModuleToGraph 8 group_module diag_empty of None \<Rightarrow> False | Some (ok, g, de) \<Rightarrow> \<not> ok"
proof -
  have c: "case resolveModuleToGraph 8 group_module diag_empty of None \<Rightarrow> False
      | Some (ok, g, de) \<Rightarrow> length (de_diags de) < 9 \<and> ''g'' \<notin> set (kernel_names g)" by code_simp
  obtain ok g de' where r: "resolveModuleToGraph 8 group_module diag_empty = Some (ok, g, de')"
    and l: "length (de_diags de') < 9" and n: "''g'' \<notin> set (kernel_names g)"
    using c by (auto split: option.splits)
  obtain t de1 where t: "collect_decls group_module diag_empty = (t, de1)" by fastforce
  then have "t = fst (collect_decls group_module diag_empty)" by simp
  then have tabs: "dt_elems t ''G'' = None" "dt_groups t ''G'' = Some group_pass"
    by (simp_all add: collect_decls_def group_module_def no_decls_def group_pass_def element_decl_default_def
        element_group_default_def)
  have "\<not> ok"
    by (rule group_ports_never_resolve [OF r t de_ok_empty _ _ _ _ _ _ _, where d = "simple_instance ''G'' ''g''"
        and grp = group_pass and c = "simple_conn ''begin'' ''a''"])
      (use l n tabs in \<open>simp_all add: group_module_def group_pass_def simple_instance_def simple_conn_def
        simple_end_def instance_decl_default_def\<close>)
  with r show ?thesis by simp
qed


text \<open>
  C13. The generated code indexes its arrays of flits with port numbers, which start at 1: for every
  kernel of a plan each number is within the size the emitters give the array.
\<close>

theorem generated_arrays_fit:
  assumes "k \<in> set (b_kernels (lowerToBackend g pf clk path))"
  shows "(p \<in> set (kh_in_ports k) \<longrightarrow> 1 \<le> p_index p \<and> p_index p < int (array_slots (kh_in_ports k)))
    \<and> (p \<in> set (kh_out_ports k) \<longrightarrow> 1 \<le> p_index p \<and> p_index p < int (array_slots (kh_out_ports k)))"
  using assms array_holds_ports by (auto simp: lowerToBackend_plan lower_kernel_def)

theorem generated_arrays_fit_witness:
  "1 \<le> p_index (kh_in_ports (lower_kernel (kernel_default\<lparr>k_n_in_ports := 3\<rparr>)) ! 2)
   \<and> p_index (kh_in_ports (lower_kernel (kernel_default\<lparr>k_n_in_ports := 3\<rparr>)) ! 2)
     < int (array_slots (kh_in_ports (lower_kernel (kernel_default\<lparr>k_n_in_ports := 3\<rparr>))))"
proof -
  define k where "k = lower_kernel (kernel_default\<lparr>k_n_in_ports := 3\<rparr>)"
  have k: "k \<in> set (b_kernels (lowerToBackend \<lparr>g_kernels = [kernel_default\<lparr>k_n_in_ports := 3\<rparr>], g_edges = []\<rparr> U50_XDMA 0 []))"
    by (simp add: k_def lowerToBackend_plan user_kernel_def kernel_default_def)
  have "length (kh_in_ports k) = 3" unfolding k_def by code_simp
  then have "kh_in_ports k ! 2 \<in> set (kh_in_ports k)" by simp
  with generated_arrays_fit [OF k, of "kh_in_ports k ! 2"] show ?thesis by (simp add: k_def)
qed

text \<open>
  C14. The location of an offset computed by binary search in the table of line starts is the one of the
  reference definition: one more than the newlines before it, and one more than the characters since
  the last of them.
\<close>

theorem line_and_column_of_offset:
  assumes "length s < 2 ^ 32" and "off \<le> length s"
  shows "lineColOf (SourceBuffer p s) (of_nat off) = (of_nat (line_at s off), of_nat (col_at s off))"
  using lineColOf_eq_loc_spec [OF assms] by (simp add: loc_spec_def)

theorem line_and_column_of_offset_witness: "lineColOf (SourceBuffer ''f'' [CHR ''a'', chr_nl, CHR ''b'']) 2 = (2, 1)"
  using line_and_column_of_offset [of "[CHR ''a'', chr_nl, CHR ''b'']" 2 "''f''"] by (simp add: line_at_def col_at_def)

text \<open>
  C15. The text of an element body between its braces comes back unchanged in one token, whatever nested
  braces, comments and literals (with braces in them) it holds, and lexing goes on after the closing
  brace with no diagnostic.
\<close>

theorem element_body_is_verbatim:
  assumes "cpp_body s" and "ahead lx = s @ CHR ''}'' # rest"
  shows "\<exists>t lx'. lexOpaqueBlock lx de = (t, lx', de) \<and> t_kind t = Tok_OpaqueCpp \<and> t_text t = s
     \<and> ahead lx' = rest"
  using assms by (rule lexOpaqueBlock_body)

theorem element_body_is_verbatim_witness:
  "t_text (fst (lexOpaqueBlock (lexer_on [CHR ''{'', CHR ''}'', CHR '';'', CHR ''}'']) diag_empty)) = ''{};''"
proof -
  have b: "cpp_body [CHR ''{'', CHR ''}'', CHR '';'']"
    using cpp_braces [OF cpp_end cpp_plain [OF _ cpp_end, of "CHR '';''"]] by simp
  have "\<exists>t lx'. lexOpaqueBlock (lexer_on [CHR ''{'', CHR ''}'', CHR '';'', CHR ''}'']) diag_empty = (t, lx', diag_empty)
      \<and> t_kind t = Tok_OpaqueCpp \<and> t_text t = [CHR ''{'', CHR ''}'', CHR '';''] \<and> ahead lx' = []"
    by (rule element_body_is_verbatim [OF b]) (simp add: lexer_on_ahead)
  then show ?thesis by auto
qed

subsection \<open>The running emulator\<close>

text \<open>
  C16. In the emulator of a plan whose kernels have distinct names, take kernels with the bodies of the
  element Pass, each reading the stream the one before writes. Under every interleaving of the threads,
  and of code around them that keeps to the ends of the chain, the flits taken from the last stream
  are a subsequence of the error-free flits taken from the first: nothing is invented, duplicated or
  reordered on the way.
\<close>

theorem emulator_chain_in_order:
  assumes "distinct (map kh_name (b_kernels b))" and "(net_step ins outs)\<^sup>*\<^sup>* (emulator bodies b) n"
    and "chain_between ins outs bodies pass_handler pass_signal b js u v" and "js \<noteq> []"
  shows "subseq (sh_got (nt_shared n) v) (filter (\<lambda>f. \<not> flit_error f \<and> \<not> fcs_error f) (sh_got (nt_shared n) u))"
  using pass.chain_in_order [OF assms(1-3)] assms(4) by simp

theorem emulator_chain_in_order_witness:
  "sh_got (nt_shared (run_net chain_run (emulator pass_bodies chain_build))) ''tor_stream_0'' = [flit_zero]
   \<and> subseq (sh_got (nt_shared (run_net chain_run (emulator pass_bodies chain_build))) ''tor_stream_0'')
      (filter (\<lambda>f. \<not> flit_error f \<and> \<not> fcs_error f)
        (sh_got (nt_shared (run_net chain_run (emulator pass_bodies chain_build))) ''host_stream_0''))"
proof
  show "sh_got (nt_shared (run_net chain_run (emulator pass_bodies chain_build))) ''tor_stream_0'' = [flit_zero]"
    by code_simp
  show "subseq (sh_got (nt_shared (run_net chain_run (emulator pass_bodies chain_build))) ''tor_stream_0'')
      (filter (\<lambda>f. \<not> flit_error f \<and> \<not> fcs_error f)
        (sh_got (nt_shared (run_net chain_run (emulator pass_bodies chain_build))) ''host_stream_0''))"
    by (rule emulator_chain_in_order [OF chain_names chain_run_reachable, where js = "[0, 1]"])
      (simp_all add: chain_elements chain_kernel_streams del: One_nat_def)
qed

text \<open>
  C17. As long as a Pass kernel has read no more flits than its output stream can hold, nothing is lost,
  even if nobody reads the output: what it has written is the sequence of the error-free flits it has
  read, up to two that are still in its variables.
\<close>

theorem emulator_lossless_within_capacity:
  assumes "distinct (map kh_name (b_kernels b))" and "element_at ins outs bodies pass_handler pass_signal b i"
    and "(net_step ins outs)\<^sup>*\<^sup>* (emulator bodies b) n"
    and "int (length (sh_got (nt_shared n) (in_stream b i))) \<le> stream_capacity b (out_stream b i)"
  shows "prefix (sh_sent (nt_shared n) (out_stream b i))
      (filter (\<lambda>f. \<not> flit_error f \<and> \<not> fcs_error f) (sh_got (nt_shared n) (in_stream b i)))
    \<and> length (filter (\<lambda>f. \<not> flit_error f \<and> \<not> fcs_error f) (sh_got (nt_shared n) (in_stream b i)))
      \<le> length (sh_sent (nt_shared n) (out_stream b i)) + 2"
  by (rule pass.emulator_lossless [OF assms])

theorem emulator_lossless_within_capacity_witness:
  "length (filter (\<lambda>f. \<not> flit_error f \<and> \<not> fcs_error f)
      (sh_got (nt_shared (run_net chain_run (emulator pass_bodies chain_build))) ''host_stream_0''))
     \<le> length (sh_sent (nt_shared (run_net chain_run (emulator pass_bodies chain_build))) ''stream_0'') + 2"
proof -
  have "int (length (sh_got (nt_shared (run_net chain_run (emulator pass_bodies chain_build))) (in_stream chain_build 0)))
      \<le> stream_capacity chain_build (out_stream chain_build 0)"
    unfolding chain_kernel_streams by code_simp
  from emulator_lossless_within_capacity [OF chain_names chain_elements(1) chain_run_reachable this]
  show ?thesis unfolding chain_kernel_streams by blast
qed

text \<open>
  C18. Whatever the bodies of the kernels, however the threads and the code around them are interleaved,
  in every reachable state of the emulator of a plan the flits a stream has accepted are the flits it
  has delivered followed by its contents, and the contents never exceed its capacity, which is at least
  one.
\<close>

theorem emulator_streams_in_order:
  assumes "(net_step ins outs)\<^sup>*\<^sup>* (emulator bodies b) n"
  shows "sh_sent (nt_shared n) v = sh_got (nt_shared n) v @ sw_q (sh_streams (nt_shared n) v)
    \<and> 1 \<le> stream_capacity b v \<and> int (length (sw_q (sh_streams (nt_shared n) v))) \<le> stream_capacity b v"
  using reachable_stream [OF assms, of v] by (auto simp: sw_inv_def sw_ok_def stream_history_def)

theorem emulator_streams_in_order_witness:
  "sh_sent (nt_shared (run_net chain_run (emulator pass_bodies chain_build))) ''stream_0''
     = sh_got (nt_shared (run_net chain_run (emulator pass_bodies chain_build))) ''stream_0''
       @ sw_q (sh_streams (nt_shared (run_net chain_run (emulator pass_bodies chain_build))) ''stream_0'')"
  using emulator_streams_in_order [OF chain_run_reachable] by blast

text \<open>
  C19. From every reachable state in which the stop flag is set, the function of a kernel with i inputs and
  o outputs returns within i + o + 6 of its own instructions, whatever the other threads and the code
  around them do in between: no operation of a kernel waits for another thread.
\<close>

theorem emulator_kernels_stop:
  assumes "(net_step ins outs)\<^sup>*\<^sup>* (emulator bodies b) n" and "sh_stop (nt_shared n)" and "i < length (b_kernels b)"
    and "length (kh_in_ports (b_kernels b ! i)) + length (kh_out_ports (b_kernels b ! i)) + 6
      \<le> length (filter (\<lambda>a. a = Run i) as)"
  shows "th_cont (nt_threads (run_net as n) ! i) = None"
  by (rule run_net_stops [OF assms(2) emulator_code(2) [OF assms(1,3)]
      order_trans [OF emulator_steps_left [OF assms(1,3)] assms(4)]])

theorem emulator_kernels_stop_witness:
  "th_cont (nt_threads (run_net (replicate 8 (Run 1)) (run_net (chain_run @ [Env_Stop]) (emulator pass_bodies chain_build))) ! 1) = None"
proof (rule emulator_kernels_stop [where b = chain_build])
  show "(net_step {''host_stream_0''} {''tor_stream_0''})\<^sup>*\<^sup>* (emulator pass_bodies chain_build)
      (run_net (chain_run @ [Env_Stop]) (emulator pass_bodies chain_build))"
    by (rule run_net_reachable) (simp add: chain_run_def list_all_iff)
  show "sh_stop (nt_shared (run_net (chain_run @ [Env_Stop]) (emulator pass_bodies chain_build)))"
    by (simp add: run_net_def)
  show "1 < length (b_kernels chain_build)" by code_simp
  have "length (kh_in_ports (b_kernels chain_build ! 1)) = 1 \<and> length (kh_out_ports (b_kernels chain_build ! 1)) = 1" by code_simp
  then show "length (kh_in_ports (b_kernels chain_build ! 1)) + length (kh_out_ports (b_kernels chain_build ! 1)) + 6
      \<le> length (filter (\<lambda>a. a = Run 1) (replicate 8 (Run 1)))" by simp
qed

text \<open>
  C20. The RSA element in the emulator of any plan, next to kernels with states of other types and under every
  interleaving: what it has written is a subsequence of the results of the complete operand triples it
  has read, in their order, and a prefix of them as long as its output stream could hold them all; read
  from its flits, the result of a triple is m to the e modulo n for an odd n.
\<close>

theorem rsa_kernel_computes:
  assumes "0 < L" and "L mod 4 = 0" and "\<And>x. get (put x) = x" and "distinct (map kh_name (b_kernels b))"
    and "kernel_at ins outs bodies (embed get put (rsa_handler L)) (embed get put (\<lambda>lc. lc)) b i {1, 2, 3} 1"
    and "snd (snd (bodies (b_kernels b ! i))) = put (rsa_start L)"
    and "(net_step ins outs)\<^sup>*\<^sup>* (emulator bodies b) n" and "got = (\<lambda>p. sh_got (nt_shared n) (port_in b i p))"
    and "res = rsa_results (L div 4) got (triples (L div 4) got)"
  shows "subseq (sh_sent (nt_shared n) (port_out b i 1)) res
    \<and> (int (length res) \<le> stream_capacity b (port_out b i 1) \<longrightarrow> prefix (sh_sent (nt_shared n) (port_out b i 1)) res)
    \<and> (\<forall>j < triples (L div 4) got. odd (big_val (nth_operand (L div 4) (got 3) j)) \<longrightarrow>
         big_val (limbs_of (result_flits (L div 4) (rsa_result (L div 4) got j)))
           = big_val (nth_operand (L div 4) (got 1) j) ^ big_val (nth_operand (L div 4) (got 2) j)
             mod big_val (nth_operand (L div 4) (got 3) j))"
proof (intro conjI allI impI)
  have l: "rsa_in_network L get put" using assms(1-3) by unfold_locales
  from rsa_in_network.kernel_results [OF l assms(4-7)] obtain out
    where o: "prefix out res" "subseq (sh_sent (nt_shared n) (port_out b i 1)) out"
      "int (length out) \<le> stream_capacity b (port_out b i 1) \<Longrightarrow> prefix (sh_sent (nt_shared n) (port_out b i 1)) out"
    unfolding assms(8,9) by blast
  show "subseq (sh_sent (nt_shared n) (port_out b i 1)) res"
    by (rule subseq_order.trans [OF o(2) prefix_imp_subseq [OF o(1)]])
  show "prefix (sh_sent (nt_shared n) (port_out b i 1)) res" if "int (length res) \<le> stream_capacity b (port_out b i 1)"
    using o(3) that prefix_length_le [OF o(1)] prefix_order.trans [OF _ o(1)] by simp
  have "0 < L div 4" using assms(1,2) by auto
  then show "big_val (limbs_of (result_flits (L div 4) (rsa_result (L div 4) got j)))
      = big_val (nth_operand (L div 4) (got 1) j) ^ big_val (nth_operand (L div 4) (got 2) j) mod big_val (nth_operand (L div 4) (got 3) j)"
    if "j < triples (L div 4) got" "odd (big_val (nth_operand (L div 4) (got 3) j))" for j
    using rsa_result_value [OF that(1) _ that(2)] by (simp add: result_flits_limbs)
qed

theorem rsa_kernel_computes_witness:
  "triples 4 (\<lambda>p. sh_got (nt_shared accel_net) (port_in accel_build 0 p)) = 1
   \<and> big_val (limbs_of (result_flits 4 (rsa_result 4 (\<lambda>p. sh_got (nt_shared accel_net) (port_in accel_build 0 p)) 0))) = 5"
proof -
  let ?got = "\<lambda>p. sh_got (nt_shared accel_net) (port_in accel_build 0 p)"
  from accel_got have g: "?got 1 = operand_of 3" "?got 2 = operand_of 5" "?got 3 = operand_of 7"
    unfolding accel_kernel by simp_all
  have t: "triples 4 ?got = 1" unfolding triples_def g by (simp add: operand_of_def)
  have o: "big_val (nth_operand 4 (?got 1) 0) = 3" "big_val (nth_operand 4 (?got 2) 0) = 5" "big_val (nth_operand 4 (?got 3) 0) = 7"
    unfolding g operand_of_val by simp_all
  have "0 < triples (16 div 4) ?got" "odd (big_val (nth_operand (16 div 4) (?got 3) 0))" using t o by simp_all
  with rsa_kernel_computes [OF _ _ rsa_part.simps(1) accel_kernel(1,7,2) accel_reachable refl refl] have
    "big_val (limbs_of (result_flits (16 div 4) (rsa_result (16 div 4) ?got 0)))
       = big_val (nth_operand (16 div 4) (?got 1) 0) ^ big_val (nth_operand (16 div 4) (?got 2) 0) mod big_val (nth_operand (16 div 4) (?got 3) 0)"
    by simp
  with t o show ?thesis by simp
qed

text \<open>
  C21. An operation takes the RSA element from rest to rest: L/4 calls in which a flit of each operand is
  there, then 3 bitlen e + 3 calls of one multiplication at most and L/4 calls that put one flit out
  each. The flits are those of m to the e modulo n, and no others are put out on the way.
\<close>

theorem rsa_operation_cycle:
  assumes "at_rest L lc" and "0 < L" and "L mod 4 = 0"
    and "length ms = L div 4" and "length es = L div 4" and "length ns = L div 4" and "odd (big_val (limbs_of ns))"
    and "calls = operand_calls ms es ns @ replicate (3 * bitlen (limbs_of es) + 3 + L div 4) []"
  shows "big_val (limbs_of (fst (rsa_calls L calls lc)))
      = big_val (limbs_of ms) ^ big_val (limbs_of es) mod big_val (limbs_of ns)
    \<and> length (fst (rsa_calls L calls lc)) = L div 4 \<and> at_rest L (snd (rsa_calls L calls lc))"
proof -
  let ?got = "\<lambda>p::nat. if p = 1 then ms else if p = 2 then es else ns"
  have F: "0 < L div 4" using assms(2,3) by auto
  note s = rsa_serves [OF assms(1-6) refl, folded assms(8)]
  have whole: "nth_operand (L div 4) fs 0 = limbs_of fs" if "length fs = L div 4" for fs
    using that by (simp add: nth_operand_def)
  have res: "rsa_result (L div 4) ?got 0 = modexp (limbs_of ms) (limbs_of es) (limbs_of ns)"
    by (simp add: rsa_result_def whole assms(4-6))
  have "0 < triples (L div 4) ?got" using F by (simp add: triples_def assms(4-6))
  from rsa_result_value [OF this F] have
    "length (modexp (limbs_of ms) (limbs_of es) (limbs_of ns)) = 4 * (L div 4)"
    "big_val (modexp (limbs_of ms) (limbs_of es) (limbs_of ns)) = big_val (limbs_of ms) ^ big_val (limbs_of es) mod big_val (limbs_of ns)"
    using assms(7) unfolding res by (simp_all add: whole assms(4-6))
  with s show ?thesis by (simp add: result_flits_limbs) (simp add: result_flits_def)
qed

theorem rsa_operation_cycle_witness:
  "let lc = kernel_locals (b_kernels accel_build ! 0) (rsa_start 16);
       calls = operand_calls (operand_of 3) (operand_of 5) (operand_of 7) @ replicate (3 * bitlen (limbs_of (operand_of 5)) + 3 + 4) []
   in big_val (limbs_of (fst (rsa_calls 16 calls lc))) = 5 \<and> at_rest 16 (snd (rsa_calls 16 calls lc))"
proof -
  let ?lc = "kernel_locals (b_kernels accel_build ! 0) (rsa_start 16)"
  have "length (kh_in_ports (b_kernels accel_build ! 0)) = 3" by code_simp
  then have rest: "at_rest 16 ?lc" by (intro at_rest_start) simp_all
  have v: "big_val (limbs_of (operand_of x)) = unat x" for x
    using operand_of_val [of x] by (simp add: nth_operand_def operand_of_def)
  have len: "length (operand_of x) = 16 div 4" for x by (simp add: operand_of_def)
  have "odd (big_val (limbs_of (operand_of 7)))" by (simp add: v)
  from rsa_operation_cycle [OF rest _ _ len len len this refl, of 3 5] show ?thesis by (simp add: v Let_def)
qed



text \<open>
  C23. The heap of MinHeap is a priority queue: whatever flits, at most 64, are inserted into an empty one,
  removing the root as often gives the same flits in the order of their first lane.
\<close>

theorem heap_sorts_its_flits:
  assumes "length fs \<le> HEAP_SIZE"
  shows "mset (heap_drain (length fs) (fold heap_insert fs heap_start)) = mset fs
    \<and> sorted (map (get_lane 0) (heap_drain (length fs) (fold heap_insert fs heap_start)))"
  using heap_queue.fill_drain [OF heap_start_ok assms] by (simp add: heap_drain_is_drain)

theorem heap_sorts_its_flits_witness:
  "map (get_lane 0) (heap_drain 3 (fold heap_insert (lane_flits [7, 2, 5]) heap_start)) = [2, 5, 7]"
proof -
  let ?out = "heap_drain 3 (fold heap_insert (lane_flits [7, 2, 5]) heap_start)"
  have lanes: "map (get_lane 0) (lane_flits [7, 2, 5]) = [7, 2, 5]" by code_simp
  from heap_sorts_its_flits [of "lane_flits [7, 2, 5]"]
  have out: "mset ?out = mset (lane_flits [7, 2, 5])" "sorted (map (get_lane 0) ?out)"
    by (simp_all add: lane_flits_def HEAP_SIZE_def eval_nat_numeral del: heap_drain.simps)
  then have "mset (map (get_lane 0) ?out) = mset [7, 2, 5]" by (metis mset_map lanes)
  with properties_for_sort [OF this out(2)] show ?thesis by simp
qed

text \<open>
  C24. MinHeap, documented as a priority queue of 64 flits, never gives a flit before one that came earlier:
  each call of its handler takes one flit and gives the minimum of a heap that was empty. Its output is
  a subsequence of its input whatever the priorities.
\<close>

theorem min_heap_keeps_order:
  assumes "distinct (map kh_name (b_kernels b))" and "element_at ins outs bodies min_heap_handler (\<lambda>lc. lc) b i"
    and "(net_step ins outs)\<^sup>*\<^sup>* (emulator bodies b) n" and "snd (snd (bodies (b_kernels b ! i))) = heap_start"
  shows "subseq (sh_sent (nt_shared n) (out_stream b i)) (sh_got (nt_shared n) (in_stream b i))"
  by (rule min_heap_in_order [OF assms])

theorem min_heap_keeps_order_witness:
  "let n = run_net (two_writes (urgent 5) (urgent 1) 20) (emulator heap_bodies chain_build)
   in sh_sent (nt_shared n) ''stream_0'' = [urgent 5, urgent 1]
      \<and> subseq (sh_sent (nt_shared n) ''stream_0'') (sh_got (nt_shared n) ''host_stream_0'')"
proof -
  let ?n = "run_net (two_writes (urgent 5) (urgent 1) 20) (emulator heap_bodies chain_build)"
  have r: "(net_step {''host_stream_0''} {''tor_stream_0''})\<^sup>*\<^sup>* (emulator heap_bodies chain_build) ?n"
    by (rule run_net_reachable) (simp add: two_writes_def list_all_iff)
  have "sh_sent (nt_shared ?n) ''stream_0'' = [urgent 5, urgent 1]" by code_simp
  moreover have "subseq (sh_sent (nt_shared ?n) (out_stream chain_build 0)) (sh_got (nt_shared ?n) (in_stream chain_build 0))"
    by (rule min_heap_keeps_order [OF chain_names chain_element_with r]) (simp_all add: heap_bodies_def)
  ultimately show ?thesis by (simp add: chain_kernel_streams Let_def)
qed



text \<open>
  C26. A flit that waits at one of the ports 1 to 8 of a Mux leaves on its output, as it came in, within eight
  rounds of the handler, whatever arrived on the other ports before: the round robin starves no port.
\<close>

theorem mux_serves_within_eight:
  assumes "1 \<le> p" and "p \<le> 8" and "po_input_port (lc_ports lc) AND PORT_BIT p \<noteq> 0"
    and "2 \<le> length (po_output_data (lc_ports lc))"
  shows "\<exists>k<8. pending_out (lc_ports ((mux_round ^^ Suc k) lc)) = [po_input_data (lc_ports lc) ! p]
    \<and> po_input_port (lc_ports ((mux_round ^^ Suc k) lc)) AND PORT_BIT p = 0"
proof -
  define k where "k = (p + 7 - mux_turn lc) mod 8"
  have t: "mux_turn lc < 8" by (simp add: mux_turn_def)
  have "mux_turn lc + (p + 7 - mux_turn lc) = p + 7" using t assms(1) by simp
  then have "(mux_turn lc + k) mod 8 = (p + 7) mod 8" unfolding k_def by (metis mod_add_right_eq)
  also have "(p + 7) mod 8 = p - 1" using assms(1,2) by (simp add: le_mod_geq)
  finally have turn: "(mux_turn lc + k) mod 8 + 1 = p" using assms(1) by simp
  have "k < 8" by (simp add: k_def)
  with mux_serves [OF turn this assms(3,4)] show ?thesis by blast
qed

theorem mux_serves_within_eight_witness:
  "\<exists>k<8. pending_out (lc_ports ((mux_round ^^ Suc k) mux_locals)) = [flit_zero]
    \<and> po_input_port (lc_ports ((mux_round ^^ Suc k) mux_locals)) AND PORT_BIT 2 = 0"
proof -
  have "po_input_port (lc_ports mux_locals) AND PORT_BIT 2 \<noteq> 0" by code_simp
  from mux_serves_within_eight [OF _ _ this] show ?thesis
    by (simp add: mux_locals_def locals_with_def ports_with_def)
qed



subsection \<open>Arithmetic and RSA\<close>

text \<open>
  C28. For an odd modulus, operands of its length and one of them below it, the interleaved Montgomery
  product is below n and R times it is congruent to the product: neither the carries of the inner
  loops nor the two extra limbs of the accumulator ever lose a bit, and one conditional subtraction
  is enough.
\<close>

theorem mont_mul_reduces:
  assumes "odd_modulus n" and "length a = length n" and "length b = length n" and "big_val b < big_val n"
  shows "big_val (mont_mul a b n (compute_n_inv n)) < big_val n
    \<and> (big_val (mont_mul a b n (compute_n_inv n)) * radix n) mod big_val n = (big_val a * big_val b) mod big_val n"
  using mont_times_result [OF assms(1-3) disjI1 [OF assms(4)]] by (simp add: mont_times_def)

theorem mont_mul_reduces_witness:
  "big_val (mont_mul [5] [3] [7] (compute_n_inv [7])) < 7
    \<and> (big_val (mont_mul [5] [3] [7] (compute_n_inv [7])) * limb_base) mod 7 = 1"
  using mont_mul_reduces [of "[7]" "[5]" "[3]"] by (simp add: odd_modulus_def)

text \<open>
  C29. The constant-time ladder and the square-and-multiply loop compute the same limbs, and those limbs
  are m to the power e modulo n, for every odd modulus, every base (reduced or not) and every
  exponent of that width, zero included.
\<close>

theorem modexp_is_power:
  assumes "odd_modulus n" and "length m = length n" and "length e = length n"
  shows "big_val (modexp_consttime m e n) = big_val m ^ big_val e mod big_val n
    \<and> modexp m e n = modexp_consttime m e n"
proof -
  note p = modexp_val [OF assms(1,2), of e] and c = modexp_consttime_val [OF assms]
  have "modexp m e n = modexp_consttime m e n"
    using big_val_inject [of "modexp m e n" "modexp_consttime m e n"] p c by simp
  with c show ?thesis by simp
qed

theorem modexp_is_power_witness:
  "big_val (modexp_consttime [3] [5] [7]) = 5 \<and> modexp [3] [5] [7] = modexp_consttime [3] [5] [7]"
  using modexp_is_power [of "[7]" "[3]" "[5]"] by (simp add: odd_modulus_def)

text \<open>
  C30. For prime factors with q at most p, exponents reduced modulo p - 1 and q - 1 (and not zero) and
  qInv the inverse of q modulo p, the CRT routine returns c to the power d modulo p q. The proof
  covers the bit-serial reduction, both ladders, the signed difference, the truncated product and
  the final addition.
\<close>

theorem rsa_crt_is_rsa:
  assumes "crt_key c p q dp dq qInv" and "big_val q \<le> big_val p"
    and "prime_val (big_val p)" and "prime_val (big_val q)"
    and "big_val dp = d mod (big_val p - 1)" and "0 < big_val dp"
    and "big_val dq = d mod (big_val q - 1)" and "0 < big_val dq"
  shows "big_val (rsa_crt_decrypt c p q dp dq qInv) = big_val c ^ d mod (big_val p * big_val q)"
  using assms by (rule rsa_crt_power)

theorem rsa_crt_is_rsa_witness:
  "big_val (rsa_crt_decrypt [2, 0] [11] [7] [3] [1] [8]) = 2 ^ 13 mod 77"
  using rsa_crt_is_rsa [of "[2, 0]" "[11]" "[7]" "[3]" "[1]" "[8]" 13]
  by (simp add: crt_key_def odd_modulus_def prime_val_def atLeastLessThan_nat_numeral dvd_eq_mod_eq_0)

subsection \<open>AES and SHA-1\<close>

text \<open>
  C31. Under every array of round keys the block decryption inverts the block encryption and conversely:
  the tables are inverse permutations, the two matrices inverse over the field, and the rounds of
  the inverse cipher undo the forward rounds in order.
\<close>

theorem aes_decrypts:
  assumes "length s = 16"
  shows "aes128_decrypt_block rk (aes128_encrypt_block rk s) = s
    \<and> aes128_encrypt_block rk (aes128_decrypt_block rk s) = s"
  using decrypt_encrypt [OF assms] encrypt_decrypt [OF assms] by simp

theorem aes_decrypts_witness:
  "aes128_decrypt_block (replicate 176 7) (aes128_encrypt_block (replicate 176 7) (replicate 16 1)) = replicate 16 1"
  using aes_decrypts [of "replicate 16 1" "replicate 176 7"] by simp

text \<open>
  C32. The buffered implementation returns on every message and refines the definition of the digest: the
  compression function chained over the blocks of the message with 0x80, zeros and the bit length
  appended, which is a whole number of blocks. None of the loops that depend on the buffer level
  runs forever.
\<close>

theorem sha1_is_chained_compression:
  assumes "length buf = 64"
  shows "sha1_hash buf m = Some (sha1_spec m) \<and> length (sha1_spec m) = 20 \<and> length (padded m) mod 64 = 0"
  using sha1_hash_spec [OF assms] length_sha1_spec length_padded by simp

theorem sha1_is_chained_compression_witness:
  "sha1_hash (replicate 64 0) [0x61, 0x62, 0x63] = Some (sha1_spec [0x61, 0x62, 0x63])"
  using sha1_is_chained_compression [of "replicate 64 0" "[0x61, 0x62, 0x63]"] by simp

subsection \<open>Flits and files\<close>

text \<open>
  C33. Cutting a packet into 32-byte flits and reassembling them gives the bytes back, the empty packet
  and a last flit of any length included.
\<close>

theorem packet_survives_flits:
  "flitsToPacket (packetToFlits p) = pk_bytes p"
  by (rule flits_roundtrip)

text \<open>
  C34. Every flit of a packet has 64 bytes, the start flag is set on the first flit only and the end flag
  on the last only.
\<close>

theorem flit_train_is_framed:
  assumes "k < length (packetToFlits p)"
  shows "sop (packetToFlits p ! k) = (k = 0) \<and> eop (packetToFlits p ! k) = (k + 1 = length (packetToFlits p))
    \<and> flit_ok (packetToFlits p ! k)"
  using assms flits_from_flags [of 0 "pk_bytes p" k] by (auto simp: packetToFlits_def split: if_splits)

theorem flit_train_is_framed_witness:
  "sop (packetToFlits \<lparr>pk_ts_sec = 0, pk_ts_usec = 0, pk_bytes = replicate 33 1\<rparr> ! 0)
   \<and> \<not> eop (packetToFlits \<lparr>pk_ts_sec = 0, pk_ts_usec = 0, pk_bytes = replicate 33 1\<rparr> ! 0)"
proof -
  have "length (packetToFlits \<lparr>pk_ts_sec = 0, pk_ts_usec = 0, pk_bytes = replicate 33 1\<rparr>) = 2"
    by (simp add: packetToFlits_def flits_from.simps OPENCLICKNP_PAYLOAD_BYTES_def)
  with flit_train_is_framed [of 0 "\<lparr>pk_ts_sec = 0, pk_ts_usec = 0, pk_bytes = replicate 33 1\<rparr>"] show ?thesis by simp
qed

text \<open>
  C35. A file that the writer produced from packets of at most 65535 bytes is opened by the reader, which
  returns exactly these packets, time stamps included, and then stops.
\<close>

theorem pcap_file_roundtrip:
  assumes "\<forall>p\<in>set ps. length (pk_bytes p) \<le> 65535" and "length ps \<le> n"
  shows "fst (reader_open (Some (fold writer_write ps (writer_open lt))))
    \<and> read_packets n (snd (reader_open (Some (fold writer_write ps (writer_open lt))))) = ps"
  using assms by (rule pcap_roundtrip)

theorem pcap_file_roundtrip_witness:
  "read_packets 2 (snd (reader_open (Some (fold writer_write [\<lparr>pk_ts_sec = 1, pk_ts_usec = 2, pk_bytes = [3, 4]\<rparr>] (writer_open 1)))))
     = [\<lparr>pk_ts_sec = 1, pk_ts_usec = 2, pk_bytes = [3, 4]\<rparr>]"
  using pcap_file_roundtrip [of "[\<lparr>pk_ts_sec = 1, pk_ts_usec = 2, pk_bytes = [3, 4]\<rparr>]" 2 1] by simp

subsection \<open>Host runtime and programs\<close>

text \<open>
  C36. Pushing an operand of 16 limbs as four flits (lanes, start and end marks, slot number stamped by the
  bridge) and collecting four flits from the same slot gives the operand back.
\<close>

theorem operand_survives_slot:
  assumes "bridge_ok p" and "pf_transport p = XDMA" and "unat slot < 64" and "pf_items slot p = []" and "length x = 16"
  shows "fst (rsa_collect slot RSA_FLITS [] (rsa_push slot x p)) = Some x"
  by (rule operand_roundtrip [OF assms])

theorem operand_survives_slot_witness:
  "fst (rsa_collect 32 RSA_FLITS [] (rsa_push 32 (from_hex 16 ''10001'') (open_platform XDMA))) = Some (from_hex 16 ''10001'')"
proof (rule operand_survives_slot)
  note p = open_platform_ok [where t = XDMA]
  show "bridge_ok (open_platform XDMA)" "pf_transport (open_platform XDMA) = XDMA" "pf_items 32 (open_platform XDMA) = []"
    using p by simp_all
  show "length (from_hex 16 ''10001'') = 16" by code_simp
qed simp

text \<open>
  C37. Over the slot bridges of this repository, with or without XRT and whether or not the platform opens, the
  RSA host program never receives a flit on slot 35: a bridge gives a slot back only what was sent to
  that slot. The run ends with the timeout line and status 1.
\<close>

theorem rsa_host_never_receives:
  "rsa_host x r args m n want = (1, ''RSA-1024 round-trip: timed out waiting for ciphertext flit'')"
  by (rule rsa_host_times_out)

subsection \<open>OpenSSL engine\<close>

text \<open>An ideal libcrypto: the documented functions on numbers.\<close>

fun to_be :: "nat \<Rightarrow> nat \<Rightarrow> u8 list" where
  "to_be 0 x = []"
| "to_be (Suc n) x = of_nat (x div 256 ^ n mod 256) # to_be n (x mod 256 ^ n)"

definition ideal_bn :: bn_lib where
  "ideal_bn =
     \<lparr>BN_num_bits = (\<lambda>x. int x), BN_num_bytes = (\<lambda>x. 0),
      BN_bn2binpad = (\<lambda>x n. if x < 256 ^ n then Some (to_be n x) else None),
      BN_bin2bn = (\<lambda>bs. Some (be_val bs)), BN_mod_exp_mont = (\<lambda>a p m. Some (a ^ p mod m)),
      BN_mod_exp_mont_consttime = (\<lambda>a p m. Some (a ^ p mod m))\<rparr>"

lemma be_val_to_be: "x < 256 ^ n \<Longrightarrow> length (to_be n x) = n \<and> be_val (to_be n x) = x"
proof (induction n arbitrary: x)
  case (Suc n)
  have q: "x div 256 ^ n < 256" using Suc.prems by (simp add: less_mult_imp_div_less mult.commute)
  then have "unat (of_nat (x div 256 ^ n mod 256) :: u8) = x div 256 ^ n"
    by (simp add: unsigned_of_nat take_bit_nat_eq_self)
  with Suc.IH [of "x mod 256 ^ n"] show ?case using div_mult_mod_eq [of x "256 ^ n"] by simp
qed simp

lemma ideal_bn_documented: "bn_documented ideal_bn"
  using be_val_to_be by (auto simp: bn_documented_def ideal_bn_def less_exp split: if_splits)

text \<open>
  C38. With libcrypto behaving as documented, the hook returns the same number as the routine it replaces
  for every odd modulus, whether it takes the constant-time path, the fast path or falls back because
  an operand does not fit.
\<close>

theorem engine_modexp_is_libcrypto:
  assumes "bn_documented L" and "odd m"
  shows "fst (ocnp_bn_mod_exp L a p m c) = BN_mod_exp_mont L a (bn_val p) m
    \<and> fst (ocnp_bn_mod_exp L a p m c) = Some (a ^ bn_val p mod m)"
  using bn_mod_exp_result [OF assms] assms by (simp add: bn_documented_def)

theorem engine_modexp_is_libcrypto_witness:
  "fst (ocnp_bn_mod_exp ideal_bn 3 \<lparr>bn_val = 5, bn_consttime = True\<rparr> 7 counters_init) = Some 5"
  using conjunct2 [OF engine_modexp_is_libcrypto [OF ideal_bn_documented, of 7 3 "\<lparr>bn_val = 5, bn_consttime = True\<rparr>" counters_init]]
  by simp

text \<open>
  C39. For a key whose parts fit each other (q at most p), or without the parts for the remainder theorem,
  the private hook returns the input to the power d modulo n: on the CRT path and on every path that
  falls back.
\<close>

theorem engine_rsa_is_private_operation:
  assumes "bn_documented L" and "rsa_key_ok k"
  shows "fst (ocnp_rsa_mod_exp L inp k c) = Some (inp ^ rk_d k mod rk_n k)"
  using assms by (rule rsa_mod_exp_result)

theorem engine_rsa_is_private_operation_witness:
  "fst (ocnp_rsa_mod_exp ideal_bn 2
     \<lparr>rk_n = 77, rk_d = 13, rk_p = Some 11, rk_q = Some 7, rk_dp = Some 3, rk_dq = Some 1, rk_qi = Some 8\<rparr> counters_init)
     = Some (2 ^ 13 mod 77)"
  using engine_rsa_is_private_operation [OF ideal_bn_documented,
    of "\<lparr>rk_n = 77, rk_d = 13, rk_p = Some 11, rk_q = Some 7, rk_dp = Some 3, rk_dq = Some 1, rk_qi = Some 8\<rparr>" 2 counters_init]
  by (simp add: rsa_key_ok_def prime_val_def atLeastLessThan_nat_numeral dvd_eq_mod_eq_0)



end
